(* ===== verification/Prelude.thy ===== *)
theory Prelude
  imports Main "HOL-Library.Word" "HOL-Library.Monad_Syntax"
begin

text \<open>
  Shared vocabulary of the development: the C integer types as machine words, addresses and
  the \<^verbatim>\<open>NULL\<close> pointer, the errno values the sources return, byte buffers with bounds-checked
  reads and writes, and the list and option lemmas that the component theories use.

  Conventions. A C pointer is an \<open>addr option\<close> (or the option of the object it points to);
  \<open>None\<close> is \<^verbatim>\<open>NULL\<close>. An operation whose result is an option returns \<open>None\<close> exactly where the C
  program would have undefined behaviour (a \<^verbatim>\<open>NULL\<close> or dangling pointer, an access outside of a
  buffer), so a theorem of the form \<open>\<exists>r. f x = Some r\<close> is a memory safety statement.
  A return code of the sources is an \<open>int\<close>, with the values of errno on Linux.
\<close>

unbundle bit_operations_syntax

named_theorems codec_simps "the reads and writes of the wire format"

section \<open>C types and return codes\<close>

type_synonym u8 = "8 word"
type_synonym u16 = "16 word"
type_synonym u32 = "32 word"
type_synonym u64 = "64 word"

text \<open>A \<^verbatim>\<open>float\<close> that is only stored, copied or compared with zero is its IEEE 754 bit pattern.\<close>

type_synonym f32 = "32 word"

type_synonym addr = nat

abbreviation ENOMEM :: int where "ENOMEM \<equiv> 12"
abbreviation EAGAIN :: int where "EAGAIN \<equiv> 11"
abbreviation EINVAL :: int where "EINVAL \<equiv> 22"

section \<open>Options and lists\<close>

definition last_opt :: "'a list \<Rightarrow> 'a option" where
  "last_opt xs = (if xs = [] then None else Some (last xs))"

definition opt_list :: "'a option \<Rightarrow> 'a list" where
  "opt_list p = (case p of None \<Rightarrow> [] | Some a \<Rightarrow> [a])"

lemma last_opt_simps [simp]:
  "last_opt [] = None"
  "last_opt [x] = Some x"
  "last_opt (xs @ [x]) = Some x"
  "(last_opt xs = None) = (xs = [])"
  "(None = last_opt xs) = (xs = [])"
  by (auto simp: last_opt_def)

lemma last_opt_Cons: "last_opt (x # xs) = (if xs = [] then Some x else last_opt xs)"
  by (simp add: last_opt_def)

lemma last_opt_append: "last_opt (xs @ ys) = (if ys = [] then last_opt xs else last_opt ys)"
  by (simp add: last_opt_def)

lemma last_opt_Some: "last_opt xs = Some x \<longleftrightarrow> xs \<noteq> [] \<and> last xs = x"
  by (auto simp: last_opt_def)

lemma opt_list_simps [simp]:
  "opt_list None = []"
  "opt_list (Some a) = [a]"
  by (simp_all add: opt_list_def)

lemma bind_eq_Some: "Option.bind m f = Some y \<longleftrightarrow> (\<exists>x. m = Some x \<and> f x = Some y)"
  by (cases m) auto

section \<open>Byte buffers\<close>

text \<open>
  \<^verbatim>\<open>memcpy(dst + off, src, n)\<close> on buffers of known size; \<open>None\<close> when either side is too short.
\<close>

definition memcpy :: "'a list \<Rightarrow> nat \<Rightarrow> 'a list \<Rightarrow> nat \<Rightarrow> 'a list option" where
  "memcpy dst off src n =
     (if off + n \<le> length dst \<and> n \<le> length src
      then Some (take off dst @ take n src @ drop (off + n) dst) else None)"

lemma memcpy_length: "memcpy dst off src n = Some r \<Longrightarrow> length r = length dst"
  by (auto simp: memcpy_def split: if_splits)

lemma memcpy_Some_iff:
  "(\<exists>r. memcpy dst off src n = Some r) \<longleftrightarrow> off + n \<le> length dst \<and> n \<le> length src"
  by (auto simp: memcpy_def)

lemma memcpy_0: "n \<le> length dst \<Longrightarrow> n \<le> length src \<Longrightarrow>
  memcpy dst 0 src n = Some (take n src @ drop n dst)"
  by (simp add: memcpy_def)

text \<open>\<^verbatim>\<open>p[i]\<close> as a read and as the target of an assignment.\<close>

definition get_at :: "'a list \<Rightarrow> nat \<Rightarrow> 'a option" where
  "get_at p i = (if i < length p then Some (p ! i) else None)"

definition set_at :: "'a list \<Rightarrow> nat \<Rightarrow> 'a \<Rightarrow> 'a list option" where
  "set_at p i v = (if i < length p then Some (p[i := v]) else None)"

lemma get_at_append [codec_simps]: "length ws = n \<Longrightarrow> get_at (ws @ x # r) n = Some x"
  by (auto simp: get_at_def)

lemma set_at_prefix [codec_simps]:
  "length ws = n \<Longrightarrow> n < length buf \<Longrightarrow> set_at (ws @ drop n buf) n v = Some ((ws @ [v]) @ drop (Suc n) buf)"
  by (auto simp: set_at_def list_update_append Cons_nth_drop_Suc [symmetric])

end
