(* ===== verification/Settings.thy ===== *)
theory Settings
  imports Prelude
begin

text \<open>
  The settings the parts of the program exchange: \<^verbatim>\<open>sdr_channel_config\<close> of
  \<^verbatim>\<open>src/sdr/sdr_device.h\<close>, the settings of the modems of \<^verbatim>\<open>src/dsp/gfsk_modem.h\<close>,
  \<^verbatim>\<open>src/dsp/bpsk_modem.h\<close> and \<^verbatim>\<open>src/dsp/psk_pm_modem.h\<close>, their union \<^verbatim>\<open>sdr_modem_settings\<close> of
  \<^verbatim>\<open>src/dsp/sdr_modem.h\<close> and \<^verbatim>\<open>comm_settings\<close> of \<^verbatim>\<open>src/api.h\<close>. Floats are bit patterns here: this
  part of the program only moves them around.
\<close>

section \<open>Enumerations\<close>

abbreviation (input) MODEM_TYPE_INVALID :: u8 where "MODEM_TYPE_INVALID \<equiv> 0"
abbreviation (input) MODEM_TYPE_GFSK :: u8 where "MODEM_TYPE_GFSK \<equiv> 1"
abbreviation (input) MODEM_TYPE_BPSK :: u8 where "MODEM_TYPE_BPSK \<equiv> 2"
abbreviation (input) MODEM_TYPE_DPSK :: u8 where "MODEM_TYPE_DPSK \<equiv> 3"
abbreviation (input) MODEM_TYPE_SDPSK :: u8 where "MODEM_TYPE_SDPSK \<equiv> 4"
abbreviation (input) MODEM_TYPE_PSK_PM :: u8 where "MODEM_TYPE_PSK_PM \<equiv> 5"

abbreviation (input) BPSK :: u8 where "BPSK \<equiv> 0"
abbreviation (input) SDPSK :: u8 where "SDPSK \<equiv> 1"
abbreviation (input) DPSK :: u8 where "DPSK \<equiv> 2"

section \<open>Structures\<close>

record sdr_channel_config =
  frequency :: u64
  sample_rate :: u64
  gain :: f32

record gfsk_modem_settings =
  gfsk_sample_rate :: u64
  gfsk_baud_rate :: u32
  gfsk_deviation :: "64 word"
  gfsk_bandwidth :: u32
  gfsk_bt :: f32
  gfsk_use_dc_block :: u8
  gfsk_syncword :: u64
  gfsk_syncword_bits :: u32

record bpsk_modem_settings =
  psk_sample_rate :: u64
  psk_baud_rate :: u32
  psk_bandwidth :: u32
  psk_rrc_beta :: f32
  psk_rrc_delay :: u8
  psk_costas_bandwidth :: f32
  psk_symsync_filter_bank_size :: u8
  psk_type :: u8

record psk_pm_modem_settings =
  pm_sample_rate :: u64
  pm_subcarrier_frequency :: u32
  pm_carrier_pll_bandwidth :: f32
  pm_baud_rate :: u32
  pm_subcarrier_bandwidth :: u32
  pm_rrc_beta :: f32
  pm_rrc_delay :: u8
  pm_costas_bandwidth :: f32
  pm_symsync_filter_bank_size :: u8
  pm_modulation_index :: f32

text \<open>
  The union of \<^verbatim>\<open>sdr_modem_settings\<close>: the member that was stored last. Reading another member
  reinterprets its bytes, which the model does not follow and reports as undefined.
\<close>

datatype modem_union = Gfsk gfsk_modem_settings | Psk bpsk_modem_settings | Psk_pm psk_pm_modem_settings

record sdr_modem_settings =
  modem_type :: u8
  modem :: modem_union

record comm_settings =
  sdr_settings :: sdr_channel_config
  modem_settings :: sdr_modem_settings

fun get_gfsk :: "modem_union \<Rightarrow> gfsk_modem_settings option" where
  "get_gfsk (Gfsk s) = Some s" | "get_gfsk _ = None"

fun get_psk :: "modem_union \<Rightarrow> bpsk_modem_settings option" where
  "get_psk (Psk s) = Some s" | "get_psk _ = None"

fun get_psk_pm :: "modem_union \<Rightarrow> psk_pm_modem_settings option" where
  "get_psk_pm (Psk_pm s) = Some s" | "get_psk_pm _ = None"

text \<open>The PSK flavour that belongs to a modem type.\<close>

definition psk_type_of :: "u8 \<Rightarrow> u8" where
  "psk_type_of t = (if t = MODEM_TYPE_BPSK then BPSK else if t = MODEM_TYPE_DPSK then DPSK else SDPSK)"

text \<open>
  Consistent settings, as every part of the program builds them: the stored member is the one the
  modem type names, and the type inside the PSK settings matches (as \<^verbatim>\<open>sdr_modem.h\<close> demands).
\<close>

definition modem_settings_ok :: "sdr_modem_settings \<Rightarrow> bool" where
  "modem_settings_ok s = (case modem s of
     Gfsk _ \<Rightarrow> modem_type s = MODEM_TYPE_GFSK
   | Psk p \<Rightarrow> modem_type s \<in> {MODEM_TYPE_BPSK, MODEM_TYPE_DPSK, MODEM_TYPE_SDPSK} \<and>
       psk_type p = psk_type_of (modem_type s)
   | Psk_pm _ \<Rightarrow> modem_type s = MODEM_TYPE_PSK_PM)"

end
