(* ===== verification/SdrDevice.thy ===== *)
theory SdrDevice
  imports Settings
begin

text \<open>
  The two interfaces the workers are written against. \<^verbatim>\<open>sdr_device\<close> (\<^verbatim>\<open>src/sdr/sdr_device.h\<close>) is a
  structure of function pointers; here a record of functions on the state \<open>'d\<close> of the plugin,
  where \<open>None\<close> is a \<^verbatim>\<open>NULL\<close> pointer. The modems of \<^verbatim>\<open>src/dsp/sdr_modem.h\<close> are handles: a heap
  says which of them are alive, so that using or destroying a dead one is undefined and a handle
  that is never destroyed is a leak. What a modem computes is a parameter. Samples have type \<open>'s\<close>.
\<close>

record ('s, 'd) sdr_device =
  plugin :: 'd
  sdr_set_rx_callback :: "('d \<Rightarrow> 'd) option"
  sdr_process_rx :: "('d \<Rightarrow> int \<times> 's list \<times> 'd) option"
  sdr_process_tx :: "('s list \<Rightarrow> 'd \<Rightarrow> int \<times> 'd) option"
  sdr_flush_tx :: "('d \<Rightarrow> 'd) option"
  set_rx_parameters :: "sdr_channel_config \<Rightarrow> 'd \<Rightarrow> int \<times> 'd"
  set_tx_parameters :: "sdr_channel_config \<Rightarrow> 'd \<Rightarrow> int \<times> 'd"
  start_rx :: "'d \<Rightarrow> 'd"
  stop_rx :: "'d \<Rightarrow> 'd"

text \<open>What the modems compute. A missing output is a \<^verbatim>\<open>NULL\<close> pointer.\<close>

record ('s, 'm) modem_ops =
  m_create :: "sdr_modem_settings \<Rightarrow> u32 \<Rightarrow> int \<times> 'm"
  m_modulate :: "u8 list \<Rightarrow> 'm \<Rightarrow> 's list option \<times> 'm"
  m_flush :: "'m \<Rightarrow> 's list option \<times> 'm"
  m_demodulate :: "'s list \<Rightarrow> 'm \<Rightarrow> u8 list option \<times> 'm"

record 'm modem_heap =
  live :: "addr \<rightharpoonup> 'm"
  next_modem :: addr

definition heap_ok :: "'m modem_heap \<Rightarrow> bool" where
  "heap_ok h \<longleftrightarrow> (\<forall>a m. live h a = Some m \<longrightarrow> a < next_modem h)"

definition modem_create ::
  "('s, 'm) modem_ops \<Rightarrow> sdr_modem_settings \<Rightarrow> u32 \<Rightarrow> 'm modem_heap \<Rightarrow> int \<times> addr option \<times> 'm modem_heap" where
  "modem_create ops settings n h = (case m_create ops settings n of (code, m) \<Rightarrow>
     if code \<noteq> 0 then (code, None, h)
     else (0, Some (next_modem h), h\<lparr>live := (live h)(next_modem h \<mapsto> m), next_modem := Suc (next_modem h)\<rparr>))"

definition modem_destroy :: "addr option \<Rightarrow> 'm modem_heap \<Rightarrow> 'm modem_heap option" where
  "modem_destroy p h = (case p of None \<Rightarrow> Some h
     | Some a \<Rightarrow> if live h a = None then None else Some (h\<lparr>live := (live h)(a := None)\<rparr>))"

text \<open>Running an operation of a modem that must be alive.\<close>

definition modem_call :: "('m \<Rightarrow> 'o \<times> 'm) \<Rightarrow> addr \<Rightarrow> 'm modem_heap \<Rightarrow> ('o \<times> 'm modem_heap) option" where
  "modem_call f a h = (case live h a of None \<Rightarrow> None
     | Some m \<Rightarrow> let (r, m') = f m in Some (r, h\<lparr>live := (live h)(a \<mapsto> m')\<rparr>))"

section \<open>Ownership\<close>

text \<open>Exactly the modem a worker points to is alive.\<close>

definition owns :: "addr option \<Rightarrow> 'm modem_heap \<Rightarrow> bool" where
  "owns p h \<longleftrightarrow> heap_ok h \<and> dom (live h) = set_option p"

lemma modem_create_spec:
  assumes "heap_ok h" "modem_create ops s n h = (code, p, h')"
  shows "heap_ok h'" "code \<noteq> 0 \<Longrightarrow> p = None \<and> h' = h"
    "code = 0 \<Longrightarrow> \<exists>a. p = Some a \<and> a \<notin> dom (live h) \<and> dom (live h') = insert a (dom (live h))"
proof -
  have "live h (next_modem h) = None" using assms(1) by (auto simp: heap_ok_def)
  then show "heap_ok h'" "code \<noteq> 0 \<Longrightarrow> p = None \<and> h' = h"
    "code = 0 \<Longrightarrow> \<exists>a. p = Some a \<and> a \<notin> dom (live h) \<and> dom (live h') = insert a (dom (live h))"
    using assms by (auto simp: modem_create_def heap_ok_def less_Suc_eq split: prod.splits if_splits)
qed

lemma modem_destroy_spec:
  assumes "heap_ok h" "set_option p \<subseteq> dom (live h)"
  shows "\<exists>h'. modem_destroy p h = Some h' \<and> heap_ok h' \<and> dom (live h') = dom (live h) - set_option p"
  using assms by (cases p) (auto simp: modem_destroy_def heap_ok_def)

lemma modem_call_spec:
  assumes "heap_ok h" "a \<in> dom (live h)"
  shows "\<exists>r h'. modem_call f a h = Some (r, h') \<and> heap_ok h' \<and> dom (live h') = dom (live h)"
  using assms by (auto simp: modem_call_def heap_ok_def split: prod.splits)

text \<open>Replacing the modem of an owner: the new one can be kept and the old one destroyed, or the other way around.\<close>

lemma modem_replaced:
  assumes h: "heap_ok h" "dom (live h) = set_option old" and new: "modem_create ops s n h = (code, p, h1)" "code = 0"
  obtains a h2 h3 where "p = Some a" "old \<noteq> Some a" "modem_destroy old h1 = Some h2" "owns (Some a) h2"
    "modem_destroy p h1 = Some h3" "heap_ok h3" "live h3 = live h"
proof -
  note mcs = modem_create_spec [OF h(1) new(1)]
  from mcs(3) new(2) obtain a where a: "p = Some a" "a \<notin> dom (live h)" "dom (live h1) = insert a (dom (live h))" by auto
  have restored: "(live h1)(a := None) = live h"
    using new a by (auto simp: modem_create_def fun_eq_iff split: prod.splits if_splits)
  from modem_destroy_spec [OF mcs(1), of old] h(2) a obtain h2 where
    h2: "modem_destroy old h1 = Some h2" "heap_ok h2" "dom (live h2) = {a}" by (auto simp: insert_Diff_if subset_insertI)
  from modem_destroy_spec [OF mcs(1), of p] a obtain h3 where h3: "modem_destroy p h1 = Some h3" "heap_ok h3" by auto
  have "live h3 = live h" using h3(1) a(1) restored by (auto simp: modem_destroy_def split: if_splits)
  with a h h2 h3 show thesis by (intro that [of a h2 h3]) (auto simp: owns_def)
qed

end
