(* ===== verification/Queue.thy ===== *)
theory Queue
  imports Prelude "HOL-Library.Multiset"
begin

text \<open>
  The message queue of \<^verbatim>\<open>src/queue.c\<close>: a pool of nodes, each with a buffer of fixed size, that
  move between a free list, a filled list and the single detached node the consumer works on.
  The lists are linked through the nodes on an explicit heap, so that the pointer updates of the
  source are the updates of the model. Every operation runs under the mutex of the queue and is
  one atomic step; an operation that waits on the condition variable is an attempt that answers
  \<open>Wait\<close> and is retried, because the code re-checks the same conditions after each wake-up.

  The theory ends with the abstract queue (a list of messages with a capacity), the relation
  between the two, and the locale \<open>queue_impl\<close> with the laws a client of the queue relies on.
\<close>

section \<open>Memory and data\<close>

text \<open>
  \<^verbatim>\<open>struct queue_node\<close>, \<^verbatim>\<open>queue_message\<close> and \<^verbatim>\<open>struct queue_t\<close>. The memory holds the nodes, the
  buffers and the queue structures that are allocated; \<open>brk\<close> counts the calls of \<^verbatim>\<open>malloc\<close> and is
  the next fresh address.
\<close>

record queue_node =
  node_type :: u8
  node_request_id :: u32
  node_buffer :: "addr option"
  node_len :: nat
  node_next :: "addr option"

record memory =
  nodes :: "addr \<rightharpoonup> queue_node"
  bufs :: "addr \<rightharpoonup> u8 list"
  structs :: "addr set"
  brk :: nat

record 'b queue_message =
  msg_type :: u8
  msg_request_id :: u32
  msg_buffer :: 'b
  msg_buffer_len :: nat

record queue =
  self :: addr
  mem :: memory
  first_free_node :: "addr option"
  last_free_node :: "addr option"
  first_filled_node :: "addr option"
  last_filled_node :: "addr option"
  detached_node :: "addr option"
  poison_pill :: int
  buffer_size :: u32
  blocking :: bool

section \<open>Operations\<close>

text \<open>\<open>free\<close> of a buffer and of a node; freeing something that is not allocated is undefined.\<close>

definition free_buf :: "addr option \<Rightarrow> memory \<Rightarrow> memory option" where
  "free_buf p m = (case p of None \<Rightarrow> Some m
     | Some b \<Rightarrow> (if bufs m b = None then None else Some (m\<lparr>bufs := (bufs m)(b := None)\<rparr>)))"

definition free_node :: "addr \<Rightarrow> memory \<Rightarrow> memory option" where
  "free_node a m = (if nodes m a = None then None else Some (m\<lparr>nodes := (nodes m)(a := None)\<rparr>))"

partial_function (option) destroy_nodes :: "addr option \<Rightarrow> memory \<Rightarrow> memory option" where
  "destroy_nodes cur m = (case cur of None \<Rightarrow> Some m
     | Some a \<Rightarrow> do {
         n \<leftarrow> nodes m a;
         m1 \<leftarrow> free_buf (node_buffer n) m;
         m2 \<leftarrow> free_node a m1;
         destroy_nodes (node_next n) m2 })"

text \<open>
  A node as \<^verbatim>\<open>queue_create\<close> initialises it. Its type and request id stay uninitialised in C until
  the first message is stored; they are read only after that.
\<close>

definition new_node :: "addr option \<Rightarrow> queue_node" where
  "new_node b = \<lparr>node_type = 0, node_request_id = 0, node_buffer = b, node_len = 0, node_next = None\<rparr>"

text \<open>
  The allocation loop of \<^verbatim>\<open>queue_create\<close>. \<open>oom k\<close> says that the call of \<^verbatim>\<open>malloc\<close> number \<open>k\<close>
  fails. The new node is linked only after its buffer was allocated, so on a failed buffer the
  node itself is freed next to the list built so far.
\<close>

fun create_nodes ::
  "(nat \<Rightarrow> bool) \<Rightarrow> u32 \<Rightarrow> nat \<Rightarrow> addr option \<Rightarrow> addr option \<Rightarrow> memory
     \<Rightarrow> (int \<times> memory \<times> addr option \<times> addr option) option" where
  "create_nodes oom bsize 0 first_node last_node m = Some (0, m, first_node, last_node)"
| "create_nodes oom bsize (Suc k) first_node last_node m =
    (let cur = brk m; buf = Suc cur in
     if oom cur then do {
       m1 \<leftarrow> destroy_nodes first_node (m\<lparr>brk := Suc cur\<rparr>);
       Some (- ENOMEM, m1, None, None) }
     else if oom buf then do {
       m1 \<leftarrow> destroy_nodes first_node (m\<lparr>brk := Suc buf,
               nodes := (nodes m)(cur \<mapsto> new_node None)\<rparr>);
       m2 \<leftarrow> free_node cur m1;
       Some (- ENOMEM, m2, None, None) }
     else do {
       let m1 = m\<lparr>brk := Suc buf, nodes := (nodes m)(cur \<mapsto> new_node (Some buf)),
                  bufs := (bufs m)(buf \<mapsto> replicate (unat bsize) 0)\<rparr>;
       m2 \<leftarrow> (case last_node of None \<Rightarrow> Some m1
              | Some l \<Rightarrow> do {
                  n \<leftarrow> nodes m1 l;
                  Some (m1\<lparr>nodes := (nodes m1)(l \<mapsto> n\<lparr>node_next := Some cur\<rparr>)\<rparr>) });
       create_nodes oom bsize k (if last_node = None then Some cur else first_node) (Some cur) m2 })"

definition queue_create ::
  "(nat \<Rightarrow> bool) \<Rightarrow> u32 \<Rightarrow> u16 \<Rightarrow> bool \<Rightarrow> memory \<Rightarrow> (int \<times> memory \<times> queue option) option" where
  "queue_create oom bsize qsize blck m =
    (if qsize = 0 then Some (-1, m, None)
     else if bsize = 0 then Some (-1, m, None)
     else let result = brk m in
     if oom result then Some (- ENOMEM, m\<lparr>brk := Suc result\<rparr>, None)
     else do {
       (code, m1, first_node, last_node) \<leftarrow>
         create_nodes oom bsize (unat qsize) None None
           (m\<lparr>brk := Suc result, structs := insert result (structs m)\<rparr>);
       if code \<noteq> 0 then Some (code, m1\<lparr>structs := structs m1 - {result}\<rparr>, None)
       else Some (0, m1, Some \<lparr>
         self = result, mem = m1, first_free_node = first_node, last_free_node = last_node,
         first_filled_node = None, last_filled_node = None, detached_node = None,
         poison_pill = 0, buffer_size = bsize, blocking = blck\<rparr>) })"

text \<open>
  \<^verbatim>\<open>queue_put\<close>. \<open>Ret c\<close> is a return with code \<open>c\<close>, \<open>Wait\<close> is \<^verbatim>\<open>pthread_cond_wait\<close>: the mutex is
  released with the queue unchanged.
\<close>

datatype put_result = Ret int | Wait

definition set_next :: "addr \<Rightarrow> addr option \<Rightarrow> queue \<Rightarrow> queue option" where
  "set_next a p q = do {
     n \<leftarrow> nodes (mem q) a;
     Some (q\<lparr>mem := (mem q)\<lparr>nodes := (nodes (mem q))(a \<mapsto> n\<lparr>node_next := p\<rparr>)\<rparr>\<rparr>) }"

definition node_to_fill :: "queue \<Rightarrow> (addr \<times> queue) option" where
  "node_to_fill q = (case first_free_node q of
     None \<Rightarrow> do { a \<leftarrow> last_filled_node q; Some (a, q) }
   | Some a \<Rightarrow> do {
       n \<leftarrow> nodes (mem q) a;
       q1 \<leftarrow> set_next a None (q\<lparr>first_free_node := node_next n\<rparr>);
       let q2 = (if node_next n = None then q1\<lparr>last_free_node := None\<rparr> else q1);
       q3 \<leftarrow> (case last_filled_node q2 of
               None \<Rightarrow> Some (q2\<lparr>first_filled_node := Some a\<rparr>)
             | Some l \<Rightarrow> set_next l (Some a) q2);
       Some (a, q3\<lparr>last_filled_node := Some a\<rparr>) })"

definition fill_node :: "addr \<Rightarrow> u8 list queue_message \<Rightarrow> queue \<Rightarrow> queue option" where
  "fill_node a message q = do {
     n \<leftarrow> nodes (mem q) a;
     b \<leftarrow> node_buffer n;
     dst \<leftarrow> bufs (mem q) b;
     dst' \<leftarrow> memcpy dst 0 (msg_buffer message) (msg_buffer_len message);
     Some (q\<lparr>mem := (mem q)\<lparr>
       bufs := (bufs (mem q))(b \<mapsto> dst'),
       nodes := (nodes (mem q))(a \<mapsto> n\<lparr>node_len := msg_buffer_len message,
                  node_type := msg_type message, node_request_id := msg_request_id message\<rparr>)\<rparr>\<rparr>) }"

definition queue_put :: "u8 list queue_message option \<Rightarrow> queue \<Rightarrow> (put_result \<times> queue) option" where
  "queue_put msg q = (case msg of
     None \<Rightarrow> Some (Ret (-1), q)
   | Some message \<Rightarrow>
       if msg_buffer_len message > unat (buffer_size q) then Some (Ret (-1), q)
       else if blocking q \<and> poison_pill q = 1 then Some (Ret (-1), q)
       else if blocking q \<and> first_free_node q = None then Some (Wait, q)
       else do {
         (a, q1) \<leftarrow> node_to_fill q;
         q2 \<leftarrow> fill_node a message q1;
         Some (Ret 0, q2) })"

definition destroy_queue :: "queue \<Rightarrow> memory option" where
  "destroy_queue q = do {
     m1 \<leftarrow> destroy_nodes (first_free_node q) (mem q);
     m2 \<leftarrow> destroy_nodes (first_filled_node q) m1;
     m3 \<leftarrow> (case detached_node q of None \<Rightarrow> Some m2
            | Some a \<Rightarrow> do {
                n \<leftarrow> nodes m2 a;
                m' \<leftarrow> free_buf (node_buffer n) m2;
                free_node a m' });
     (if self q \<in> structs m3 then Some (m3\<lparr>structs := structs m3 - {self q}\<rparr>) else None) }"

text \<open>
  The message \<^verbatim>\<open>queue_take\<close> and \<^verbatim>\<open>queue_peak\<close> hand out points to the buffer of the detached node:
  its contents are read later, without the mutex. \<open>NoMessage\<close> is a \<^verbatim>\<open>NULL\<close> buffer.
\<close>

datatype take_result = Message "addr queue_message" | NoMessage | Waiting

definition detach_first :: "addr \<Rightarrow> queue \<Rightarrow> (take_result \<times> queue) option" where
  "detach_first a q = do {
     n \<leftarrow> nodes (mem q) a;
     q1 \<leftarrow> set_next a None (q\<lparr>detached_node := Some a, first_filled_node := node_next n\<rparr>);
     let q2 = (if node_next n = None then q1\<lparr>last_filled_node := None\<rparr> else q1);
     b \<leftarrow> node_buffer n;
     Some (Message \<lparr>msg_type = node_type n, msg_request_id = node_request_id n,
                    msg_buffer = b, msg_buffer_len = node_len n\<rparr>, q2) }"

definition queue_take :: "queue \<Rightarrow> (take_result \<times> queue) option" where
  "queue_take q = (case first_filled_node q of
     None \<Rightarrow> (if poison_pill q = 1 then Some (NoMessage, q) else Some (Waiting, q))
   | Some a \<Rightarrow> detach_first a q)"

definition queue_peak :: "queue \<Rightarrow> (take_result \<times> queue) option" where
  "queue_peak q = (case first_filled_node q of
     None \<Rightarrow> Some (NoMessage, q)
   | Some a \<Rightarrow> detach_first a q)"

definition queue_complete :: "queue \<Rightarrow> queue option" where
  "queue_complete q = do {
     q1 \<leftarrow> (case last_free_node q of
             None \<Rightarrow> Some (q\<lparr>first_free_node := detached_node q\<rparr>)
           | Some l \<Rightarrow> set_next l (detached_node q) q);
     Some (q1\<lparr>last_free_node := detached_node q1, detached_node := None\<rparr>) }"

definition queue_interrupt :: "queue option \<Rightarrow> queue option" where
  "queue_interrupt p = map_option (\<lambda>q. q\<lparr>poison_pill := 1\<rparr>) p"

definition queue_reset :: "queue \<Rightarrow> queue option" where
  "queue_reset q = do {
     q1 \<leftarrow> (if first_filled_node q = None then Some q
            else do {
              q' \<leftarrow> (case last_free_node q of
                      None \<Rightarrow> Some (q\<lparr>first_free_node := first_filled_node q\<rparr>)
                    | Some l \<Rightarrow> set_next l (first_filled_node q) q);
              Some (q'\<lparr>last_free_node := last_filled_node q',
                       first_filled_node := None, last_filled_node := None\<rparr>) });
     Some (q1\<lparr>poison_pill := 0\<rparr>) }"

text \<open>What the consumer reads through a message it was given.\<close>

definition read_message :: "addr queue_message \<Rightarrow> queue \<Rightarrow> (u8 \<times> u32 \<times> u8 list) option" where
  "read_message m q = do {
     buf \<leftarrow> bufs (mem q) (msg_buffer m);
     (if msg_buffer_len m \<le> length buf
      then Some (msg_type m, msg_request_id m, take (msg_buffer_len m) buf) else None) }"

section \<open>Linked lists on the heap\<close>

primrec linked :: "(addr \<rightharpoonup> queue_node) \<Rightarrow> addr option \<Rightarrow> addr list \<Rightarrow> bool" where
  "linked h p [] \<longleftrightarrow> p = None"
| "linked h p (a # as) \<longleftrightarrow> p = Some a \<and> (\<exists>n. h a = Some n \<and> linked h (node_next n) as)"

lemma linked_None [simp]: "linked h None as \<longleftrightarrow> as = []"
  by (cases as) auto

lemma linked_Some: "linked h (Some a) as \<longleftrightarrow>
  (\<exists>n as'. as = a # as' \<and> h a = Some n \<and> linked h (node_next n) as')"
  by (cases as) auto

lemma linked_upd [simp]: "a \<notin> set as \<Longrightarrow> linked (h(a := v)) p as = linked h p as"
  by (induction as arbitrary: p) auto

lemma linked_data_upd:
  "h a = Some n \<Longrightarrow> node_next n' = node_next n \<Longrightarrow> linked (h(a \<mapsto> n')) p as = linked h p as"
  by (induction as arbitrary: p) auto

lemma linked_append:
  "linked h p (as @ bs) \<Longrightarrow> bs \<noteq> [] \<Longrightarrow> linked h (Some (hd bs)) bs"
  by (induction as arbitrary: p) (auto simp: neq_Nil_conv)

lemma linked_dom: "linked h p as \<Longrightarrow> a \<in> set as \<Longrightarrow> \<exists>n. h a = Some n"
  by (induction as arbitrary: p) auto

lemma linked_first: "linked h p as \<Longrightarrow> p = (if as = [] then None else Some (hd as))"
  by (cases as) auto

text \<open>Linking a second list behind the last node of the first.\<close>

lemma linked_join:
  assumes "linked h p as" "as \<noteq> []" "distinct as" "h (last as) = Some n"
    and "linked h r bs" "last as \<notin> set bs"
  shows "linked (h(last as \<mapsto> n\<lparr>node_next := r\<rparr>)) p (as @ bs)"
  using assms
proof (induction as arbitrary: p)
  case (Cons a as)
  show ?case
  proof (cases "as = []")
    case True
    with Cons.prems show ?thesis by (simp del: fun_upd_apply add: fun_upd_same)
  next
    case False
    with Cons.prems have "a \<noteq> last as" by (metis distinct.simps(2) last_in_set)
    with Cons False show ?thesis by auto
  qed
qed simp

section \<open>Well-formed queues\<close>

definition buf_of :: "memory \<Rightarrow> addr \<Rightarrow> addr option" where
  "buf_of m a = Option.bind (nodes m a) node_buffer"

definition node_ok :: "nat \<Rightarrow> memory \<Rightarrow> addr \<Rightarrow> bool" where
  "node_ok bs m a \<longleftrightarrow> (\<exists>n b buf. nodes m a = Some n \<and> node_buffer n = Some b \<and> bufs m b = Some buf
      \<and> length buf = bs \<and> node_len n \<le> bs)"

definition pool_ok :: "nat \<Rightarrow> memory \<Rightarrow> addr list \<Rightarrow> bool" where
  "pool_ok bs m as \<longleftrightarrow> distinct as \<and> inj_on (buf_of m) (set as) \<and> (\<forall>a \<in> set as. node_ok bs m a)"

text \<open>
  \<open>queue_rep q fr fi\<close>: \<open>fr\<close> and \<open>fi\<close> are the free and the filled nodes in list order, the last
  pointers agree with them, no node is in two places, every node has its own buffer of
  \<^verbatim>\<open>buffer_size\<close> bytes and the detached node is unlinked.
\<close>

definition queue_rep :: "queue \<Rightarrow> addr list \<Rightarrow> addr list \<Rightarrow> bool" where
  "queue_rep q fr fi \<longleftrightarrow>
     linked (nodes (mem q)) (first_free_node q) fr \<and> last_free_node q = last_opt fr \<and>
     linked (nodes (mem q)) (first_filled_node q) fi \<and> last_filled_node q = last_opt fi \<and>
     linked (nodes (mem q)) (detached_node q) (opt_list (detached_node q)) \<and>
     pool_ok (unat (buffer_size q)) (mem q) (fr @ fi @ opt_list (detached_node q))"

definition queue_wf :: "queue \<Rightarrow> bool" where
  "queue_wf q \<longleftrightarrow> (\<exists>fr fi. queue_rep q fr fi)"

text \<open>The message a node holds.\<close>

definition node_msg :: "memory \<Rightarrow> addr \<Rightarrow> u8 \<times> u32 \<times> u8 list" where
  "node_msg m a = (case nodes m a of
     None \<Rightarrow> (0, 0, [])
   | Some n \<Rightarrow> (node_type n, node_request_id n,
       (case Option.bind (node_buffer n) (bufs m) of
          None \<Rightarrow> [] | Some buf \<Rightarrow> take (node_len n) buf)))"

text \<open>Changing only the link of a node changes neither its buffer nor its message.\<close>

lemma relink_simps:
  assumes "nodes m a = Some n"
  shows "buf_of (m\<lparr>nodes := (nodes m)(a \<mapsto> n\<lparr>node_next := p\<rparr>)\<rparr>) = buf_of m"
    and "node_ok bs (m\<lparr>nodes := (nodes m)(a \<mapsto> n\<lparr>node_next := p\<rparr>)\<rparr>) = node_ok bs m"
    and "node_msg (m\<lparr>nodes := (nodes m)(a \<mapsto> n\<lparr>node_next := p\<rparr>)\<rparr>) = node_msg m"
  using assms by (auto simp: fun_eq_iff buf_of_def node_ok_def node_msg_def split: option.split)

lemma relink_pool_ok:
  assumes "nodes m a = Some n"
  shows "pool_ok bs (m\<lparr>nodes := (nodes m)(a \<mapsto> n\<lparr>node_next := p\<rparr>)\<rparr>) = pool_ok bs m"
  using relink_simps [OF assms] by (simp add: pool_ok_def [abs_def])

lemma pool_ok_perm: "mset as = mset bs \<Longrightarrow> pool_ok n m as = pool_ok n m bs"
  unfolding pool_ok_def by (metis mset_eq_imp_distinct_iff mset_eq_setD)

lemma pool_ok_node: "pool_ok bs m as \<Longrightarrow> a \<in> set as \<Longrightarrow> node_ok bs m a"
  by (simp add: pool_ok_def)

section \<open>The abstract queue\<close>

type_synonym msg = "u8 \<times> u32 \<times> u8 list"

text \<open>
  What the queue promises: a number of free slots, the messages in arrival order and the message
  the consumer is working on.
\<close>

record aqueue =
  a_free :: nat
  a_filled :: "msg list"
  a_busy :: "msg option"
  a_poison :: bool
  a_bufsize :: nat
  a_blocking :: bool

definition msg_of :: "u8 list queue_message \<Rightarrow> msg" where
  "msg_of m = (msg_type m, msg_request_id m, take (msg_buffer_len m) (msg_buffer m))"

definition a_put :: "u8 list queue_message \<Rightarrow> aqueue \<Rightarrow> (put_result \<times> aqueue) option" where
  "a_put m a =
    (if msg_buffer_len m > a_bufsize a then Some (Ret (-1), a)
     else if a_blocking a \<and> a_poison a then Some (Ret (-1), a)
     else if a_blocking a \<and> a_free a = 0 then Some (Wait, a)
     else if length (msg_buffer m) < msg_buffer_len m then None
     else if a_free a > 0 then Some (Ret 0, a\<lparr>a_free := a_free a - 1, a_filled := a_filled a @ [msg_of m]\<rparr>)
     else if a_filled a = [] then None
     else Some (Ret 0, a\<lparr>a_filled := butlast (a_filled a) @ [msg_of m]\<rparr>))"

datatype a_take_result = AMessage msg | ANoMessage | AWaiting

definition a_detach :: "aqueue \<Rightarrow> a_take_result \<times> aqueue" where
  "a_detach a = (AMessage (hd (a_filled a)), a\<lparr>a_filled := tl (a_filled a), a_busy := Some (hd (a_filled a))\<rparr>)"

definition a_take :: "aqueue \<Rightarrow> a_take_result \<times> aqueue" where
  "a_take a = (if a_filled a = [] then (if a_poison a then ANoMessage else AWaiting, a) else a_detach a)"

definition a_peak :: "aqueue \<Rightarrow> a_take_result \<times> aqueue" where
  "a_peak a = (if a_filled a = [] then (ANoMessage, a) else a_detach a)"

definition a_complete :: "aqueue \<Rightarrow> aqueue" where
  "a_complete a = a\<lparr>a_busy := None, a_free := Suc (a_free a)\<rparr>"

definition a_interrupt :: "aqueue \<Rightarrow> aqueue" where
  "a_interrupt a = a\<lparr>a_poison := True\<rparr>"

definition a_reset :: "aqueue \<Rightarrow> aqueue" where
  "a_reset a = a\<lparr>a_free := a_free a + length (a_filled a), a_filled := [], a_poison := False\<rparr>"

definition queue_abs :: "queue \<Rightarrow> addr list \<Rightarrow> addr list \<Rightarrow> aqueue" where
  "queue_abs q fr fi = \<lparr>
     a_free = length fr, a_filled = map (node_msg (mem q)) fi,
     a_busy = map_option (node_msg (mem q)) (detached_node q),
     a_poison = (poison_pill q = 1), a_bufsize = unat (buffer_size q), a_blocking = blocking q\<rparr>"

definition queue_rel :: "queue \<Rightarrow> aqueue \<Rightarrow> bool" where
  "queue_rel q a \<longleftrightarrow> (\<exists>fr fi. queue_rep q fr fi \<and> a = queue_abs q fr fi)"

section \<open>Refinement\<close>

lemma set_next_Some:
  "nodes (mem q) a = Some n \<Longrightarrow>
   set_next a p q = Some (q\<lparr>mem := (mem q)\<lparr>nodes := (nodes (mem q))(a \<mapsto> n\<lparr>node_next := p\<rparr>)\<rparr>\<rparr>)"
  by (simp add: set_next_def)

text \<open>The first free node moves behind the last filled one.\<close>

lemma node_to_fill_free:
  assumes "queue_rep q (a # fr) fi"
  shows "\<exists>q1. node_to_fill q = Some (a, q1) \<and> queue_rep q1 fr (fi @ [a]) \<and>
     node_msg (mem q1) = node_msg (mem q) \<and> detached_node q1 = detached_node q \<and>
     poison_pill q1 = poison_pill q \<and> buffer_size q1 = buffer_size q \<and> blocking q1 = blocking q"
proof -
  let ?h = "nodes (mem q)"
  from assms obtain n where n: "?h a = Some n" and fr: "linked ?h (node_next n) fr"
    and ff: "first_free_node q = Some a" "last_free_node q = last_opt (a # fr)"
    and fi: "linked ?h (first_filled_node q) fi" "last_filled_node q = last_opt fi"
    and det: "linked ?h (detached_node q) (opt_list (detached_node q))"
    and pool: "pool_ok (unat (buffer_size q)) (mem q) ((a # fr) @ fi @ opt_list (detached_node q))"
    by (auto simp: queue_rep_def)
  from pool have dist: "distinct ((a # fr) @ fi @ opt_list (detached_node q))"
    by (simp add: pool_ok_def)
  have perm: "pool_ok (unat (buffer_size q)) (mem q) (fr @ (fi @ [a]) @ opt_list (detached_node q))"
    using pool by (subst pool_ok_perm) auto
  have fr_empty: "(node_next n = None) = (fr = [])"
    using linked_first [OF fr] by simp
  show ?thesis
  proof (cases "fi = []")
    case True
    with dist n fr ff fi det perm fr_empty show ?thesis
      by (auto simp: node_to_fill_def set_next_Some queue_rep_def relink_pool_ok relink_simps last_opt_Cons)
  next
    case False
    let ?h1 = "?h(a \<mapsto> n\<lparr>node_next := None\<rparr>)"
    obtain l where l: "?h (last fi) = Some l"
      using linked_dom [OF fi(1)] False by fastforce
    have ne: "last fi \<noteq> a" and nf: "last fi \<notin> set fr" and nd: "last fi \<notin> set (opt_list (detached_node q))"
      using dist False last_in_set [of fi] by (auto simp del: last_in_set)
    have h1: "?h1 (last fi) = Some l" using l ne by simp
    have join: "linked (?h1(last fi \<mapsto> l\<lparr>node_next := Some a\<rparr>)) (first_filled_node q) (fi @ [a])"
      using fi(1) False dist l ne h1 by (intro linked_join) auto
    have lo: "last_opt fi = Some (last fi)" using False by (simp add: last_opt_def)
    define q2 where "q2 = q\<lparr>first_free_node := node_next n,
        mem := (mem q)\<lparr>nodes := ?h1(last fi \<mapsto> l\<lparr>node_next := Some a\<rparr>)\<rparr>,
        last_free_node := (if fr = [] then None else last_free_node q), last_filled_node := Some a\<rparr>"
    have "node_to_fill q = Some (a, q2)"
      using ff n fi(2) lo h1 l ne fr_empty
      by (simp add: node_to_fill_def set_next_Some q2_def Let_def)
    moreover have mem2: "pool_ok bs (mem q2) = pool_ok bs (mem q)" "node_msg (mem q2) = node_msg (mem q)" for bs
      using n h1 relink_pool_ok [of "mem q" a n bs None] relink_simps(3) [of "mem q" a n None]
        relink_pool_ok [of "(mem q)\<lparr>nodes := ?h1\<rparr>" "last fi" l bs "Some a"]
        relink_simps(3) [of "(mem q)\<lparr>nodes := ?h1\<rparr>" "last fi" l "Some a"]
      by (simp_all add: q2_def)
    moreover have "queue_rep q2 fr (fi @ [a])"
      using fr ff join det perm dist nf nd ne mem2
      by (auto simp: queue_rep_def q2_def last_opt_Cons simp del: fun_upd_apply)
    ultimately show ?thesis by (auto simp: q2_def)
  qed
qed

text \<open>Filling the last filled node changes its message and nothing else.\<close>

lemma fill_node_msg:
  assumes pool: "pool_ok bs (mem q) as" and a: "a \<in> set as"
    and len: "msg_buffer_len m \<le> bs" "msg_buffer_len m \<le> length (msg_buffer m)"
  shows "\<exists>q2 n. fill_node a m q = Some q2 \<and> q2 = q\<lparr>mem := mem q2\<rparr> \<and> nodes (mem q) a = Some n \<and>
     (\<exists>n'. node_next n' = node_next n \<and> nodes (mem q2) = (nodes (mem q))(a \<mapsto> n')) \<and>
     pool_ok bs (mem q2) as \<and> node_msg (mem q2) a = msg_of m \<and>
     (\<forall>x \<in> set as - {a}. node_msg (mem q2) x = node_msg (mem q) x)"
proof -
  from pool a obtain n b buf where n: "nodes (mem q) a = Some n" "node_buffer n = Some b"
      "bufs (mem q) b = Some buf" "length buf = bs"
    by (auto simp: pool_ok_def node_ok_def)
  let ?n' = "n\<lparr>node_len := msg_buffer_len m, node_type := msg_type m, node_request_id := msg_request_id m\<rparr>"
  let ?buf' = "take (msg_buffer_len m) (msg_buffer m) @ drop (msg_buffer_len m) buf"
  define q2 where "q2 = q\<lparr>mem := (mem q)\<lparr>bufs := (bufs (mem q))(b \<mapsto> ?buf'),
      nodes := (nodes (mem q))(a \<mapsto> ?n')\<rparr>\<rparr>"
  have fill: "fill_node a m q = Some q2"
    using n len by (simp add: fill_node_def memcpy_0 q2_def)
  have buf_of: "buf_of (mem q2) = buf_of (mem q)"
    using n by (auto simp: buf_of_def q2_def)
  have other: "\<exists>nx bx bufx. nodes (mem q) x = Some nx \<and> node_buffer nx = Some bx \<and> bx \<noteq> b \<and>
      bufs (mem q) bx = Some bufx \<and> length bufx = bs \<and> node_len nx \<le> bs" if "x \<in> set as - {a}" for x
  proof -
    have "buf_of (mem q) x \<noteq> buf_of (mem q) a"
      using pool a that inj_onD [of "buf_of (mem q)" "set as" x a] by (auto simp: pool_ok_def)
    then show ?thesis using pool that n by (force simp: pool_ok_def node_ok_def buf_of_def)
  qed
  have ok: "node_ok bs (mem q2) x" if "x \<in> set as" for x
  proof (cases "x = a")
    case True
    then show ?thesis using n len by (simp add: node_ok_def q2_def)
  next
    case False
    with other [of x] that show ?thesis by (auto simp: node_ok_def q2_def)
  qed
  have msg: "node_msg (mem q2) x = node_msg (mem q) x" if "x \<in> set as - {a}" for x
    using other [OF that] that by (auto simp: node_msg_def q2_def)
  have msg_a: "node_msg (mem q2) a = msg_of m"
    using n len by (simp add: node_msg_def q2_def msg_of_def)
  have pool2: "pool_ok bs (mem q2) as"
    using pool buf_of ok by (simp add: pool_ok_def)
  have "q2 = q\<lparr>mem := mem q2\<rparr>" "nodes (mem q2) = (nodes (mem q))(a \<mapsto> ?n')" "node_next ?n' = node_next n"
    by (simp_all add: q2_def)
  then show ?thesis using fill n(1) pool2 msg msg_a by blast
qed

lemma fill_node_rep:
  assumes rep: "queue_rep q fr (fi @ [a])"
    and len: "msg_buffer_len m \<le> unat (buffer_size q)" "msg_buffer_len m \<le> length (msg_buffer m)"
  shows "\<exists>q2. fill_node a m q = Some q2 \<and> queue_rep q2 fr (fi @ [a]) \<and>
     queue_abs q2 fr (fi @ [a]) = (queue_abs q fr (fi @ [a]))\<lparr>a_filled := map (node_msg (mem q)) fi @ [msg_of m]\<rparr>"
proof -
  from rep have pool: "pool_ok (unat (buffer_size q)) (mem q) (fr @ (fi @ [a]) @ opt_list (detached_node q))"
    by (simp add: queue_rep_def)
  then have dist: "a \<notin> set fr" "a \<notin> set fi" "a \<notin> set (opt_list (detached_node q))"
    by (auto simp: pool_ok_def)
  from fill_node_msg [OF pool _ len, of a] obtain q2 n n' where
      q2: "fill_node a m q = Some q2" "q2 = q\<lparr>mem := mem q2\<rparr>" "nodes (mem q) a = Some n"
      "node_next n' = node_next n" "nodes (mem q2) = (nodes (mem q))(a \<mapsto> n')"
    and pool2: "pool_ok (unat (buffer_size q)) (mem q2) (fr @ (fi @ [a]) @ opt_list (detached_node q))"
    and msg: "node_msg (mem q2) a = msg_of m"
      "\<forall>x \<in> set (fr @ (fi @ [a]) @ opt_list (detached_node q)) - {a}. node_msg (mem q2) x = node_msg (mem q) x"
    by auto
  have same: "first_free_node q2 = first_free_node q" "last_free_node q2 = last_free_node q"
      "first_filled_node q2 = first_filled_node q" "last_filled_node q2 = last_filled_node q"
      "detached_node q2 = detached_node q" "poison_pill q2 = poison_pill q"
      "buffer_size q2 = buffer_size q" "blocking q2 = blocking q"
    using q2(2) by (metis queue.surjective queue.update_convs(2) queue.select_convs)+
  have "queue_rep q2 fr (fi @ [a])"
    using rep pool2 linked_data_upd [of "nodes (mem q)" a n n', OF q2(3,4)] by (simp add: queue_rep_def same q2(5))
  moreover have "map_option (node_msg (mem q2)) (detached_node q) = map_option (node_msg (mem q)) (detached_node q)"
    using msg(2) dist by (cases "detached_node q") auto
  moreover have "map (node_msg (mem q2)) fi = map (node_msg (mem q)) fi"
    using msg(2) dist by auto
  ultimately show ?thesis
    using q2(1) msg(1) by (intro exI [of _ q2]) (simp add: queue_abs_def same)
qed

lemma queue_relI: "queue_rep q fr fi \<Longrightarrow> a = queue_abs q fr fi \<Longrightarrow> queue_rel q a"
  by (auto simp: queue_rel_def)

lemma fill_node_short: "length (msg_buffer m) < msg_buffer_len m \<Longrightarrow> fill_node b m q = None"
  by (simp add: fill_node_def memcpy_def split: bind_split)

lemma queue_rep_free: "queue_rep q fr fi \<Longrightarrow> (first_free_node q = None) = (fr = [])"
  using linked_first by (fastforce simp: queue_rep_def)

lemma queue_rep_filled: "queue_rep q fr fi \<Longrightarrow> (first_filled_node q = None) = (fi = [])"
  using linked_first by (fastforce simp: queue_rep_def)

text \<open>The accepted message, with a free node and, in a full non-blocking queue, without one.\<close>

lemma queue_put_free:
  assumes rep: "queue_rep q (b # fr) fi"
    and go: "\<not> msg_buffer_len m > unat (buffer_size q)" "\<not> (blocking q \<and> poison_pill q = 1)"
    and len: "msg_buffer_len m \<le> length (msg_buffer m)"
  shows "\<exists>q'. queue_put (Some m) q = Some (Ret 0, q') \<and> queue_rep q' fr (fi @ [b]) \<and>
     queue_abs q' fr (fi @ [b]) =
       (queue_abs q (b # fr) fi)\<lparr>a_free := length fr, a_filled := map (node_msg (mem q)) fi @ [msg_of m]\<rparr>"
proof -
  from node_to_fill_free [OF rep] obtain q1 where q1: "node_to_fill q = Some (b, q1)"
      "queue_rep q1 fr (fi @ [b])" "node_msg (mem q1) = node_msg (mem q)" "detached_node q1 = detached_node q"
      "poison_pill q1 = poison_pill q" "buffer_size q1 = buffer_size q" "blocking q1 = blocking q"
    by blast
  from fill_node_rep [OF q1(2), of m] go len q1 obtain q2 where q2: "fill_node b m q1 = Some q2"
      "queue_rep q2 fr (fi @ [b])" "queue_abs q2 fr (fi @ [b]) =
         (queue_abs q1 fr (fi @ [b]))\<lparr>a_filled := map (node_msg (mem q1)) fi @ [msg_of m]\<rparr>"
    by auto
  have "queue_put (Some m) q = Some (Ret 0, q2)"
    using go q1(1) q2(1) queue_rep_free [OF rep] by (auto simp: queue_put_def)
  with q2 q1 show ?thesis by (intro exI [of _ q2]) (simp add: queue_abs_def)
qed

lemma queue_put_full:
  assumes rep: "queue_rep q [] (fi @ [b])"
    and go: "\<not> msg_buffer_len m > unat (buffer_size q)" "\<not> blocking q"
    and len: "msg_buffer_len m \<le> length (msg_buffer m)"
  shows "\<exists>q'. queue_put (Some m) q = Some (Ret 0, q') \<and> queue_rep q' [] (fi @ [b]) \<and>
     queue_abs q' [] (fi @ [b]) =
       (queue_abs q [] (fi @ [b]))\<lparr>a_filled := map (node_msg (mem q)) fi @ [msg_of m]\<rparr>"
proof -
  have fill: "node_to_fill q = Some (b, q)"
    using rep queue_rep_free [OF rep] by (auto simp: node_to_fill_def queue_rep_def)
  from fill_node_rep [OF rep, of m] go len obtain q2 where q2: "fill_node b m q = Some q2"
      "queue_rep q2 [] (fi @ [b])" "queue_abs q2 [] (fi @ [b]) =
         (queue_abs q [] (fi @ [b]))\<lparr>a_filled := map (node_msg (mem q)) fi @ [msg_of m]\<rparr>"
    by auto
  have "queue_put (Some m) q = Some (Ret 0, q2)"
    using go fill q2(1) by (auto simp: queue_put_def)
  with q2 show ?thesis by auto
qed

text \<open>Writing a message shorter than its length field reads behind its buffer.\<close>

lemma queue_put_short:
  "length (msg_buffer m) < msg_buffer_len m \<Longrightarrow> \<not> msg_buffer_len m > unat (buffer_size q) \<Longrightarrow>
   \<not> (blocking q \<and> (poison_pill q = 1 \<or> first_free_node q = None)) \<Longrightarrow> queue_put (Some m) q = None"
  by (auto simp: queue_put_def fill_node_short split: bind_split)

lemma queue_put_refines:
  assumes "queue_rel q a"
  shows "case a_put m a of
      None \<Rightarrow> queue_put (Some m) q = None
    | Some (r, a') \<Rightarrow> (\<exists>q'. queue_put (Some m) q = Some (r, q') \<and> queue_rel q' a')"
proof -
  from assms obtain fr fi where rep: "queue_rep q fr fi" and a: "a = queue_abs q fr fi"
    by (auto simp: queue_rel_def)
  note ffn = queue_rep_free [OF rep]
  have abs: "a_bufsize a = unat (buffer_size q)" "a_blocking a = blocking q" "a_poison a = (poison_pill q = 1)"
      "a_free a = length fr" "a_filled a = map (node_msg (mem q)) fi"
    by (simp_all add: a queue_abs_def)
  let ?go = "\<not> msg_buffer_len m > unat (buffer_size q) \<and> \<not> (blocking q \<and> (poison_pill q = 1 \<or> fr = []))"
  consider (reject) "\<not> ?go" | (short) ?go "length (msg_buffer m) < msg_buffer_len m"
    | (free) b fr' where ?go "msg_buffer_len m \<le> length (msg_buffer m)" "fr = b # fr'"
    | (full) b fi' where ?go "msg_buffer_len m \<le> length (msg_buffer m)" "fr = []" "fi = fi' @ [b]"
    | (crash) ?go "msg_buffer_len m \<le> length (msg_buffer m)" "fr = []" "fi = []"
    by (metis leI list.exhaust rev_exhaust)
  then show ?thesis
  proof cases
    case reject
    then show ?thesis using assms ffn abs by (auto simp: a_put_def queue_put_def)
  next
    case short
    then show ?thesis using ffn abs queue_put_short [of m q] by (auto simp: a_put_def)
  next
    case free
    with queue_put_free [of q b fr' fi m] rep show ?thesis
      using abs by (auto simp: a_put_def a queue_abs_def intro!: queue_relI [where fr = fr' and fi = "fi @ [b]"])
  next
    case full
    with queue_put_full [of q fi' b m] rep show ?thesis
      using abs by (auto simp: a_put_def a queue_abs_def intro!: queue_relI [where fr = "[]" and fi = "fi' @ [b]"])
  next
    case crash
    with rep ffn abs show ?thesis
      by (auto simp: a_put_def queue_put_def node_to_fill_def queue_rep_def)
  qed
qed

text \<open>The consumer side. The queue hands out one message at a time: the detached slot is empty.\<close>

lemma detach_first_rep:
  assumes rep: "queue_rep q fr (a # fi)" and det: "detached_node q = None"
  shows "\<exists>m q'. detach_first a q = Some (Message m, q') \<and> queue_rep q' fr fi \<and>
     read_message m q' = Some (node_msg (mem q) a) \<and>
     queue_abs q' fr fi = (queue_abs q fr (a # fi))\<lparr>a_filled := map (node_msg (mem q)) fi,
        a_busy := Some (node_msg (mem q) a)\<rparr>"
proof -
  let ?bs = "unat (buffer_size q)"
  from rep have pool: "pool_ok ?bs (mem q) (fr @ a # fi)" using det by (simp add: queue_rep_def)
  then obtain n b buf where n: "nodes (mem q) a = Some n" "node_buffer n = Some b" "bufs (mem q) b = Some buf"
      "length buf = ?bs" "node_len n \<le> ?bs" and dist: "distinct (fr @ a # fi)"
    by (auto simp: pool_ok_def node_ok_def)
  have pool': "pool_ok ?bs (mem q) (fr @ fi @ [a])" using pool by (subst pool_ok_perm) auto
  have lk: "linked (nodes (mem q)) (node_next n) fi" using rep n by (auto simp: queue_rep_def)
  have fi: "(node_next n = None) = (fi = [])" using linked_first [OF lk] by simp
  let ?m = "\<lparr>msg_type = node_type n, msg_request_id = node_request_id n, msg_buffer = b, msg_buffer_len = node_len n\<rparr>"
  define q' where "q' = q\<lparr>detached_node := Some a, first_filled_node := node_next n,
     mem := (mem q)\<lparr>nodes := (nodes (mem q))(a \<mapsto> n\<lparr>node_next := None\<rparr>)\<rparr>,
     last_filled_node := (if fi = [] then None else last_filled_node q)\<rparr>"
  have "detach_first a q = Some (Message ?m, q')"
    using n fi by (simp add: detach_first_def set_next_Some q'_def)
  moreover have "queue_rep q' fr fi"
    using rep n lk dist pool' by (auto simp: queue_rep_def q'_def relink_pool_ok last_opt_Cons)
  moreover have "read_message ?m q' = Some (node_msg (mem q) a)"
    using n by (simp add: read_message_def q'_def node_msg_def)
  moreover have "queue_abs q' fr fi = (queue_abs q fr (a # fi))\<lparr>a_filled := map (node_msg (mem q)) fi,
        a_busy := Some (node_msg (mem q) a)\<rparr>"
    using n by (simp add: queue_abs_def q'_def relink_simps)
  ultimately show ?thesis by blast
qed

text \<open>The result of a take as the consumer sees it.\<close>

definition take_view :: "take_result \<Rightarrow> queue \<Rightarrow> a_take_result option" where
  "take_view r q = (case r of
     Message m \<Rightarrow> map_option AMessage (read_message m q) | NoMessage \<Rightarrow> Some ANoMessage | Waiting \<Rightarrow> Some AWaiting)"

lemma queue_take_refines:
  assumes "queue_rel q a" "a_busy a = None"
  shows "\<exists>r q'. queue_take q = Some (r, q') \<and> take_view r q' = Some (fst (a_take a)) \<and> queue_rel q' (snd (a_take a))"
proof -
  from assms obtain fr fi where rep: "queue_rep q fr fi" and a: "a = queue_abs q fr fi" and det: "detached_node q = None"
    by (auto simp: queue_rel_def queue_abs_def)
  show ?thesis
  proof (cases fi)
    case Nil
    with rep assms show ?thesis
      by (auto simp: queue_take_def a_take_def take_view_def a queue_abs_def queue_rep_def)
  next
    case (Cons x fi')
    with detach_first_rep [of q fr x fi'] rep det show ?thesis
      by (auto simp: queue_take_def a_take_def a_detach_def take_view_def a queue_abs_def queue_rep_def
          intro!: queue_relI [where fr = fr and fi = fi'])
  qed
qed

lemma queue_peak_refines:
  assumes "queue_rel q a" "a_busy a = None"
  shows "\<exists>r q'. queue_peak q = Some (r, q') \<and> take_view r q' = Some (fst (a_peak a)) \<and> queue_rel q' (snd (a_peak a))"
proof -
  from assms obtain fr fi where rep: "queue_rep q fr fi" and a: "a = queue_abs q fr fi" and det: "detached_node q = None"
    by (auto simp: queue_rel_def queue_abs_def)
  show ?thesis
  proof (cases fi)
    case Nil
    with rep assms show ?thesis
      by (auto simp: queue_peak_def a_peak_def take_view_def a queue_abs_def queue_rep_def)
  next
    case (Cons x fi')
    with detach_first_rep [of q fr x fi'] rep det show ?thesis
      by (auto simp: queue_peak_def a_peak_def a_detach_def take_view_def a queue_abs_def queue_rep_def
          intro!: queue_relI [where fr = fr and fi = fi'])
  qed
qed

text \<open>
  \<^verbatim>\<open>queue_complete\<close> and \<^verbatim>\<open>queue_reset\<close> link a list behind the free list: the detached node and the
  whole filled list.
\<close>

lemma link_behind_free:
  assumes fr: "linked (nodes (mem q)) (first_free_node q) fr" "last_free_node q = last_opt fr"
    and bs: "linked (nodes (mem q)) r bs" "distinct (fr @ bs)"
  shows "\<exists>q1. (case last_free_node q of None \<Rightarrow> Some (q\<lparr>first_free_node := r\<rparr>) | Some l \<Rightarrow> set_next l r q) = Some q1 \<and>
     q1 = q\<lparr>first_free_node := first_free_node q1, mem := mem q1\<rparr> \<and>
     linked (nodes (mem q1)) (first_free_node q1) (fr @ bs) \<and>
     (\<forall>p as. set as \<inter> set fr = {} \<longrightarrow> linked (nodes (mem q1)) p as = linked (nodes (mem q)) p as) \<and>
     pool_ok k (mem q1) = pool_ok k (mem q) \<and> node_msg (mem q1) = node_msg (mem q)"
proof (cases "fr = []")
  case True
  with assms show ?thesis by simp
next
  case False
  then obtain n where n: "nodes (mem q) (last fr) = Some n" using linked_dom [OF fr(1)] by fastforce
  let ?q1 = "q\<lparr>mem := (mem q)\<lparr>nodes := (nodes (mem q))(last fr \<mapsto> n\<lparr>node_next := r\<rparr>)\<rparr>\<rparr>"
  have "last fr \<notin> set bs" "distinct fr" using bs(2) False last_in_set by fastforce+
  then have "linked (nodes (mem ?q1)) (first_free_node ?q1) (fr @ bs)"
    using linked_join [OF fr(1) False _ n bs(1)] by simp
  moreover have "linked (nodes (mem ?q1)) p as = linked (nodes (mem q)) p as" if "set as \<inter> set fr = {}" for p as
  proof -
    have "last fr \<notin> set as" using that False last_in_set [OF False] by blast
    then show ?thesis by simp
  qed
  moreover have "last_free_node q = Some (last fr)" using fr(2) False by (simp add: last_opt_def)
  ultimately show ?thesis
    using set_next_Some [OF n] relink_pool_ok [OF n] relink_simps(3) [OF n]
    by (intro exI [of _ ?q1]) simp
qed

lemma queue_complete_refines:
  assumes "queue_rel q a" "a_busy a \<noteq> None"
  shows "\<exists>q'. queue_complete q = Some q' \<and> queue_rel q' (a_complete a)"
proof -
  from assms obtain fr fi d where rep: "queue_rep q fr fi" and a: "a = queue_abs q fr fi" and d: "detached_node q = Some d"
    by (auto simp: queue_rel_def queue_abs_def)
  let ?bs = "unat (buffer_size q)"
  have pool: "pool_ok ?bs (mem q) (fr @ fi @ [d])" using rep d by (simp add: queue_rep_def)
  then have dist: "distinct (fr @ fi @ [d])" by (simp add: pool_ok_def)
  have pool': "pool_ok ?bs (mem q) ((fr @ [d]) @ fi)" using pool by (subst pool_ok_perm) auto
  from link_behind_free [of q fr "Some d" "[d]" ?bs] rep d dist obtain q1 where
      q1: "(case last_free_node q of None \<Rightarrow> Some (q\<lparr>first_free_node := Some d\<rparr>) | Some l \<Rightarrow> set_next l (Some d) q) = Some q1"
      "q1 = q\<lparr>first_free_node := first_free_node q1, mem := mem q1\<rparr>"
      "linked (nodes (mem q1)) (first_free_node q1) (fr @ [d])"
      "\<forall>p as. set as \<inter> set fr = {} \<longrightarrow> linked (nodes (mem q1)) p as = linked (nodes (mem q)) p as"
      "pool_ok ?bs (mem q1) = pool_ok ?bs (mem q)" "node_msg (mem q1) = node_msg (mem q)"
    by (auto simp: queue_rep_def)
  have same: "first_filled_node q1 = first_filled_node q" "last_filled_node q1 = last_filled_node q"
      "detached_node q1 = Some d" "poison_pill q1 = poison_pill q" "buffer_size q1 = buffer_size q" "blocking q1 = blocking q"
    by (subst q1(2), simp add: d)+
  let ?q' = "q1\<lparr>last_free_node := Some d, detached_node := None\<rparr>"
  have "set fi \<inter> set fr = {}" using dist by auto
  then have "queue_rep ?q' (fr @ [d]) fi"
    using rep q1(3-5) pool' by (simp add: queue_rep_def same)
  moreover have "queue_complete q = Some ?q'"
    unfolding queue_complete_def d q1(1) by (simp add: same)
  moreover have "a_complete a = queue_abs ?q' (fr @ [d]) fi"
    by (simp add: a a_complete_def queue_abs_def same q1(6))
  ultimately show ?thesis by (auto intro: queue_relI)
qed

lemma queue_interrupt_refines:
  "queue_rel q a \<Longrightarrow> \<exists>q'. queue_interrupt (Some q) = Some q' \<and> queue_rel q' (a_interrupt a)"
proof -
  assume "queue_rel q a"
  then obtain fr fi where "queue_rep q fr fi" "a = queue_abs q fr fi" by (auto simp: queue_rel_def)
  then have "queue_rep (q\<lparr>poison_pill := 1\<rparr>) fr fi" "a_interrupt a = queue_abs (q\<lparr>poison_pill := 1\<rparr>) fr fi"
    by (simp_all add: queue_rep_def queue_abs_def a_interrupt_def)
  then show ?thesis by (auto simp: queue_interrupt_def intro: queue_relI)
qed

lemma queue_reset_refines:
  assumes "queue_rel q a"
  shows "\<exists>q'. queue_reset q = Some q' \<and> queue_rel q' (a_reset a)"
proof -
  from assms obtain fr fi where rep: "queue_rep q fr fi" and a: "a = queue_abs q fr fi"
    by (auto simp: queue_rel_def)
  let ?bs = "unat (buffer_size q)"
  have pool: "pool_ok ?bs (mem q) (fr @ fi @ opt_list (detached_node q))" using rep by (simp add: queue_rep_def)
  then have dist: "distinct (fr @ fi @ opt_list (detached_node q))" by (simp add: pool_ok_def)
  show ?thesis
  proof (cases "fi = []")
    case True
    with rep queue_rep_filled [OF rep] show ?thesis
      by (auto simp: queue_reset_def a_reset_def a queue_abs_def queue_rep_def intro!: queue_relI [of _ fr "[]"])
  next
    case False
    from link_behind_free [of q fr "first_filled_node q" fi ?bs] rep dist obtain q1 where
        q1: "(case last_free_node q of None \<Rightarrow> Some (q\<lparr>first_free_node := first_filled_node q\<rparr>)
              | Some l \<Rightarrow> set_next l (first_filled_node q) q) = Some q1"
        "q1 = q\<lparr>first_free_node := first_free_node q1, mem := mem q1\<rparr>"
        "linked (nodes (mem q1)) (first_free_node q1) (fr @ fi)"
        "\<forall>p as. set as \<inter> set fr = {} \<longrightarrow> linked (nodes (mem q1)) p as = linked (nodes (mem q)) p as"
        "pool_ok ?bs (mem q1) = pool_ok ?bs (mem q)" "node_msg (mem q1) = node_msg (mem q)"
      by (auto simp: queue_rep_def)
    have same: "last_filled_node q1 = last_opt fi" "detached_node q1 = detached_node q"
        "buffer_size q1 = buffer_size q" "blocking q1 = blocking q"
      using rep by (subst q1(2), simp add: queue_rep_def)+
    let ?q' = "q1\<lparr>last_free_node := last_opt fi, first_filled_node := None, last_filled_node := None, poison_pill := 0\<rparr>"
    have "set (opt_list (detached_node q)) \<inter> set fr = {}" using dist by auto
    then have "queue_rep ?q' (fr @ fi) []"
      using rep q1(3-5) pool False by (simp add: queue_rep_def same last_opt_append)
    moreover have "queue_reset q = Some ?q'"
      using q1(1) queue_rep_filled [OF rep] False by (auto simp: queue_reset_def same)
    moreover have "a_reset a = queue_abs ?q' (fr @ fi) []"
      by (simp add: a a_reset_def queue_abs_def same q1(6))
    ultimately show ?thesis by (auto intro: queue_relI)
  qed
qed

section \<open>Creation and destruction\<close>

text \<open>
  Freeing a list of nodes with their buffers: it is safe when the nodes and buffers are
  allocated and not shared, and it frees exactly them.
\<close>

lemma destroy_nodes_linked:
  assumes "linked (nodes m) p as" "distinct as" "inj_on (buf_of m) (set as)"
    and "\<forall>a \<in> set as. \<exists>b. buf_of m a = Some b \<and> bufs m b \<noteq> None"
  shows "destroy_nodes p m = Some (m\<lparr>nodes := nodes m |` (- set as),
     bufs := bufs m |` {b. Some b \<notin> buf_of m ` set as}\<rparr>)"
  using assms
proof (induction as arbitrary: p m)
  case Nil
  then show ?case by (simp add: destroy_nodes.simps restrict_map_def)
next
  case (Cons a as)
  from Cons.prems obtain n b where n: "p = Some a" "nodes m a = Some n" "linked (nodes m) (node_next n) as"
      "node_buffer n = Some b" "bufs m b \<noteq> None"
    by (auto simp: buf_of_def)
  define m1 where "m1 = m\<lparr>bufs := (bufs m)(b := None), nodes := (nodes m)(a := None)\<rparr>"
  have step: "destroy_nodes p m = destroy_nodes (node_next n) m1"
    using n by (subst destroy_nodes.simps) (auto simp: free_buf_def free_node_def m1_def)
  have notin: "a \<notin> set as" using Cons.prems(2) by simp
  have same: "buf_of m1 x = buf_of m x" if "x \<in> set as" for x
    using that notin by (auto simp: buf_of_def m1_def)
  have buf_a: "buf_of m a = Some b" using n by (simp add: buf_of_def)
  have neq: "buf_of m x \<noteq> Some b" if "x \<in> set as" for x
    using Cons.prems(3) that notin buf_a inj_onD [of "buf_of m" "set (a # as)" x a] by auto
  have "destroy_nodes (node_next n) m1 = Some (m1\<lparr>nodes := nodes m1 |` (- set as),
     bufs := bufs m1 |` {b. Some b \<notin> buf_of m1 ` set as}\<rparr>)"
  proof (rule Cons.IH)
    show "linked (nodes m1) (node_next n) as" using n(3) notin by (simp add: m1_def)
    show "distinct as" using Cons.prems(2) by simp
    show "inj_on (buf_of m1) (set as)"
      using Cons.prems(3) same by (auto simp: inj_on_def)
    show "\<forall>a \<in> set as. \<exists>b. buf_of m1 a = Some b \<and> bufs m1 b \<noteq> None"
      using Cons.prems(4) same neq by (fastforce simp: m1_def)
  qed
  moreover have "buf_of m1 ` set as = buf_of m ` set as" using same by (auto simp: image_iff)
  ultimately show ?case
    using step buf_a by (auto simp: m1_def restrict_map_def fun_eq_iff)
qed

text \<open>
  The allocation loop: with the list built so far in \<open>as\<close>, either every node is allocated and
  linked, or everything is freed again.
\<close>

definition fresh_above :: "memory \<Rightarrow> bool" where
  "fresh_above m \<longleftrightarrow> (\<forall>x \<ge> brk m. nodes m x = None \<and> bufs m x = None \<and> x \<notin> structs m)"

definition chain_ok :: "u32 \<Rightarrow> memory \<Rightarrow> addr option \<Rightarrow> addr option \<Rightarrow> addr list \<Rightarrow> bool" where
  "chain_ok bsize m p l as \<longleftrightarrow> linked (nodes m) p as \<and> l = last_opt as \<and> pool_ok (unat bsize) m as"

lemma chain_ok_destroy:
  "chain_ok bsize m p l as \<Longrightarrow>
   destroy_nodes p m = Some (m\<lparr>nodes := nodes m |` (- set as), bufs := bufs m |` {b. Some b \<notin> buf_of m ` set as}\<rparr>)"
  by (rule destroy_nodes_linked) (auto simp: chain_ok_def pool_ok_def node_ok_def buf_of_def)

text \<open>The part of the memory that does not belong to a list of nodes.\<close>

definition rest_of :: "memory \<Rightarrow> addr list \<Rightarrow> memory" where
  "rest_of m as = m\<lparr>nodes := nodes m |` (- set as), bufs := bufs m |` {b. Some b \<notin> buf_of m ` set as}\<rparr>"

definition same_objects :: "memory \<Rightarrow> memory \<Rightarrow> bool" where
  "same_objects m m' \<longleftrightarrow> nodes m = nodes m' \<and> bufs m = bufs m' \<and> structs m = structs m'"

lemma buf_of_frame [simp]: "buf_of (m\<lparr>brk := k\<rparr>) = buf_of m" "buf_of (m\<lparr>structs := S\<rparr>) = buf_of m"
  by (simp_all add: buf_of_def fun_eq_iff)

lemma same_objects_trans: "same_objects m m' \<Longrightarrow> same_objects m' m'' \<Longrightarrow> same_objects m m''"
  by (simp add: same_objects_def)

lemma fresh_aboveD: "fresh_above m \<Longrightarrow> brk m \<le> x \<Longrightarrow> nodes m x = None \<and> bufs m x = None \<and> x \<notin> structs m"
  by (simp add: fresh_above_def)

lemma chain_ok_below:
  assumes "chain_ok bsize m p l as" "fresh_above m" "a \<in> set as"
  shows "a < brk m" "\<exists>b. buf_of m a = Some b \<and> b < brk m"
proof -
  from assms obtain n b buf where "nodes m a = Some n" "node_buffer n = Some b" "bufs m b = Some buf"
    by (auto simp: chain_ok_def pool_ok_def node_ok_def)
  then show "a < brk m" "\<exists>b. buf_of m a = Some b \<and> b < brk m"
    using assms(2) by (auto simp: buf_of_def fresh_above_def not_le [symmetric])
qed

lemma chain_ok_extend:
  assumes ok: "chain_ok bsize m p l as" and fresh: "fresh_above m"
    and m1: "m1 = m\<lparr>brk := Suc (Suc (brk m)), nodes := (nodes m)(brk m \<mapsto> new_node (Some (Suc (brk m)))),
        bufs := (bufs m)(Suc (brk m) \<mapsto> replicate (unat bsize) 0)\<rparr>"
  shows "\<exists>m2. (case l of None \<Rightarrow> Some m1 | Some x \<Rightarrow> do {
        n \<leftarrow> nodes m1 x; Some (m1\<lparr>nodes := (nodes m1)(x \<mapsto> n\<lparr>node_next := Some (brk m)\<rparr>)\<rparr>) }) = Some m2 \<and>
     chain_ok bsize m2 (if l = None then Some (brk m) else p) (Some (brk m)) (as @ [brk m]) \<and>
     fresh_above m2 \<and> brk m2 = brk m + 2 \<and> same_objects (rest_of m2 (as @ [brk m])) (rest_of m as)"
proof -
  let ?c = "brk m"
  have notin: "?c \<notin> set as" using chain_ok_below(1) [OF ok fresh] by fastforce
  have nodes_m1: "nodes m1 = (nodes m)(?c \<mapsto> new_node (Some (Suc ?c)))" by (simp add: m1)
  have buf: "buf_of m1 x = (if x = ?c then Some (Suc ?c) else buf_of m x)" for x
    by (simp add: buf_of_def m1 new_node_def)
  have ok1: "node_ok (unat bsize) m1 a" if "a \<in> set (as @ [?c])" for a
  proof (cases "a = ?c")
    case False
    with that have "a \<in> set as" by simp
    with ok obtain n b buf where "nodes m a = Some n" "node_buffer n = Some b" "bufs m b = Some buf"
        "length buf = unat bsize" "node_len n \<le> unat bsize"
      by (auto simp: chain_ok_def pool_ok_def node_ok_def)
    moreover from this have "b < brk m" using fresh by (auto simp: fresh_above_def not_le [symmetric])
    ultimately show ?thesis using False by (auto simp: node_ok_def m1)
  qed (simp add: node_ok_def m1 new_node_def)
  have inj: "inj_on (buf_of m1) (set (as @ [?c]))"
    using ok chain_ok_below [OF ok fresh] notin
    by (fastforce simp: inj_on_def buf chain_ok_def pool_ok_def)
  have pool: "pool_ok (unat bsize) m1 (as @ [?c])"
    using ok ok1 inj notin by (simp add: pool_ok_def chain_ok_def)
  have lk1: "linked (nodes m1) p as" using ok notin by (simp add: chain_ok_def nodes_m1)
  have fresh1: "fresh_above m1" using fresh by (auto simp: fresh_above_def m1)
  have rest1: "same_objects (rest_of m1 (as @ [?c])) (rest_of m as)"
  proof -
    have "Some b \<notin> buf_of m1 ` set (as @ [?c]) \<longleftrightarrow> b \<noteq> Suc ?c \<and> Some b \<notin> buf_of m ` set as" for b
      using notin by (auto simp: buf image_iff)
    then have "bufs m1 |` {b. Some b \<notin> buf_of m1 ` set (as @ [?c])} = bufs m |` {b. Some b \<notin> buf_of m ` set as}"
      using fresh by (auto simp: restrict_map_def m1 fun_eq_iff fresh_above_def)
    moreover have "nodes m1 |` (- set (as @ [?c])) = nodes m |` (- set as)"
      using fresh by (auto simp: restrict_map_def m1 fun_eq_iff fresh_above_def)
    ultimately show ?thesis by (simp add: same_objects_def rest_of_def m1)
  qed
  show ?thesis
  proof (cases "as = []")
    case True
    with ok pool lk1 fresh1 rest1 show ?thesis
      by (auto simp: chain_ok_def nodes_m1 new_node_def) (simp_all add: m1)
  next
    case False
    then have l: "l = Some (last as)" using ok by (simp add: chain_ok_def last_opt_def)
    obtain n where n: "nodes m1 (last as) = Some n" using linked_dom [OF lk1] False by fastforce
    let ?m2 = "m1\<lparr>nodes := (nodes m1)(last as \<mapsto> n\<lparr>node_next := Some ?c\<rparr>)\<rparr>"
    have "last as \<noteq> ?c" using notin False last_in_set by metis
    moreover have "linked (nodes m1) (Some ?c) [?c]" "distinct as"
      using ok by (simp_all add: nodes_m1 new_node_def chain_ok_def pool_ok_def)
    ultimately have "linked (nodes ?m2) p (as @ [?c])"
      using linked_join [OF lk1 False _ n, of "Some ?c" "[?c]"] by simp
    moreover have "pool_ok k ?m2 = pool_ok k m1" "buf_of ?m2 = buf_of m1" for k
      using relink_pool_ok [OF n] relink_simps(1) [OF n] by simp_all
    moreover from this have "same_objects (rest_of ?m2 (as @ [?c])) (rest_of m1 (as @ [?c]))"
      using False by (auto simp: same_objects_def rest_of_def restrict_map_def fun_eq_iff)
    moreover have "fresh_above ?m2"
      using fresh1 n by (fastforce simp: fresh_above_def)
    ultimately show ?thesis
      using l n pool rest1 by (auto simp: chain_ok_def intro: same_objects_trans) (simp add: m1)
  qed
qed

lemma create_nodes_spec:
  assumes "chain_ok bsize m p l as" "fresh_above m"
  shows "\<exists>code m' p' l'. create_nodes oom bsize k p l m = Some (code, m', p', l') \<and> fresh_above m' \<and>
     (if \<exists>i < 2 * k. oom (brk m + i)
      then code = - ENOMEM \<and> same_objects m' (rest_of m as)
      else code = 0 \<and> (\<exists>bs. length bs = k \<and> chain_ok bsize m' p' l' (as @ bs) \<and>
              same_objects (rest_of m' (as @ bs)) (rest_of m as)))"
  using assms
proof (induction k arbitrary: m p l as)
  case 0
  then show ?case by (auto simp: same_objects_def)
next
  case (Suc k)
  let ?c = "brk m"
  note below = chain_ok_below [OF Suc.prems]
  note free = fresh_aboveD [OF Suc.prems(2)]
  have notin: "?c \<notin> set as" using below(1) by fastforce
  consider (node) "oom ?c" | (buf) "\<not> oom ?c" "oom (Suc ?c)" | (ok) "\<not> oom ?c" "\<not> oom (Suc ?c)" by blast
  then show ?case
  proof cases
    case node
    have "chain_ok bsize (m\<lparr>brk := Suc ?c\<rparr>) p l as"
      using Suc.prems(1) by (simp add: chain_ok_def pool_ok_def node_ok_def buf_of_def)
    from chain_ok_destroy [OF this] node Suc.prems(2) show ?thesis
      by (auto simp: same_objects_def rest_of_def buf_of_def fresh_above_def restrict_map_def intro!: exI [of _ "0::nat"])
  next
    case buf
    let ?m1 = "m\<lparr>brk := Suc (Suc ?c), nodes := (nodes m)(?c \<mapsto> new_node None)\<rparr>"
    have same: "buf_of ?m1 x = buf_of m x" if "x \<in> set as" for x
      using that notin by (auto simp: buf_of_def)
    have img: "buf_of ?m1 ` set as = buf_of m ` set as" using same by (rule image_cong [OF refl])
    have "chain_ok bsize ?m1 p l as"
      using Suc.prems(1) notin same by (auto simp: chain_ok_def pool_ok_def node_ok_def inj_on_def)
    then have "destroy_nodes p ?m1 = Some (?m1\<lparr>nodes := nodes ?m1 |` (- set as),
        bufs := bufs ?m1 |` {b. Some b \<notin> buf_of m ` set as}\<rparr>)"
      unfolding img [symmetric] by (rule chain_ok_destroy)
    with buf Suc.prems(2) notin free [of ?c] show ?thesis
      by (auto simp: Let_def free_node_def same_objects_def rest_of_def fresh_above_def restrict_map_def fun_eq_iff
          intro!: exI [of _ "1::nat"])
  next
    case ok
    from chain_ok_extend [OF Suc.prems refl] obtain m2 where
      m2: "chain_ok bsize m2 (if l = None then Some ?c else p) (Some ?c) (as @ [?c])" "fresh_above m2" "brk m2 = ?c + 2"
        "same_objects (rest_of m2 (as @ [?c])) (rest_of m as)"
      and step: "create_nodes oom bsize (Suc k) p l m =
        create_nodes oom bsize k (if l = None then Some ?c else p) (Some ?c) m2"
      using ok by (auto simp: Let_def)
    have split: "(\<exists>i < 2 * Suc k. oom (?c + i)) \<longleftrightarrow> (\<exists>i < 2 * k. oom (brk m2 + i))"
    proof -
      have "(\<exists>i < 2 * Suc k. oom (?c + i)) \<longleftrightarrow> oom ?c \<or> oom (Suc ?c) \<or> (\<exists>i < 2 * k. oom (?c + (i + 2)))"
        by (simp add: Ex_less_Suc2)
      with ok m2(3) show ?thesis by (simp add: add.assoc add.commute)
    qed
    from Suc.IH [OF m2(1,2)] obtain code m' p' l' where
        r: "create_nodes oom bsize k (if l = None then Some ?c else p) (Some ?c) m2 = Some (code, m', p', l')" "fresh_above m'"
        "if \<exists>i < 2 * k. oom (brk m2 + i) then code = - ENOMEM \<and> same_objects m' (rest_of m2 (as @ [?c]))
         else code = 0 \<and> (\<exists>bs. length bs = k \<and> chain_ok bsize m' p' l' ((as @ [?c]) @ bs) \<and>
              same_objects (rest_of m' ((as @ [?c]) @ bs)) (rest_of m2 (as @ [?c])))"
      by blast
    show ?thesis
    proof (cases "\<exists>i < 2 * k. oom (brk m2 + i)")
      case True
      with r have "code = - ENOMEM" "same_objects m' (rest_of m as)"
        using same_objects_trans [OF _ m2(4)] by simp_all
      with r(1,2) True show ?thesis unfolding step split by simp
    next
      case False
      with r obtain bs where "code = 0" "length bs = k" "chain_ok bsize m' p' l' (as @ ?c # bs)"
          "same_objects (rest_of m' (as @ ?c # bs)) (rest_of m as)"
        using same_objects_trans [OF _ m2(4)] by auto
      with r(1,2) False show ?thesis
        unfolding step split by (auto intro!: exI [of _ "?c # bs"])
    qed
  qed
qed

text \<open>
  Creating a queue either fails and gives back every allocation, or yields an empty well-formed
  queue with all \<^verbatim>\<open>queue_size\<close> nodes free.
\<close>

lemma queue_create_spec:
  assumes "fresh_above m" "qsize \<noteq> 0" "bsize \<noteq> 0"
  shows "\<exists>code m' qo. queue_create oom bsize qsize blck m = Some (code, m', qo) \<and>
     (if \<exists>i \<le> 2 * unat qsize. oom (brk m + i)
      then code = - ENOMEM \<and> qo = None \<and> same_objects m' m
      else code = 0 \<and> (\<exists>q fr. qo = Some q \<and> mem q = m' \<and> queue_rep q fr [] \<and> length fr = unat qsize \<and>
         detached_node q = None \<and> poison_pill q = 0 \<and> buffer_size q = bsize \<and> blocking q = blck \<and>
         self q = brk m \<and> same_objects (rest_of m' fr) (m\<lparr>structs := insert (brk m) (structs m)\<rparr>)))"
proof (cases "oom (brk m)")
  case True
  with assms show ?thesis by (auto simp: queue_create_def same_objects_def intro!: exI [of _ "0::nat"])
next
  case False
  let ?m0 = "m\<lparr>brk := Suc (brk m), structs := insert (brk m) (structs m)\<rparr>"
  have chain0: "chain_ok bsize ?m0 None None []" by (simp add: chain_ok_def pool_ok_def)
  have fresh0: "fresh_above ?m0" using assms(1) by (auto simp: fresh_above_def)
  from create_nodes_spec [OF chain0 fresh0, of oom "unat qsize"] obtain code m' p' l' where
    c: "create_nodes oom bsize (unat qsize) None None ?m0 = Some (code, m', p', l')"
    and r: "if \<exists>i < 2 * unat qsize. oom (brk ?m0 + i)
      then code = - ENOMEM \<and> same_objects m' (rest_of ?m0 [])
      else code = 0 \<and> (\<exists>bs. length bs = unat qsize \<and> chain_ok bsize m' p' l' ([] @ bs) \<and>
              same_objects (rest_of m' ([] @ bs)) (rest_of ?m0 []))"
    by blast
  note r = r [unfolded append_Nil memory.select_convs memory.update_convs]
  have split: "(\<exists>i \<le> 2 * unat qsize. oom (brk m + i)) \<longleftrightarrow> (\<exists>i < 2 * unat qsize. oom (Suc (brk m) + i))"
    using False by (simp add: Ex_less_Suc2 flip: less_Suc_eq_le)
  have rest0: "same_objects (rest_of ?m0 []) ?m0"
    by (simp add: same_objects_def rest_of_def restrict_map_def)
  have gone: "brk m \<notin> structs m" using assms(1) by (simp add: fresh_above_def)
  show ?thesis
  proof (cases "\<exists>i < 2 * unat qsize. oom (Suc (brk m) + i)")
    case True
    with r rest0 gone False assms c show ?thesis
      unfolding split by (auto simp: queue_create_def Let_def same_objects_def rest_of_def)
  next
    case oom_free: False
    with r obtain bs where bs: "code = 0" "length bs = unat qsize" "chain_ok bsize m' p' l' bs"
        "same_objects (rest_of m' bs) (rest_of ?m0 [])"
      by (auto split: if_splits)
    with rest0 oom_free False assms c show ?thesis
      unfolding split
      by (auto simp: queue_create_def Let_def queue_rep_def chain_ok_def same_objects_def intro!: exI [of _ bs])
  qed
qed

lemma buf_of_rest: "x \<notin> set as \<Longrightarrow> buf_of (rest_of m as) x = buf_of m x"
  by (simp add: buf_of_def rest_of_def restrict_map_def)

lemma linked_rest: "set as \<inter> set bs = {} \<Longrightarrow> linked (nodes (rest_of m as)) p bs = linked (nodes m) p bs"
  by (induction bs arbitrary: p) (auto simp: rest_of_def restrict_map_def)

lemma rest_of_sel:
  "nodes (rest_of m as) x = (if x \<in> set as then None else nodes m x)"
  "bufs (rest_of m as) y = (if Some y \<in> buf_of m ` set as then None else bufs m y)"
  "structs (rest_of m as) = structs m" "brk (rest_of m as) = brk m"
  by (auto simp: rest_of_def restrict_map_def)

lemma rest_of_compose: "set as \<inter> set bs = {} \<Longrightarrow> rest_of (rest_of m as) bs = rest_of m (as @ bs)"
proof -
  assume "set as \<inter> set bs = {}"
  then have "buf_of (rest_of m as) ` set bs = buf_of m ` set bs"
    by (intro image_cong) (auto intro: buf_of_rest)
  then show ?thesis
    by (intro memory.equality ext) (simp_all add: rest_of_sel image_Un)
qed

lemma pool_ok_rest:
  assumes "pool_ok k m (as @ bs)"
  shows "pool_ok k (rest_of m as) bs"
proof -
  have disj: "set as \<inter> set bs = {}" using assms by (auto simp: pool_ok_def)
  have same: "buf_of (rest_of m as) x = buf_of m x" if "x \<in> set bs" for x
    using that disj by (intro buf_of_rest) auto
  have "node_ok k (rest_of m as) x" if "x \<in> set bs" for x
  proof -
    have "x \<notin> set as" using that disj by auto
    moreover have "buf_of m x \<notin> buf_of m ` set as"
      using assms that disj by (force simp: pool_ok_def inj_on_def)
    moreover have "node_ok k m x" using assms that by (simp add: pool_ok_def)
    then obtain n b buf where "nodes m x = Some n" "node_buffer n = Some b" "bufs m b = Some buf"
        "length buf = k" "node_len n \<le> k" "buf_of m x = Some b"
      by (auto simp: node_ok_def buf_of_def)
    ultimately show ?thesis by (auto simp: node_ok_def rest_of_sel)
  qed
  then show ?thesis using assms same by (auto simp: pool_ok_def inj_on_def)
qed

lemma pool_ok_destroy:
  assumes "pool_ok k m (as @ bs)" "linked (nodes m) p as"
  shows "destroy_nodes p m = Some (rest_of m as)"
proof -
  have "distinct as" "inj_on (buf_of m) (set as)"
    using assms(1) by (auto simp: pool_ok_def inj_on_def)
  moreover have "\<forall>a \<in> set as. \<exists>b. buf_of m a = Some b \<and> bufs m b \<noteq> None"
  proof
    fix a assume "a \<in> set as"
    with assms(1) have "node_ok k m a" by (auto intro: pool_ok_node)
    then obtain n b buf where "nodes m a = Some n" "node_buffer n = Some b" "bufs m b = Some buf"
      by (auto simp: node_ok_def)
    then show "\<exists>b. buf_of m a = Some b \<and> bufs m b \<noteq> None" by (simp add: buf_of_def)
  qed
  ultimately show ?thesis
    unfolding rest_of_def using assms(2) by (intro destroy_nodes_linked)
qed

text \<open>Destroying a well-formed queue is safe and frees every node, every buffer and the queue.\<close>

lemma destroy_queue_rep:
  assumes rep: "queue_rep q fr fi" and self: "self q \<in> structs (mem q)"
  shows "destroy_queue q = Some ((rest_of (mem q) (fr @ fi @ opt_list (detached_node q)))\<lparr>structs := structs (mem q) - {self q}\<rparr>)"
proof -
  let ?k = "unat (buffer_size q)" and ?det = "opt_list (detached_node q)"
  have pool: "pool_ok ?k (mem q) (fr @ fi @ ?det)" using rep by (simp add: queue_rep_def)
  then have disj: "set fr \<inter> set (fi @ ?det) = {}" "set fi \<inter> set ?det = {}" by (auto simp: pool_ok_def)
  let ?m1 = "rest_of (mem q) fr" and ?m2 = "rest_of (mem q) (fr @ fi)"
  have pool1: "pool_ok ?k ?m1 (fi @ ?det)" using pool_ok_rest [OF pool] by simp
  have m2: "rest_of ?m1 fi = ?m2" using disj by (intro rest_of_compose) auto
  have pool2: "pool_ok ?k ?m2 ?det" using pool_ok_rest [OF pool1] m2 by simp
  have d1: "destroy_nodes (first_free_node q) (mem q) = Some ?m1"
    using pool_ok_destroy [OF pool] rep by (simp add: queue_rep_def)
  have d2: "destroy_nodes (first_filled_node q) ?m1 = Some ?m2"
  proof -
    have "set fr \<inter> set fi = {}" using disj by auto
    with rep have "linked (nodes ?m1) (first_filled_node q) fi" by (simp add: queue_rep_def linked_rest)
    with pool_ok_destroy [OF pool1] m2 show ?thesis by simp
  qed
  have m3: "rest_of ?m2 ?det = rest_of (mem q) (fr @ fi @ ?det)"
  proof -
    have "set (fr @ fi) \<inter> set ?det = {}" using disj by auto
    from rest_of_compose [OF this] show ?thesis by simp
  qed
  have "(case detached_node q of None \<Rightarrow> Some ?m2 | Some a \<Rightarrow> do {
          n \<leftarrow> nodes ?m2 a; m' \<leftarrow> free_buf (node_buffer n) ?m2; free_node a m' }) = Some (rest_of ?m2 ?det)"
  proof (cases "detached_node q")
    case None
    then show ?thesis by (simp add: rest_of_def restrict_map_def)
  next
    case (Some a)
    with pool2 obtain n b buf where "nodes ?m2 a = Some n" "node_buffer n = Some b" "bufs ?m2 b = Some buf"
      by (auto simp: pool_ok_def node_ok_def)
    with Some show ?thesis
      by (auto simp: free_buf_def free_node_def rest_of_def [of ?m2] buf_of_def restrict_map_def fun_eq_iff
          intro!: memory.equality)
  qed
  with d1 d2 self show ?thesis
    by (simp add: destroy_queue_def m3) (simp add: rest_of_def)
qed

section \<open>The contract and its clients\<close>

text \<open>
  A run of the queue is a sequence of operations by the producer and the consumer. Each operation
  yields what its caller observes.
\<close>

datatype queue_op = Put "u8 list queue_message" | Take | Peak | Complete | Interrupt | Reset

datatype queue_obs = OPut put_result | OTake a_take_result | OUnit

fun queue_step :: "queue_op \<Rightarrow> queue \<Rightarrow> (queue_obs \<times> queue) option" where
  "queue_step (Put m) q = do { (r, q') \<leftarrow> queue_put (Some m) q; Some (OPut r, q') }"
| "queue_step Take q = do { (r, q') \<leftarrow> queue_take q; v \<leftarrow> take_view r q'; Some (OTake v, q') }"
| "queue_step Peak q = do { (r, q') \<leftarrow> queue_peak q; v \<leftarrow> take_view r q'; Some (OTake v, q') }"
| "queue_step Complete q = do { q' \<leftarrow> queue_complete q; Some (OUnit, q') }"
| "queue_step Interrupt q = do { q' \<leftarrow> queue_interrupt (Some q); Some (OUnit, q') }"
| "queue_step Reset q = do { q' \<leftarrow> queue_reset q; Some (OUnit, q') }"

text \<open>
  The abstract step is undefined where the caller breaks the protocol of the header file: a
  second take before the message is completed, a completion without a message.
\<close>

fun aqueue_step :: "queue_op \<Rightarrow> aqueue \<Rightarrow> (queue_obs \<times> aqueue) option" where
  "aqueue_step (Put m) a = do { (r, a') \<leftarrow> a_put m a; Some (OPut r, a') }"
| "aqueue_step Take a = (if a_busy a = None then Some (OTake (fst (a_take a)), snd (a_take a)) else None)"
| "aqueue_step Peak a = (if a_busy a = None then Some (OTake (fst (a_peak a)), snd (a_peak a)) else None)"
| "aqueue_step Complete a = (if a_busy a \<noteq> None then Some (OUnit, a_complete a) else None)"
| "aqueue_step Interrupt a = Some (OUnit, a_interrupt a)"
| "aqueue_step Reset a = Some (OUnit, a_reset a)"

fun run_ops :: "('o \<Rightarrow> 's \<Rightarrow> ('b \<times> 's) option) \<Rightarrow> 'o list \<Rightarrow> 's \<Rightarrow> ('b list \<times> 's) option" where
  "run_ops step [] s = Some ([], s)"
| "run_ops step (op # ops) s = do {
     (ob, s') \<leftarrow> step op s;
     (obs, s'') \<leftarrow> run_ops step ops s';
     Some (ob # obs, s'') }"

text \<open>What the producer handed over successfully, and what the consumer received.\<close>

fun accepted :: "queue_op list \<Rightarrow> queue_obs list \<Rightarrow> msg list" where
  "accepted (Put m # ops) (OPut (Ret c) # obs) = (if c = 0 then [msg_of m] else []) @ accepted ops obs"
| "accepted (_ # ops) (_ # obs) = accepted ops obs"
| "accepted _ _ = []"

fun delivered :: "queue_obs list \<Rightarrow> msg list" where
  "delivered (OTake (AMessage m) # obs) = m # delivered obs"
| "delivered (_ # obs) = delivered obs"
| "delivered [] = []"

definition capacity :: "aqueue \<Rightarrow> nat" where
  "capacity a = a_free a + length (a_filled a) + (if a_busy a = None then 0 else 1)"

lemma aqueue_step_Put:
  "aqueue_step (Put m) a = Some (ob, a') \<longleftrightarrow> (\<exists>r. a_put m a = Some (r, a') \<and> ob = OPut r)"
  by (auto split: bind_split)

text \<open>
  The contract of a queue, and what follows from it alone for every run of operations: the run is
  defined, observes what the abstract queue observes and keeps the slots.
\<close>

locale queue_impl =
  fixes step :: "queue_op \<Rightarrow> 's \<Rightarrow> (queue_obs \<times> 's) option"
    and rel :: "'s \<Rightarrow> aqueue \<Rightarrow> bool"
  assumes sim: "rel q a \<Longrightarrow> aqueue_step op a = Some (ob, a') \<Longrightarrow> \<exists>q'. step op q = Some (ob, q') \<and> rel q' a'"
begin

lemma run_sim:
  "rel q a \<Longrightarrow> run_ops aqueue_step ops a = Some (obs, a') \<Longrightarrow>
   \<exists>q'. run_ops step ops q = Some (obs, q') \<and> rel q' a'"
proof (induction ops arbitrary: q a obs)
  case (Cons op ops)
  then obtain ob obs1 a1 where "aqueue_step op a = Some (ob, a1)" "run_ops aqueue_step ops a1 = Some (obs1, a')"
      "obs = ob # obs1"
    by (auto split: bind_splits)
  with sim [OF Cons.prems(1)] Cons.IH show ?case by fastforce
qed simp

end

lemma a_step_fifo:
  assumes "aqueue_step op a = Some (ob, a')" "op \<noteq> Reset" "a_blocking a"
  shows "a_blocking a' \<and> a_filled a @ accepted [op] [ob] = delivered [ob] @ a_filled a'"
  using assms
  by (cases op) (auto simp: a_put_def a_take_def a_peak_def a_detach_def a_complete_def a_interrupt_def
      split: bind_splits if_splits)

lemma accepted_Cons: "accepted (op # ops) (ob # obs) = accepted [op] [ob] @ accepted ops obs"
  by (cases op; cases ob; cases "case ob of OPut r \<Rightarrow> r | _ \<Rightarrow> Wait") simp_all

lemma delivered_Cons: "delivered (ob # obs) = delivered [ob] @ delivered obs"
  by (cases ob; cases "case ob of OTake r \<Rightarrow> r | _ \<Rightarrow> AWaiting") simp_all

lemma a_run_fifo:
  "run_ops aqueue_step ops a = Some (obs, a') \<Longrightarrow> Reset \<notin> set ops \<Longrightarrow> a_blocking a \<Longrightarrow>
   a_filled a @ accepted ops obs = delivered obs @ a_filled a'"
proof (induction ops arbitrary: a obs)
  case (Cons op ops)
  then obtain ob obs1 a1 where s: "aqueue_step op a = Some (ob, a1)" "run_ops aqueue_step ops a1 = Some (obs1, a')"
      and obs: "obs = ob # obs1"
    by (auto split: bind_splits)
  from a_step_fifo [OF s(1)] Cons.prems have "a_blocking a1" "a_filled a @ accepted [op] [ob] = delivered [ob] @ a_filled a1"
    by auto
  moreover from this Cons.IH [OF s(2)] Cons.prems have "a_filled a1 @ accepted ops obs1 = delivered obs1 @ a_filled a'"
    by simp
  ultimately have "a_filled a @ accepted [op] [ob] @ accepted ops obs1 = delivered [ob] @ delivered obs1 @ a_filled a'"
    by (metis append.assoc)
  then show ?case using accepted_Cons [of op ops ob obs1] delivered_Cons [of ob obs1] obs by simp
qed simp

lemma a_step_capacity: "aqueue_step op a = Some (ob, a') \<Longrightarrow> capacity a' = capacity a"
  by (cases op) (auto simp: capacity_def a_put_def a_take_def a_peak_def a_detach_def a_complete_def a_interrupt_def a_reset_def
      split: bind_splits if_splits)

lemma a_run_capacity: "run_ops aqueue_step ops a = Some (obs, a') \<Longrightarrow> capacity a' = capacity a"
proof (induction ops arbitrary: a obs)
  case (Cons op ops)
  then obtain ob obs1 a1 where "aqueue_step op a = Some (ob, a1)" "run_ops aqueue_step ops a1 = Some (obs1, a')"
    by (auto split: bind_splits)
  with Cons.IH a_step_capacity show ?case by metis
qed simp

interpretation mq: queue_impl queue_step queue_rel
proof
  fix q a op ob a'
  assume rel: "queue_rel q a" and step: "aqueue_step op a = Some (ob, a')"
  show "\<exists>q'. queue_step op q = Some (ob, q') \<and> queue_rel q' a'"
  proof (cases op)
    case (Put m)
    with step queue_put_refines [OF rel, of m] show ?thesis by (auto simp: aqueue_step_Put simp del: aqueue_step.simps)
  next
    case Take
    with step queue_take_refines [OF rel] show ?thesis by (fastforce split: if_splits)
  next
    case Peak
    with step queue_peak_refines [OF rel] show ?thesis by (fastforce split: if_splits)
  next
    case Complete
    with step queue_complete_refines [OF rel] show ?thesis by (fastforce split: if_splits)
  next
    case Interrupt
    with step queue_interrupt_refines [OF rel] show ?thesis by auto
  next
    case Reset
    with step queue_reset_refines [OF rel] show ?thesis by auto
  qed
qed

section \<open>What the operations keep allocated\<close>

definition framed :: "queue \<Rightarrow> queue \<Rightarrow> bool" where
  "framed q q' \<longleftrightarrow> self q' = self q \<and> structs (mem q') = structs (mem q) \<and>
     dom (nodes (mem q')) = dom (nodes (mem q)) \<and> dom (bufs (mem q')) = dom (bufs (mem q)) \<and>
     buf_of (mem q') = buf_of (mem q)"

lemma framed_refl [simp]: "framed q q"
  by (simp add: framed_def)

lemma framed_trans: "framed q q1 \<Longrightarrow> framed q1 q2 \<Longrightarrow> framed q q2"
  by (simp add: framed_def)

lemma framed_fields [simp]:
  "framed q (q1\<lparr>first_free_node := p\<rparr>) = framed q q1" "framed q (q1\<lparr>last_free_node := p\<rparr>) = framed q q1"
  "framed q (q1\<lparr>first_filled_node := p\<rparr>) = framed q q1" "framed q (q1\<lparr>last_filled_node := p\<rparr>) = framed q q1"
  "framed q (q1\<lparr>detached_node := p\<rparr>) = framed q q1" "framed q (q1\<lparr>poison_pill := i\<rparr>) = framed q q1"
  by (simp_all add: framed_def)

lemma buf_of_upd:
  "nodes m a = Some n \<Longrightarrow> node_buffer n' = node_buffer n \<Longrightarrow> buf_of (m\<lparr>nodes := (nodes m)(a \<mapsto> n')\<rparr>) = buf_of m"
  by (auto simp: buf_of_def)

lemma buf_of_bufs [simp]: "buf_of (m\<lparr>bufs := f\<rparr>) = buf_of m"
  by (auto simp: buf_of_def)

lemma framed_set_next: "set_next a p q1 = Some q2 \<Longrightarrow> framed q q1 \<Longrightarrow> framed q q2"
  by (erule framed_trans) (clarsimp simp: set_next_def framed_def buf_of_upd insert_absorb domI split: bind_splits)

lemma framed_fill_node: "fill_node a m q1 = Some q2 \<Longrightarrow> framed q q1 \<Longrightarrow> framed q q2"
  by (erule framed_trans)
    (clarsimp simp: fill_node_def framed_def buf_of_upd [of "m\<lparr>bufs := f\<rparr>" for m f, simplified] insert_absorb domI
      split: bind_splits)

lemma framed_node_to_fill: "node_to_fill q1 = Some (a, q2) \<Longrightarrow> framed q q1 \<Longrightarrow> framed q q2"
  by (auto simp: node_to_fill_def Let_def split: bind_splits option.splits if_splits elim!: framed_set_next)

lemma framed_detach_first: "detach_first a q1 = Some (r, q2) \<Longrightarrow> framed q q1 \<Longrightarrow> framed q q2"
  by (auto simp: detach_first_def Let_def split: bind_splits option.splits if_splits elim!: framed_set_next)

lemma framed_step: "queue_step op q = Some (ob, q') \<Longrightarrow> framed q q'"
  by (cases op) (auto simp: queue_put_def queue_take_def queue_peak_def queue_complete_def queue_interrupt_def queue_reset_def
      split: bind_splits option.splits if_splits
      elim!: framed_set_next framed_fill_node framed_node_to_fill framed_detach_first)

lemma framed_run: "run_ops queue_step ops q = Some (obs, q') \<Longrightarrow> framed q q'"
proof (induction ops arbitrary: q obs)
  case (Cons op ops)
  then obtain ob obs1 q1 where "queue_step op q = Some (ob, q1)" "run_ops queue_step ops q1 = Some (obs1, q')"
    by (auto split: bind_splits)
  with Cons.IH framed_step framed_trans show ?case by metis
qed simp

text \<open>A queue as \<^verbatim>\<open>queue_create\<close> leaves it, and a memory in which nothing is allocated.\<close>

definition new_aqueue :: "nat \<Rightarrow> nat \<Rightarrow> bool \<Rightarrow> aqueue" where
  "new_aqueue n bs blck = \<lparr>a_free = n, a_filled = [], a_busy = None, a_poison = False, a_bufsize = bs, a_blocking = blck\<rparr>"

definition empty_memory :: memory where
  "empty_memory = \<lparr>nodes = Map.empty, bufs = Map.empty, structs = {}, brk = 0\<rparr>"

lemma fresh_empty [simp]: "fresh_above empty_memory"
  by (simp add: fresh_above_def empty_memory_def)

lemma queue_create_ok:
  assumes "fresh_above m" "queue_create oom bsize qsize blck m = Some (0, m', Some q)"
  shows "queue_rel q (new_aqueue (unat qsize) (unat bsize) blck)" "mem q = m'" "self q = brk m"
    "\<exists>fr. queue_rep q fr [] \<and> length fr = unat qsize \<and> detached_node q = None \<and>
       same_objects (rest_of m' fr) (m\<lparr>structs := insert (brk m) (structs m)\<rparr>)"
proof -
  have "qsize \<noteq> 0" "bsize \<noteq> 0" using assms(2) by (auto simp: queue_create_def split: if_splits)
  from queue_create_spec [OF assms(1) this, of oom blck] assms(2) obtain fr where
    "mem q = m'" "queue_rep q fr []" "length fr = unat qsize" "detached_node q = None" "poison_pill q = 0"
    "buffer_size q = bsize" "blocking q = blck" "self q = brk m"
    "same_objects (rest_of m' fr) (m\<lparr>structs := insert (brk m) (structs m)\<rparr>)"
    by (auto split: if_splits)
  then show "queue_rel q (new_aqueue (unat qsize) (unat bsize) blck)" "mem q = m'" "self q = brk m"
    "\<exists>fr. queue_rep q fr [] \<and> length fr = unat qsize \<and> detached_node q = None \<and>
       same_objects (rest_of m' fr) (m\<lparr>structs := insert (brk m) (structs m)\<rparr>)"
    by (auto simp: new_aqueue_def queue_abs_def intro!: queue_relI [of q fr "[]"])
qed

lemma queue_rel_capacity:
  assumes "queue_rel q a"
  obtains fr fi where "queue_rep q fr fi" "length (fr @ fi @ opt_list (detached_node q)) = capacity a"
proof -
  from assms obtain fr fi where "queue_rep q fr fi" "a = queue_abs q fr fi" by (auto simp: queue_rel_def)
  with that [of fr fi] show thesis by (cases "detached_node q") (simp_all add: queue_abs_def capacity_def)
qed

lemma pool_ok_dom: "pool_ok k m as \<Longrightarrow> set as \<subseteq> dom (nodes m)"
  by (auto simp: pool_ok_def node_ok_def)

lemma destroy_after_frame:
  assumes q: "queue_rep q fr0 []" "detached_node q = None" "nodes (rest_of (mem q) fr0) = Map.empty"
      "bufs (rest_of (mem q) fr0) = Map.empty" "self q \<in> structs (mem q)"
    and q': "framed q q'" "queue_rep q' fr fi" "length (fr @ fi @ opt_list (detached_node q')) = length fr0"
  shows "\<exists>m. destroy_queue q' = Some m \<and> nodes m = Map.empty \<and> bufs m = Map.empty \<and> structs m = structs (mem q) - {self q}"
proof -
  let ?all = "fr @ fi @ opt_list (detached_node q')"
  have pool0: "pool_ok (unat (buffer_size q)) (mem q) fr0" and pool: "pool_ok (unat (buffer_size q')) (mem q') ?all"
    using q q'(2) by (simp_all add: queue_rep_def)
  have "nodes (rest_of (mem q) fr0) x = None" for x using q(3) by simp
  then have dom: "dom (nodes (mem q)) = set fr0"
    using pool_ok_dom [OF pool0] by (fastforce simp: rest_of_sel split: if_splits)
  have "set ?all \<subseteq> set fr0" using pool_ok_dom [OF pool] q'(1) dom by (simp add: framed_def)
  moreover have "card (set ?all) = card (set fr0)"
    using pool pool0 q'(3) by (simp add: pool_ok_def distinct_card del: set_append)
  ultimately have all: "set ?all = set fr0" by (intro card_subset_eq) auto
  have frame: "buf_of (mem q') = buf_of (mem q)" "dom (nodes (mem q')) = dom (nodes (mem q))"
      "dom (bufs (mem q')) = dom (bufs (mem q))" "structs (mem q') = structs (mem q)" "self q' = self q"
    using q'(1) q(5) by (auto simp: framed_def)
  have "nodes (rest_of (mem q') ?all) x = None" for x
    unfolding rest_of_sel all using frame(2) dom by auto
  moreover have "bufs (rest_of (mem q') ?all) x = None" for x
    unfolding rest_of_sel all frame(1) using frame(3) fun_cong [OF q(4), of x]
    by (auto simp: rest_of_sel split: if_splits)
  ultimately show ?thesis
    using destroy_queue_rep [OF q'(2)] frame(4,5) q(5) by (auto simp: fun_eq_iff)
qed

section \<open>Properties\<close>

text \<open>
  C2. Every run of producer and consumer operations that keeps the protocol of the queue (one
  message is out at a time, a completion follows a take) is free of invalid memory accesses on the
  linked implementation, and every caller observes exactly what the abstract queue says.
\<close>

theorem queue_run_refines:
  assumes "queue_rel q a" "run_ops aqueue_step ops a = Some (obs, a')"
  shows "\<exists>q'. run_ops queue_step ops q = Some (obs, q') \<and> queue_rel q' a'"
  using assms by (rule mq.run_sim)

theorem queue_run_refines_witness:
  "\<exists>m q q'. queue_create (\<lambda>_. False) 4 2 True empty_memory = Some (0, m, Some q) \<and>
     run_ops queue_step
       [Put \<lparr>msg_type = 1, msg_request_id = 7, msg_buffer = [9, 8, 7], msg_buffer_len = 2\<rparr>, Take, Complete, Take] q
     = Some ([OPut (Ret 0), OTake (AMessage (1, 7, [9, 8])), OUnit, OTake AWaiting], q')"
proof -
  obtain m q where c: "queue_create (\<lambda>_. False) 4 2 True empty_memory = Some (0, m, Some q)"
    using queue_create_spec [of empty_memory 2 4 "\<lambda>_. False" True] by auto
  have r: "queue_rel q (new_aqueue 2 4 True)" using queue_create_ok(1) [OF fresh_empty c] by simp
  have "run_ops aqueue_step
      [Put \<lparr>msg_type = 1, msg_request_id = 7, msg_buffer = [9, 8, 7], msg_buffer_len = 2\<rparr>, Take, Complete, Take]
      (new_aqueue 2 4 True)
    = Some ([OPut (Ret 0), OTake (AMessage (1, 7, [9, 8])), OUnit, OTake AWaiting], new_aqueue 2 4 True)"
    by (simp add: new_aqueue_def a_put_def msg_of_def a_take_def a_detach_def a_complete_def)
  from queue_run_refines [OF r this] c show ?thesis by blast
qed

text \<open>
  C1. FIFO without loss: from the creation of a blocking queue on, for every interleaving of the
  producer and the consumer that does not reset the queue, the messages the consumer received are
  a prefix of the messages whose \<^verbatim>\<open>queue_put\<close> returned 0, with type, request id and payload, in the
  same order, and at most \<^verbatim>\<open>queue_size\<close> accepted messages are outstanding.
\<close>

theorem queue_fifo:
  assumes "fresh_above m" "queue_create oom bsize qsize True m = Some (0, m', Some q)"
    and "run_ops aqueue_step ops (new_aqueue (unat qsize) (unat bsize) True) = Some (obs, a')" "Reset \<notin> set ops"
  shows "\<exists>q' pending. run_ops queue_step ops q = Some (obs, q') \<and>
    accepted ops obs = delivered obs @ pending \<and> length pending \<le> unat qsize"
proof -
  note rel = queue_create_ok(1) [OF assms(1,2)]
  from mq.run_sim [OF rel assms(3)] obtain q' where "run_ops queue_step ops q = Some (obs, q')" by blast
  moreover have "accepted ops obs = delivered obs @ a_filled a'"
    using a_run_fifo [OF assms(3,4)] by (simp add: new_aqueue_def)
  moreover have "length (a_filled a') \<le> unat qsize"
    using a_run_capacity [OF assms(3)] by (simp add: capacity_def new_aqueue_def)
  ultimately show ?thesis by blast
qed

theorem queue_fifo_witness:
  "\<exists>m q q' obs pending. queue_create (\<lambda>_. False) 4 2 True empty_memory = Some (0, m, Some q) \<and>
     run_ops queue_step
       [Put \<lparr>msg_type = 1, msg_request_id = 7, msg_buffer = [9], msg_buffer_len = 1\<rparr>,
        Put \<lparr>msg_type = 2, msg_request_id = 8, msg_buffer = [6], msg_buffer_len = 1\<rparr>, Take] q = Some (obs, q') \<and>
     delivered obs = [(1, 7, [9])] \<and> pending = [(2, 8, [6])] \<and> length pending \<le> 2"
proof -
  obtain m q where c: "queue_create (\<lambda>_. False) 4 2 True empty_memory = Some (0, m, Some q)"
    using queue_create_spec [of empty_memory 2 4 "\<lambda>_. False" True] by auto
  have "run_ops aqueue_step
       [Put \<lparr>msg_type = 1, msg_request_id = 7, msg_buffer = [9], msg_buffer_len = 1\<rparr>,
        Put \<lparr>msg_type = 2, msg_request_id = 8, msg_buffer = [6], msg_buffer_len = 1\<rparr>, Take]
      (new_aqueue (unat (2 :: 16 word)) (unat (4 :: 32 word)) True)
    = Some ([OPut (Ret 0), OPut (Ret 0), OTake (AMessage (1, 7, [9]))],
        \<lparr>a_free = 0, a_filled = [(2, 8, [6])], a_busy = Some (1, 7, [9]), a_poison = False, a_bufsize = 4, a_blocking = True\<rparr>)"
    by (simp add: new_aqueue_def a_put_def msg_of_def a_take_def a_detach_def)
  from queue_fifo [OF fresh_empty c this] obtain q' where
    "run_ops queue_step
       [Put \<lparr>msg_type = 1, msg_request_id = 7, msg_buffer = [9], msg_buffer_len = 1\<rparr>,
        Put \<lparr>msg_type = 2, msg_request_id = 8, msg_buffer = [6], msg_buffer_len = 1\<rparr>, Take] q
     = Some ([OPut (Ret 0), OPut (Ret 0), OTake (AMessage (1, 7, [9]))], q')" by auto
  with c show ?thesis by fastforce
qed

text \<open>
  \<^verbatim>\<open>queue_create\<close> is all or nothing: if any of its \<open>2 * queue_size + 1\<close> allocations fails it
  returns \<^verbatim>\<open>-ENOMEM\<close> and every object it had allocated is freed again; otherwise it returns 0 and an
  empty well-formed queue. No path accesses memory it does not own.
\<close>

theorem queue_create_all_or_nothing:
  assumes "fresh_above m" "qsize \<noteq> 0" "bsize \<noteq> 0"
  shows "\<exists>code m' qo. queue_create oom bsize qsize blck m = Some (code, m', qo) \<and>
    (if \<exists>i \<le> 2 * unat qsize. oom (brk m + i) then code = - ENOMEM \<and> qo = None \<and> same_objects m' m
     else code = 0 \<and> (\<exists>q. qo = Some q \<and> queue_rel q (new_aqueue (unat qsize) (unat bsize) blck)))"
proof (cases "\<exists>i \<le> 2 * unat qsize. oom (brk m + i)")
  case True
  with queue_create_spec [OF assms, of oom blck] show ?thesis by simp
next
  case False
  with queue_create_spec [OF assms, of oom blck] obtain m' q where
    "queue_create oom bsize qsize blck m = Some (0, m', Some q)" by auto
  with queue_create_ok(1) [OF assms(1)] False show ?thesis by auto
qed

theorem queue_create_all_or_nothing_witness:
  "\<exists>code m' qo. queue_create (\<lambda>k. k = 4) 16 2 True empty_memory = Some (code, m', qo) \<and>
     code = - ENOMEM \<and> qo = None \<and> same_objects m' empty_memory"
proof -
  have "\<exists>i \<le> 2 * unat (2 :: 16 word). brk empty_memory + i = 4"
    by (auto simp: empty_memory_def)
  with queue_create_all_or_nothing [of empty_memory 2 16 "\<lambda>k. k = 4" True] show ?thesis by simp
qed

text \<open>
  C31. No leak over the life of a queue: after the creation in an empty memory and any run that
  keeps the protocol, \<^verbatim>\<open>destroy_queue\<close> is safe and frees everything, whether the nodes are free,
  filled or detached at that moment.
\<close>

theorem queue_lifetime_no_leak:
  assumes "queue_create oom bsize qsize blck empty_memory = Some (0, m', Some q)"
    and "run_ops aqueue_step ops (new_aqueue (unat qsize) (unat bsize) blck) = Some (obs, a')"
  shows "\<exists>q' m. run_ops queue_step ops q = Some (obs, q') \<and> destroy_queue q' = Some m \<and>
    nodes m = Map.empty \<and> bufs m = Map.empty \<and> structs m = {}"
proof -
  note new = queue_create_ok [OF fresh_empty assms(1)]
  from new(4) obtain fr0 where fr0: "queue_rep q fr0 []" "length fr0 = unat qsize" "detached_node q = None"
      "same_objects (rest_of m' fr0) (empty_memory\<lparr>structs := insert (brk empty_memory) (structs empty_memory)\<rparr>)"
    by blast
  from mq.run_sim [OF new(1) assms(2)] obtain q' where run: "run_ops queue_step ops q = Some (obs, q')" "queue_rel q' a'"
    by blast
  from run(2) obtain fr fi where rep: "queue_rep q' fr fi" "length (fr @ fi @ opt_list (detached_node q')) = capacity a'"
    by (rule queue_rel_capacity)
  have "capacity a' = length fr0"
    using a_run_capacity [OF assms(2)] fr0(2) by (simp add: capacity_def new_aqueue_def)
  with destroy_after_frame [OF fr0(1,3) _ _ _ framed_run [OF run(1)] rep(1)] fr0(4) new(2,3) rep(2) run(1) show ?thesis
    by (auto simp: same_objects_def empty_memory_def rest_of_sel)
qed

theorem queue_lifetime_no_leak_witness:
  "\<exists>m' q q' m. queue_create (\<lambda>_. False) 4 2 True empty_memory = Some (0, m', Some q) \<and>
     run_ops queue_step
       [Put \<lparr>msg_type = 1, msg_request_id = 7, msg_buffer = [9], msg_buffer_len = 1\<rparr>, Take] q
     = Some ([OPut (Ret 0), OTake (AMessage (1, 7, [9]))], q') \<and>
     destroy_queue q' = Some m \<and> nodes m = Map.empty \<and> bufs m = Map.empty \<and> structs m = {}"
proof -
  obtain m q where c: "queue_create (\<lambda>_. False) 4 2 True empty_memory = Some (0, m, Some q)"
    using queue_create_spec [of empty_memory 2 4 "\<lambda>_. False" True] by auto
  have "run_ops aqueue_step
      [Put \<lparr>msg_type = 1, msg_request_id = 7, msg_buffer = [9], msg_buffer_len = 1\<rparr>, Take]
      (new_aqueue (unat (2 :: 16 word)) (unat (4 :: 32 word)) True)
    = Some ([OPut (Ret 0), OTake (AMessage (1, 7, [9]))],
        \<lparr>a_free = 1, a_filled = [], a_busy = Some (1, 7, [9]), a_poison = False, a_bufsize = 4, a_blocking = True\<rparr>)"
    by (simp add: new_aqueue_def a_put_def msg_of_def a_take_def a_detach_def)
  from queue_lifetime_no_leak [OF c this] c show ?thesis by blast
qed

text \<open>
  A non-blocking queue drops the newest message when it is full: the last filled message is
  overwritten and every other message is kept. The one case the code does not handle is a put
  while every node is detached (no free and no filled node), where \<^verbatim>\<open>last_filled_node\<close> is \<^verbatim>\<open>NULL\<close>
  and is dereferenced.
\<close>

theorem queue_put_nonblocking:
  assumes "queue_rel q a" "\<not> a_blocking a" "msg_buffer_len m \<le> a_bufsize a" "msg_buffer_len m \<le> length (msg_buffer m)"
  shows "(queue_put (Some m) q = None) = (a_free a = 0 \<and> a_filled a = []) \<and>
    (a_free a = 0 \<and> a_filled a \<noteq> [] \<longrightarrow>
      (\<exists>q'. queue_put (Some m) q = Some (Ret 0, q') \<and> queue_rel q' (a\<lparr>a_filled := butlast (a_filled a) @ [msg_of m]\<rparr>)))"
  using queue_put_refines [OF assms(1), of m] assms(2,3,4) by (auto simp: a_put_def split: if_splits)

theorem queue_put_nonblocking_witness:
  "\<exists>mm q q'. queue_create (\<lambda>_. False) 4 1 False empty_memory = Some (0, mm, Some q) \<and>
     run_ops queue_step [Put \<lparr>msg_type = 1, msg_request_id = 7, msg_buffer = [9], msg_buffer_len = 1\<rparr>, Take] q
       = Some ([OPut (Ret 0), OTake (AMessage (1, 7, [9]))], q') \<and>
     queue_put (Some \<lparr>msg_type = 1, msg_request_id = 7, msg_buffer = [9], msg_buffer_len = 1\<rparr>) q' = None"
proof -
  obtain mm q where c: "queue_create (\<lambda>_. False) 4 1 False empty_memory = Some (0, mm, Some q)"
    using queue_create_spec [of empty_memory 1 4 "\<lambda>_. False" False] by auto
  have r: "queue_rel q (new_aqueue 1 4 False)" using queue_create_ok(1) [OF fresh_empty c] by simp
  have "run_ops aqueue_step [Put \<lparr>msg_type = 1, msg_request_id = 7, msg_buffer = [9], msg_buffer_len = 1\<rparr>, Take]
      (new_aqueue 1 4 False)
    = Some ([OPut (Ret 0), OTake (AMessage (1, 7, [9]))],
        \<lparr>a_free = 0, a_filled = [], a_busy = Some (1, 7, [9]), a_poison = False, a_bufsize = 4, a_blocking = False\<rparr>)"
    by (simp add: new_aqueue_def a_put_def msg_of_def a_take_def a_detach_def)
  from mq.run_sim [OF r this] obtain q' where q': "run_ops queue_step
      [Put \<lparr>msg_type = 1, msg_request_id = 7, msg_buffer = [9], msg_buffer_len = 1\<rparr>, Take] q
      = Some ([OPut (Ret 0), OTake (AMessage (1, 7, [9]))], q')"
    "queue_rel q' \<lparr>a_free = 0, a_filled = [], a_busy = Some (1, 7, [9]), a_poison = False, a_bufsize = 4, a_blocking = False\<rparr>"
    by blast
  with queue_put_nonblocking [OF q'(2), of "\<lparr>msg_type = 1, msg_request_id = 7, msg_buffer = [9], msg_buffer_len = 1\<rparr>"] c
  show ?thesis by auto
qed

lemma a_drain:
  "a_busy a = None \<Longrightarrow> a_poison a \<Longrightarrow> \<exists>obs a'.
     run_ops aqueue_step (concat (replicate (length (a_filled a)) [Take, Complete]) @ [Take]) a = Some (obs, a') \<and>
     delivered obs = a_filled a \<and> last obs = OTake ANoMessage"
proof (induction "length (a_filled a)" arbitrary: a)
  case 0
  then show ?case by (simp add: a_take_def)
next
  case (Suc n)
  let ?a1 = "a_complete (snd (a_detach a))"
  obtain x xs where xs: "a_filled a = x # xs" using Suc.hyps(2) by (cases "a_filled a") auto
  from Suc.hyps(1) [of ?a1] Suc.prems xs Suc.hyps(2) obtain obs a' where
    o: "run_ops aqueue_step (concat (replicate (length xs) [Take, Complete]) @ [Take]) ?a1 = Some (obs, a')"
    "delivered obs = xs" "last obs = OTake ANoMessage"
    by (auto simp: a_complete_def a_detach_def)
  moreover from this(3) have "obs \<noteq> []" using o(1) by (cases "length xs") (auto split: bind_splits if_splits)
  ultimately show ?case using Suc.prems xs by (cases x) (auto simp: a_take_def a_detach_def)
qed

text \<open>
  An interrupt drains: after \<^verbatim>\<open>interrupt_waiting_the_data\<close> every blocking put is refused, the
  consumer still receives every pending message in order, and then, instead of blocking, is told
  that no message will come.
\<close>

theorem queue_interrupt_drains:
  assumes "queue_rel q a" "a_busy a = None"
  shows "\<exists>q1 obs q'. queue_step Interrupt q = Some (OUnit, q1) \<and>
    (\<forall>m. a_blocking a \<longrightarrow> queue_put (Some m) q1 = Some (Ret (-1), q1)) \<and>
    run_ops queue_step (concat (replicate (length (a_filled a)) [Take, Complete]) @ [Take]) q1 = Some (obs, q') \<and>
    delivered obs = a_filled a \<and> last obs = OTake ANoMessage"
proof -
  from mq.sim [OF assms(1), of Interrupt] obtain q1 where q1: "queue_step Interrupt q = Some (OUnit, q1)" "queue_rel q1 (a_interrupt a)"
    by auto
  from a_drain [of "a_interrupt a"] assms(2) obtain obs a' where
    "run_ops aqueue_step (concat (replicate (length (a_filled a)) [Take, Complete]) @ [Take]) (a_interrupt a) = Some (obs, a')"
    "delivered obs = a_filled a" "last obs = OTake ANoMessage"
    by (auto simp: a_interrupt_def)
  with mq.run_sim [OF q1(2)] have "\<exists>obs q'.
      run_ops queue_step (concat (replicate (length (a_filled a)) [Take, Complete]) @ [Take]) q1 = Some (obs, q') \<and>
      delivered obs = a_filled a \<and> last obs = OTake ANoMessage"
    by blast
  moreover have "a_blocking a \<longrightarrow> queue_put (Some m) q1 = Some (Ret (-1), q1)" for m
    using q1 assms(1) by (auto simp: queue_put_def queue_interrupt_def queue_rel_def queue_abs_def)
  ultimately show ?thesis using q1(1) by blast
qed

theorem queue_interrupt_drains_witness:
  "\<exists>mm q q1 obs q'. queue_create (\<lambda>_. False) 4 2 True empty_memory = Some (0, mm, Some q) \<and>
     queue_step Interrupt q = Some (OUnit, q1) \<and> run_ops queue_step [Take] q1 = Some (obs, q') \<and>
     delivered obs = [] \<and> last obs = OTake ANoMessage"
proof -
  obtain mm q where c: "queue_create (\<lambda>_. False) 4 2 True empty_memory = Some (0, mm, Some q)"
    using queue_create_spec [of empty_memory 2 4 "\<lambda>_. False" True] by auto
  have "queue_rel q (new_aqueue 2 4 True)" using queue_create_ok(1) [OF fresh_empty c] by simp
  from queue_interrupt_drains [OF this] c show ?thesis by (simp add: new_aqueue_def del: run_ops.simps) blast
qed

end
