(* ===== verification/WorkerAlloc.thy ===== *)
theory WorkerAlloc
  imports Queue
begin

text \<open>
  Allocation of the worker structures, which own a queue next to plain \<^verbatim>\<open>malloc\<close> blocks: what the
  constructors and destructors of \<^verbatim>\<open>client_tx_worker.c\<close>, \<^verbatim>\<open>sdr_tx_worker.c\<close> and \<^verbatim>\<open>sdr_rx_worker.c\<close>
  share. The plain blocks are the \<open>structs\<close> of the memory.
\<close>

definition malloc_struct :: "(nat \<Rightarrow> bool) \<Rightarrow> memory \<Rightarrow> addr option \<times> memory" where
  "malloc_struct oom m =
    (if oom (brk m) then (None, m\<lparr>brk := Suc (brk m)\<rparr>)
     else (Some (brk m), m\<lparr>brk := Suc (brk m), structs := insert (brk m) (structs m)\<rparr>))"

definition free_struct :: "addr option \<Rightarrow> memory \<Rightarrow> memory option" where
  "free_struct p m = (case p of None \<Rightarrow> Some m
     | Some a \<Rightarrow> if a \<in> structs m then Some (m\<lparr>structs := structs m - {a}\<rparr>) else None)"

section \<open>Freshness\<close>

lemma malloc_struct_fresh: "fresh_above m \<Longrightarrow> malloc_struct oom m = (p, m') \<Longrightarrow> fresh_above m'"
  by (auto simp: malloc_struct_def fresh_above_def split: if_splits)

text \<open>Freeing only removes objects.\<close>

definition shrunk :: "memory \<Rightarrow> memory \<Rightarrow> bool" where
  "shrunk m m' \<longleftrightarrow> brk m' = brk m \<and> structs m' \<subseteq> structs m \<and> (\<forall>x. nodes m x = None \<longrightarrow> nodes m' x = None) \<and>
     (\<forall>x. bufs m x = None \<longrightarrow> bufs m' x = None)"

lemma shrunk_fresh: "fresh_above m \<Longrightarrow> shrunk m m' \<Longrightarrow> fresh_above m'"
  by (auto simp: shrunk_def fresh_above_def)

lemma free_shrunk: "free_buf p m = Some m1 \<Longrightarrow> free_node a m1 = Some m2 \<Longrightarrow> shrunk m m2"
  by (auto simp: free_buf_def free_node_def shrunk_def split: option.splits if_splits)

lemma free_node_shrunk: "free_node a m = Some m' \<Longrightarrow> shrunk m m'"
  by (auto simp: free_node_def shrunk_def split: if_splits)

lemma shrunk_trans: "shrunk m m1 \<Longrightarrow> shrunk m1 m2 \<Longrightarrow> shrunk m m2"
  by (auto simp: shrunk_def)

lemma destroy_nodes_shrunk:
  assumes "destroy_nodes p m = Some m'"
  shows "shrunk m m'"
proof (rule destroy_nodes.raw_induct [of "\<lambda>p m m'. shrunk m m'", OF _ assms])
  fix destroy p m m'
  assume IH: "\<And>p m m'. destroy p m = Some m' \<Longrightarrow> shrunk m m'"
    and step: "(case p of None \<Rightarrow> Some m | Some a \<Rightarrow> do {
      n \<leftarrow> nodes m a; m1 \<leftarrow> free_buf (node_buffer n) m; m2 \<leftarrow> free_node a m1; destroy (node_next n) m2 }) = Some m'"
  show "shrunk m m'"
  proof (cases p)
    case (Some a)
    with step obtain n :: queue_node and m1 m2 where "free_buf (node_buffer n) m = Some m1" "free_node a m1 = Some m2"
        "destroy (node_next n) m2 = Some m'"
      by (auto simp: bind_eq_Some)
    with free_shrunk IH shrunk_trans show ?thesis by blast
  qed (use step in \<open>simp add: shrunk_def\<close>)
qed

lemma create_nodes_fresh:
  "create_nodes oom bsize k p l m = Some (c, m', p', l') \<Longrightarrow> fresh_above m \<Longrightarrow> fresh_above m'"
proof (induction oom bsize k p l m rule: create_nodes.induct)
  case (2 oom bsize k p l m)
  let ?c = "brk m"
  let ?m1 = "m\<lparr>brk := Suc (Suc ?c), nodes := (nodes m)(?c \<mapsto> new_node (Some (Suc ?c))),
      bufs := (bufs m)(Suc ?c \<mapsto> replicate (unat bsize) 0)\<rparr>"
  show ?case
  proof (cases "oom ?c \<or> oom (Suc ?c)")
    case True
    have "fresh_above (m\<lparr>brk := Suc ?c\<rparr>)" "fresh_above (m\<lparr>brk := Suc (Suc ?c), nodes := (nodes m)(?c \<mapsto> new_node None)\<rparr>)"
      using "2.prems"(2) by (auto simp: fresh_above_def)
    with True "2.prems"(1) show ?thesis
      by (auto simp: Let_def bind_eq_Some split: if_splits
          intro: shrunk_fresh dest!: destroy_nodes_shrunk free_node_shrunk)
  next
    case False
    have f1: "fresh_above ?m1" using "2.prems"(2) by (auto simp: fresh_above_def)
    show ?thesis
    proof (cases l)
      case None
      with "2.IH" [OF refl refl, of ?m1 ?m1] False f1 "2.prems"(1) show ?thesis by (simp add: Let_def)
    next
      case (Some a)
      with "2.prems"(1) False obtain n where n: "nodes ?m1 a = Some n"
          "create_nodes oom bsize k p (Some ?c) (?m1\<lparr>nodes := (nodes ?m1)(a \<mapsto> n\<lparr>node_next := Some ?c\<rparr>)\<rparr>) = Some (c, m', p', l')"
        by (auto simp: Let_def split: bind_splits)
      have "fresh_above (?m1\<lparr>nodes := (nodes ?m1)(a \<mapsto> n\<lparr>node_next := Some ?c\<rparr>)\<rparr>)"
        using f1 n(1) by (auto simp: fresh_above_def split: if_splits)
      with "2.IH" [OF refl refl, of ?m1 "?m1\<lparr>nodes := (nodes ?m1)(a \<mapsto> n\<lparr>node_next := Some ?c\<rparr>)\<rparr>"] n False Some
      show ?thesis by simp
    qed
  qed
qed simp

lemma queue_create_fresh:
  assumes "queue_create oom bsize qsize blck m = Some (c, m', q)" "fresh_above m"
  shows "fresh_above m'"
proof -
  have "fresh_above (m\<lparr>brk := Suc (brk m)\<rparr>)" "fresh_above (m\<lparr>brk := Suc (brk m), structs := insert (brk m) (structs m)\<rparr>)"
    using assms(2) by (auto simp: fresh_above_def)
  moreover have "fresh_above (m'\<lparr>structs := structs m' - S\<rparr>)" if "fresh_above m'" for m' S
    using that by (auto simp: fresh_above_def)
  ultimately show ?thesis
    using assms by (auto simp: queue_create_def Let_def split: if_splits bind_splits dest!: create_nodes_fresh)
qed

section \<open>A new queue is destroyed without a trace\<close>

lemma queue_rep_mem:
  "nodes m' = nodes (mem q) \<Longrightarrow> bufs m' = bufs (mem q) \<Longrightarrow> queue_rep (q\<lparr>mem := m', poison_pill := pp\<rparr>) fr fi = queue_rep q fr fi"
  by (simp add: queue_rep_def pool_ok_def node_ok_def buf_of_def inj_on_def)

text \<open>Allocations of other parts of the program do not disturb a queue.\<close>

lemma queue_rel_frame:
  assumes "nodes m' = nodes (mem q)" "bufs m' = bufs (mem q)"
  shows "queue_rel (q\<lparr>mem := m'\<rparr>) a = queue_rel q a"
proof -
  have "queue_rep (q\<lparr>mem := m'\<rparr>) fr fi = queue_rep q fr fi" for fr fi
    using assms by (simp add: queue_rep_def pool_ok_def node_ok_def buf_of_def inj_on_def)
  moreover have "queue_abs (q\<lparr>mem := m'\<rparr>) fr fi = queue_abs q fr fi" for fr fi
  proof -
    have "node_msg m' = node_msg (mem q)" using assms by (intro ext) (simp add: node_msg_def split: option.split)
    then show ?thesis by (simp add: queue_abs_def)
  qed
  ultimately show ?thesis by (simp add: queue_rel_def)
qed

lemma destroy_new_queue:
  assumes "fresh_above m" "queue_create oom bsize qsize blck m = Some (0, m', Some q)"
    and "nodes m2 = nodes m'" "bufs m2 = bufs m'" "brk m \<in> structs m2"
  shows "\<exists>m3. destroy_queue (q\<lparr>mem := m2, poison_pill := pp\<rparr>) = Some m3 \<and> nodes m3 = nodes m \<and> bufs m3 = bufs m \<and>
    structs m3 = structs m2 - {brk m}"
proof -
  note new = queue_create_ok [OF assms(1,2)]
  from new(4) obtain fr where fr: "queue_rep q fr []" "detached_node q = None"
      "same_objects (rest_of m' fr) (m\<lparr>structs := insert (brk m) (structs m)\<rparr>)" by blast
  let ?q = "q\<lparr>mem := m2, poison_pill := pp\<rparr>"
  have rep: "queue_rep ?q fr []" using queue_rep_mem [of m2 q pp fr "[]"] fr(1) assms(3,4) new(2) by simp
  have "rest_of m2 fr = (rest_of m' fr)\<lparr>structs := structs m2, brk := brk m2\<rparr>"
    using assms(3,4) by (simp add: rest_of_def buf_of_def)
  with destroy_queue_rep [OF rep] new(3) assms(5) fr(2,3) show ?thesis
    by (simp add: same_objects_def)
qed

end
