(* ===== verification/Api.thy ===== *)
theory Api
  imports Settings
begin

text \<open>
  The wire format of \<^verbatim>\<open>src/api.c\<close>: message headers, responses and the communication settings,
  encoded big-endian into caller-provided buffers. Every access is checked against the real size
  of the buffer, next to the \<^verbatim>\<open>buffer_len\<close> the caller passes, so that the bounds checks of the
  source carry the safety proofs. The locale \<open>codec\<close> is the contract of an encoder and a decoder
  for the same format; headers, responses and settings are its three instances.
\<close>

abbreviation (input) "API_HEADER_SIZE \<equiv> 10 :: nat"
abbreviation (input) "API_RESPONSE_SIZE \<equiv> 2 :: nat"
abbreviation (input) "API_SDR_SIZE \<equiv> 20 :: nat"
abbreviation (input) "API_GFSK_SIZE \<equiv> 41 :: nat"
abbreviation (input) "API_PSK_SIZE \<equiv> 26 :: nat"
abbreviation (input) "API_PSK_PM_SIZE \<equiv> 38 :: nat"
abbreviation (input) PROTOCOL_VERSION :: u8 where "PROTOCOL_VERSION \<equiv> 0"

section \<open>Data\<close>

record message_header =
  protocol_version :: u8
  type :: u8
  request_id :: u32
  message_length :: u32

record response =
  status :: u8
  details :: u8

section \<open>Integers on the wire\<close>

definition read_u32 :: "u8 list \<Rightarrow> nat \<Rightarrow> u32 option" where
  "read_u32 p o1 = do {
     a \<leftarrow> get_at p o1; b \<leftarrow> get_at p (o1 + 1); c \<leftarrow> get_at p (o1 + 2); d \<leftarrow> get_at p (o1 + 3);
     Some (push_bit 24 (ucast a) OR push_bit 16 (ucast b) OR push_bit 8 (ucast c) OR ucast d) }"

definition write_u32 :: "u8 list \<Rightarrow> nat \<Rightarrow> u32 \<Rightarrow> u8 list option" where
  "write_u32 p o1 v = do {
     p \<leftarrow> set_at p o1 (ucast (drop_bit 24 v));
     p \<leftarrow> set_at p (o1 + 1) (ucast (drop_bit 16 v));
     p \<leftarrow> set_at p (o1 + 2) (ucast (drop_bit 8 v));
     set_at p (o1 + 3) (ucast v) }"

definition read_u64 :: "u8 list \<Rightarrow> nat \<Rightarrow> u64 option" where
  "read_u64 p o1 = do {
     a \<leftarrow> read_u32 p o1; b \<leftarrow> read_u32 p (o1 + 4);
     Some (push_bit 32 (ucast a) OR ucast b) }"

definition write_u64 :: "u8 list \<Rightarrow> nat \<Rightarrow> u64 \<Rightarrow> u8 list option" where
  "write_u64 p o1 v = do {
     p \<leftarrow> write_u32 p o1 (ucast (drop_bit 32 v));
     write_u32 p (o1 + 4) (ucast v) }"

text \<open>A float is its bit pattern, so the \<^verbatim>\<open>memcpy\<close> between both is the identity.\<close>

definition read_f32 :: "u8 list \<Rightarrow> nat \<Rightarrow> f32 option" where
  "read_f32 p o1 = read_u32 p o1"

definition write_f32 :: "u8 list \<Rightarrow> nat \<Rightarrow> f32 \<Rightarrow> u8 list option" where
  "write_f32 p o1 v = write_u32 p o1 v"

section \<open>Messages\<close>

text \<open>
  A decoder answers the return code and, on success, the decoded value; an encoder answers the
  return code, the buffer afterwards and, on success, the number of bytes written.
\<close>

definition api_decode_message_header :: "u8 list option \<Rightarrow> nat \<Rightarrow> (int \<times> message_header option) option" where
  "api_decode_message_header buffer buffer_len = (case buffer of
     None \<Rightarrow> Some (-1, None)
   | Some p \<Rightarrow> if buffer_len < API_HEADER_SIZE then Some (-1, None) else do {
       v \<leftarrow> get_at p 0; t \<leftarrow> get_at p 1; i \<leftarrow> read_u32 p 2; l \<leftarrow> read_u32 p 6;
       Some (0, Some \<lparr>protocol_version = v, type = t, request_id = i, message_length = l\<rparr>) })"

definition api_encode_message_header ::
  "message_header option \<Rightarrow> u8 list option \<Rightarrow> nat \<Rightarrow> (int \<times> u8 list option \<times> nat option) option" where
  "api_encode_message_header header buffer buffer_len = (case (header, buffer) of
     (Some h, Some p) \<Rightarrow> if buffer_len < API_HEADER_SIZE then Some (-1, buffer, None) else do {
       p \<leftarrow> set_at p 0 (protocol_version h);
       p \<leftarrow> set_at p 1 (type h);
       p \<leftarrow> write_u32 p 2 (request_id h);
       p \<leftarrow> write_u32 p 6 (message_length h);
       Some (0, Some p, Some API_HEADER_SIZE) }
   | _ \<Rightarrow> Some (-1, buffer, None))"

definition api_encode_response ::
  "response option \<Rightarrow> u8 list option \<Rightarrow> nat \<Rightarrow> (int \<times> u8 list option \<times> nat option) option" where
  "api_encode_response resp buffer buffer_len = (case (resp, buffer) of
     (Some r, Some p) \<Rightarrow> if buffer_len < API_RESPONSE_SIZE then Some (-1, buffer, None) else do {
       p \<leftarrow> set_at p 0 (status r);
       p \<leftarrow> set_at p 1 (details r);
       Some (0, Some p, Some API_RESPONSE_SIZE) }
   | _ \<Rightarrow> Some (-1, buffer, None))"

definition api_decode_response :: "u8 list option \<Rightarrow> nat \<Rightarrow> (int \<times> response option) option" where
  "api_decode_response buffer buffer_len = (case buffer of
     None \<Rightarrow> Some (-1, None)
   | Some p \<Rightarrow> if buffer_len < API_RESPONSE_SIZE then Some (-1, None) else do {
       s \<leftarrow> get_at p 0; d \<leftarrow> get_at p 1;
       Some (0, Some \<lparr>status = s, details = d\<rparr>) })"

text \<open>\<^verbatim>\<open>soft_bits\<close> holds a pointer to the bits; the outer option is the structure, the inner the data.\<close>

definition api_encode_soft_bits ::
  "u8 list option option \<Rightarrow> u8 list option \<Rightarrow> nat \<Rightarrow> (int \<times> u8 list option \<times> nat option) option" where
  "api_encode_soft_bits bits buffer buffer_len = (case (bits, buffer) of
     (Some bit_data, Some p) \<Rightarrow>
       if buffer_len > 0 then (case bit_data of
         None \<Rightarrow> Some (-1, buffer, None)
       | Some d \<Rightarrow> do { p \<leftarrow> memcpy p 0 d buffer_len; Some (0, Some p, Some buffer_len) })
       else Some (0, Some p, Some buffer_len)
   | _ \<Rightarrow> Some (-1, buffer, None))"

section \<open>Communication settings\<close>

definition decode_gfsk :: "u8 list \<Rightarrow> nat \<Rightarrow> gfsk_modem_settings option" where
  "decode_gfsk b p = do {
     sr \<leftarrow> read_u64 b p; br \<leftarrow> read_u32 b (p + 8); dv \<leftarrow> read_u64 b (p + 12);
     bw \<leftarrow> read_u32 b (p + 20); bt \<leftarrow> read_f32 b (p + 24); dc \<leftarrow> get_at b (p + 28);
     sw \<leftarrow> read_u64 b (p + 29); sb \<leftarrow> read_u32 b (p + 37);
     Some \<lparr>gfsk_sample_rate = sr, gfsk_baud_rate = br, gfsk_deviation = dv, gfsk_bandwidth = bw, gfsk_bt = bt,
           gfsk_use_dc_block = dc, gfsk_syncword = sw, gfsk_syncword_bits = sb\<rparr> }"

definition decode_psk :: "u8 \<Rightarrow> u8 list \<Rightarrow> nat \<Rightarrow> bpsk_modem_settings option" where
  "decode_psk mt b p = do {
     sr \<leftarrow> read_u64 b p; br \<leftarrow> read_u32 b (p + 8); bw \<leftarrow> read_u32 b (p + 12);
     be \<leftarrow> read_f32 b (p + 16); de \<leftarrow> get_at b (p + 20); co \<leftarrow> read_f32 b (p + 21); fb \<leftarrow> get_at b (p + 25);
     Some \<lparr>psk_sample_rate = sr, psk_baud_rate = br, psk_bandwidth = bw, psk_rrc_beta = be, psk_rrc_delay = de,
           psk_costas_bandwidth = co, psk_symsync_filter_bank_size = fb,
           psk_type = (if mt = MODEM_TYPE_BPSK then BPSK else if mt = MODEM_TYPE_DPSK then DPSK else SDPSK)\<rparr> }"

definition decode_psk_pm :: "u8 list \<Rightarrow> nat \<Rightarrow> psk_pm_modem_settings option" where
  "decode_psk_pm b p = do {
     sr \<leftarrow> read_u64 b p; sf \<leftarrow> read_u32 b (p + 8); pb \<leftarrow> read_f32 b (p + 12);
     br \<leftarrow> read_u32 b (p + 16); sw \<leftarrow> read_u32 b (p + 20); be \<leftarrow> read_f32 b (p + 24);
     de \<leftarrow> get_at b (p + 28); co \<leftarrow> read_f32 b (p + 29); fb \<leftarrow> get_at b (p + 33); mi \<leftarrow> read_f32 b (p + 34);
     Some \<lparr>pm_sample_rate = sr, pm_subcarrier_frequency = sf, pm_carrier_pll_bandwidth = pb, pm_baud_rate = br,
           pm_subcarrier_bandwidth = sw, pm_rrc_beta = be, pm_rrc_delay = de, pm_costas_bandwidth = co,
           pm_symsync_filter_bank_size = fb, pm_modulation_index = mi\<rparr> }"

definition api_decode_comm_settings :: "u8 list option \<Rightarrow> nat \<Rightarrow> (int \<times> comm_settings option) option" where
  "api_decode_comm_settings buffer buffer_len = (case buffer of
     None \<Rightarrow> Some (-1, None)
   | Some b \<Rightarrow> if buffer_len < API_SDR_SIZE + 1 then Some (-1, None) else do {
       fr \<leftarrow> read_u64 b 0; sr \<leftarrow> read_u64 b 8; g \<leftarrow> read_f32 b 16;
       t \<leftarrow> get_at b API_SDR_SIZE;
       let sdr = \<lparr>frequency = fr, sample_rate = sr, gain = g\<rparr>;
       let p = API_SDR_SIZE + 1;
       let payload_len = buffer_len - API_SDR_SIZE - 1;
       let ok = (\<lambda>m. Some (0, Some \<lparr>sdr_settings = sdr, modem_settings = \<lparr>modem_type = t, modem = m\<rparr>\<rparr>));
       if t = MODEM_TYPE_GFSK then
         (if payload_len < API_GFSK_SIZE then Some (-1, None) else do { s \<leftarrow> decode_gfsk b p; ok (Gfsk s) })
       else if t = MODEM_TYPE_BPSK \<or> t = MODEM_TYPE_DPSK \<or> t = MODEM_TYPE_SDPSK then
         (if payload_len < API_PSK_SIZE then Some (-1, None) else do { s \<leftarrow> decode_psk t b p; ok (Psk s) })
       else if t = MODEM_TYPE_PSK_PM then
         (if payload_len < API_PSK_PM_SIZE then Some (-1, None) else do { s \<leftarrow> decode_psk_pm b p; ok (Psk_pm s) })
       else Some (-1, None) })"

definition encode_gfsk :: "gfsk_modem_settings \<Rightarrow> u8 list \<Rightarrow> nat \<Rightarrow> u8 list option" where
  "encode_gfsk s b p = do {
     b \<leftarrow> write_u64 b p (gfsk_sample_rate s);
     b \<leftarrow> write_u32 b (p + 8) (gfsk_baud_rate s);
     b \<leftarrow> write_u64 b (p + 12) (gfsk_deviation s);
     b \<leftarrow> write_u32 b (p + 20) (gfsk_bandwidth s);
     b \<leftarrow> write_f32 b (p + 24) (gfsk_bt s);
     b \<leftarrow> set_at b (p + 28) (gfsk_use_dc_block s);
     b \<leftarrow> write_u64 b (p + 29) (gfsk_syncword s);
     write_u32 b (p + 37) (gfsk_syncword_bits s) }"

definition encode_psk :: "bpsk_modem_settings \<Rightarrow> u8 list \<Rightarrow> nat \<Rightarrow> u8 list option" where
  "encode_psk s b p = do {
     b \<leftarrow> write_u64 b p (psk_sample_rate s);
     b \<leftarrow> write_u32 b (p + 8) (psk_baud_rate s);
     b \<leftarrow> write_u32 b (p + 12) (psk_bandwidth s);
     b \<leftarrow> write_f32 b (p + 16) (psk_rrc_beta s);
     b \<leftarrow> set_at b (p + 20) (psk_rrc_delay s);
     b \<leftarrow> write_f32 b (p + 21) (psk_costas_bandwidth s);
     set_at b (p + 25) (psk_symsync_filter_bank_size s) }"

definition encode_psk_pm :: "psk_pm_modem_settings \<Rightarrow> u8 list \<Rightarrow> nat \<Rightarrow> u8 list option" where
  "encode_psk_pm s b p = do {
     b \<leftarrow> write_u64 b p (pm_sample_rate s);
     b \<leftarrow> write_u32 b (p + 8) (pm_subcarrier_frequency s);
     b \<leftarrow> write_f32 b (p + 12) (pm_carrier_pll_bandwidth s);
     b \<leftarrow> write_u32 b (p + 16) (pm_baud_rate s);
     b \<leftarrow> write_u32 b (p + 20) (pm_subcarrier_bandwidth s);
     b \<leftarrow> write_f32 b (p + 24) (pm_rrc_beta s);
     b \<leftarrow> set_at b (p + 28) (pm_rrc_delay s);
     b \<leftarrow> write_f32 b (p + 29) (pm_costas_bandwidth s);
     b \<leftarrow> set_at b (p + 33) (pm_symsync_filter_bank_size s);
     write_f32 b (p + 34) (pm_modulation_index s) }"

text \<open>The first switch of \<^verbatim>\<open>api_encode_comm_settings\<close>: the size of the modem part.\<close>

definition modem_wire_len :: "u8 \<Rightarrow> nat option" where
  "modem_wire_len t =
    (if t = MODEM_TYPE_GFSK then Some API_GFSK_SIZE
     else if t = MODEM_TYPE_BPSK \<or> t = MODEM_TYPE_DPSK \<or> t = MODEM_TYPE_SDPSK then Some API_PSK_SIZE
     else if t = MODEM_TYPE_PSK_PM then Some API_PSK_PM_SIZE else None)"

definition api_encode_comm_settings ::
  "comm_settings option \<Rightarrow> u8 list option \<Rightarrow> nat \<Rightarrow> (int \<times> u8 list option \<times> nat option) option" where
  "api_encode_comm_settings settings buffer buffer_len = (case (settings, buffer) of
     (Some s, Some b) \<Rightarrow>
       let t = modem_type (modem_settings s); u = modem (modem_settings s); p = API_SDR_SIZE + 1 in
       (case modem_wire_len t of
          None \<Rightarrow> Some (-1, buffer, None)
        | Some modem_len \<Rightarrow>
            let total = API_SDR_SIZE + 1 + modem_len in
            if buffer_len < total then Some (-1, buffer, None)
            else do {
              b \<leftarrow> write_u64 b 0 (frequency (sdr_settings s));
              b \<leftarrow> write_u64 b 8 (sample_rate (sdr_settings s));
              b \<leftarrow> write_f32 b 16 (gain (sdr_settings s));
              b \<leftarrow> set_at b API_SDR_SIZE t;
              b \<leftarrow> (if t = MODEM_TYPE_GFSK then do { g \<leftarrow> get_gfsk u; encode_gfsk g b p }
                   else if t = MODEM_TYPE_PSK_PM then do { g \<leftarrow> get_psk_pm u; encode_psk_pm g b p }
                   else do { g \<leftarrow> get_psk u; encode_psk g b p });
              Some (0, Some b, Some total) })
   | _ \<Rightarrow> Some (-1, buffer, None))"

section \<open>The wire format\<close>

text \<open>The bytes of an integer, of a header, of a response and of the settings, as the protocol has them.\<close>

definition be32 :: "u32 \<Rightarrow> u8 list" where
  "be32 v = [ucast (drop_bit 24 v), ucast (drop_bit 16 v), ucast (drop_bit 8 v), ucast v]"

definition be64 :: "u64 \<Rightarrow> u8 list" where
  "be64 v = be32 (ucast (drop_bit 32 v)) @ be32 (ucast v)"

definition wire_header :: "message_header \<Rightarrow> u8 list" where
  "wire_header h = [protocol_version h, type h] @ be32 (request_id h) @ be32 (message_length h)"

definition wire_response :: "response \<Rightarrow> u8 list" where
  "wire_response r = [status r, details r]"

definition wire_gfsk :: "gfsk_modem_settings \<Rightarrow> u8 list" where
  "wire_gfsk s = be64 (gfsk_sample_rate s) @ be32 (gfsk_baud_rate s) @ be64 (gfsk_deviation s) @ be32 (gfsk_bandwidth s) @
     be32 (gfsk_bt s) @ [gfsk_use_dc_block s] @ be64 (gfsk_syncword s) @ be32 (gfsk_syncword_bits s)"

definition wire_psk :: "bpsk_modem_settings \<Rightarrow> u8 list" where
  "wire_psk s = be64 (psk_sample_rate s) @ be32 (psk_baud_rate s) @ be32 (psk_bandwidth s) @ be32 (psk_rrc_beta s) @
     [psk_rrc_delay s] @ be32 (psk_costas_bandwidth s) @ [psk_symsync_filter_bank_size s]"

definition wire_psk_pm :: "psk_pm_modem_settings \<Rightarrow> u8 list" where
  "wire_psk_pm s = be64 (pm_sample_rate s) @ be32 (pm_subcarrier_frequency s) @ be32 (pm_carrier_pll_bandwidth s) @
     be32 (pm_baud_rate s) @ be32 (pm_subcarrier_bandwidth s) @ be32 (pm_rrc_beta s) @ [pm_rrc_delay s] @
     be32 (pm_costas_bandwidth s) @ [pm_symsync_filter_bank_size s] @ be32 (pm_modulation_index s)"

fun wire_modem :: "modem_union \<Rightarrow> u8 list" where
  "wire_modem (Gfsk s) = wire_gfsk s"
| "wire_modem (Psk s) = wire_psk s"
| "wire_modem (Psk_pm s) = wire_psk_pm s"

definition wire_settings :: "comm_settings \<Rightarrow> u8 list" where
  "wire_settings s = be64 (frequency (sdr_settings s)) @ be64 (sample_rate (sdr_settings s)) @ be32 (gain (sdr_settings s)) @
     [modem_type (modem_settings s)] @ wire_modem (modem (modem_settings s))"

section \<open>Integers: writing and reading\<close>

lemma length_be [simp]: "length (be32 v) = 4" "length (be64 w) = 8"
  by (simp_all add: be32_def be64_def)

lemma be32_read:
  "push_bit 24 (ucast (ucast (drop_bit 24 v) :: u8)) OR push_bit 16 (ucast (ucast (drop_bit 16 v) :: u8)) OR
   push_bit 8 (ucast (ucast (drop_bit 8 v) :: u8)) OR ucast (ucast v :: u8) = (v :: u32)"
  (is "?v = v")
proof (rule bit_word_eqI)
  fix n
  assume "n < LENGTH(32)"
  then consider "n < 8" | "8 \<le> n" "n < 16" | "16 \<le> n" "n < 24" | "24 \<le> n" "n < 32" by fastforce
  then show "bit ?v n = bit v n"
    by cases (auto simp: bit_simps)
qed

lemma be64_read: "push_bit 32 (ucast (ucast (drop_bit 32 v) :: u32)) OR ucast (ucast v :: u32) = (v :: u64)"
  by (rule bit_word_eqI) (auto simp: bit_simps)

lemma be32_of_bytes:
  "be32 (push_bit 24 (ucast a) OR push_bit 16 (ucast b) OR push_bit 8 (ucast c) OR ucast d) = [a, b, c, d]"
  unfolding be32_def by (intro list.inject [THEN iffD2] conjI refl bit_word_eqI) (auto simp: bit_simps dest: bit_imp_le_length)

lemma be64_of_words: "be64 (push_bit 32 (ucast a) OR ucast b) = be32 a @ be32 b"
proof -
  have "ucast (drop_bit 32 (push_bit 32 (ucast a) OR ucast b :: u64)) = a"
    "ucast (push_bit 32 (ucast a) OR ucast b :: u64) = b" for a b :: u32
    by (rule bit_word_eqI; auto simp: bit_simps dest: bit_imp_le_length)+
  then show ?thesis by (simp add: be64_def)
qed

lemma write_u32_prefix [codec_simps]:
  "length ws = n \<Longrightarrow> n + 4 \<le> length buf \<Longrightarrow>
   write_u32 (ws @ drop n buf) n v = Some ((ws @ be32 v) @ drop (n + 4) buf)"
  using set_at_prefix [of ws n buf "ucast (drop_bit 24 v)"]
    set_at_prefix [of "ws @ [ucast (drop_bit 24 v)]" "n + 1" buf "ucast (drop_bit 16 v)"]
    set_at_prefix [of "ws @ [ucast (drop_bit 24 v), ucast (drop_bit 16 v)]" "n + 2" buf "ucast (drop_bit 8 v)"]
    set_at_prefix [of "ws @ [ucast (drop_bit 24 v), ucast (drop_bit 16 v), ucast (drop_bit 8 v)]" "n + 3" buf "ucast v"]
  by (simp add: write_u32_def be32_def numeral_eq_Suc)

lemma write_u64_prefix [codec_simps]:
  "length ws = n \<Longrightarrow> n + 8 \<le> length buf \<Longrightarrow>
   write_u64 (ws @ drop n buf) n v = Some ((ws @ be64 v) @ drop (n + 8) buf)"
  using write_u32_prefix [of ws n buf "ucast (drop_bit 32 v)"]
    write_u32_prefix [of "ws @ be32 (ucast (drop_bit 32 v))" "n + 4" buf "ucast v"]
  by (simp add: write_u64_def be64_def ac_simps)

lemma read_u32_be [codec_simps]: "length ws = n \<Longrightarrow> read_u32 (ws @ be32 v @ r) n = Some v"
  by (auto simp: read_u32_def be32_def get_at_def nth_append be32_read)

lemma read_u64_be [codec_simps]: "length ws = n \<Longrightarrow> read_u64 (ws @ be64 v @ r) n = Some v"
  using read_u32_be [of ws n "ucast (drop_bit 32 v)" "be32 (ucast v) @ r"]
    read_u32_be [of "ws @ be32 (ucast (drop_bit 32 v))" "n + 4" "ucast v" r]
  by (simp add: read_u64_def be64_def be64_read)

text \<open>Reading gives the value whose bytes are there, so that a decoder can be inverted.\<close>

lemma read_u32_bytes:
  assumes "read_u32 b p = Some v"
  shows "p + 4 \<le> length b" "take 4 (drop p b) = be32 v"
proof -
  from assms show "p + 4 \<le> length b" by (auto simp: read_u32_def get_at_def split: bind_splits if_splits)
  then have "take 4 (drop p b) = [b ! p, b ! (p + 1), b ! (p + 2), b ! (p + 3)]"
    by (simp add: numeral_eq_Suc take_Suc_conv_app_nth)
  moreover have "be32 v = [b ! p, b ! (p + 1), b ! (p + 2), b ! (p + 3)]"
    using assms by (auto simp: read_u32_def get_at_def be32_of_bytes split: bind_splits if_splits)
  ultimately show "take 4 (drop p b) = be32 v" by simp
qed

lemma read_u64_bytes:
  assumes "read_u64 b p = Some v"
  shows "p + 8 \<le> length b" "take 8 (drop p b) = be64 v"
proof -
  from assms obtain x y where xy: "read_u32 b p = Some x" "read_u32 b (p + 4) = Some y" "v = push_bit 32 (ucast x) OR ucast y"
    by (auto simp: read_u64_def split: bind_splits)
  then show "p + 8 \<le> length b" using read_u32_bytes(1) by fastforce
  have "take 8 (drop p b) = take 4 (drop p b) @ take 4 (drop (p + 4) b)"
    by (metis add.commute drop_drop numeral_Bit0 take_add)
  then show "take 8 (drop p b) = be64 v" using xy read_u32_bytes(2) by (simp add: be64_of_words)
qed

lemma get_at_bytes: "get_at b p = Some v \<Longrightarrow> p + 1 \<le> length b \<and> take 1 (drop p b) = [v]"
  by (auto simp: get_at_def take_Suc_conv_app_nth split: if_splits)

section \<open>Buffers written from the front, and read field by field\<close>

definition filled :: "'a list \<Rightarrow> 'a list \<Rightarrow> 'a list" where
  "filled ws buf = ws @ drop (length ws) buf"

lemma filled_Nil: "filled [] buf = buf"
  by (simp add: filled_def)

lemma filled_writes [codec_simps]:
  "length ws = n \<Longrightarrow> n < length buf \<Longrightarrow> set_at (filled ws buf) n x = Some (filled (ws @ [x]) buf)"
  "length ws = n \<Longrightarrow> n + 4 \<le> length buf \<Longrightarrow> write_u32 (filled ws buf) n v = Some (filled (ws @ be32 v) buf)"
  "length ws = n \<Longrightarrow> n + 4 \<le> length buf \<Longrightarrow> write_f32 (filled ws buf) n v = Some (filled (ws @ be32 v) buf)"
  "length ws = n \<Longrightarrow> n + 8 \<le> length buf \<Longrightarrow> write_u64 (filled ws buf) n w = Some (filled (ws @ be64 w) buf)"
  by (auto simp: filled_def write_f32_def set_at_prefix [simplified] write_u32_prefix [simplified] write_u64_prefix [simplified])

lemma get_at_skip: "length w \<le> n \<Longrightarrow> get_at (w @ xs) n = get_at xs (n - length w)"
  by (auto simp: get_at_def nth_append)

lemma read_u32_skip: "length w \<le> n \<Longrightarrow> read_u32 (w @ xs) n = read_u32 xs (n - length w)"
  by (drule le_Suc_ex) (auto simp: read_u32_def get_at_skip add.assoc)

lemma read_u64_skip: "length w \<le> n \<Longrightarrow> read_u64 (w @ xs) n = read_u64 xs (n - length w)"
  by (drule le_Suc_ex) (auto simp: read_u64_def read_u32_skip add.assoc)

lemma field_reads [codec_simps]:
  "4 \<le> n \<Longrightarrow> get_at (be32 v @ xs) n = get_at xs (n - 4)" "8 \<le> n \<Longrightarrow> get_at (be64 w @ xs) n = get_at xs (n - 8)"
  "4 \<le> n \<Longrightarrow> read_u32 (be32 v @ xs) n = read_u32 xs (n - 4)" "8 \<le> n \<Longrightarrow> read_u32 (be64 w @ xs) n = read_u32 xs (n - 8)"
  "4 \<le> n \<Longrightarrow> read_u64 (be32 v @ xs) n = read_u64 xs (n - 4)" "8 \<le> n \<Longrightarrow> read_u64 (be64 w @ xs) n = read_u64 xs (n - 8)"
  "1 \<le> n \<Longrightarrow> get_at (x # xs) n = get_at xs (n - 1)" "1 \<le> n \<Longrightarrow> read_u32 (x # xs) n = read_u32 xs (n - 1)"
  "1 \<le> n \<Longrightarrow> read_u64 (x # xs) n = read_u64 xs (n - 1)"
  "get_at (x # xs) 0 = Some x" "read_u32 (be32 v @ xs) 0 = Some v" "read_u64 (be64 w @ xs) 0 = Some w"
  using get_at_skip [of "[x]" n xs] read_u32_skip [of "[x]" n xs] read_u64_skip [of "[x]" n xs]
    read_u32_be [of "[]" 0 v xs] read_u64_be [of "[]" 0 w xs]
  by (simp_all add: get_at_skip read_u32_skip read_u64_skip) (simp add: get_at_def)

lemma reads_defined [codec_simps]:
  "get_at b p = None \<longleftrightarrow> \<not> p < length b"
  "read_u32 b p = None \<longleftrightarrow> \<not> p + 4 \<le> length b"
  "read_u64 b p = None \<longleftrightarrow> \<not> p + 8 \<le> length b"
  by (auto simp: get_at_def read_u32_def read_u64_def split: bind_splits)

text \<open>A region of a buffer is the sequence of its fields.\<close>

fun fields :: "'a list \<Rightarrow> nat \<Rightarrow> nat list \<Rightarrow> 'a list" where
  "fields b p [] = []"
| "fields b p (k # ks) = take k (drop p b) @ fields b (p + k) ks"

lemma fields_take: "take (sum_list ks) (drop p b) = fields b p ks"
  by (induction ks arbitrary: p) (auto simp: take_add add.commute)

lemma get_at_field: "get_at b p = Some v \<Longrightarrow> take (Suc 0) (drop p b) = [v]"
  using get_at_bytes by fastforce

lemmas field_values = read_u32_bytes(2) read_u64_bytes(2) get_at_field get_at_field [of _ 0, simplified]

section \<open>The contract of an encoder and a decoder\<close>

text \<open>
  \<open>wire v\<close> are the bytes of \<open>v\<close>; \<open>valid\<close> are the values the format can carry. \<open>n\<close> is the size the
  caller passes and \<open>buf\<close> the memory behind the pointer.
\<close>

locale codec =
  fixes encode :: "'a option \<Rightarrow> u8 list option \<Rightarrow> nat \<Rightarrow> (int \<times> u8 list option \<times> nat option) option"
    and decode :: "u8 list option \<Rightarrow> nat \<Rightarrow> (int \<times> 'a option) option"
    and wire :: "'a \<Rightarrow> u8 list"
    and valid :: "'a \<Rightarrow> bool"
  assumes encode_wire: "valid v \<Longrightarrow> length (wire v) \<le> n \<Longrightarrow> n \<le> length buf \<Longrightarrow>
      encode (Some v) (Some buf) n = Some (0, Some (wire v @ drop (length (wire v)) buf), Some (length (wire v)))"
    and encode_short: "valid v \<Longrightarrow> n < length (wire v) \<Longrightarrow> encode (Some v) (Some buf) n = Some (-1, Some buf, None)"
    and decode_wire: "valid v \<Longrightarrow> length (wire v) \<le> n \<Longrightarrow> decode (Some (wire v @ r)) n = Some (0, Some v)"
    and decode_sound: "n \<le> length buf \<Longrightarrow> decode (Some buf) n = Some (0, Some v) \<Longrightarrow>
      valid v \<and> length (wire v) \<le> n \<and> take (length (wire v)) buf = wire v"
    and decode_total: "n \<le> length buf \<Longrightarrow>
      decode (Some buf) n = Some (-1, None) \<or> (\<exists>v. decode (Some buf) n = Some (0, Some v))"
begin

lemma round_trip:
  assumes "valid v" "length (wire v) \<le> n" "n \<le> length buf"
  shows "\<exists>buf' k. encode (Some v) (Some buf) n = Some (0, Some buf', Some k) \<and> length buf' = length buf \<and>
    k \<le> n \<and> drop k buf' = drop k buf \<and> decode (Some buf') k = Some (0, Some v)"
  using assms encode_wire decode_wire by auto

lemma accepts_exactly:
  "n \<le> length buf \<Longrightarrow> decode (Some buf) n = Some (0, Some v) \<longleftrightarrow> valid v \<and> (\<exists>r. take n buf = wire v @ r)"
proof
  assume n: "n \<le> length buf" and d: "decode (Some buf) n = Some (0, Some v)"
  from decode_sound [OF n d] have "valid v" "length (wire v) \<le> n" "take (length (wire v)) buf = wire v" by auto
  then have "take n buf = wire v @ drop (length (wire v)) (take n buf)"
    by (metis append_take_drop_id min.absorb1 take_take)
  with \<open>valid v\<close> show "valid v \<and> (\<exists>r. take n buf = wire v @ r)" by blast
next
  assume n: "n \<le> length buf" and "valid v \<and> (\<exists>r. take n buf = wire v @ r)"
  then obtain r where v: "valid v" and r: "take n buf = wire v @ r" by blast
  have "buf = wire v @ r @ drop n buf" using r by (metis append_assoc append_take_drop_id)
  moreover have "length (wire v) \<le> n" using r n by (metis le_add1 length_append length_take min.absorb2)
  ultimately show "decode (Some buf) n = Some (0, Some v)" using decode_wire [OF v] by metis
qed

lemma unique_wire: "valid v \<Longrightarrow> valid w \<Longrightarrow> wire v @ r = wire w @ s \<Longrightarrow> v = w"
  using decode_wire [of v "length (wire v) + length (wire w)" r] decode_wire [of w "length (wire v) + length (wire w)" s]
  by simp

end

lemma wire_lengths [simp]:
  "length (wire_header h) = API_HEADER_SIZE" "length (wire_response r) = API_RESPONSE_SIZE"
  "length (wire_gfsk g) = API_GFSK_SIZE" "length (wire_psk p) = API_PSK_SIZE" "length (wire_psk_pm m) = API_PSK_PM_SIZE"
  by (simp_all add: wire_header_def wire_response_def wire_gfsk_def wire_psk_def wire_psk_pm_def)

interpretation header_codec:
  codec api_encode_message_header api_decode_message_header wire_header "\<lambda>_. True"
proof
  fix v :: message_header and n :: nat and buf :: "u8 list"
  assume "length (wire_header v) \<le> n" "n \<le> length buf"
  moreover from this have "buf \<noteq> []" by auto
  ultimately have "api_encode_message_header (Some v) (Some (filled [] buf)) n = Some (0, Some (filled (wire_header v) buf), Some 10)"
    by (simp add: api_encode_message_header_def codec_simps wire_header_def)
  then show "api_encode_message_header (Some v) (Some buf) n =
      Some (0, Some (wire_header v @ drop (length (wire_header v)) buf), Some (length (wire_header v)))"
    by (simp add: filled_Nil) (simp add: filled_def)
next
  fix v n r
  show "length (wire_header v) \<le> n \<Longrightarrow> api_decode_message_header (Some (wire_header v @ r)) n = Some (0, Some v)"
    by (simp add: api_decode_message_header_def wire_header_def codec_simps)
next
  fix n buf v
  assume n: "n \<le> length buf" and d: "api_decode_message_header (Some buf) n = Some (0, Some v)"
  have "take 10 buf = fields buf 0 [1, 1, 4, 4]" using fields_take [of "[1, 1, 4, 4]" 0 buf] by simp
  with d show "True \<and> length (wire_header v) \<le> n \<and> take (length (wire_header v)) buf = wire_header v"
    by (auto simp: api_decode_message_header_def wire_header_def field_values numeral_2_eq_2 split: if_splits bind_splits)
qed (auto simp: api_encode_message_header_def api_decode_message_header_def codec_simps split: bind_splits)

interpretation response_codec:
  codec api_encode_response api_decode_response wire_response "\<lambda>_. True"
proof
  fix v :: response and n :: nat and buf :: "u8 list"
  assume "length (wire_response v) \<le> n" "n \<le> length buf"
  moreover from this have "buf \<noteq> []" by auto
  ultimately have "api_encode_response (Some v) (Some (filled [] buf)) n = Some (0, Some (filled (wire_response v) buf), Some 2)"
    by (simp add: api_encode_response_def codec_simps wire_response_def)
  then show "api_encode_response (Some v) (Some buf) n =
      Some (0, Some (wire_response v @ drop (length (wire_response v)) buf), Some (length (wire_response v)))"
    by (simp add: filled_Nil) (simp add: filled_def)
next
  fix v n r
  show "length (wire_response v) \<le> n \<Longrightarrow> api_decode_response (Some (wire_response v @ r)) n = Some (0, Some v)"
    by (simp add: api_decode_response_def wire_response_def codec_simps)
next
  fix n buf v
  assume n: "n \<le> length buf" and d: "api_decode_response (Some buf) n = Some (0, Some v)"
  have "take 2 buf = fields buf 0 [1, 1]" using fields_take [of "[1, 1]" 0 buf] by (simp add: numeral_2_eq_2)
  with d show "True \<and> length (wire_response v) \<le> n \<and> take (length (wire_response v)) buf = wire_response v"
    by (auto simp: api_decode_response_def wire_response_def field_values numeral_2_eq_2 split: if_splits bind_splits)
qed (auto simp: api_encode_response_def api_decode_response_def codec_simps split: bind_splits)

section \<open>The settings\<close>

lemma encode_modem:
  assumes "length ws = 21"
  shows "62 \<le> length buf \<Longrightarrow> encode_gfsk g (filled ws buf) 21 = Some (filled (ws @ wire_gfsk g) buf)"
    and "47 \<le> length buf \<Longrightarrow> encode_psk p (filled ws buf) 21 = Some (filled (ws @ wire_psk p) buf)"
    and "59 \<le> length buf \<Longrightarrow> encode_psk_pm m (filled ws buf) 21 = Some (filled (ws @ wire_psk_pm m) buf)"
  using assms
  by (simp_all add: encode_gfsk_def encode_psk_def encode_psk_pm_def wire_gfsk_def wire_psk_def wire_psk_pm_def codec_simps)

lemma decode_modem:
  assumes "length ws = 21"
  shows "decode_gfsk (ws @ wire_gfsk g @ r) 21 = Some g"
    and "decode_psk t (ws @ wire_psk p @ r) 21 = Some (p\<lparr>psk_type := psk_type_of t\<rparr>)"
    and "decode_psk_pm (ws @ wire_psk_pm m @ r) 21 = Some m"
  using assms
  by (simp_all add: decode_gfsk_def decode_psk_def decode_psk_pm_def wire_gfsk_def wire_psk_def wire_psk_pm_def read_f32_def
      get_at_skip read_u32_skip read_u64_skip codec_simps psk_type_of_def)

lemma decode_modem_defined:
  "p + 41 \<le> length b \<Longrightarrow> \<exists>g. decode_gfsk b p = Some g"
  "p + 26 \<le> length b \<Longrightarrow> \<exists>s. decode_psk t b p = Some s"
  "p + 38 \<le> length b \<Longrightarrow> \<exists>s. decode_psk_pm b p = Some s"
  by (auto simp: decode_gfsk_def decode_psk_def decode_psk_pm_def read_f32_def codec_simps split: bind_splits)

lemma decode_gfsk_bytes: "decode_gfsk b 21 = Some g \<Longrightarrow> take 41 (drop 21 b) = wire_gfsk g"
  using fields_take [of "[8, 4, 8, 4, 4, 1, 8, 4]" 21 b]
  by (auto simp: decode_gfsk_def wire_gfsk_def read_f32_def field_values bind_eq_Some)

lemma decode_psk_bytes:
  "decode_psk t b 21 = Some s \<Longrightarrow> take 26 (drop 21 b) = wire_psk s \<and> psk_type s = psk_type_of t"
  using fields_take [of "[8, 4, 4, 4, 1, 4, 1]" 21 b]
  by (auto simp: decode_psk_def wire_psk_def read_f32_def field_values psk_type_of_def bind_eq_Some)

lemma decode_psk_pm_bytes: "decode_psk_pm b 21 = Some m \<Longrightarrow> take 38 (drop 21 b) = wire_psk_pm m"
  using fields_take [of "[8, 4, 4, 4, 4, 4, 1, 4, 1, 4]" 21 b]
  by (auto simp: decode_psk_pm_def wire_psk_pm_def read_f32_def field_values bind_eq_Some)

lemmas decode_modem_bytes = decode_gfsk_bytes decode_psk_bytes decode_psk_pm_bytes

abbreviation settings_valid :: "comm_settings \<Rightarrow> bool" where
  "settings_valid s \<equiv> modem_settings_ok (modem_settings s)"

lemma length_wire_settings: "length (wire_settings s) = 21 + length (wire_modem (modem (modem_settings s)))"
  by (simp add: wire_settings_def)

lemma encode_settings:
  assumes v: "settings_valid s" and n: "length (wire_settings s) \<le> n" "n \<le> length buf"
  shows "api_encode_comm_settings (Some s) (Some (filled [] buf)) n
    = Some (0, Some (filled (wire_settings s) buf), Some (length (wire_settings s)))"
proof -
  let ?ws = "be64 (frequency (sdr_settings s)) @ be64 (sample_rate (sdr_settings s)) @ be32 (gain (sdr_settings s)) @
     [modem_type (modem_settings s)]"
  have ws: "length ?ws = 21" by simp
  show ?thesis
    by (cases "modem (modem_settings s)"; use v n encode_modem [OF ws, of buf] in
        \<open>auto simp: api_encode_comm_settings_def modem_wire_len_def modem_settings_ok_def length_wire_settings codec_simps
          wire_settings_def Let_def\<close>)
qed

lemma decode_modem_after_sdr:
  "decode_gfsk (be64 a @ be64 b @ be32 c @ t # wire_gfsk g @ r) 21 = Some g"
  "decode_psk t' (be64 a @ be64 b @ be32 c @ t # wire_psk p @ r) 21 = Some (p\<lparr>psk_type := psk_type_of t'\<rparr>)"
  "decode_psk_pm (be64 a @ be64 b @ be32 c @ t # wire_psk_pm m @ r) 21 = Some m"
  using decode_modem [of "be64 a @ be64 b @ be32 c @ [t]"] by simp_all

lemma decode_settings:
  assumes v: "settings_valid s" and n: "length (wire_settings s) \<le> n"
  shows "api_decode_comm_settings (Some (wire_settings s @ r)) n = Some (0, Some s)"
  by (cases "modem (modem_settings s)"; use v n in
      \<open>auto simp: api_decode_comm_settings_def modem_settings_ok_def length_wire_settings codec_simps
        wire_settings_def Let_def read_f32_def decode_modem_after_sdr\<close>)

lemma decode_settings_defined:
  assumes "n \<le> length b"
  shows "api_decode_comm_settings (Some b) n = Some (-1, None) \<or> (\<exists>v. api_decode_comm_settings (Some b) n = Some (0, Some v))"
proof (cases "n < 21")
  case False
  with assms have "read_u64 b 0 \<noteq> None" "read_u64 b 8 \<noteq> None" "read_u32 b 16 \<noteq> None" "get_at b 20 \<noteq> None"
    by (simp_all add: codec_simps)
  then obtain fr sr g t where rd: "read_u64 b 0 = Some fr" "read_u64 b 8 = Some sr" "read_u32 b 16 = Some g" "get_at b 20 = Some t"
    by blast
  have room: "n - 21 < k \<or> 21 + k \<le> length b" for k using False assms by arith
  have psk: "n - 21 < 26 \<or> (\<exists>s. decode_psk t' b 21 = Some s)" for t'
    using room [of 26] decode_modem_defined(2) [of 21 b] by blast
  have "n - 21 < 41 \<or> (\<exists>g. decode_gfsk b 21 = Some g)" "n - 21 < 38 \<or> (\<exists>s. decode_psk_pm b 21 = Some s)"
    using room [of 41] room [of 38] decode_modem_defined(1,3) [of 21 b] by blast+
  with psk [of 2] psk [of 3] psk [of 4] show ?thesis
    by (auto simp: api_decode_comm_settings_def Let_def read_f32_def rd False)
qed (simp add: api_decode_comm_settings_def)

lemma decode_settings_sound:
  assumes "api_decode_comm_settings (Some b) n = Some (0, Some s)" "n \<le> length b"
  shows "settings_valid s \<and> length (wire_settings s) \<le> n \<and> take (length (wire_settings s)) b = wire_settings s"
proof -
  have front: "take (21 + k) b = fields b 0 [8, 8, 4, 1] @ take k (drop 21 b)" for k
    using fields_take [of "[8, 8, 4, 1]" 0 b] by (simp add: take_add)
  from assms obtain fr sr g t u where rd: "read_u64 b 0 = Some fr" "read_u64 b 8 = Some sr" "read_u32 b 16 = Some g"
      "get_at b 20 = Some t" "s = \<lparr>sdr_settings = \<lparr>frequency = fr, sample_rate = sr, gain = g\<rparr>,
         modem_settings = \<lparr>modem_type = t, modem = u\<rparr>\<rparr>"
    and u: "(t = MODEM_TYPE_GFSK \<and> 62 \<le> n \<and> (\<exists>x. decode_gfsk b 21 = Some x \<and> u = Gfsk x)) \<or>
      (t \<in> {MODEM_TYPE_BPSK, MODEM_TYPE_DPSK, MODEM_TYPE_SDPSK} \<and> 47 \<le> n \<and> (\<exists>x. decode_psk t b 21 = Some x \<and> u = Psk x)) \<or>
      (t = MODEM_TYPE_PSK_PM \<and> 59 \<le> n \<and> (\<exists>x. decode_psk_pm b 21 = Some x \<and> u = Psk_pm x))"
    by (auto simp: api_decode_comm_settings_def Let_def read_f32_def split: if_splits bind_splits)
  have "fields b 0 [8, 8, 4, 1] = be64 fr @ be64 sr @ be32 g @ [t]"
    using rd field_values(2) [of b 0 fr] by (simp add: field_values)
  with rd(5) u front show ?thesis
    by (auto simp: modem_settings_ok_def length_wire_settings wire_settings_def dest!: decode_modem_bytes)
qed

interpretation settings_codec:
  codec api_encode_comm_settings api_decode_comm_settings wire_settings settings_valid
proof
  fix v :: comm_settings and n :: nat and buf :: "u8 list"
  assume "settings_valid v" "length (wire_settings v) \<le> n" "n \<le> length buf"
  from encode_settings [OF this] show "api_encode_comm_settings (Some v) (Some buf) n =
      Some (0, Some (wire_settings v @ drop (length (wire_settings v)) buf), Some (length (wire_settings v)))"
    by (simp add: filled_Nil) (simp add: filled_def)
next
  fix v :: comm_settings and n :: nat and buf :: "u8 list"
  assume "settings_valid v" "n < length (wire_settings v)"
  then show "api_encode_comm_settings (Some v) (Some buf) n = Some (-1, Some buf, None)"
    by (cases "modem (modem_settings v)")
      (auto simp: api_encode_comm_settings_def modem_wire_len_def modem_settings_ok_def length_wire_settings Let_def)
qed (auto simp: decode_settings decode_settings_sound decode_settings_defined)

section \<open>Properties\<close>

text \<open>
  C8. Round trip of the communication settings: settings whose modem member matches the modem type
  are encoded within the bounds of the buffer, nothing behind the \<^verbatim>\<open>written\<close> bytes changes, and
  decoding the written bytes gives back every field, the derived \<^verbatim>\<open>psk.type\<close> included.
\<close>

theorem comm_settings_round_trip:
  assumes "settings_valid s" "length (wire_settings s) \<le> n" "n \<le> length buf"
  shows "\<exists>buf' k. api_encode_comm_settings (Some s) (Some buf) n = Some (0, Some buf', Some k) \<and>
    length buf' = length buf \<and> k \<le> n \<and> drop k buf' = drop k buf \<and>
    api_decode_comm_settings (Some buf') k = Some (0, Some s)"
  using assms by (rule settings_codec.round_trip)

definition sample_settings :: comm_settings where
  "sample_settings = \<lparr>
     sdr_settings = \<lparr>frequency = 437525000, sample_rate = 48000, gain = 0x41200000\<rparr>,
     modem_settings = \<lparr>modem_type = MODEM_TYPE_DPSK, modem = Psk \<lparr>
       psk_sample_rate = 48000, psk_baud_rate = 2400, psk_bandwidth = 0, psk_rrc_beta = 0x3f000000, psk_rrc_delay = 7,
       psk_costas_bandwidth = 0x3c23d70a, psk_symsync_filter_bank_size = 32, psk_type = DPSK\<rparr>\<rparr>\<rparr>"

theorem comm_settings_round_trip_witness:
  "\<exists>buf' k. api_encode_comm_settings (Some sample_settings) (Some (replicate 64 0)) 64 = Some (0, Some buf', Some k) \<and>
    api_decode_comm_settings (Some buf') k = Some (0, Some sample_settings)"
  using comm_settings_round_trip [of sample_settings 64 "replicate 64 0"]
  by (auto simp: sample_settings_def modem_settings_ok_def psk_type_of_def length_wire_settings)

text \<open>
  C29. The decoder of the settings accepts exactly the wire format: on any bytes it stays within the
  given length, it succeeds with \<open>s\<close> if and only if the bytes start with the encoding of \<open>s\<close>, and
  otherwise it returns -1 and leaves the output untouched.
\<close>

theorem comm_settings_decode_exact:
  assumes "n \<le> length buf"
  shows "(\<forall>s. api_decode_comm_settings (Some buf) n = Some (0, Some s) \<longleftrightarrow>
      settings_valid s \<and> (\<exists>r. take n buf = wire_settings s @ r)) \<and>
    (api_decode_comm_settings (Some buf) n = Some (-1, None) \<or>
      (\<exists>s. api_decode_comm_settings (Some buf) n = Some (0, Some s)))"
  using settings_codec.accepts_exactly [OF assms] settings_codec.decode_total [OF assms] by blast

theorem comm_settings_decode_exact_witness:
  "api_decode_comm_settings (Some (wire_settings sample_settings)) 47 = Some (0, Some sample_settings)"
proof -
  have "settings_valid sample_settings" "length (wire_settings sample_settings) = 47"
    by (simp_all add: sample_settings_def modem_settings_ok_def psk_type_of_def length_wire_settings)
  with comm_settings_decode_exact [of 47 "wire_settings sample_settings"] show ?thesis by simp
qed

text \<open>
  Message headers: every header of 32-bit ids and lengths survives encoding and decoding, and a
  buffer of at least 10 bytes always decodes, to the only header whose encoding it starts with.
\<close>

theorem message_header_round_trip:
  assumes "API_HEADER_SIZE \<le> n" "n \<le> length buf"
  shows "(\<exists>buf' k. api_encode_message_header (Some h) (Some buf) n = Some (0, Some buf', Some k) \<and> length buf' = length buf \<and>
      drop k buf' = drop k buf \<and> api_decode_message_header (Some buf') k = Some (0, Some h)) \<and>
    (\<exists>h'. api_decode_message_header (Some buf) n = Some (0, Some h') \<and> take API_HEADER_SIZE buf = wire_header h')"
proof -
  have "\<exists>h'. api_decode_message_header (Some buf) n = Some (0, Some h')"
    using header_codec.decode_total [of n buf] assms by (auto simp: api_decode_message_header_def split: bind_splits)
  then show ?thesis
    using header_codec.round_trip [of h n buf] header_codec.decode_sound [of n buf] assms by fastforce
qed

theorem message_header_round_trip_witness:
  "\<exists>buf' k. api_encode_message_header (Some \<lparr>protocol_version = 0, type = 6, request_id = 0xDEADBEEF, message_length = 300\<rparr>)
      (Some (replicate 12 0)) 10 = Some (0, Some buf', Some k) \<and>
    api_decode_message_header (Some buf') k
      = Some (0, Some \<lparr>protocol_version = 0, type = 6, request_id = 0xDEADBEEF, message_length = 300\<rparr>)"
  using message_header_round_trip
    [of 10 "replicate 12 0" "\<lparr>protocol_version = 0, type = 6, request_id = 0xDEADBEEF, message_length = 300\<rparr>"]
  by auto

end
