(* ===== verification/TcpUtils.thy ===== *)
theory TcpUtils
  imports Prelude
begin

text \<open>
  Reading and writing whole messages on a socket, \<^verbatim>\<open>src/tcp_utils.c\<close>. What the kernel answers is a
  list of events: the bytes that become readable, read timeouts (\<^verbatim>\<open>SO_RCVTIMEO\<close> expired), signals,
  errors; an empty chunk and the end of the list are the orderly shutdown by the peer. A chunk
  larger than the request is consumed in parts. The loops terminate because each turn uses up an
  event or finishes the request.
\<close>

section \<open>Sockets\<close>

datatype sock_event = Data "u8 list" | Timeout | Interrupted | Broken

datatype recv_result = Received "u8 list" | Eagain | Eintr | Eerror

fun recv :: "nat \<Rightarrow> sock_event list \<Rightarrow> recv_result \<times> sock_event list" where
  "recv n [] = (Received [], [])"
| "recv n (Data d # s) =
    (if d = [] then (Received [], Data d # s)
     else if length d \<le> n then (Received d, s) else (Received (take n d), Data (drop n d) # s))"
| "recv n (Timeout # s) = (Eagain, s)"
| "recv n (Interrupted # s) = (Eintr, s)"
| "recv n (Broken # s) = (Eerror, Broken # s)"

lemma recv_shrinks [termination_simp]:
  "recv n s = (Received d, s') \<Longrightarrow> d \<noteq> [] \<Longrightarrow> 0 < n \<Longrightarrow> n - length d + length s' < n + length s"
  "recv n s = (Eintr, s') \<Longrightarrow> length s' < length s"
  "recv n s = (Eagain, s') \<Longrightarrow> length s' < length s"
  by (cases "(n, s)" rule: recv.cases; auto split: if_splits)+

text \<open>
  What \<^verbatim>\<open>write\<close> answers: it takes a number of bytes (at most what was asked for), is interrupted by a
  signal or fails. When the list of answers is used up, the socket takes everything.
\<close>

datatype write_event = Takes nat | WInterrupted | WBroken

record tx_socket =
  answers :: "write_event list"
  sent :: "u8 list"

section \<open>Operations\<close>

text \<open>\<^verbatim>\<open>left\<close> bytes of \<^verbatim>\<open>buffer\<close> are still to be sent.\<close>

fun write_loop :: "u8 list \<Rightarrow> nat \<Rightarrow> nat \<Rightarrow> write_event list \<Rightarrow> u8 list \<Rightarrow> (int \<times> tx_socket) option" where
  "write_loop buffer ttl left ans out =
    (if left = 0 then Some (0, \<lparr>answers = ans, sent = out\<rparr>)
     else if ttl > length buffer then None
     else let rest = take left (drop (ttl - left) buffer) in
       (case ans of
          [] \<Rightarrow> Some (0, \<lparr>answers = [], sent = out @ rest\<rparr>)
        | WInterrupted # ans' \<Rightarrow> write_loop buffer ttl left ans' out
        | WBroken # ans' \<Rightarrow> Some (-1, \<lparr>answers = ans', sent = out\<rparr>)
        | Takes k # ans' \<Rightarrow>
            let written = min k left in
            write_loop buffer ttl (left - written) ans' (out @ take written rest)))"

declare write_loop.simps [simp del]

definition tcp_utils_write_data :: "u8 list \<Rightarrow> nat \<Rightarrow> tx_socket \<Rightarrow> (int \<times> tx_socket) option" where
  "tcp_utils_write_data buffer ttl s = write_loop buffer ttl ttl (answers s) (sent s)"

text \<open>
  \<open>base\<close> is the offset of \<^verbatim>\<open>result\<close> in the caller's buffer. Answers the return code, the buffer, the
  number of bytes read and the socket.
\<close>

function read_loop ::
  "u8 list \<Rightarrow> nat \<Rightarrow> nat \<Rightarrow> nat \<Rightarrow> sock_event list \<Rightarrow> (int \<times> u8 list \<times> nat \<times> sock_event list) option" where
  "read_loop buf base len left s =
    (if left = 0 then Some (0, buf, len - left, s)
     else (case recv left s of
       (Received d, s') \<Rightarrow>
         if d = [] then Some (-1, buf, len - left, s')
         else (case memcpy buf (base + (len - left)) d (length d) of
           None \<Rightarrow> None
         | Some buf' \<Rightarrow> read_loop buf' base len (left - length d) s')
     | (Eagain, s') \<Rightarrow> Some (- EAGAIN, buf, len - left, s')
     | (Eintr, s') \<Rightarrow> read_loop buf base len left s'
     | (Eerror, s') \<Rightarrow> Some (-1, buf, len - left, s')))"
  by pat_completeness auto
termination
  by (relation "measure (\<lambda>(buf, base, len, left, s). left + length s)")
    (auto simp: recv_shrinks dest: sym)

definition tcp_utils_read_data_partially ::
  "u8 list \<Rightarrow> nat \<Rightarrow> nat \<Rightarrow> sock_event list \<Rightarrow> (int \<times> u8 list \<times> nat \<times> sock_event list) option" where
  "tcp_utils_read_data_partially buf base len s = read_loop buf base len len s"

abbreviation (input) "TCP_UTILS_MAX_STALLED_TIMEOUTS \<equiv> 3 :: nat"

declare read_loop.simps [simp del]

text \<open>A call that reports a timeout used up the event.\<close>

lemma recv_mono: "recv n s = (r, s') \<Longrightarrow> length s' \<le> length s"
  by (cases "(n, s)" rule: recv.cases) (auto split: if_splits)

lemma read_loop_shrinks:
  "read_loop buf base len left s = Some (code, buf', n, s') \<Longrightarrow>
   code \<in> {0, -1, - EAGAIN} \<and> length s' \<le> length s \<and> (code = - EAGAIN \<longrightarrow> length s' < length s)"
proof (induction buf base len left s rule: read_loop.induct)
  case (1 buf base len left s)
  obtain r s1 where r: "recv left s = (r, s1)" by fastforce
  note step = "1.prems" [unfolded read_loop.simps [of buf base len left s] r]
  show ?case
  proof (cases "left = 0")
    case False
    note mono = recv_mono [OF r]
    show ?thesis
    proof (cases r)
      case (Received d)
      with step mono False "1.IH"(1) [OF False r [symmetric]] show ?thesis
        by (fastforce split: if_splits option.splits)
    next
      case Eintr
      with step mono False "1.IH"(2) [OF False r [symmetric]] show ?thesis by fastforce
    qed (use step r False mono recv_shrinks(3) in \<open>auto\<close>)
  qed (use step in simp)
qed

function read_data_loop ::
  "u8 list \<Rightarrow> nat \<Rightarrow> nat \<Rightarrow> nat \<Rightarrow> sock_event list \<Rightarrow> (int \<times> u8 list \<times> sock_event list) option" where
  "read_data_loop buf len total_read stalled_timeouts s =
    (case tcp_utils_read_data_partially buf total_read (len - total_read) s of
       None \<Rightarrow> None
     | Some (code, buf', actually_read, s') \<Rightarrow>
         if code = 0 then Some (0, buf', s')
         else if code = -1 then Some (-1, buf', s')
         else if total_read + actually_read = 0 then Some (code, buf', s')
         else let stalled = (if actually_read > 0 then 0 else stalled_timeouts + 1) in
           if stalled \<ge> TCP_UTILS_MAX_STALLED_TIMEOUTS then Some (-1, buf', s')
           else read_data_loop buf' len (total_read + actually_read) stalled s')"
  by pat_completeness auto
termination
  by (relation "measure (\<lambda>(buf, len, total_read, stalled, s). length s)")
    (auto simp: tcp_utils_read_data_partially_def dest!: sym [of "Some _"] read_loop_shrinks)

declare read_data_loop.simps [simp del]

definition tcp_utils_read_data :: "u8 list \<Rightarrow> nat \<Rightarrow> sock_event list \<Rightarrow> (int \<times> u8 list \<times> sock_event list) option" where
  "tcp_utils_read_data buf len s = read_data_loop buf len 0 0 s"

section \<open>What is read is what was sent\<close>

text \<open>The bytes the peer sent, in order, whatever the timing.\<close>

fun inbound :: "sock_event list \<Rightarrow> u8 list" where
  "inbound [] = []"
| "inbound (Data d # s) = d @ inbound s"
| "inbound (_ # s) = inbound s"

lemma recv_inbound:
  "recv n s = (Received d, s') \<Longrightarrow> inbound s = d @ inbound s' \<and> length d \<le> n"
  "recv n s = (Eagain, s') \<Longrightarrow> inbound s = inbound s'"
  "recv n s = (Eintr, s') \<Longrightarrow> inbound s = inbound s'"
  "recv n s = (Eerror, s') \<Longrightarrow> inbound s = inbound s'"
  by (cases "(n, s)" rule: recv.cases; auto split: if_splits)+

text \<open>\<open>fetched buf buf' i j s s'\<close>: the bytes between offsets \<open>i\<close> and \<open>j\<close> came from the socket, the rest of the buffer is unchanged.\<close>

definition fetched :: "u8 list \<Rightarrow> u8 list \<Rightarrow> nat \<Rightarrow> nat \<Rightarrow> sock_event list \<Rightarrow> sock_event list \<Rightarrow> bool" where
  "fetched buf buf' i j s s' \<longleftrightarrow> i \<le> j \<and> j \<le> length buf \<and>
     (\<exists>d. length d = j - i \<and> buf' = take i buf @ d @ drop j buf \<and> inbound s = d @ inbound s')"

lemma fetched_refl: "i \<le> length buf \<Longrightarrow> inbound s = inbound s' \<Longrightarrow> fetched buf buf i i s s'"
  by (simp add: fetched_def)

lemma fetched_length: "fetched buf buf' i j s s' \<Longrightarrow> length buf' = length buf"
  by (auto simp: fetched_def)

lemma fetched_trans:
  assumes "fetched buf buf1 i j s s1" "fetched buf1 buf2 j k s1 s2"
  shows "fetched buf buf2 i k s s2"
proof -
  from assms obtain d e where d: "length d = j - i" "buf1 = take i buf @ d @ drop j buf" "inbound s = d @ inbound s1"
      and e: "length e = k - j" "buf2 = take j buf1 @ e @ drop k buf1" "inbound s1 = e @ inbound s2"
      and le: "i \<le> j" "j \<le> k" "j \<le> length buf" "k \<le> length buf1"
    by (auto simp: fetched_def)
  have "take j buf1 = take i buf @ d" "drop k buf1 = drop k buf" using d le by simp_all
  with d e le show ?thesis
    unfolding fetched_def by (intro conjI exI [of _ "d @ e"]) auto
qed

lemma fetched_chunk:
  assumes "memcpy buf i d (length d) = Some buf'" "inbound s = d @ inbound s'"
  shows "fetched buf buf' i (i + length d) s s'"
  using assms by (auto simp: fetched_def memcpy_def split: if_splits)

lemma read_loop_spec:
  "left \<le> len \<Longrightarrow> base + len \<le> length buf \<Longrightarrow> \<exists>code buf' n s'. read_loop buf base len left s = Some (code, buf', n, s') \<and>
     n \<le> len \<and> (code = 0 \<longrightarrow> n = len) \<and> fetched buf buf' (base + (len - left)) (base + n) s s'"
proof (induction buf base len left s rule: read_loop.induct)
  case (1 buf base len left s)
  obtain r s1 where r: "recv left s = (r, s1)" by fastforce
  note step = read_loop.simps [of buf base len left s, unfolded r prod.case]
  show ?case
  proof (cases "left = 0")
    case False
    show ?thesis
    proof (cases r)
      case (Received d)
      with r recv_inbound(1) have d: "inbound s = d @ inbound s1" "length d \<le> left" by auto
      show ?thesis
      proof (cases "d = []")
        case ne: False
        have "base + (len - left) + length d \<le> length buf" using d "1.prems" by simp
        then obtain buf1 where m: "memcpy buf (base + (len - left)) d (length d) = Some buf1"
          using memcpy_Some_iff [of buf _ d "length d"] by blast
        have "left - length d \<le> len" "base + len \<le> length buf1" using "1.prems" memcpy_length [OF m] by simp_all
        from "1.IH"(1) [OF False r [symmetric] Received ne m this] obtain code buf' n s' where IH: "read_loop buf1 base len (left - length d) s1 = Some (code, buf', n, s')"
            "n \<le> len" "code = 0 \<longrightarrow> n = len" "fetched buf1 buf' (base + (len - (left - length d))) (base + n) s1 s'"
          by blast
        have "base + (len - left) + length d = base + (len - (left - length d))" using d "1.prems" by simp
        with fetched_trans [OF fetched_chunk [OF m d(1)]] IH(4) have "fetched buf buf' (base + (len - left)) (base + n) s s'"
          by metis
        with IH step False Received ne m show ?thesis by simp
      qed (use step False Received d "1.prems" in \<open>auto intro!: fetched_refl\<close>)
    next
      case Eintr
      from "1.IH"(2) [OF False r [symmetric] Eintr "1.prems"] recv_inbound(3) r Eintr step False show ?thesis
        by (auto simp: fetched_def)
    qed (use step r False "1.prems" recv_inbound in \<open>auto intro!: fetched_refl\<close>)
  qed (use step "1.prems" in \<open>auto intro!: fetched_refl\<close>)
qed

lemma read_data_loop_spec:
  "total_read \<le> len \<Longrightarrow> len \<le> length buf \<Longrightarrow> \<exists>code buf' n s'. read_data_loop buf len total_read stalled s = Some (code, buf', s') \<and>
     code \<in> {0, -1, - EAGAIN} \<and> n \<le> len \<and> (code = 0 \<longrightarrow> n = len) \<and> (code = - EAGAIN \<longrightarrow> n = 0) \<and>
     fetched buf buf' total_read n s s'"
proof (induction buf len total_read stalled s rule: read_data_loop.induct)
  case (1 buf len tr st s)
  from "1.prems" read_loop_spec [of "len - tr" "len - tr" tr buf s] obtain code buf1 n s1 where
    p: "tcp_utils_read_data_partially buf tr (len - tr) s = Some (code, buf1, n, s1)"
    and n: "n \<le> len - tr" "code = 0 \<longrightarrow> n = len - tr" "fetched buf buf1 tr (tr + n) s s1"
    by (auto simp: tcp_utils_read_data_partially_def)
  have code: "code \<in> {0, -1, - EAGAIN}" using p read_loop_shrinks by (simp add: tcp_utils_read_data_partially_def)
  note step = read_data_loop.simps [of buf len tr st s, unfolded p option.case prod.case]
  let ?st = "if n > 0 then 0 else st + 1"
  show ?case
  proof (cases "code \<in> {0, -1} \<or> tr + n = 0 \<or> ?st \<ge> 3")
    case True
    with n code "1.prems" show ?thesis
      unfolding step by (auto simp: Let_def intro!: exI [of _ "tr + n"])
  next
    case False
    then have go: "code \<noteq> 0" "code \<noteq> -1" "tr + n \<noteq> 0" "\<not> 3 \<le> ?st" by auto
    have "tr + n \<le> len" "len \<le> length buf1" using n "1.prems" fetched_length by auto
    from "1.IH" [OF p refl refl refl go(1-3) refl go(4) this] obtain code' buf' n' s' where
      IH: "read_data_loop buf1 len (tr + n) ?st s1 = Some (code', buf', s')" "code' \<in> {0, -1, - EAGAIN}" "n' \<le> len"
        "code' = 0 \<longrightarrow> n' = len" "code' = - EAGAIN \<longrightarrow> n' = 0" "fetched buf1 buf' (tr + n) n' s1 s'" by blast
    with fetched_trans [OF n(3) IH(6)] go show ?thesis unfolding step by (auto simp: Let_def)
  qed
qed

section \<open>When a message is read completely\<close>

text \<open>
  \<open>patient k left s\<close>: \<open>left\<close> more bytes arrive before the socket breaks or is closed, and never more
  than three timeouts in a row pass between two chunks; \<open>k\<close> timeouts passed since the last chunk.
  The first of them ends a call that made progress, so the limit of three timeouts without
  progress is hit by the fourth.
\<close>

fun patient :: "nat \<Rightarrow> nat \<Rightarrow> sock_event list \<Rightarrow> bool" where
  "patient k 0 s = True"
| "patient k left [] = False"
| "patient k left (Data d # s) = (d \<noteq> [] \<and> patient 0 (left - length d) s)"
| "patient k left (Interrupted # s) = patient k left s"
| "patient k left (Timeout # s) = (k < 3 \<and> patient (Suc k) left s)"
| "patient k left (Broken # s) = False"

lemma patient_0 [simp]: "patient k 0 s"
  by (cases s) auto

lemma patient_recv:
  assumes "0 < left"
  shows "recv left s = (Received d, s') \<Longrightarrow> patient k left s \<longleftrightarrow> d \<noteq> [] \<and> patient 0 (left - length d) s'"
    "recv left s = (Eintr, s') \<Longrightarrow> patient k left s = patient k left s'"
    "recv left s = (Eagain, s') \<Longrightarrow> patient k left s \<longleftrightarrow> k < 3 \<and> patient (Suc k) left s'"
    "recv left s = (Eerror, s') \<Longrightarrow> \<not> patient k left s"
  using assms by (cases "(k, left, s)" rule: patient.cases; auto split: if_splits)+

lemma read_loop_progress:
  "read_loop buf base len left s = Some (code, buf', n, s') \<Longrightarrow> left \<le> len \<Longrightarrow> len - left \<le> n"
proof (induction buf base len left s rule: read_loop.induct)
  case (1 buf base len left s)
  obtain r s1 where r: "recv left s = (r, s1)" by fastforce
  note step = "1.prems"(1) [unfolded read_loop.simps [of buf base len left s] r prod.case]
  show ?case
  proof (cases "left = 0")
    case False
    show ?thesis
    proof (cases r)
      case (Received d)
      with step False "1.IH"(1) [OF False r [symmetric]] "1.prems"(2) show ?thesis
        by (fastforce split: if_splits option.splits)
    next
      case Eintr
      with step False "1.IH"(2) [OF False r [symmetric]] "1.prems"(2) show ?thesis by simp
    qed (use step False in auto)
  qed (use step in auto)
qed

text \<open>One call of the inner loop, started when \<open>k\<close> timeouts had passed since the last byte.\<close>

lemma read_loop_patient:
  "read_loop buf base len left s = Some (code, buf', n, s') \<Longrightarrow> left \<le> len \<Longrightarrow>
   (code = 0 \<longrightarrow> patient k left s) \<and> (code = -1 \<longrightarrow> \<not> patient k left s) \<and>
   (code = - EAGAIN \<longrightarrow> (let k' = if n > len - left then 0 else k in
       patient k left s \<longleftrightarrow> k' < 3 \<and> patient (Suc k') (len - n) s'))"
proof (induction buf base len left s arbitrary: k rule: read_loop.induct)
  case (1 buf base len left s)
  obtain r s1 where r: "recv left s = (r, s1)" by fastforce
  note step = "1.prems"(1) [unfolded read_loop.simps [of buf base len left s] r prod.case]
  show ?case
  proof (cases "left = 0")
    case False
    then have pos: "0 < left" by simp
    show ?thesis
    proof (cases r)
      case (Received d)
      note pd = patient_recv(1) [OF pos r [unfolded Received], of k]
      show ?thesis
      proof (cases "d = []")
        case ne: False
        with step False Received obtain buf1 where m: "memcpy buf (base + (len - left)) d (length d) = Some buf1"
            and rl: "read_loop buf1 base len (left - length d) s1 = Some (code, buf', n, s')"
          by (auto split: option.splits)
        have d: "length d \<le> left" "0 < length d" using recv_inbound(1) r Received ne by auto
        have le: "left - length d \<le> len" using "1.prems"(2) by simp
        note IH = "1.IH"(1) [OF False r [symmetric] Received ne m rl this, of 0]
        have "len - left < n" using read_loop_progress [OF rl le] d "1.prems"(2) by linarith
        with IH pd ne show ?thesis by (simp add: Let_def)
      qed (use step False Received pd in auto)
    next
      case Eintr
      with step False have "read_loop buf base len left s1 = Some (code, buf', n, s')" by simp
      from "1.IH"(2) [OF False r [symmetric] Eintr this "1.prems"(2), of k] patient_recv(2) [OF pos r [unfolded Eintr], of k]
      show ?thesis by simp
    qed (use step False patient_recv [OF pos] r "1.prems"(2) in \<open>auto simp: Let_def\<close>)
  qed (use step in auto)
qed

lemma read_data_loop_patient:
  "read_data_loop buf len tr st s = Some (code, buf', s') \<Longrightarrow> tr \<le> len \<Longrightarrow> len \<le> length buf \<Longrightarrow> st < 3 \<Longrightarrow>
   code = 0 \<longleftrightarrow> patient (if tr = 0 then 3 else Suc st) (len - tr) s"
proof (induction buf len tr st s rule: read_data_loop.induct)
  case (1 buf len tr st s)
  from "1.prems" read_loop_spec [of "len - tr" "len - tr" tr buf s] obtain c buf1 n s1 where
    p: "tcp_utils_read_data_partially buf tr (len - tr) s = Some (c, buf1, n, s1)"
    and n: "n \<le> len - tr" "fetched buf buf1 tr (tr + n) s s1"
    by (auto simp: tcp_utils_read_data_partially_def)
  have c: "c \<in> {0, -1, - EAGAIN}" using p read_loop_shrinks by (simp add: tcp_utils_read_data_partially_def)
  note pat = read_loop_patient [OF p [unfolded tcp_utils_read_data_partially_def] order_refl,
      of "if tr = 0 then 3 else Suc st"]
  note step = "1.prems"(1) [unfolded read_data_loop.simps [of buf len tr st s] p option.case prod.case]
  let ?st = "if n > 0 then 0 else st + 1"
  show ?case
  proof (cases "c \<in> {0, -1} \<or> tr + n = 0 \<or> ?st \<ge> 3")
    case True
    with step pat c show ?thesis by (auto simp: Let_def split: if_splits)
  next
    case False
    then have go: "c \<noteq> 0" "c \<noteq> -1" "tr + n \<noteq> 0" "\<not> 3 \<le> ?st" by auto
    have rd: "read_data_loop buf1 len (tr + n) ?st s1 = Some (code, buf', s')"
      using step go by (auto simp: Let_def)
    have "tr + n \<le> len" "len \<le> length buf1" "?st < 3" using n "1.prems" go(4) fetched_length by auto
    from "1.IH" [OF p refl refl refl go(1-3) refl go(4) rd this] have
      "code = 0 \<longleftrightarrow> patient (Suc ?st) (len - (tr + n)) s1" unfolding if_not_P [OF go(3)] .
    with pat c go show ?thesis by (auto simp: Let_def split: if_splits)
  qed
qed

lemma write_loop_spec:
  "left \<le> ttl \<Longrightarrow> ttl \<le> length buffer \<Longrightarrow> \<exists>code s' k. write_loop buffer ttl left ans out = Some (code, s') \<and> code \<in> {0, -1} \<and>
     k \<le> left \<and> (code = 0 \<longrightarrow> k = left) \<and> sent s' = out @ take k (drop (ttl - left) buffer)"
proof (induction buffer ttl left ans out rule: write_loop.induct)
  case (1 buffer ttl left ans out)
  show ?case
  proof (cases "left = 0")
    case False
    with "1.prems" have nz: "left \<noteq> 0" "\<not> length buffer < ttl" by auto
    note step = write_loop.simps [of buffer ttl left ans out]
    show ?thesis
    proof (cases ans)
      case (Cons e ans')
      show ?thesis
      proof (cases e)
        case (Takes m)
        let ?w = "min m left" and ?rest = "take left (drop (ttl - left) buffer)"
        have "left - ?w \<le> ttl" using "1.prems" by simp
        from "1.IH"(1) [OF nz refl Cons Takes refl this "1.prems"(2)] obtain code s' k where
          IH: "write_loop buffer ttl (left - ?w) ans' (out @ take ?w ?rest) = Some (code, s')" "code \<in> {0, -1}"
            "k \<le> left - ?w" "code = 0 \<longrightarrow> k = left - ?w" "sent s' = (out @ take ?w ?rest) @ take k (drop (ttl - (left - ?w)) buffer)"
          by blast
        have "take ?w ?rest @ take k (drop (ttl - (left - ?w)) buffer) = take (?w + k) (drop (ttl - left) buffer)"
        proof -
          have "ttl - (left - ?w) = ?w + (ttl - left)" using "1.prems" by simp
          then show ?thesis by (simp add: take_add)
        qed
        with IH step nz Cons Takes show ?thesis
          by (auto simp: Let_def intro!: exI [of _ "?w + k"])
      qed (use step nz Cons "1.IH"(2) [OF nz refl] "1.prems" in \<open>auto simp: Let_def intro!: exI [of _ "0 :: nat"]\<close>)
    qed (use step nz in \<open>auto simp: Let_def\<close>)
  qed (simp add: write_loop.simps)
qed

lemma write_loop_healthy:
  "WBroken \<notin> set ans \<Longrightarrow> write_loop buffer ttl left ans out = Some (code, s') \<Longrightarrow> code = 0 \<and> WBroken \<notin> set (answers s')"
proof (induction buffer ttl left ans out rule: write_loop.induct)
  case (1 buffer ttl left ans out)
  note step = "1.prems"(2) [unfolded write_loop.simps [of buffer ttl left ans out]]
  show ?case
  proof (cases "left = 0 \<or> length buffer < ttl")
    case False
    then have nz: "left \<noteq> 0" "\<not> length buffer < ttl" by auto
    show ?thesis
    proof (cases ans)
      case (Cons e ans')
      with "1.prems"(1) have w: "WBroken \<notin> set ans'" "e \<noteq> WBroken" by auto
      show ?thesis
        by (cases e) (use step nz Cons w "1.IH"(1) [OF nz refl Cons _ refl w(1)] "1.IH"(2) [OF nz refl Cons _ w(1)] in
          \<open>auto simp: Let_def\<close>)
    qed (use step nz in \<open>auto simp: Let_def\<close>)
  qed (use step "1.prems"(1) in \<open>auto split: if_splits\<close>)
qed

text \<open>Writing a whole buffer: a prefix reaches the socket, all of it when the code is 0, which is so on a socket that does not fail.\<close>

lemma tcp_utils_write_data_spec:
  assumes "n \<le> length b"
  obtains code s' k where "tcp_utils_write_data b n s = Some (code, s')" "code = 0 \<or> code = -1" "code = 0 \<longrightarrow> k = n" "k \<le> n"
    "sent s' = sent s @ take k b" "WBroken \<notin> set (answers s) \<longrightarrow> code = 0 \<and> WBroken \<notin> set (answers s')"
  using write_loop_spec [OF order_refl assms, of "answers s" "sent s"] write_loop_healthy [of "answers s" b n n "sent s"]
  by (fastforce simp: tcp_utils_write_data_def)

text \<open>Reading a whole message, whatever the timing.\<close>

lemma tcp_utils_read_data_spec:
  assumes "len \<le> length buf"
  shows "\<exists>code buf' n s'. tcp_utils_read_data buf len s = Some (code, buf', s') \<and> code \<in> {0, -1, - EAGAIN} \<and>
    (code = 0 \<longrightarrow> n = len) \<and> (code = - EAGAIN \<longrightarrow> n = 0) \<and> n \<le> len \<and>
    inbound s = take n buf' @ inbound s' \<and> drop n buf' = drop n buf \<and> length buf' = length buf"
proof -
  from read_data_loop_spec [of 0 len buf 0 s] assms obtain code buf' n s' where
    r: "tcp_utils_read_data buf len s = Some (code, buf', s')" "code \<in> {0, -1, - EAGAIN}" "n \<le> len"
      "code = 0 \<longrightarrow> n = len" "code = - EAGAIN \<longrightarrow> n = 0" "fetched buf buf' 0 n s s'"
    by (auto simp: tcp_utils_read_data_def)
  from r(6) have "inbound s = take n buf' @ inbound s'" "drop n buf' = drop n buf" "length buf' = length buf"
    by (auto simp: fetched_def)
  with r show ?thesis by blast
qed

lemma read_data_loop_shrinks:
  "read_data_loop buf len tr st s = Some (code, buf', s') \<Longrightarrow> length s' \<le> length s \<and> (code \<notin> {0, -1} \<longrightarrow> length s' < length s)"
proof (induction buf len tr st s rule: read_data_loop.induct)
  case (1 buf len tr st s)
  note step = "1.prems" [unfolded read_data_loop.simps [of buf len tr st s]]
  then obtain c buf1 n s1 where p: "tcp_utils_read_data_partially buf tr (len - tr) s = Some (c, buf1, n, s1)"
    by (auto split: option.splits)
  note shr = read_loop_shrinks [OF p [unfolded tcp_utils_read_data_partially_def]]
  let ?st = "if n > 0 then 0 else st + 1"
  show ?case
  proof (cases "c \<in> {0, -1} \<or> tr + n = 0 \<or> ?st \<ge> 3")
    case True
    with step p shr show ?thesis by (auto simp: Let_def split: if_splits)
  next
    case False
    then have go: "c \<noteq> 0" "c \<noteq> -1" "tr + n \<noteq> 0" "\<not> 3 \<le> ?st" by auto
    have "read_data_loop buf1 len (tr + n) ?st s1 = Some (code, buf', s')" using step p go by (auto simp: Let_def)
    from "1.IH" [OF p refl refl refl go(1-3) refl go(4) this] shr show ?thesis by auto
  qed
qed

section \<open>A steady connection\<close>

text \<open>The peer sends without pauses that a read timeout would notice, and closes the connection at the end.\<close>

fun steady :: "sock_event list \<Rightarrow> bool" where
  "steady [] = True"
| "steady (Data d # s) = (d \<noteq> [] \<and> steady s)"
| "steady (Interrupted # s) = steady s"
| "steady _ = False"

lemma steady_recv: "steady s \<Longrightarrow> recv n s = (r, s') \<Longrightarrow> 0 < n \<Longrightarrow> steady s' \<and> r \<noteq> Eagain \<and> r \<noteq> Eerror \<and> (r = Received [] \<longrightarrow> s' = [])"
  by (cases "(n, s)" rule: recv.cases) (auto split: if_splits)

lemma steady_read_loop:
  "steady s \<Longrightarrow> read_loop buf base len left s = Some (code, buf', n, s') \<Longrightarrow> steady s' \<and> code \<in> {0, -1} \<and> (code = -1 \<longrightarrow> s' = [])"
proof (induction buf base len left s rule: read_loop.induct)
  case (1 buf base len left s)
  obtain r s1 where r: "recv left s = (r, s1)" by fastforce
  note step = "1.prems"(2) [unfolded read_loop.simps [of buf base len left s] r prod.case]
  show ?case
  proof (cases "left = 0")
    case False
    with steady_recv [OF "1.prems"(1) r] have st: "steady s1" "r \<noteq> Eagain" "r \<noteq> Eerror" "r = Received [] \<longrightarrow> s1 = []" by auto
    show ?thesis
    proof (cases r)
      case (Received d)
      show ?thesis
      proof (cases "d = []")
        case ne: False
        with step False Received obtain buf1 where m: "memcpy buf (base + (len - left)) d (length d) = Some buf1"
            and rl: "read_loop buf1 base len (left - length d) s1 = Some (code, buf', n, s')"
          by (auto split: option.splits)
        from "1.IH"(1) [OF False r [symmetric] Received ne m st(1) rl] show ?thesis .
      qed (use step False Received st in auto)
    next
      case Eintr
      with step False have "read_loop buf base len left s1 = Some (code, buf', n, s')" by simp
      from "1.IH"(2) [OF False r [symmetric] Eintr st(1) this] show ?thesis .
    qed (use st in auto)
  qed (use step "1.prems"(1) in auto)
qed

lemma steady_patient: "steady s \<Longrightarrow> patient k left s \<longleftrightarrow> left \<le> length (inbound s)"
proof (induction k left s rule: patient.induct)
  case (3 k left d s)
  then show ?case by simp arith
qed auto

lemma steady_read_data:
  assumes "steady s" "len \<le> length buf"
  obtains (complete) buf' s' where "len \<le> length (inbound s)" "tcp_utils_read_data buf len s = Some (0, buf', s')" "steady s'"
      "length buf' = length buf" "take len buf' = take len (inbound s)" "inbound s' = drop len (inbound s)"
  | (closed) buf' where "length (inbound s) < len" "tcp_utils_read_data buf len s = Some (-1, buf', [])" "length buf' = length buf"
proof -
  from tcp_utils_read_data_spec [OF assms(2), of s] obtain code buf' n s' where
    r: "tcp_utils_read_data buf len s = Some (code, buf', s')" "code = 0 \<longrightarrow> n = len" "inbound s = take n buf' @ inbound s'"
      "length buf' = length buf" by blast
  from read_loop_spec [of len len 0 buf s] assms(2) obtain c b m t where
    p: "tcp_utils_read_data_partially buf 0 len s = Some (c, b, m, t)" by (auto simp: tcp_utils_read_data_partially_def)
  from steady_read_loop [OF assms(1) p [unfolded tcp_utils_read_data_partially_def]]
  have st: "steady t" "c \<in> {0, -1}" "c = -1 \<longrightarrow> t = []" by auto
  have "tcp_utils_read_data buf len s = Some (c, b, t)"
    unfolding tcp_utils_read_data_def read_data_loop.simps [of buf len 0 0 s] using p st(2) by auto
  with r(1) have eq: "c = code" "t = s'" "b = buf'" by simp_all
  have iff: "code = 0 \<longleftrightarrow> len \<le> length (inbound s)"
    using read_data_loop_patient [of buf len 0 0 s code buf' s'] r(1) assms steady_patient [OF assms(1)]
    by (simp add: tcp_utils_read_data_def)
  show thesis
  proof (cases "code = 0")
    case True
    then have "take len buf' = take len (inbound s)" "inbound s' = drop len (inbound s)"
      using r(2-4) assms(2) by simp_all
    with complete r True iff st eq show thesis by blast
  next
    case False
    with st eq have "code = -1" "s' = []" by auto
    with closed [of buf'] r(1,4) iff show thesis by simp
  qed
qed

section \<open>Properties\<close>



text \<open>
  A message is read if and only if the client is not stalled: the first byte is there, the
  remaining bytes arrive before the socket is closed, and between two chunks at most three read
  timeouts pass.
\<close>

theorem tcp_read_succeeds_iff:
  assumes "len \<le> length buf"
  shows "(\<exists>buf' s'. tcp_utils_read_data buf len s = Some (0, buf', s')) \<longleftrightarrow> patient 3 len s"
  using read_data_loop_spec [of 0 len buf 0 s] read_data_loop_patient [of buf len 0 0 s] assms
  by (fastforce simp: tcp_utils_read_data_def)

theorem tcp_read_succeeds_iff_witness:
  "\<exists>buf' s'. tcp_utils_read_data [0, 0, 0] 3 [Data [7], Timeout, Timeout, Timeout, Interrupted, Data [8, 9]] = Some (0, buf', s')"
  using tcp_read_succeeds_iff [of 3 "[0, 0, 0]" "[Data [7], Timeout, Timeout, Timeout, Interrupted, Data [8, 9]]"]
  by (simp add: numeral_eq_Suc)

text \<open>
  Writing sends the bytes of the buffer in order and exactly once, across partial writes and
  signals: on success all of them, on an error a prefix.
\<close>

theorem tcp_write_all:
  assumes "n \<le> length buffer"
  shows "\<exists>code s' k. tcp_utils_write_data buffer n s = Some (code, s') \<and> code \<in> {0, -1} \<and>
    (code = 0 \<longrightarrow> k = n) \<and> k \<le> n \<and> sent s' = sent s @ take k buffer"
  by (rule tcp_utils_write_data_spec [OF assms, of s]) auto

theorem tcp_write_all_witness:
  "\<exists>code s' k. tcp_utils_write_data [1, 2, 3] 3 \<lparr>answers = [Takes 1, WInterrupted, Takes 5], sent = []\<rparr> = Some (code, s') \<and>
    k \<le> 3 \<and> sent s' = take k [1, 2, 3]"
  using tcp_write_all [of 3 "[1, 2, 3]" "\<lparr>answers = [Takes 1, WInterrupted, Takes 5], sent = []\<rparr>"] by auto

end
