(* ===== verification/ClientTxWorker.thy ===== *)
theory ClientTxWorker
  imports WorkerAlloc Api TcpUtils
begin

text \<open>
  The worker that sends answers and soft bits to the client, \<^verbatim>\<open>src/client_tx_worker.c\<close>: the
  functions other threads call to enqueue a message, the thread that takes the messages off the
  queue and writes frames to the socket of the current client, and the construction and
  destruction of the worker.

  Other components call the senders only; what they ask for is a \<open>client_call\<close>.
\<close>

section \<open>Data\<close>

abbreviation (input) CLIENT_TX_SOFT_BITS :: u8 where "CLIENT_TX_SOFT_BITS \<equiv> 0"
abbreviation (input) CLIENT_TX_RESPONSE :: u8 where "CLIENT_TX_RESPONSE \<equiv> 1"
abbreviation (input) CLIENT_TX_NEW_CLIENT :: u8 where "CLIENT_TX_NEW_CLIENT \<equiv> 2"
abbreviation (input) CLIENT_TX_COMPLETE :: u8 where "CLIENT_TX_COMPLETE \<equiv> 3"

abbreviation (input) MESSAGE_TYPE_RESPONSE :: u8 where "MESSAGE_TYPE_RESPONSE \<equiv> 4"
abbreviation (input) MESSAGE_TYPE_SOFT_BITS :: u8 where "MESSAGE_TYPE_SOFT_BITS \<equiv> 5"
abbreviation (input) MESSAGE_TYPE_TX_COMPLETE :: u8 where "MESSAGE_TYPE_TX_COMPLETE \<equiv> 9"

abbreviation (input) RESPONSE_STATUS_SUCCESS :: u8 where "RESPONSE_STATUS_SUCCESS \<equiv> 0"
abbreviation (input) RESPONSE_STATUS_FAILURE :: u8 where "RESPONSE_STATUS_FAILURE \<equiv> 1"
abbreviation (input) RESPONSE_DETAILS_NO_DETAILS :: u8 where "RESPONSE_DETAILS_NO_DETAILS \<equiv> 0"
abbreviation (input) RESPONSE_DETAILS_INVALID_REQUEST :: u8 where "RESPONSE_DETAILS_INVALID_REQUEST \<equiv> 1"

record client_tx_worker =
  ctw_queue :: queue
  header_buffer :: "u8 list"
  header_buffer_len :: nat
  buffer :: "u8 list"
  buffer_len :: nat
  client_socket :: int

text \<open>The sockets of the process by file descriptor.\<close>

type_synonym sockets = "int \<Rightarrow> tx_socket"

text \<open>A C \<^verbatim>\<open>int\<close> as the four bytes it has in memory on a little-endian machine, and back.\<close>

definition int_bytes :: "int \<Rightarrow> u8 list" where
  "int_bytes i = rev (be32 (word_of_int i))"

definition bytes_int :: "u8 list \<Rightarrow> int option" where
  "bytes_int bs = (if length bs < 4 then None else map_option sint (read_u32 (rev (take 4 bs)) 0))"

lemma bytes_int_bytes:
  assumes "- (2 ^ 31) \<le> i" "i < 2 ^ 31"
  shows "bytes_int (int_bytes i @ r) = Some i"
proof -
  have "sint (word_of_int i :: u32) = i"
    using assms by (simp add: signed_take_bit_int_eq_self sint_sbintrunc')
  moreover have "read_u32 (be32 (word_of_int i :: u32)) 0 = Some (word_of_int i)"
    using read_u32_be [of "[]" 0 "word_of_int i" "[]"] by simp
  ultimately show ?thesis by (simp add: bytes_int_def int_bytes_def)
qed

section \<open>Senders\<close>

datatype client_call =
    SendNew int
  | SendSoftBits u32 "u8 list"
  | SendResponse u32 u8 u8
  | SendTxComplete u32 u8 u8

definition client_tx_worker_send_new :: "int \<Rightarrow> u8 list queue_message" where
  "client_tx_worker_send_new sock = \<lparr>
     msg_type = CLIENT_TX_NEW_CLIENT, msg_request_id = 0, msg_buffer = int_bytes sock, msg_buffer_len = 4\<rparr>"

definition client_tx_worker_send_soft_bits :: "u32 \<Rightarrow> u8 list \<Rightarrow> u8 list queue_message" where
  "client_tx_worker_send_soft_bits rid bits = \<lparr>
     msg_type = CLIENT_TX_SOFT_BITS, msg_request_id = rid, msg_buffer = bits, msg_buffer_len = length bits\<rparr>"

definition client_tx_worker_send_response :: "u32 \<Rightarrow> u8 \<Rightarrow> u8 \<Rightarrow> u8 list queue_message" where
  "client_tx_worker_send_response rid st de = \<lparr>
     msg_type = CLIENT_TX_RESPONSE, msg_request_id = rid, msg_buffer = [st, de], msg_buffer_len = 2\<rparr>"

definition client_tx_worker_send_tx_complete :: "u32 \<Rightarrow> u8 \<Rightarrow> u8 \<Rightarrow> u8 list queue_message" where
  "client_tx_worker_send_tx_complete rid st de = \<lparr>
     msg_type = CLIENT_TX_COMPLETE, msg_request_id = rid, msg_buffer = [st, de], msg_buffer_len = 2\<rparr>"

fun client_message :: "client_call \<Rightarrow> u8 list queue_message" where
  "client_message (SendNew s) = client_tx_worker_send_new s"
| "client_message (SendSoftBits i b) = client_tx_worker_send_soft_bits i b"
| "client_message (SendResponse i s d) = client_tx_worker_send_response i s d"
| "client_message (SendTxComplete i s d) = client_tx_worker_send_tx_complete i s d"

text \<open>A sender ignores the return code of \<^verbatim>\<open>queue_put\<close>; \<open>Wait\<close> blocks the caller.\<close>

definition client_send :: "client_call \<Rightarrow> client_tx_worker \<Rightarrow> (put_result \<times> client_tx_worker) option" where
  "client_send c w = do {
     (r, q) \<leftarrow> queue_put (Some (client_message c)) (ctw_queue w);
     Some (r, w\<lparr>ctw_queue := q\<rparr>) }"

section \<open>The thread\<close>

definition socket_write :: "u8 list \<Rightarrow> nat \<Rightarrow> int \<Rightarrow> sockets \<Rightarrow> (int \<times> sockets) option" where
  "socket_write b n fd socks = do {
     (code, s) \<leftarrow> tcp_utils_write_data b n (socks fd);
     Some (code, socks(fd := s)) }"

definition client_tx_send_header :: "message_header \<Rightarrow> client_tx_worker \<Rightarrow> sockets \<Rightarrow> (int \<times> client_tx_worker \<times> sockets) option" where
  "client_tx_send_header header w socks = do {
     (code, hb, written) \<leftarrow> api_encode_message_header (Some header) (Some (header_buffer w)) (header_buffer_len w);
     b \<leftarrow> hb;
     let w1 = w\<lparr>header_buffer := b\<rparr>;
     (if code \<noteq> 0 then Some (code, w1, socks)
      else do {
        n \<leftarrow> written;
        (code, socks1) \<leftarrow> socket_write b n (client_socket w1) socks;
        (if code \<noteq> 0 then Some (code, w1\<lparr>client_socket := -1\<rparr>, socks1) else Some (0, w1, socks1)) }) }"

text \<open>The last part of each case: header first, then the payload; the client is dropped when a write fails.\<close>

definition client_tx_send_frame ::
  "u8 \<Rightarrow> u32 \<Rightarrow> u8 list \<Rightarrow> nat \<Rightarrow> client_tx_worker \<Rightarrow> sockets \<Rightarrow> (client_tx_worker \<times> sockets) option" where
  "client_tx_send_frame ty rid payload n w socks = do {
     let header = \<lparr>protocol_version = PROTOCOL_VERSION, type = ty, request_id = rid, message_length = of_nat n\<rparr>;
     (code, w1, socks1) \<leftarrow> client_tx_send_header header w socks;
     (if code \<noteq> 0 then Some (w1, socks1)
      else do {
        (code, socks2) \<leftarrow> socket_write payload (unat (message_length header)) (client_socket w1) socks1;
        (if code \<noteq> 0 then Some (w1\<lparr>client_socket := -1\<rparr>, socks2) else Some (w1, socks2)) }) }"

definition client_tx_soft_bits :: "u8 list queue_message \<Rightarrow> client_tx_worker \<Rightarrow> sockets \<Rightarrow> (client_tx_worker \<times> sockets) option" where
  "client_tx_soft_bits m w socks =
    (if client_socket w < 0 then Some (w, socks)
     else client_tx_send_frame MESSAGE_TYPE_SOFT_BITS (msg_request_id m) (msg_buffer m) (msg_buffer_len m) w socks)"

definition client_tx_response :: "u8 \<Rightarrow> u8 list queue_message \<Rightarrow> client_tx_worker \<Rightarrow> sockets \<Rightarrow> (client_tx_worker \<times> sockets) option" where
  "client_tx_response ty m w socks =
    (if client_socket w < 0 then Some (w, socks)
     else do {
       st \<leftarrow> get_at (msg_buffer m) 0;
       de \<leftarrow> get_at (msg_buffer m) 1;
       (code, b, written) \<leftarrow> api_encode_response (Some \<lparr>status = st, details = de\<rparr>) (Some (buffer w)) (buffer_len w);
       b \<leftarrow> b;
       let w1 = w\<lparr>buffer := b\<rparr>;
       (if code \<noteq> 0 then Some (w1, socks)
        else do {
          n \<leftarrow> written;
          client_tx_send_frame ty (msg_request_id m) b n w1 socks }) })"

definition client_tx_handle :: "u8 list queue_message \<Rightarrow> client_tx_worker \<Rightarrow> sockets \<Rightarrow> (client_tx_worker \<times> sockets) option" where
  "client_tx_handle m w socks =
    (if msg_type m = CLIENT_TX_SOFT_BITS then client_tx_soft_bits m w socks
     else if msg_type m = CLIENT_TX_RESPONSE then client_tx_response MESSAGE_TYPE_RESPONSE m w socks
     else if msg_type m = CLIENT_TX_COMPLETE then client_tx_response MESSAGE_TYPE_TX_COMPLETE m w socks
     else if msg_type m = CLIENT_TX_NEW_CLIENT then do {
       fd \<leftarrow> bytes_int (msg_buffer m);
       Some (w\<lparr>client_socket := fd\<rparr>, socks) }
     else Some (w, socks))"

datatype turn = Stopped | Blocked | Handled

text \<open>One turn of the loop of \<^verbatim>\<open>client_tx_worker_callback\<close>.\<close>

definition client_tx_turn :: "client_tx_worker \<Rightarrow> sockets \<Rightarrow> (turn \<times> client_tx_worker \<times> sockets) option" where
  "client_tx_turn w socks = do {
     (r, q) \<leftarrow> queue_take (ctw_queue w);
     let w1 = w\<lparr>ctw_queue := q\<rparr>;
     (case r of
        NoMessage \<Rightarrow> Some (Stopped, w1, socks)
      | Waiting \<Rightarrow> Some (Blocked, w1, socks)
      | Message m \<Rightarrow> do {
          b \<leftarrow> bufs (mem q) (msg_buffer m);
          (w2, socks2) \<leftarrow> client_tx_handle \<lparr>msg_type = msg_type m, msg_request_id = msg_request_id m, msg_buffer = b,
                                         msg_buffer_len = msg_buffer_len m\<rparr> w1 socks;
          q2 \<leftarrow> queue_complete (ctw_queue w2);
          Some (Handled, w2\<lparr>ctw_queue := q2\<rparr>, socks2) }) }"

partial_function (option) client_tx_worker_callback :: "client_tx_worker \<Rightarrow> sockets \<Rightarrow> (client_tx_worker \<times> sockets) option" where
  "client_tx_worker_callback w socks = do {
     (t, w1, socks1) \<leftarrow> client_tx_turn w socks;
     (if t = Stopped then Some (w1, socks1) else client_tx_worker_callback w1 socks1) }"

section \<open>Frames\<close>

text \<open>The bytes a message becomes on the wire; a change of the client sends nothing.\<close>

definition frame :: "u8 \<Rightarrow> u32 \<Rightarrow> u8 list \<Rightarrow> u8 list" where
  "frame ty rid payload =
     wire_header \<lparr>protocol_version = PROTOCOL_VERSION, type = ty, request_id = rid, message_length = of_nat (length payload)\<rparr> @ payload"

fun frame_of :: "msg \<Rightarrow> u8 list" where
  "frame_of (ty, rid, b) =
    (if ty = CLIENT_TX_SOFT_BITS then frame MESSAGE_TYPE_SOFT_BITS rid b
     else if ty = CLIENT_TX_RESPONSE then frame MESSAGE_TYPE_RESPONSE rid (take 2 b)
     else if ty = CLIENT_TX_COMPLETE then frame MESSAGE_TYPE_TX_COMPLETE rid (take 2 b) else [])"

text \<open>Messages as the senders build them.\<close>

fun msg_ok :: "msg \<Rightarrow> bool" where
  "msg_ok (ty, rid, b) =
    (length b < 2 ^ 32 \<and> (ty \<in> {CLIENT_TX_RESPONSE, CLIENT_TX_COMPLETE} \<longrightarrow> 2 \<le> length b) \<and>
     (ty = CLIENT_TX_NEW_CLIENT \<longrightarrow> 4 \<le> length b))"

lemma client_message_ok: "(\<forall>i b. c = SendSoftBits i b \<longrightarrow> length b < 2 ^ 32) \<Longrightarrow> msg_ok (msg_of (client_message c))"
  by (cases c) (auto simp: msg_of_def client_tx_worker_send_new_def client_tx_worker_send_soft_bits_def
      client_tx_worker_send_response_def client_tx_worker_send_tx_complete_def int_bytes_def)

definition client_tx_ok :: "client_tx_worker \<Rightarrow> bool" where
  "client_tx_ok w \<longleftrightarrow> header_buffer_len w = API_HEADER_SIZE \<and> length (header_buffer w) = API_HEADER_SIZE \<and>
     buffer_len w = length (buffer w) \<and> 2 \<le> buffer_len w"

text \<open>
  \<open>pushed fd bytes w socks w' socks'\<close>: a prefix of \<open>bytes\<close> was written to \<open>fd\<close> and nothing else; either
  all of it, or the client was dropped. A socket that does not fail takes all of it.
\<close>

definition pushed :: "int \<Rightarrow> u8 list \<Rightarrow> client_tx_worker \<Rightarrow> sockets \<Rightarrow> client_tx_worker \<Rightarrow> sockets \<Rightarrow> bool" where
  "pushed fd bytes w socks w' socks' \<longleftrightarrow> client_tx_ok w' \<and>
     (\<forall>f. f \<noteq> fd \<longrightarrow> socks' f = socks f) \<and>
     (\<exists>k. sent (socks' fd) = sent (socks fd) @ take k bytes \<and>
        (if client_socket w' = fd then length bytes \<le> k else client_socket w' = -1)) \<and>
     (WBroken \<notin> set (answers (socks fd)) \<longrightarrow> client_socket w' = fd \<and> WBroken \<notin> set (answers (socks' fd)))"

lemma pushed_nothing: "client_tx_ok w \<Longrightarrow> client_socket w = fd \<Longrightarrow> pushed fd [] w socks w socks"
  by (simp add: pushed_def)

lemma pushed_trans:
  assumes "pushed fd xs w socks w1 socks1" "client_socket w1 = fd" "pushed fd ys w1 socks1 w2 socks2"
  shows "pushed fd (xs @ ys) w socks w2 socks2"
proof -
  from assms obtain k where k: "length xs \<le> k" "sent (socks1 fd) = sent (socks fd) @ take k xs" by (auto simp: pushed_def)
  from assms(3) obtain l where l: "sent (socks2 fd) = sent (socks1 fd) @ take l ys"
      "if client_socket w2 = fd then length ys \<le> l else client_socket w2 = -1"
    by (auto simp: pushed_def)
  then have "sent (socks2 fd) = sent (socks fd) @ take (length xs + l) (xs @ ys)" using k by simp
  moreover have "if client_socket w2 = fd then length (xs @ ys) \<le> length xs + l else client_socket w2 = -1"
    using l by (simp split: if_splits)
  ultimately show ?thesis using assms unfolding pushed_def by (intro conjI) (metis+)
qed

lemma pushed_stop:
  assumes "pushed fd xs w socks w1 socks1" "client_socket w1 \<noteq> fd"
  shows "pushed fd (xs @ ys) w socks w1 socks1"
proof -
  from assms obtain k where k: "sent (socks1 fd) = sent (socks fd) @ take k xs" by (auto simp: pushed_def)
  then have "sent (socks1 fd) = sent (socks fd) @ take (min k (length xs)) (xs @ ys)" by (simp add: min_def)
  with assms show ?thesis unfolding pushed_def by (intro conjI exI [of _ "min k (length xs)"]) (auto split: if_splits)
qed

text \<open>Both writes of a frame: the socket takes a prefix, and a failure drops the client.\<close>

lemma write_pushed:
  assumes "n \<le> length b" "client_tx_ok w" "client_socket w = fd" "0 \<le> fd"
  obtains code socks' where "socket_write b n fd socks = Some (code, socks')"
    "code = 0 \<Longrightarrow> pushed fd (take n b) w socks w socks'"
    "code \<noteq> 0 \<Longrightarrow> pushed fd (take n b) w socks (w\<lparr>client_socket := -1\<rparr>) socks'"
proof (rule tcp_utils_write_data_spec [OF assms(1), of "socks fd"])
  fix code s' k
  assume r: "tcp_utils_write_data b n (socks fd) = Some (code, s')" "code = 0 \<or> code = -1" "code = 0 \<longrightarrow> k = n" "k \<le> n"
    "sent s' = sent (socks fd) @ take k b" "WBroken \<notin> set (answers (socks fd)) \<longrightarrow> code = 0 \<and> WBroken \<notin> set (answers s')"
  have tk: "sent s' = sent (socks fd) @ take k (take n b)" using r(4,5) by (simp add: min_def)
  note r = r(1-4,6)
  show thesis
  proof (rule that)
    show "socket_write b n fd socks = Some (code, socks(fd := s'))" using r(1) by (simp add: socket_write_def)
    show "code = 0 \<Longrightarrow> pushed fd (take n b) w socks w (socks(fd := s'))"
      unfolding pushed_def using r assms tk by (intro conjI exI [of _ k]) simp_all
    show "code \<noteq> 0 \<Longrightarrow> pushed fd (take n b) w socks (w\<lparr>client_socket := -1\<rparr>) (socks(fd := s'))"
      unfolding pushed_def using r assms tk by (intro conjI exI [of _ k]) (simp_all add: client_tx_ok_def)
  qed
qed

lemma send_header_pushed:
  assumes "client_tx_ok w" "client_socket w = fd" "0 \<le> fd"
  obtains code w' socks' where "client_tx_send_header h w socks = Some (code, w', socks')"
    "pushed fd (wire_header h) w socks w' socks'" "(code = 0) = (client_socket w' = fd)"
proof -
  let ?b = "wire_header h" and ?w = "w\<lparr>header_buffer := wire_header h\<rparr>"
  have enc: "api_encode_message_header (Some h) (Some (header_buffer w)) (header_buffer_len w) = Some (0, Some ?b, Some 10)"
    using header_codec.encode_wire [of h 10 "header_buffer w"] assms(1) by (simp add: client_tx_ok_def)
  have ok: "client_tx_ok ?w" "client_socket ?w = fd" using assms by (simp_all add: client_tx_ok_def)
  have "10 \<le> length ?b" by simp
  then obtain code socks' where wr: "socket_write ?b 10 fd socks = Some (code, socks')"
      "code = 0 \<Longrightarrow> pushed fd (take 10 ?b) ?w socks ?w socks'"
      "code \<noteq> 0 \<Longrightarrow> pushed fd (take 10 ?b) ?w socks (?w\<lparr>client_socket := -1\<rparr>) socks'"
    by (rule write_pushed [OF _ ok assms(3), where socks = socks]) blast+
  show thesis
  proof (cases "code = 0")
    case True
    then show thesis using wr enc ok assms
      by (intro that [of 0 ?w socks']) (simp_all add: client_tx_send_header_def pushed_def)
  next
    case False
    then show thesis using wr enc ok assms
      by (intro that [of code "?w\<lparr>client_socket := -1\<rparr>" socks']) (simp_all add: client_tx_send_header_def pushed_def)
  qed
qed

lemma send_frame_pushed:
  assumes "client_tx_ok w" "client_socket w = fd" "0 \<le> fd" "n \<le> length b" "n < 2 ^ 32"
  obtains w' socks' where "client_tx_send_frame ty rid b n w socks = Some (w', socks')"
    "pushed fd (frame ty rid (take n b)) w socks w' socks'"
proof -
  let ?h = "\<lparr>protocol_version = PROTOCOL_VERSION, type = ty, request_id = rid, message_length = of_nat n\<rparr>"
  have len: "unat (of_nat n :: u32) = n" using assms(5) by (simp add: unat_of_nat)
  have fr: "frame ty rid (take n b) = wire_header ?h @ take n b" using assms(4) by (simp add: frame_def min_def)
  obtain code w1 socks1 where hd: "client_tx_send_header ?h w socks = Some (code, w1, socks1)"
      "pushed fd (wire_header ?h) w socks w1 socks1" "(code = 0) = (client_socket w1 = fd)"
    by (rule send_header_pushed [OF assms(1-3)])
  show thesis
  proof (cases "code = 0")
    case True
    have ok: "client_tx_ok w1" "client_socket w1 = fd" using hd True by (auto simp: pushed_def)
    obtain code2 socks2 where wr: "socket_write b n fd socks1 = Some (code2, socks2)"
        "code2 = 0 \<Longrightarrow> pushed fd (take n b) w1 socks1 w1 socks2"
        "code2 \<noteq> 0 \<Longrightarrow> pushed fd (take n b) w1 socks1 (w1\<lparr>client_socket := -1\<rparr>) socks2"
      by (rule write_pushed [OF assms(4) ok assms(3), where socks = socks1]) blast
    let ?w2 = "if code2 = 0 then w1 else w1\<lparr>client_socket := -1\<rparr>"
    have "pushed fd (take n b) w1 socks1 ?w2 socks2" using wr by simp
    from pushed_trans [OF hd(2) ok(2) this] show thesis
      using hd True wr ok len fr by (intro that [of ?w2 socks2]) (simp_all add: client_tx_send_frame_def)
  next
    case False
    with hd pushed_stop [OF hd(2)] fr show thesis
      by (intro that [of w1 socks1]) (simp_all add: client_tx_send_frame_def)
  qed
qed

lemma response_pushed:
  assumes "client_tx_ok w" "client_socket w = fd" "0 \<le> fd" "2 \<le> length (msg_buffer m)"
  obtains w' socks' where "client_tx_response ty m w socks = Some (w', socks')"
    "pushed fd (frame ty (msg_request_id m) (take 2 (msg_buffer m))) w socks w' socks'"
proof -
  obtain st de r where m: "msg_buffer m = st # de # r" using assms(4) by (cases "msg_buffer m" rule: remdups_adj.cases) auto
  let ?b = "[st, de] @ drop 2 (buffer w)" and ?w = "w\<lparr>buffer := [st, de] @ drop 2 (buffer w)\<rparr>"
  have enc: "api_encode_response (Some \<lparr>status = st, details = de\<rparr>) (Some (buffer w)) (buffer_len w) = Some (0, Some ?b, Some 2)"
    using response_codec.encode_wire [of "\<lparr>status = st, details = de\<rparr>" "buffer_len w" "buffer w"] assms(1)
    by (simp add: client_tx_ok_def wire_response_def numeral_2_eq_2)
  have ok: "client_tx_ok ?w" "client_socket ?w = fd" using assms by (auto simp: client_tx_ok_def)
  obtain w' socks' where s: "client_tx_send_frame ty (msg_request_id m) ?b 2 ?w socks = Some (w', socks')"
      "pushed fd (frame ty (msg_request_id m) (take 2 ?b)) ?w socks w' socks'"
    by (rule send_frame_pushed [OF ok assms(3), of 2 ?b]) auto
  then show thesis
    using enc m assms by (intro that [of w' socks']) (simp_all add: client_tx_response_def get_at_def pushed_def)
qed

text \<open>The handler: what a message other than a change of the client does to the socket of the client.\<close>

lemma handle_pushed:
  assumes "client_tx_ok w" "client_socket w = fd" "0 \<le> fd" "msg_type m \<noteq> CLIENT_TX_NEW_CLIENT"
    "msg_buffer_len m \<le> length (msg_buffer m)" "msg_ok (msg_of m)"
  obtains w' socks' where "client_tx_handle m w socks = Some (w', socks')" "pushed fd (frame_of (msg_of m)) w socks w' socks'"
proof -
  note frame_ok = assms(5,6)
  consider "msg_type m = 0" | "msg_type m = 1" | "msg_type m = 3" | "msg_type m \<notin> {0, 1, 2, 3}" using assms(4) by auto
  then show thesis
  proof cases
    case 1
    obtain w' socks' where "client_tx_send_frame 5 (msg_request_id m) (msg_buffer m) (msg_buffer_len m) w socks = Some (w', socks')"
        "pushed fd (frame 5 (msg_request_id m) (take (msg_buffer_len m) (msg_buffer m))) w socks w' socks'"
      by (rule send_frame_pushed [OF assms(1-3,5)]) (use assms(5,6) in \<open>auto simp: msg_of_def\<close>)
    with 1 assms show thesis by (intro that) (simp_all add: client_tx_handle_def client_tx_soft_bits_def msg_of_def)
  next
    case 2
    with assms(5,6) have l: "2 \<le> msg_buffer_len m" by (simp add: msg_of_def)
    obtain w' socks' where "client_tx_response 4 m w socks = Some (w', socks')"
        "pushed fd (frame 4 (msg_request_id m) (take 2 (msg_buffer m))) w socks w' socks'"
      by (rule response_pushed [OF assms(1-3)]) (use l assms(5) in auto)
    with 2 l show thesis by (intro that) (simp_all add: client_tx_handle_def msg_of_def min_def)
  next
    case 3
    with assms(5,6) have l: "2 \<le> msg_buffer_len m" by (simp add: msg_of_def)
    obtain w' socks' where "client_tx_response 9 m w socks = Some (w', socks')"
        "pushed fd (frame 9 (msg_request_id m) (take 2 (msg_buffer m))) w socks w' socks'"
      by (rule response_pushed [OF assms(1-3)]) (use l assms(5) in auto)
    with 3 l show thesis by (intro that) (simp_all add: client_tx_handle_def msg_of_def min_def)
  next
    case 4
    with assms pushed_nothing show thesis by (intro that) (simp_all add: client_tx_handle_def msg_of_def)
  qed
qed

lemma handle_no_client:
  "client_socket w < 0 \<Longrightarrow> msg_type m \<noteq> CLIENT_TX_NEW_CLIENT \<Longrightarrow> client_tx_handle m w socks = Some (w, socks)"
  by (simp add: client_tx_handle_def client_tx_soft_bits_def client_tx_response_def)

lemma handle_keeps_queue: "client_tx_handle m w socks = Some (w', socks') \<Longrightarrow> ctw_queue w' = ctw_queue w"
  by (auto simp: client_tx_handle_def client_tx_soft_bits_def client_tx_response_def client_tx_send_frame_def
      client_tx_send_header_def Let_def split: if_splits bind_splits)

section \<open>The loop\<close>

lemma take_view_Message:
  assumes "take_view r q = Some (AMessage (ty, rid, p))"
  obtains m b where "r = Message m" "bufs (mem q) (msg_buffer m) = Some b" "msg_buffer_len m \<le> length b"
    "ty = msg_type m" "rid = msg_request_id m" "p = take (msg_buffer_len m) b"
  using assms by (auto simp: take_view_def read_message_def split: take_result.splits bind_splits if_splits)

text \<open>A turn on a non-empty queue handles the oldest message and gives its slot back.\<close>

lemma turn_message:
  assumes rel: "queue_rel (ctw_queue w) a" and idle: "a_busy a = None" and ms: "a_filled a = m # ms"
    and handle: "\<And>qm q. msg_of qm = m \<Longrightarrow> msg_buffer_len qm \<le> length (msg_buffer qm) \<Longrightarrow>
      \<exists>w' socks'. client_tx_handle qm (w\<lparr>ctw_queue := q\<rparr>) socks = Some (w', socks') \<and> P w' socks'"
    and P: "\<And>w' s q. P w' s \<Longrightarrow> P (w'\<lparr>ctw_queue := q\<rparr>) s"
  shows "\<exists>w' socks'. client_tx_turn w socks = Some (Handled, w', socks') \<and> P w' socks' \<and>
    queue_rel (ctw_queue w') (a\<lparr>a_filled := ms, a_free := Suc (a_free a)\<rparr>)"
proof -
  let ?a1 = "a\<lparr>a_filled := ms, a_busy := Some m\<rparr>"
  have at: "a_take a = (AMessage m, ?a1)" using ms by (simp add: a_take_def a_detach_def)
  from queue_take_refines [OF rel idle] obtain r q where
    q: "queue_take (ctw_queue w) = Some (r, q)" "take_view r q = Some (AMessage m)" "queue_rel q ?a1"
    by (auto simp: at)
  obtain ty rid p where m: "m = (ty, rid, p)" by (cases m)
  from q(2) obtain qm b where v: "r = Message qm" "bufs (mem q) (msg_buffer qm) = Some b" "msg_buffer_len qm \<le> length b"
      "ty = msg_type qm" "rid = msg_request_id qm" "p = take (msg_buffer_len qm) b"
    unfolding m by (rule take_view_Message)
  let ?m = "\<lparr>msg_type = msg_type qm, msg_request_id = msg_request_id qm, msg_buffer = b, msg_buffer_len = msg_buffer_len qm\<rparr>"
  have "msg_of ?m = m" "msg_buffer_len ?m \<le> length (msg_buffer ?m)" using v m by (simp_all add: msg_of_def)
  from handle [OF this] obtain w2 socks2 where h: "client_tx_handle ?m (w\<lparr>ctw_queue := q\<rparr>) socks = Some (w2, socks2)" "P w2 socks2"
    by blast
  have "ctw_queue w2 = q" using handle_keeps_queue [OF h(1)] by simp
  moreover from queue_complete_refines [OF q(3)] obtain q2 where
    "queue_complete q = Some q2" "queue_rel q2 (a_complete ?a1)" by auto
  moreover have "a_complete ?a1 = a\<lparr>a_filled := ms, a_free := Suc (a_free a)\<rparr>" using idle by (simp add: a_complete_def)
  ultimately show ?thesis
    using q v h P by (intro exI [of _ "w2\<lparr>ctw_queue := q2\<rparr>"] exI [of _ socks2]) (simp add: client_tx_turn_def)
qed

lemma turn_empty:
  assumes "queue_rel (ctw_queue w) a" "a_busy a = None" "a_filled a = []"
  obtains q where "client_tx_turn w socks = Some (if a_poison a then Stopped else Blocked, w\<lparr>ctw_queue := q\<rparr>, socks)" "queue_rel q a"
proof -
  from queue_take_refines [OF assms(1,2)] assms(3) obtain r q where
    "queue_take (ctw_queue w) = Some (r, q)" "take_view r q = Some (if a_poison a then ANoMessage else AWaiting)" "queue_rel q a"
    by (auto simp: a_take_def)
  then show thesis
    by (intro that [of q])
      (auto simp: client_tx_turn_def take_view_def split: take_result.splits if_splits)
qed

lemma client_tx_ok_queue [simp]: "client_tx_ok (w\<lparr>ctw_queue := q\<rparr>) = client_tx_ok w"
  by (simp add: client_tx_ok_def)

lemma pushed_queue [simp]:
  "pushed fd bs w socks (w'\<lparr>ctw_queue := q\<rparr>) socks' = pushed fd bs w socks w' socks'"
  "pushed fd bs (w\<lparr>ctw_queue := q\<rparr>) socks w' socks' = pushed fd bs w socks w' socks'"
  by (simp_all add: pushed_def)

lemma a_filled_Nil [simp]: "a_filled a = [] \<Longrightarrow> a\<lparr>a_filled := []\<rparr> = a"
  by (cases a) simp

text \<open>Without a client the queue is emptied and nothing is written.\<close>

lemma callback_no_client:
  assumes "queue_rel (ctw_queue w) a" "a_busy a = None" "a_poison a" "client_socket w < 0"
    "\<forall>m \<in> set (a_filled a). fst m \<noteq> CLIENT_TX_NEW_CLIENT"
  shows "\<exists>q. client_tx_worker_callback w socks = Some (w\<lparr>ctw_queue := q\<rparr>, socks) \<and>
    queue_rel q (a\<lparr>a_filled := [], a_free := a_free a + length (a_filled a)\<rparr>)"
  using assms
proof (induction "a_filled a" arbitrary: a w)
  case Nil
  obtain q where "client_tx_turn w socks = Some (Stopped, w\<lparr>ctw_queue := q\<rparr>, socks)" "queue_rel q a"
    using turn_empty [OF Nil.prems(1,2) Nil.hyps [symmetric], of socks] Nil.prems(3) by auto
  then show ?case using Nil.hyps [symmetric]
    by (subst client_tx_worker_callback.simps) auto
next
  case (Cons m ms)
  let ?P = "\<lambda>w' socks'. (\<exists>q. w' = w\<lparr>ctw_queue := q\<rparr>) \<and> socks' = socks"
  let ?a1 = "a\<lparr>a_filled := ms, a_free := Suc (a_free a)\<rparr>"
  have "\<exists>w' socks'. client_tx_handle qm (w\<lparr>ctw_queue := q\<rparr>) socks = Some (w', socks') \<and> ?P w' socks'" if "msg_of qm = m" for qm q
  proof -
    have "fst m \<noteq> 2" using Cons.prems(5) Cons.hyps(2) by (metis list.set_intros(1))
    with that have "msg_type qm \<noteq> 2" by (auto simp: msg_of_def)
    with handle_no_client [of "w\<lparr>ctw_queue := q\<rparr>" qm socks] Cons.prems(4) show ?thesis by auto
  qed
  with turn_message [OF Cons.prems(1,2) Cons.hyps(2) [symmetric], of socks ?P] obtain q1 where
    t: "client_tx_turn w socks = Some (Handled, w\<lparr>ctw_queue := q1\<rparr>, socks)" "queue_rel q1 ?a1"
    by fastforce
  have "\<forall>m \<in> set ms. fst m \<noteq> 2" using Cons.prems(5) Cons.hyps(2) by (metis list.set_intros(2))
  with Cons.hyps(1) [of ?a1 "w\<lparr>ctw_queue := q1\<rparr>"] t(2) Cons.prems obtain q' where
    "client_tx_worker_callback (w\<lparr>ctw_queue := q1\<rparr>) socks = Some (w\<lparr>ctw_queue := q'\<rparr>, socks)"
    "queue_rel q' (?a1\<lparr>a_filled := [], a_free := a_free ?a1 + length ms\<rparr>)"
    by auto
  with t show ?case
    by (subst client_tx_worker_callback.simps) (auto simp flip: Cons.hyps(2))
qed

text \<open>After the interrupt: the pending messages go out as frames, in order, and the thread ends.\<close>

lemma callback_drains:
  assumes "queue_rel (ctw_queue w) a" "a_busy a = None" "a_poison a" "client_tx_ok w" "client_socket w = fd" "0 \<le> fd"
    "\<forall>m \<in> set (a_filled a). fst m \<noteq> CLIENT_TX_NEW_CLIENT \<and> msg_ok m"
  shows "\<exists>w' socks'. client_tx_worker_callback w socks = Some (w', socks') \<and>
    pushed fd (concat (map frame_of (a_filled a))) w socks w' socks' \<and>
    queue_rel (ctw_queue w') (a\<lparr>a_filled := [], a_free := a_free a + length (a_filled a)\<rparr>)"
  using assms
proof (induction "a_filled a" arbitrary: a w socks)
  case Nil
  obtain q where "client_tx_turn w socks = Some (Stopped, w\<lparr>ctw_queue := q\<rparr>, socks)" "queue_rel q a"
    using turn_empty [OF Nil.prems(1,2) Nil.hyps [symmetric], of socks] Nil.prems(3) by auto
  then show ?case using Nil.prems pushed_nothing [of w fd socks] Nil.hyps [symmetric]
    by (subst client_tx_worker_callback.simps) simp
next
  case (Cons m ms)
  let ?P = "pushed fd (frame_of m) w socks" and ?a1 = "a\<lparr>a_filled := ms, a_free := Suc (a_free a)\<rparr>"
  have mm: "fst m \<noteq> 2" "msg_ok m" using Cons.prems(7) Cons.hyps(2) by (metis list.set_intros(1))+
  have "\<exists>w' socks'. client_tx_handle qm (w\<lparr>ctw_queue := q\<rparr>) socks = Some (w', socks') \<and> ?P w' socks'"
    if qm: "msg_of qm = m" "msg_buffer_len qm \<le> length (msg_buffer qm)" for qm q
    by (rule handle_pushed [of "w\<lparr>ctw_queue := q\<rparr>" fd qm socks]) (use qm mm Cons.prems in \<open>auto simp: msg_of_def\<close>)
  with turn_message [OF Cons.prems(1,2) Cons.hyps(2) [symmetric], of socks ?P] obtain w1 socks1 where
    t: "client_tx_turn w socks = Some (Handled, w1, socks1)" "?P w1 socks1" "queue_rel (ctw_queue w1) ?a1"
    by auto
  have step: "client_tx_worker_callback w socks = client_tx_worker_callback w1 socks1"
    using t(1) by (subst client_tx_worker_callback.simps) simp
  have rest: "\<forall>m \<in> set ms. fst m \<noteq> 2 \<and> msg_ok m" using Cons.prems(7) Cons.hyps(2) by (metis list.set_intros(2))
  have fin: "?a1\<lparr>a_filled := [], a_free := a_free ?a1 + length (a_filled ?a1)\<rparr> = a\<lparr>a_filled := [], a_free := a_free a + length (a_filled a)\<rparr>"
    by (simp flip: Cons.hyps(2))
  have bytes: "concat (map frame_of (a_filled a)) = frame_of m @ concat (map frame_of ms)" by (simp flip: Cons.hyps(2))
  show ?case
  proof (cases "client_socket w1 = fd")
    case True
    have ok1: "client_tx_ok w1" using t(2) by (simp add: pushed_def)
    from Cons.hyps(1) [of ?a1 w1 socks1] t(3) True ok1 Cons.prems rest obtain w' socks' where
      "client_tx_worker_callback w1 socks1 = Some (w', socks')" "pushed fd (concat (map frame_of ms)) w1 socks1 w' socks'"
      "queue_rel (ctw_queue w') (?a1\<lparr>a_filled := [], a_free := a_free ?a1 + length (a_filled ?a1)\<rparr>)"
      by auto
    with pushed_trans [OF t(2) True] show ?thesis unfolding step bytes fin by blast
  next
    case False
    with t(2) have neg: "client_socket w1 < 0" by (auto simp: pushed_def split: if_splits)
    from callback_no_client [OF t(3), of socks1] Cons.prems(2,3) neg rest obtain q' where
      w': "client_tx_worker_callback w1 socks1 = Some (w1\<lparr>ctw_queue := q'\<rparr>, socks1)"
      "queue_rel q' (?a1\<lparr>a_filled := [], a_free := a_free ?a1 + length (a_filled ?a1)\<rparr>)"
      by auto
    have "pushed fd (frame_of m @ concat (map frame_of ms)) w socks (w1\<lparr>ctw_queue := q'\<rparr>) socks1"
      using pushed_stop [OF t(2) False] by simp
    with w' show ?thesis unfolding step bytes fin by fastforce
  qed
qed

section \<open>Construction and destruction\<close>

text \<open>
  \<^verbatim>\<open>client_tx_worker_destroy\<close>. \<open>join\<close> is what the thread does to the queue between the interrupt and
  its end; it is \<open>Some\<close> for a worker whose thread was not started. A worker under construction may
  lack its queue or its buffers.
\<close>

definition client_tx_worker_destroy ::
  "(queue \<Rightarrow> queue option) \<Rightarrow> addr \<Rightarrow> queue option \<Rightarrow> addr option \<Rightarrow> addr option \<Rightarrow> memory \<Rightarrow> memory option" where
  "client_tx_worker_destroy join this q buf hdr m = do {
     m1 \<leftarrow> (case queue_interrupt (map_option (\<lambda>q. q\<lparr>mem := m\<rparr>) q) of
             None \<Rightarrow> Some m
           | Some q1 \<Rightarrow> do { q2 \<leftarrow> join q1; destroy_queue q2 });
     m2 \<leftarrow> free_struct buf m1;
     m3 \<leftarrow> free_struct hdr m2;
     free_struct (Some this) m3 }"

text \<open>
  \<^verbatim>\<open>client_tx_worker_create\<close>; \<open>thread_code\<close> is the answer of \<^verbatim>\<open>pthread_create\<close>. On success it yields the
  worker and the addresses of its three blocks. The contents of the new buffers are arbitrary.
\<close>

definition client_tx_worker_create ::
  "(nat \<Rightarrow> bool) \<Rightarrow> int \<Rightarrow> u32 \<Rightarrow> u16 \<Rightarrow> memory \<Rightarrow> (int \<times> memory \<times> (client_tx_worker \<times> addr \<times> addr \<times> addr) option) option" where
  "client_tx_worker_create oom thread_code bsize qsize m = (case malloc_struct oom m of
     (None, m1) \<Rightarrow> Some (- ENOMEM, m1, None)
   | (Some this, m1) \<Rightarrow> do {
       (code, m2, qo) \<leftarrow> queue_create oom bsize qsize True m1;
       (if code \<noteq> 0 then do { m3 \<leftarrow> client_tx_worker_destroy Some this None None None m2; Some (code, m3, None) }
        else do {
          q \<leftarrow> qo;
          let blen = unat bsize + 12 + 100;
          (case malloc_struct oom m2 of
             (None, m3) \<Rightarrow> do { m4 \<leftarrow> client_tx_worker_destroy Some this qo None None m3; Some (- ENOMEM, m4, None) }
           | (Some buf, m3) \<Rightarrow> (case malloc_struct oom m3 of
               (None, m4) \<Rightarrow> do { m5 \<leftarrow> client_tx_worker_destroy Some this qo (Some buf) None m4; Some (- ENOMEM, m5, None) }
             | (Some hdr, m4) \<Rightarrow>
                 if thread_code \<noteq> 0
                 then do { m5 \<leftarrow> client_tx_worker_destroy Some this qo (Some buf) (Some hdr) m4; Some (thread_code, m5, None) }
                 else Some (0, m4, Some (\<lparr>ctw_queue = q\<lparr>mem := m4\<rparr>, header_buffer = replicate API_HEADER_SIZE 0,
                   header_buffer_len = API_HEADER_SIZE, buffer = replicate blen 0, buffer_len = blen, client_socket = -1\<rparr>,
                   this, buf, hdr)))) }) })"

lemma malloc_structE:
  assumes "fresh_above m"
  obtains (oom) "oom (brk m)" "malloc_struct oom m = (None, m\<lparr>brk := Suc (brk m)\<rparr>)" "fresh_above (m\<lparr>brk := Suc (brk m)\<rparr>)"
  | (ok) "\<not> oom (brk m)" "malloc_struct oom m = (Some (brk m), m\<lparr>brk := Suc (brk m), structs := insert (brk m) (structs m)\<rparr>)"
      "fresh_above (m\<lparr>brk := Suc (brk m), structs := insert (brk m) (structs m)\<rparr>)" "brk m \<notin> structs m"
  using malloc_struct_fresh [OF assms, of oom] assms
  by (cases "oom (brk m)") (auto simp: malloc_struct_def fresh_above_def)

text \<open>Tearing down a worker that owns a new queue, its own block and two optional buffers gives the memory back.\<close>

lemma client_tx_worker_destroy_new:
  assumes m1: "fresh_above m1" "queue_create oom bsize qsize True m1 = Some (0, m2, Some q)"
    and m: "nodes m = nodes m2" "bufs m = bufs m2"
      "structs m = set (opt_list buf) \<union> set (opt_list hdr) \<union> structs m2" "structs m1 = insert this S"
    and dist: "distinct (opt_list buf @ opt_list hdr @ [brk m1, this])"
      "(set (opt_list buf) \<union> set (opt_list hdr) \<union> {brk m1, this}) \<inter> S = {}"
  shows "\<exists>m'. client_tx_worker_destroy Some this (Some q) buf hdr m = Some m' \<and>
    nodes m' = nodes m1 \<and> bufs m' = bufs m1 \<and> structs m' = S"
proof -
  from queue_create_ok(4) [OF m1] have st: "structs m2 = insert (brk m1) (insert this S)"
    using m(4) by (auto simp: same_objects_def rest_of_sel)
  have "brk m1 \<in> structs m" using m(3) st by simp
  from destroy_new_queue [OF m1 m(1,2) this, of 1] obtain m3 where
    "destroy_queue (q\<lparr>mem := m, poison_pill := 1\<rparr>) = Some m3" "nodes m3 = nodes m1" "bufs m3 = bufs m1"
    "structs m3 = structs m - {brk m1}"
    by blast
  with m(3) st dist show ?thesis
    by (cases buf; cases hdr) (auto simp: client_tx_worker_destroy_def queue_interrupt_def free_struct_def insert_Diff_if)
qed

lemma client_tx_worker_create_spec:
  assumes fresh: "fresh_above m" and sizes: "bsize \<noteq> 0" "qsize \<noteq> 0"
  shows "\<exists>code m' r. client_tx_worker_create oom thread_code bsize qsize m = Some (code, m', r) \<and>
    (code = 0 \<and> (\<exists>w this buf hdr. r = Some (w, this, buf, hdr) \<and> client_tx_ok w \<and>
        queue_rel (ctw_queue w) (new_aqueue (unat qsize) (unat bsize) True) \<and> client_socket w = -1) \<or>
     code \<noteq> 0 \<and> r = None \<and> same_objects m' m \<and> ((\<exists>i. oom i) \<or> thread_code \<noteq> 0))"
  using fresh
proof (cases rule: malloc_structE [of m oom])
  case oom
  then show ?thesis by (auto simp: client_tx_worker_create_def same_objects_def)
next
  case ok
  let ?m1 = "m\<lparr>brk := Suc (brk m), structs := insert (brk m) (structs m)\<rparr>"
  let ?C = "client_tx_worker_create oom thread_code bsize qsize m"
  from queue_create_spec [OF ok(3) sizes(2,1), of oom True] obtain code m2 qo where
    qc: "queue_create oom bsize qsize True ?m1 = Some (code, m2, qo)" and
    out: "if code = 0 then \<exists>q. qo = Some q else qo = None \<and> same_objects m2 ?m1 \<and> (\<exists>i. oom i)"
    by (fastforce split: if_splits)
  show ?thesis
  proof (cases "code = 0")
    case False
    with qc out ok show ?thesis
      by (auto simp: client_tx_worker_create_def client_tx_worker_destroy_def queue_interrupt_def free_struct_def same_objects_def)
  next
    case True
    with out qc obtain q where q: "queue_create oom bsize qsize True ?m1 = Some (0, m2, Some q)" "code = 0" "qo = Some q" by auto
    note new = queue_create_ok [OF ok(3) q(1)]
    have st: "structs m2 = insert (Suc (brk m)) (insert (brk m) (structs m))"
      using new(4) by (auto simp: same_objects_def rest_of_sel)
    have f2: "fresh_above m2" by (rule queue_create_fresh [OF q(1) ok(3)])
    then have new2: "x \<notin> structs m2" if "brk m2 \<le> x" for x using that by (simp add: fresh_above_def)
    have b2: "brk m < brk m2" "Suc (brk m) < brk m2" using st new2 by (metis insert_iff not_less)+
    have out2: "x \<notin> structs m" if "x \<ge> brk m" for x using that fresh by (simp add: fresh_above_def)
    note destroy = client_tx_worker_destroy_new [OF ok(3) q(1), where this = "brk m" and S = "structs m"]
    show ?thesis
      using f2
    proof (cases rule: malloc_structE [of m2 oom])
      case oom2: oom
      have "\<exists>m'. client_tx_worker_destroy Some (brk m) (Some q) None None (m2\<lparr>brk := Suc (brk m2)\<rparr>) = Some m' \<and>
          nodes m' = nodes m \<and> bufs m' = bufs m \<and> structs m' = structs m"
        using destroy [of "m2\<lparr>brk := Suc (brk m2)\<rparr>" None None] out2 by auto
      with oom2 ok qc q show ?thesis by (auto simp: client_tx_worker_create_def same_objects_def Let_def)
    next
      case ok2: ok
      let ?m3 = "m2\<lparr>brk := Suc (brk m2), structs := insert (brk m2) (structs m2)\<rparr>"
      show ?thesis
        using ok2(3)
      proof (cases rule: malloc_structE [of ?m3 oom])
        case oom3: oom
        have "\<exists>m'. client_tx_worker_destroy Some (brk m) (Some q) (Some (brk m2)) None (?m3\<lparr>brk := Suc (brk ?m3)\<rparr>) = Some m' \<and>
            nodes m' = nodes m \<and> bufs m' = bufs m \<and> structs m' = structs m"
          using destroy [of "?m3\<lparr>brk := Suc (brk ?m3)\<rparr>" "Some (brk m2)" None] b2 out2 by auto
        with oom3 ok2 ok qc q show ?thesis by (auto simp: client_tx_worker_create_def same_objects_def Let_def)
      next
        case ok3: ok
        let ?m4 = "?m3\<lparr>brk := Suc (brk ?m3), structs := insert (brk ?m3) (structs ?m3)\<rparr>"
        have "\<exists>m'. client_tx_worker_destroy Some (brk m) (Some q) (Some (brk m2)) (Some (Suc (brk m2))) ?m4 = Some m' \<and>
            nodes m' = nodes m \<and> bufs m' = bufs m \<and> structs m' = structs m"
          using destroy [of ?m4 "Some (brk m2)" "Some (Suc (brk m2))"] b2 out2 by auto
        moreover have "queue_rel (q\<lparr>mem := ?m4\<rparr>) (new_aqueue (unat qsize) (unat bsize) True)"
          using new(1,2) queue_rel_frame [of ?m4 q] by simp
        ultimately show ?thesis
          using ok3 ok2 ok qc q
          by (auto simp: client_tx_worker_create_def same_objects_def Let_def client_tx_ok_def)
      qed
    qed
  qed
qed

section \<open>Properties\<close>

text \<open>
  C6. The stream of a client is made of whole frames: after the interrupt the thread terminates, and
  the socket of the client received a prefix of the concatenated frames of the pending messages,
  in queue order and with their request ids; all of them when the socket does not fail. No other
  socket is written, and every slot of the queue is free again.
\<close>

theorem client_tx_drains:
  assumes "queue_rel (ctw_queue w) a" "a_busy a = None" "client_tx_ok w" "client_socket w = fd" "0 \<le> fd"
    and "\<forall>m \<in> set (a_filled a). fst m \<noteq> CLIENT_TX_NEW_CLIENT \<and> msg_ok m"
    and "queue_interrupt (Some (ctw_queue w)) = Some q1"
  shows "\<exists>w' socks' k. client_tx_worker_callback (w\<lparr>ctw_queue := q1\<rparr>) socks = Some (w', socks') \<and>
    sent (socks' fd) = sent (socks fd) @ take k (concat (map frame_of (a_filled a))) \<and>
    (WBroken \<notin> set (answers (socks fd)) \<longrightarrow> length (concat (map frame_of (a_filled a))) \<le> k) \<and>
    (\<forall>f. f \<noteq> fd \<longrightarrow> socks' f = socks f) \<and>
    queue_rel (ctw_queue w') (a\<lparr>a_poison := True, a_filled := [], a_free := a_free a + length (a_filled a)\<rparr>)"
proof -
  have "queue_rel q1 (a_interrupt a)" using queue_interrupt_refines [OF assms(1)] assms(7) by auto
  with callback_drains [of "w\<lparr>ctw_queue := q1\<rparr>" "a_interrupt a" fd socks] assms
  obtain w' socks' where r: "client_tx_worker_callback (w\<lparr>ctw_queue := q1\<rparr>) socks = Some (w', socks')"
      "pushed fd (concat (map frame_of (a_filled a))) w socks w' socks'"
      "queue_rel (ctw_queue w') (a\<lparr>a_poison := True, a_filled := [], a_free := a_free a + length (a_filled a)\<rparr>)"
    by (auto simp: a_interrupt_def)
  from r(2) obtain k where k: "sent (socks' fd) = sent (socks fd) @ take k (concat (map frame_of (a_filled a)))"
      "WBroken \<notin> set (answers (socks fd)) \<longrightarrow> length (concat (map frame_of (a_filled a))) \<le> k"
      "\<forall>f. f \<noteq> fd \<longrightarrow> socks' f = socks f"
    by (auto simp: pushed_def split: if_splits)
  show ?thesis using r(1,3) k by blast
qed

theorem client_tx_drains_witness:
  "\<exists>m w this buf hdr w1 q1 w2 socks'. client_tx_worker_create (\<lambda>_. False) 0 64 2 empty_memory = Some (0, m, Some (w, this, buf, hdr)) \<and>
     client_send (SendResponse 7 0 0) (w\<lparr>client_socket := 5\<rparr>) = Some (Ret 0, w1) \<and>
     queue_interrupt (Some (ctw_queue w1)) = Some q1 \<and>
     client_tx_worker_callback (w1\<lparr>ctw_queue := q1\<rparr>) (\<lambda>_. \<lparr>answers = [], sent = []\<rparr>) = Some (w2, socks') \<and>
     sent (socks' 5) = frame MESSAGE_TYPE_RESPONSE 7 [0, 0]"
proof -
  obtain m w this buf hdr where c: "client_tx_worker_create (\<lambda>_. False) 0 64 2 empty_memory = Some (0, m, Some (w, this, buf, hdr))"
      "client_tx_ok w" "queue_rel (ctw_queue w) (new_aqueue 2 64 True)"
    using client_tx_worker_create_spec [of empty_memory 64 2 "\<lambda>_. False" 0] by auto
  let ?a = "(new_aqueue 2 64 True)\<lparr>a_free := 1, a_filled := [(1, 7, [0, 0])]\<rparr>"
  from queue_put_refines [OF c(3), of "client_message (SendResponse 7 0 0)"] obtain q' where
    q': "queue_put (Some (client_message (SendResponse 7 0 0))) (ctw_queue w) = Some (Ret 0, q')" "queue_rel q' ?a"
    by (auto simp: a_put_def new_aqueue_def client_tx_worker_send_response_def msg_of_def)
  let ?w = "w\<lparr>client_socket := 5, ctw_queue := q'\<rparr>" and ?s = "\<lambda>_ :: int. \<lparr>answers = [], sent = []\<rparr>"
  have s: "client_send (SendResponse 7 0 0) (w\<lparr>client_socket := 5\<rparr>) = Some (Ret 0, ?w)"
    using q'(1) by (simp add: client_send_def)
  obtain q1 where i: "queue_interrupt (Some q') = Some q1" by (simp add: queue_interrupt_def)
  from client_tx_drains [of ?w ?a 5 q1 ?s] q'(2) c(2) i obtain w2 socks' k where
    "client_tx_worker_callback (?w\<lparr>ctw_queue := q1\<rparr>) ?s = Some (w2, socks')"
    "sent (socks' 5) = take k (frame 4 7 [0, 0])" "length (frame 4 7 [0, 0]) \<le> k"
    by (auto simp: new_aqueue_def client_tx_ok_def)
  with c(1) s i show ?thesis by fastforce
qed

text \<open>
  Creating the worker is all or nothing: whichever allocation or the start of the thread fails,
  every block and the whole queue are freed again; on success the worker starts with an empty
  queue, with room for every frame header and response, and without a client.
\<close>

theorem client_tx_create_all_or_nothing:
  assumes "fresh_above m" "bsize \<noteq> 0" "qsize \<noteq> 0"
  shows "\<exists>code m' r. client_tx_worker_create oom thread_code bsize qsize m = Some (code, m', r) \<and>
    (code = 0 \<and> (\<exists>w this buf hdr. r = Some (w, this, buf, hdr) \<and> client_tx_ok w \<and>
        queue_rel (ctw_queue w) (new_aqueue (unat qsize) (unat bsize) True) \<and> client_socket w = -1) \<or>
     code \<noteq> 0 \<and> r = None \<and> same_objects m' m \<and> ((\<exists>i. oom i) \<or> thread_code \<noteq> 0))"
  using assms by (rule client_tx_worker_create_spec)

theorem client_tx_create_all_or_nothing_witness:
  "\<exists>code m' r. client_tx_worker_create (\<lambda>_. False) 11 64 2 empty_memory = Some (code, m', r)"
  using client_tx_create_all_or_nothing [of empty_memory 64 2 "\<lambda>_. False" 11] by auto

end
