(* ===== verification/SdrTxWorker.thy ===== *)
theory SdrTxWorker
  imports SdrDevice ClientTxWorker
begin

text \<open>
  The transmitting worker, \<^verbatim>\<open>src/sdr_tx_worker.c\<close>: it modulates frames and hands the samples to the
  device, and replaces its modem when new communication settings arrive. Its answers to the client
  are the \<open>client_call\<close>s of a message, in order.

  The locale \<open>request_worker\<close> is the contract of a worker that serves requests one by one; both the
  transmitting and the receiving worker are instances.
\<close>

abbreviation (input) SDR_TX_FRAME :: u8 where "SDR_TX_FRAME \<equiv> 0"
abbreviation (input) SDR_TX_COMM_PARAMETERS :: u8 where "SDR_TX_COMM_PARAMETERS \<equiv> 1"

record ('s, 'd, 'm) sdr_tx_worker =
  max_frame_size :: u32
  tx_modem :: "addr option"
  tx_sdr :: "('s, 'd) sdr_device"
  tx_heap :: "'m modem_heap"

section \<open>Messages\<close>

definition sdr_tx_worker_send :: "u32 \<Rightarrow> u8 list \<Rightarrow> nat \<Rightarrow> u8 list queue_message" where
  "sdr_tx_worker_send rid buf n = \<lparr>msg_type = SDR_TX_FRAME, msg_request_id = rid, msg_buffer = buf, msg_buffer_len = n\<rparr>"

definition sdr_tx_worker_set_comm_parameters :: "u32 \<Rightarrow> u8 list \<Rightarrow> nat \<Rightarrow> u8 list queue_message" where
  "sdr_tx_worker_set_comm_parameters rid buf n =
     \<lparr>msg_type = SDR_TX_COMM_PARAMETERS, msg_request_id = rid, msg_buffer = buf, msg_buffer_len = n\<rparr>"

section \<open>The handler\<close>

definition device_tx :: "'s list option \<Rightarrow> ('s, 'd, 'm) sdr_tx_worker \<Rightarrow> (int \<times> ('s, 'd, 'm) sdr_tx_worker) option" where
  "device_tx output w = do {
     f \<leftarrow> sdr_process_tx (tx_sdr w);
     let (code, d) = f (case output of None \<Rightarrow> [] | Some xs \<Rightarrow> xs) (plugin (tx_sdr w));
     Some (code, w\<lparr>tx_sdr := (tx_sdr w)\<lparr>plugin := d\<rparr>\<rparr>) }"

definition sdr_tx_frame ::
  "('s, 'm) modem_ops \<Rightarrow> u8 list queue_message \<Rightarrow> ('s, 'd, 'm) sdr_tx_worker \<Rightarrow> (('s, 'd, 'm) sdr_tx_worker \<times> client_call list) option" where
  "sdr_tx_frame ops m w = (case tx_modem w of
     None \<Rightarrow> Some (w, [])
   | Some a \<Rightarrow>
       if length (msg_buffer m) < msg_buffer_len m then None
       else do {
         (output, h) \<leftarrow> modem_call (m_modulate ops (take (msg_buffer_len m) (msg_buffer m))) a (tx_heap w);
         (code, w1) \<leftarrow> device_tx output (w\<lparr>tx_heap := h\<rparr>);
         (code, w2) \<leftarrow> (if code = 0 then do {
             (output, h) \<leftarrow> modem_call (m_flush ops) a (tx_heap w1);
             (if output \<noteq> None then device_tx output (w1\<lparr>tx_heap := h\<rparr>) else Some (code, w1\<lparr>tx_heap := h\<rparr>)) }
           else Some (code, w1));
         (if code \<noteq> 0
          then Some (w2, [SendTxComplete (msg_request_id m) RESPONSE_STATUS_FAILURE RESPONSE_DETAILS_INVALID_REQUEST])
          else Some (w2, [SendTxComplete (msg_request_id m) RESPONSE_STATUS_SUCCESS RESPONSE_DETAILS_NO_DETAILS])) })"

definition sdr_tx_comm_parameters ::
  "('s, 'm) modem_ops \<Rightarrow> u8 list queue_message \<Rightarrow> ('s, 'd, 'm) sdr_tx_worker \<Rightarrow> (('s, 'd, 'm) sdr_tx_worker \<times> client_call list) option" where
  "sdr_tx_comm_parameters ops m w = do {
     let failure = SendResponse (msg_request_id m) RESPONSE_STATUS_FAILURE RESPONSE_DETAILS_INVALID_REQUEST;
     (code, so) \<leftarrow> api_decode_comm_settings (Some (msg_buffer m)) (msg_buffer_len m);
     (if code \<noteq> 0 then Some (w, [failure])
      else do {
        settings \<leftarrow> so;
        (case modem_create ops (modem_settings settings) (max_frame_size w) (tx_heap w) of (code, new_modem, h) \<Rightarrow>
           if code \<noteq> 0 then Some (w\<lparr>tx_heap := h\<rparr>, [failure])
           else (case set_tx_parameters (tx_sdr w) (sdr_settings settings) (plugin (tx_sdr w)) of (code, d) \<Rightarrow>
             let w1 = w\<lparr>tx_heap := h, tx_sdr := (tx_sdr w)\<lparr>plugin := d\<rparr>\<rparr> in
             if code \<noteq> 0 then do {
               h' \<leftarrow> modem_destroy new_modem h;
               Some (w1\<lparr>tx_heap := h'\<rparr>, [failure]) }
             else do {
               h' \<leftarrow> modem_destroy (tx_modem w1) h;
               Some (w1\<lparr>tx_heap := h', tx_modem := new_modem\<rparr>,
                 [SendResponse (msg_request_id m) RESPONSE_STATUS_SUCCESS RESPONSE_DETAILS_NO_DETAILS]) })) }) }"

definition sdr_tx_handle ::
  "('s, 'm) modem_ops \<Rightarrow> u8 list queue_message \<Rightarrow> ('s, 'd, 'm) sdr_tx_worker \<Rightarrow> (('s, 'd, 'm) sdr_tx_worker \<times> client_call list) option" where
  "sdr_tx_handle ops m w =
    (if msg_type m = SDR_TX_FRAME then sdr_tx_frame ops m w
     else if msg_type m = SDR_TX_COMM_PARAMETERS then sdr_tx_comm_parameters ops m w
     else Some (w, []))"

section \<open>The loop\<close>

text \<open>
  One turn of \<^verbatim>\<open>sdr_tx_worker_callback\<close> on the queue \<open>q\<close> of the worker; the calls are collected.
\<close>

definition sdr_tx_turn ::
  "('s, 'm) modem_ops \<Rightarrow> queue \<Rightarrow> ('s, 'd, 'm) sdr_tx_worker \<Rightarrow> (turn \<times> queue \<times> ('s, 'd, 'm) sdr_tx_worker \<times> client_call list) option" where
  "sdr_tx_turn ops q w = do {
     (r, q1) \<leftarrow> queue_take q;
     (case r of
        NoMessage \<Rightarrow> Some (Stopped, q1, w, [])
      | Waiting \<Rightarrow> Some (Blocked, q1, w, [])
      | Message m \<Rightarrow> do {
          b \<leftarrow> bufs (mem q1) (msg_buffer m);
          (w1, out) \<leftarrow> sdr_tx_handle ops \<lparr>msg_type = msg_type m, msg_request_id = msg_request_id m, msg_buffer = b,
                           msg_buffer_len = msg_buffer_len m\<rparr> w;
          q2 \<leftarrow> queue_complete q1;
          Some (Handled, q2, w1, out) }) }"

partial_function (option) sdr_tx_worker_callback ::
  "('s, 'm) modem_ops \<Rightarrow> queue \<Rightarrow> ('s, 'd, 'm) sdr_tx_worker \<Rightarrow> (queue \<times> ('s, 'd, 'm) sdr_tx_worker \<times> client_call list) option" where
  "sdr_tx_worker_callback ops q w = do {
     (t, q1, w1, out) \<leftarrow> sdr_tx_turn ops q w;
     (if t = Stopped then Some (q1, w1, out)
      else do {
        (q2, w2, out2) \<leftarrow> sdr_tx_worker_callback ops q1 w1;
        Some (q2, w2, out @ out2) }) }"

text \<open>
  \<^verbatim>\<open>sdr_tx_worker_destroy\<close>: the thread is interrupted and joined, then its queue, its modem and
  finally the worker itself are freed.
\<close>

definition sdr_tx_worker_destroy ::
  "('s, 'm) modem_ops \<Rightarrow> bool \<Rightarrow> addr \<Rightarrow> queue option \<Rightarrow> memory \<Rightarrow> ('s, 'd, 'm) sdr_tx_worker \<Rightarrow>
     (memory \<times> ('s, 'd, 'm) sdr_tx_worker \<times> client_call list) option" where
  "sdr_tx_worker_destroy ops thread_started this q m w = do {
     (m1, w1, out) \<leftarrow> (case queue_interrupt (map_option (\<lambda>q. q\<lparr>mem := m\<rparr>) q) of
         None \<Rightarrow> Some (m, w, [])
       | Some q1 \<Rightarrow> do {
           (q2, w1, out) \<leftarrow> (if thread_started then sdr_tx_worker_callback ops q1 w else Some (q1, w, []));
           m1 \<leftarrow> destroy_queue q2;
           Some (m1, w1, out) });
     h \<leftarrow> modem_destroy (tx_modem w1) (tx_heap w1);
     m2 \<leftarrow> free_struct (Some this) m1;
     Some (m2, w1\<lparr>tx_heap := h, tx_modem := None\<rparr>, out) }"

definition sdr_tx_worker_create ::
  "('s, 'm) modem_ops \<Rightarrow> (nat \<Rightarrow> bool) \<Rightarrow> int \<Rightarrow> u32 \<Rightarrow> u16 \<Rightarrow> ('s, 'd) sdr_device \<Rightarrow> 'm modem_heap \<Rightarrow> memory \<Rightarrow>
     (int \<times> memory \<times> (addr \<times> queue \<times> ('s, 'd, 'm) sdr_tx_worker) option) option" where
  "sdr_tx_worker_create ops oom thread_code frame_size qsize sdr h m = (case malloc_struct oom m of
     (None, m1) \<Rightarrow> Some (- ENOMEM, m1, None)
   | (Some this, m1) \<Rightarrow> do {
       let w = \<lparr>max_frame_size = frame_size, tx_modem = None, tx_sdr = sdr, tx_heap = h\<rparr>;
       (code, m2, qo) \<leftarrow> queue_create oom frame_size qsize True m1;
       (if code \<noteq> 0 then do { (m3, _, _) \<leftarrow> sdr_tx_worker_destroy ops False this None m2 w; Some (code, m3, None) }
        else if thread_code \<noteq> 0
        then do { (m3, _, _) \<leftarrow> sdr_tx_worker_destroy ops False this qo m2 w; Some (thread_code, m3, None) }
        else do { q \<leftarrow> qo; Some (0, m2, Some (this, q, w)) }) })"

section \<open>Serving requests\<close>

fun call_id :: "client_call \<Rightarrow> u32 option" where
  "call_id (SendNew _) = None"
| "call_id (SendSoftBits i _) = Some i"
| "call_id (SendResponse i _ _) = Some i"
| "call_id (SendTxComplete i _ _) = Some i"

definition sized :: "u8 list queue_message \<Rightarrow> bool" where
  "sized m \<longleftrightarrow> msg_buffer_len m \<le> length (msg_buffer m)"

fun serve :: "('m \<Rightarrow> 'w \<Rightarrow> ('w \<times> 'c list) option) \<Rightarrow> 'm list \<Rightarrow> 'w \<Rightarrow> ('w \<times> 'c list list) option" where
  "serve handle [] w = Some (w, [])"
| "serve handle (m # ms) w = do {
     (w1, out) \<leftarrow> handle m w;
     (w2, outs) \<leftarrow> serve handle ms w1;
     Some (w2, out # outs) }"

text \<open>
  A worker that keeps an invariant on every well-sized message, answers each of them at most once and
  only under the request id of the message.
\<close>

locale request_worker =
  fixes handle :: "u8 list queue_message \<Rightarrow> 'w \<Rightarrow> ('w \<times> client_call list) option"
    and inv :: "'w \<Rightarrow> bool"
  assumes serves: "inv w \<Longrightarrow> sized m \<Longrightarrow> \<exists>w' out. handle m w = Some (w', out) \<and> inv w' \<and> length out \<le> 1 \<and>
      (\<forall>c \<in> set out. call_id c = Some (msg_request_id m))"
begin

lemma serve_all:
  "inv w \<Longrightarrow> \<forall>m \<in> set ms. sized m \<Longrightarrow> \<exists>w' outs. serve handle ms w = Some (w', outs) \<and> inv w' \<and>
     list_all2 (\<lambda>m out. length out \<le> 1 \<and> (\<forall>c \<in> set out. call_id c = Some (msg_request_id m))) ms outs"
proof (induction ms arbitrary: w)
  case (Cons m ms)
  then obtain w1 out where h: "handle m w = Some (w1, out)" "inv w1" "length out \<le> 1"
      "\<forall>c \<in> set out. call_id c = Some (msg_request_id m)"
    using serves [of w m] by auto
  with Cons.IH [of w1] Cons.prems show ?case by fastforce
qed simp

end

definition tx_inv :: "('s, 'd, 'm) sdr_tx_worker \<Rightarrow> bool" where
  "tx_inv w \<longleftrightarrow> owns (tx_modem w) (tx_heap w) \<and> sdr_process_tx (tx_sdr w) \<noteq> None"

lemma device_tx_spec:
  assumes "sdr_process_tx (tx_sdr w) \<noteq> None"
  obtains code d where "device_tx output w = Some (code, w\<lparr>tx_sdr := (tx_sdr w)\<lparr>plugin := d\<rparr>\<rparr>)"
proof -
  from assms obtain f where f: "sdr_process_tx (tx_sdr w) = Some f" by blast
  obtain code d where "f (case output of None \<Rightarrow> [] | Some xs \<Rightarrow> xs) (plugin (tx_sdr w)) = (code, d)" by fastforce
  with f show thesis by (intro that) (simp add: device_tx_def)
qed

lemma sdr_tx_frame_spec:
  assumes inv: "tx_inv w" and m: "sized m"
  shows "\<exists>w' out. sdr_tx_frame ops m w = Some (w', out) \<and> tx_inv w' \<and> tx_modem w' = tx_modem w \<and>
    (if tx_modem w = None then out = [] else \<exists>s d. out = [SendTxComplete (msg_request_id m) s d])"
proof (cases "tx_modem w")
  case None
  with inv show ?thesis by (simp add: sdr_tx_frame_def)
next
  case (Some a)
  with inv have ok: "heap_ok (tx_heap w)" "dom (live (tx_heap w)) = {a}" "sdr_process_tx (tx_sdr w) \<noteq> None"
    by (auto simp: tx_inv_def owns_def)
  from modem_call_spec [of "tx_heap w" a "m_modulate ops (take (msg_buffer_len m) (msg_buffer m))"] ok obtain o1 h1 where
    h1: "modem_call (m_modulate ops (take (msg_buffer_len m) (msg_buffer m))) a (tx_heap w) = Some (o1, h1)"
      "heap_ok h1" "dom (live h1) = {a}" by auto
  obtain c1 d1 where t1: "device_tx o1 (w\<lparr>tx_heap := h1\<rparr>) = Some (c1, w\<lparr>tx_heap := h1, tx_sdr := (tx_sdr w)\<lparr>plugin := d1\<rparr>\<rparr>)"
    using device_tx_spec [of "w\<lparr>tx_heap := h1\<rparr>" o1] ok(3) by auto
  from modem_call_spec [of h1 a "m_flush ops"] h1 obtain o2 h2 where
    h2: "modem_call (m_flush ops) a h1 = Some (o2, h2)" "heap_ok h2" "dom (live h2) = {a}" by auto
  let ?w1 = "w\<lparr>tx_sdr := (tx_sdr w)\<lparr>plugin := d1\<rparr>, tx_heap := h2\<rparr>"
  obtain c2 d2 where t2: "device_tx o2 ?w1 = Some (c2, ?w1\<lparr>tx_sdr := (tx_sdr ?w1)\<lparr>plugin := d2\<rparr>\<rparr>)"
    using device_tx_spec [of ?w1 o2] ok(3) by auto
  show ?thesis
    using Some m h1 t1 h2 t2 ok(3)
    by (cases "c1 = 0"; cases o2) (auto simp: sdr_tx_frame_def sized_def tx_inv_def owns_def)
qed

text \<open>
  New settings either take effect completely, with the old modem destroyed, or leave the modem as it
  was, with everything that was created for them destroyed.
\<close>

lemma sdr_tx_comm_parameters_spec:
  assumes inv: "tx_inv w" and m: "sized m"
  shows "\<exists>w' s d. sdr_tx_comm_parameters ops m w = Some (w', [SendResponse (msg_request_id m) s d]) \<and> tx_inv w' \<and>
    (s = RESPONSE_STATUS_SUCCESS \<or> s = RESPONSE_STATUS_FAILURE) \<and>
    (if s = RESPONSE_STATUS_SUCCESS then \<exists>a. tx_modem w' = Some a \<and> tx_modem w \<noteq> Some a
     else tx_modem w' = tx_modem w \<and> live (tx_heap w') = live (tx_heap w))"
proof -
  from settings_codec.decode_total [of "msg_buffer_len m" "msg_buffer m"] m
  consider (bad) "api_decode_comm_settings (Some (msg_buffer m)) (msg_buffer_len m) = Some (-1, None)"
    | (good) s where "api_decode_comm_settings (Some (msg_buffer m)) (msg_buffer_len m) = Some (0, Some s)"
    by (auto simp: sized_def)
  then show ?thesis
  proof cases
    case bad
    with inv show ?thesis by (auto simp: sdr_tx_comm_parameters_def)
  next
    case good
    obtain c p h where mc: "modem_create ops (modem_settings s) (max_frame_size w) (tx_heap w) = (c, p, h)" by (metis prod_cases3)
    have ok: "heap_ok (tx_heap w)" "dom (live (tx_heap w)) = set_option (tx_modem w)" using inv by (auto simp: tx_inv_def owns_def)
    note mcs = modem_create_spec [OF ok(1) mc]
    obtain c2 d where sp: "set_tx_parameters (tx_sdr w) (sdr_settings s) (plugin (tx_sdr w)) = (c2, d)" by fastforce
    show ?thesis
    proof (cases "c = 0")
      case False
      with good mc mcs(2) inv show ?thesis by (auto simp: sdr_tx_comm_parameters_def)
    next
      case True
      from modem_replaced [OF ok mc True] obtain a h' hb where
        a: "p = Some a" "tx_modem w \<noteq> Some a" "modem_destroy (tx_modem w) h = Some h'" "owns (Some a) h'"
          "modem_destroy p h = Some hb" "heap_ok hb" "live hb = live (tx_heap w)" by blast
      show ?thesis
        using good mc True sp a ok inv
        by (cases "c2 = 0") (auto simp: sdr_tx_comm_parameters_def tx_inv_def owns_def Let_def)
    qed
  qed
qed

lemma sdr_tx_handle_serves:
  assumes "tx_inv w" "sized m"
  shows "\<exists>w' out. sdr_tx_handle ops m w = Some (w', out) \<and> tx_inv w' \<and> length out \<le> 1 \<and>
    (\<forall>c \<in> set out. call_id c = Some (msg_request_id m))"
proof -
  consider "msg_type m = 0" | "msg_type m = 1" | "msg_type m \<notin> {0, 1}" by auto
  then show ?thesis
  proof cases
    case 1
    with sdr_tx_frame_spec [OF assms, of ops] show ?thesis by (fastforce simp: sdr_tx_handle_def split: if_splits)
  next
    case 2
    with sdr_tx_comm_parameters_spec [OF assms, of ops] show ?thesis by (fastforce simp: sdr_tx_handle_def)
  qed (use assms in \<open>simp add: sdr_tx_handle_def\<close>)
qed

interpretation tx_worker: request_worker "sdr_tx_handle ops" tx_inv for ops
  by unfold_locales (rule sdr_tx_handle_serves)

section \<open>The life of the worker\<close>

lemma tx_turn_message:
  assumes rel: "queue_rel q a" and idle: "a_busy a = None" and ms: "a_filled a = m # ms" and inv: "tx_inv w"
  shows "\<exists>q' w' out. sdr_tx_turn ops q w = Some (Handled, q', w', out) \<and> tx_inv w' \<and> length out \<le> 1 \<and>
    (\<forall>c \<in> set out. call_id c = Some (fst (snd m))) \<and> queue_rel q' (a\<lparr>a_filled := ms, a_free := Suc (a_free a)\<rparr>)"
proof -
  let ?a1 = "a\<lparr>a_filled := ms, a_busy := Some m\<rparr>"
  have at: "a_take a = (AMessage m, ?a1)" using ms by (simp add: a_take_def a_detach_def)
  from queue_take_refines [OF rel idle] obtain r q1 where
    q: "queue_take q = Some (r, q1)" "take_view r q1 = Some (AMessage m)" "queue_rel q1 ?a1"
    by (auto simp: at)
  obtain ty rid p where m: "m = (ty, rid, p)" by (cases m)
  from q(2) obtain qm b where v: "r = Message qm" "bufs (mem q1) (msg_buffer qm) = Some b" "msg_buffer_len qm \<le> length b"
      "ty = msg_type qm" "rid = msg_request_id qm" "p = take (msg_buffer_len qm) b"
    unfolding m by (rule take_view_Message)
  let ?m = "\<lparr>msg_type = msg_type qm, msg_request_id = msg_request_id qm, msg_buffer = b, msg_buffer_len = msg_buffer_len qm\<rparr>"
  from tx_worker.serves [OF inv, of ?m ops] v(3) obtain w1 out where
    h: "sdr_tx_handle ops ?m w = Some (w1, out)" "tx_inv w1" "length out \<le> 1" "\<forall>c \<in> set out. call_id c = Some rid"
    by (auto simp: sized_def v(5))
  from queue_complete_refines [OF q(3)] obtain q2 where "queue_complete q1 = Some q2" "queue_rel q2 (a_complete ?a1)" by auto
  moreover have "a_complete ?a1 = a\<lparr>a_filled := ms, a_free := Suc (a_free a)\<rparr>" using idle by (simp add: a_complete_def)
  ultimately show ?thesis using q(1) v(1,2) h m by (simp add: sdr_tx_turn_def)
qed

text \<open>After the interrupt the thread serves what is pending, in order, and ends.\<close>

lemma tx_callback_drains:
  assumes "queue_rel q a" "a_busy a = None" "a_poison a" "tx_inv w"
  shows "\<exists>q' w' outs. sdr_tx_worker_callback ops q w = Some (q', w', concat outs) \<and> tx_inv w' \<and>
    queue_rel q' (a\<lparr>a_filled := [], a_free := a_free a + length (a_filled a)\<rparr>) \<and>
    list_all2 (\<lambda>m out. length out \<le> 1 \<and> (\<forall>c \<in> set out. call_id c = Some (fst (snd m)))) (a_filled a) outs"
  using assms
proof (induction "a_filled a" arbitrary: a q w)
  case Nil
  from queue_take_refines [OF Nil.prems(1,2)] Nil.hyps Nil.prems(3) obtain r q1 where
    "queue_take q = Some (r, q1)" "take_view r q1 = Some ANoMessage" "queue_rel q1 a" by (auto simp: a_take_def)
  then have "sdr_tx_turn ops q w = Some (Stopped, q1, w, [])"
    by (auto simp: sdr_tx_turn_def take_view_def split: take_result.splits)
  with Nil \<open>queue_rel q1 a\<close> show ?case
    by (subst sdr_tx_worker_callback.simps) (auto simp: Nil.hyps [symmetric] intro!: exI [of _ "[]"])
next
  case (Cons m ms)
  let ?a1 = "a\<lparr>a_filled := ms, a_free := Suc (a_free a)\<rparr>"
  from tx_turn_message [OF Cons.prems(1,2) Cons.hyps(2) [symmetric] Cons.prems(4), of ops] obtain q1 w1 out where
    t: "sdr_tx_turn ops q w = Some (Handled, q1, w1, out)" "tx_inv w1" "length out \<le> 1"
      "\<forall>c \<in> set out. call_id c = Some (fst (snd m))" "queue_rel q1 ?a1" by blast
  from Cons.hyps(1) [of ?a1 q1 w1] t Cons.prems obtain q' w' outs where
    "sdr_tx_worker_callback ops q1 w1 = Some (q', w', concat outs)" "tx_inv w'"
    "queue_rel q' (?a1\<lparr>a_filled := [], a_free := a_free ?a1 + length ms\<rparr>)"
    "list_all2 (\<lambda>m out. length out \<le> 1 \<and> (\<forall>c \<in> set out. call_id c = Some (fst (snd m)))) ms outs"
    by auto
  with t show ?case
    by (subst sdr_tx_worker_callback.simps) (auto simp flip: Cons.hyps(2) intro!: exI [of _ "out # outs"])
qed

lemma sdr_tx_worker_create_spec:
  assumes fresh: "fresh_above m" and sizes: "fsize \<noteq> 0" "qsize \<noteq> 0" and h: "heap_ok h" "live h = Map.empty"
    and dev: "sdr_process_tx sdr \<noteq> None"
  shows "\<exists>code m' r. sdr_tx_worker_create ops oom thread_code fsize qsize sdr h m = Some (code, m', r) \<and>
    (code = 0 \<and> (\<exists>this q w. r = Some (this, q, w) \<and> tx_inv w \<and> tx_modem w = None \<and>
        queue_rel q (new_aqueue (unat qsize) (unat fsize) True)) \<or>
     code \<noteq> 0 \<and> r = None \<and> same_objects m' m \<and> ((\<exists>i. oom i) \<or> thread_code \<noteq> 0))"
  using fresh
proof (cases rule: malloc_structE [of m oom])
  case oom
  then show ?thesis by (auto simp: sdr_tx_worker_create_def same_objects_def)
next
  case ok
  let ?m1 = "m\<lparr>brk := Suc (brk m), structs := insert (brk m) (structs m)\<rparr>"
  let ?w = "\<lparr>max_frame_size = fsize, tx_modem = None, tx_sdr = sdr, tx_heap = h\<rparr>"
  have w: "tx_inv ?w" using h dev by (simp add: tx_inv_def owns_def)
  from queue_create_spec [OF ok(3) sizes(2,1), of oom True] obtain code m2 qo where
    qc: "queue_create oom fsize qsize True ?m1 = Some (code, m2, qo)" and
    out: "if code = 0 then \<exists>q. qo = Some q else qo = None \<and> same_objects m2 ?m1 \<and> (\<exists>i. oom i)"
    by (fastforce split: if_splits)
  show ?thesis
  proof (cases "code = 0")
    case False
    with qc out ok show ?thesis
      by (auto simp: sdr_tx_worker_create_def sdr_tx_worker_destroy_def queue_interrupt_def free_struct_def modem_destroy_def
          same_objects_def Let_def)
  next
    case True
    with out qc obtain q where q: "queue_create oom fsize qsize True ?m1 = Some (0, m2, Some q)" "code = 0" "qo = Some q" by auto
    note new = queue_create_ok [OF ok(3) q(1)]
    have st: "structs m2 = insert (Suc (brk m)) (insert (brk m) (structs m))"
      using new(4) by (auto simp: same_objects_def rest_of_sel)
    have "Suc (brk m) \<notin> structs m" using fresh by (simp add: fresh_above_def)
    moreover from destroy_new_queue [OF ok(3) q(1) refl refl, of 1] st obtain m3 where
      "destroy_queue (q\<lparr>mem := m2, poison_pill := 1\<rparr>) = Some m3" "nodes m3 = nodes m" "bufs m3 = bufs m"
      "structs m3 = structs m2 - {Suc (brk m)}" by auto
    ultimately show ?thesis
      using ok qc q w new(1) st
      by (cases "thread_code = 0")
        (auto simp: sdr_tx_worker_create_def sdr_tx_worker_destroy_def queue_interrupt_def free_struct_def modem_destroy_def
          same_objects_def Let_def)
  qed
qed

lemma queue_ops_framed:
  "queue_take q = Some (r, q') \<Longrightarrow> framed q q'" "queue_complete q = Some q' \<Longrightarrow> framed q q'"
  by (auto simp: queue_take_def queue_complete_def split: bind_splits option.splits if_splits
      elim!: framed_set_next framed_detach_first)

lemma tx_turn_framed: "sdr_tx_turn ops q w = Some (t, q', w', out) \<Longrightarrow> framed q q'"
  (is "?turn \<Longrightarrow> _")
proof -
  assume turn: ?turn
  then obtain r q1 where r: "queue_take q = Some (r, q1)" by (auto simp: sdr_tx_turn_def bind_eq_Some)
  show ?thesis
  proof (cases r)
    case (Message m)
    with turn r obtain q2 where "queue_complete q1 = Some q2" "q' = q2"
      by (auto simp: sdr_tx_turn_def bind_eq_Some)
    with queue_ops_framed(1) [OF r] queue_ops_framed(2) framed_trans show ?thesis by blast
  qed (use turn r queue_ops_framed(1) [OF r] in \<open>auto simp: sdr_tx_turn_def\<close>)
qed

lemma tx_callback_framed:
  fixes ops :: "('s, 'm) modem_ops" and w :: "('s, 'd, 'm) sdr_tx_worker"
  assumes "sdr_tx_worker_callback ops q w = Some r"
  shows "framed q (fst r)"
proof (rule sdr_tx_worker_callback.raw_induct [of "\<lambda>ops q w r. framed q (fst r)", OF _ assms])
  fix callback and ops :: "('s, 'm) modem_ops" and q and w :: "('s, 'd, 'm) sdr_tx_worker" and r
  assume IH: "\<And>ops q w r. callback ops q w = Some r \<Longrightarrow> framed q (fst r)"
    and step: "do { (t, q1, w1, out) \<leftarrow> sdr_tx_turn ops q w;
      (if t = Stopped then Some (q1, w1, out)
       else do { (q2, w2, out2) \<leftarrow> callback ops q1 w1; Some (q2, w2, out @ out2) }) } = Some r"
  then obtain t q1 w1 out where t: "sdr_tx_turn ops q w = Some (t, q1, w1, out)"
      "(if t = Stopped then Some (q1, w1, out)
       else do { (q2, w2, out2) \<leftarrow> callback ops q1 w1; Some (q2, w2, out @ out2) }) = Some r"
    by (auto simp: bind_eq_Some)
  show "framed q (fst r)"
  proof (cases "t = Stopped")
    case True
    with tx_turn_framed [OF t(1)] t(2) show ?thesis by auto
  next
    case False
    with t(2) obtain r1 where "callback ops q1 w1 = Some r1" "fst r = fst r1" by (auto simp: bind_eq_Some)
    with IH tx_turn_framed [OF t(1)] framed_trans show ?thesis by metis
  qed
qed

section \<open>Properties\<close>


text \<open>A device and modems to run the worker on: every operation succeeds, and frames are sent as they are.\<close>

definition echo_device :: "(u8, u8 list list) sdr_device" where
  "echo_device = \<lparr>plugin = [], sdr_set_rx_callback = None, sdr_process_rx = None, sdr_process_tx = Some (\<lambda>xs d. (0, d @ [xs])),
     sdr_flush_tx = None, set_rx_parameters = (\<lambda>_ d. (0, d)), set_tx_parameters = (\<lambda>_ d. (0, d)), start_rx = id, stop_rx = id\<rparr>"

definition echo_modem :: "(u8, unit) modem_ops" where
  "echo_modem = \<lparr>m_create = (\<lambda>_ _. (0, ())), m_modulate = (\<lambda>b m. (Some b, m)), m_flush = (\<lambda>m. (None, m)), m_demodulate = (\<lambda>b m. (Some b, m))\<rparr>"

definition echo_worker :: "(u8, u8 list list, unit) sdr_tx_worker" where
  "echo_worker = \<lparr>max_frame_size = 64, tx_modem = None, tx_sdr = echo_device, tx_heap = \<lparr>live = Map.empty, next_modem = 0\<rparr>\<rparr>"

lemma echo_worker_inv: "tx_inv echo_worker"
  by (simp add: tx_inv_def owns_def heap_ok_def echo_worker_def echo_device_def)


text \<open>
  C33. Every frame the transmitter takes while it has a modem is completed exactly once: whatever the
  modem produces and wherever the device fails, one \<^verbatim>\<open>TX_COMPLETE\<close> with the request id of the frame is
  sent and the worker keeps its modem. Without a modem nothing is transmitted and nothing is sent.
\<close>

theorem sdr_tx_frame_completed_once:
  assumes "tx_inv w" "sized m"
  shows "\<exists>w' out. sdr_tx_frame ops m w = Some (w', out) \<and> tx_inv w' \<and> tx_modem w' = tx_modem w \<and>
    (if tx_modem w = None then out = [] \<and> w' = w else \<exists>s d. out = [SendTxComplete (msg_request_id m) s d])"
proof (cases "tx_modem w")
  case None
  with assms show ?thesis by (simp add: sdr_tx_frame_def)
next
  case (Some a)
  with sdr_tx_frame_spec [OF assms, of ops] show ?thesis by simp
qed

theorem sdr_tx_frame_completed_once_witness:
  "\<exists>w' out. sdr_tx_frame echo_modem (sdr_tx_worker_send 9 [1, 2, 3] 3)
      (echo_worker\<lparr>tx_modem := Some 0, tx_heap := \<lparr>live = [0 \<mapsto> ()], next_modem = 1\<rparr>\<rparr>) = Some (w', out) \<and>
    (\<exists>s d. out = [SendTxComplete 9 s d])"
proof -
  let ?w = "echo_worker\<lparr>tx_modem := Some 0, tx_heap := \<lparr>live = [0 \<mapsto> ()], next_modem = 1\<rparr>\<rparr>"
  have "tx_inv ?w" by (auto simp: tx_inv_def owns_def heap_ok_def echo_worker_def echo_device_def split: if_splits)
  moreover have "sized (sdr_tx_worker_send 9 [1, 2, 3] 3)" by (simp add: sized_def sdr_tx_worker_send_def)
  ultimately show ?thesis
    using sdr_tx_frame_completed_once [of ?w "sdr_tx_worker_send 9 [1, 2, 3] 3" echo_modem]
    by (auto simp: sdr_tx_worker_send_def)
qed

text \<open>
  The life of the transmitter leaks nothing: after its creation and any interleaving of queue
  operations that leaves no message in work, \<^verbatim>\<open>sdr_tx_worker_destroy\<close> terminates, serving the
  pending requests first, and frees the queue, the worker and the last modem.
\<close>

theorem sdr_tx_lifetime_no_leak:
  assumes create: "sdr_tx_worker_create mops oom thread_code fsize qsize sdr h empty_memory = Some (0, m, Some (this, q, w))"
    and env: "heap_ok h" "live h = Map.empty" "sdr_process_tx sdr \<noteq> None"
    and run: "run_ops aqueue_step ops (new_aqueue (unat qsize) (unat fsize) True) = Some (obs, a)" "a_busy a = None"
  shows "\<exists>q' m' w' out. run_ops queue_step ops q = Some (obs, q') \<and>
    sdr_tx_worker_destroy mops True this (Some q') (mem q') w = Some (m', w', out) \<and>
    nodes m' = Map.empty \<and> bufs m' = Map.empty \<and> structs m' = {} \<and> live (tx_heap w') = Map.empty"
proof -
  let ?m1 = "empty_memory\<lparr>brk := 1, structs := {0}\<rparr>"
  have f1: "fresh_above ?m1" by (auto simp: fresh_above_def empty_memory_def)
  from create have c: "this = 0" "queue_create oom fsize qsize True ?m1 = Some (0, m, Some q)" "tx_modem w = None" "tx_heap w = h" "tx_sdr w = sdr"
    by (auto simp: sdr_tx_worker_create_def malloc_struct_def empty_memory_def Let_def bind_eq_Some split: if_splits)
  have inv: "tx_inv w" using c env by (simp add: tx_inv_def owns_def)
  note new = queue_create_ok [OF f1 c(2)]
  from new(4) obtain fr0 where fr0: "queue_rep q fr0 []" "length fr0 = unat qsize" "detached_node q = None"
      "same_objects (rest_of m fr0) (?m1\<lparr>structs := insert (brk ?m1) (structs ?m1)\<rparr>)" by blast
  have st: "structs (mem q) = {1, 0}" "self q = 1" using fr0(4) new(2,3) by (auto simp: same_objects_def rest_of_sel)
  from mq.run_sim [OF new(1) run(1)] obtain q' where q': "run_ops queue_step ops q = Some (obs, q')" "queue_rel q' a" by blast
  from queue_interrupt_refines [OF q'(2)] obtain q1 where q1: "queue_interrupt (Some q') = Some q1" "queue_rel q1 (a_interrupt a)" by blast
  from tx_callback_drains [OF q1(2) _ _ inv, of mops] run(2) obtain q2 w2 outs where
    cb: "sdr_tx_worker_callback mops q1 w = Some (q2, w2, concat outs)" "tx_inv w2"
      "queue_rel q2 (a_interrupt a\<lparr>a_filled := [], a_free := a_free a + length (a_filled a)\<rparr>)"
    by (auto simp: a_interrupt_def)
  have fr: "framed q q2"
    using framed_run [OF q'(1)] tx_callback_framed [OF cb(1)] q1(1) framed_trans [of q q' q1] framed_trans [of q q1 q2]
    by (auto simp: queue_interrupt_def)
  from cb(3) obtain fr2 fi2 where rep: "queue_rep q2 fr2 fi2" "length (fr2 @ fi2 @ opt_list (detached_node q2)) = unat qsize"
    by (rule queue_rel_capacity) (use a_run_capacity [OF run(1)] run(2) in \<open>simp add: capacity_def a_interrupt_def new_aqueue_def\<close>)
  from destroy_after_frame [OF fr0(1,3) _ _ _ fr rep(1)] fr0(2,4) st rep(2) new(2) obtain m3 where
    m3: "destroy_queue q2 = Some m3" "nodes m3 = Map.empty" "bufs m3 = Map.empty" "structs m3 = {0}"
    by (auto simp: same_objects_def empty_memory_def)
  from modem_destroy_spec [of "tx_heap w2" "tx_modem w2"] cb(2) obtain h2 where
    "modem_destroy (tx_modem w2) (tx_heap w2) = Some h2" "live h2 = Map.empty" by (auto simp: tx_inv_def owns_def)
  moreover have "q'\<lparr>mem := mem q'\<rparr> = q'" by simp
  ultimately show ?thesis
    using q'(1) q1(1) cb(1) m3 c(1) by (auto simp: sdr_tx_worker_destroy_def free_struct_def)
qed

theorem sdr_tx_lifetime_no_leak_witness:
  "\<exists>m this q w q' m' w' out. sdr_tx_worker_create echo_modem (\<lambda>_. False) 0 64 2 echo_device \<lparr>live = Map.empty, next_modem = 0\<rparr> empty_memory
      = Some (0, m, Some (this, q, w)) \<and>
    run_ops queue_step [Put (sdr_tx_worker_send 9 [1, 2, 3] 3)] q = Some ([OPut (Ret 0)], q') \<and>
    sdr_tx_worker_destroy echo_modem True this (Some q') (mem q') w = Some (m', w', out) \<and>
    nodes m' = Map.empty \<and> bufs m' = Map.empty \<and> structs m' = {}"
proof -
  let ?h = "\<lparr>live = Map.empty, next_modem = 0\<rparr> :: unit modem_heap"
  have env: "heap_ok ?h" "live ?h = Map.empty" "sdr_process_tx echo_device \<noteq> None"
    by (simp_all add: heap_ok_def echo_device_def)
  from sdr_tx_worker_create_spec [OF fresh_empty _ _ env, of 64 2 echo_modem "\<lambda>_. False" 0] obtain m this q w where
    c: "sdr_tx_worker_create echo_modem (\<lambda>_. False) 0 64 2 echo_device ?h empty_memory = Some (0, m, Some (this, q, w))" by auto
  have "run_ops aqueue_step [Put (sdr_tx_worker_send 9 [1, 2, 3] 3)] (new_aqueue (unat (2 :: 16 word)) (unat (64 :: 32 word)) True)
      = Some ([OPut (Ret 0)], \<lparr>a_free = 1, a_filled = [(0, 9, [1, 2, 3])], a_busy = None, a_poison = False, a_bufsize = 64, a_blocking = True\<rparr>)"
    by (simp add: new_aqueue_def a_put_def msg_of_def sdr_tx_worker_send_def)
  from sdr_tx_lifetime_no_leak [OF c env this] c show ?thesis by auto
qed

end
