(* ===== verification/SdrRxWorker.thy ===== *)
theory SdrRxWorker
  imports SdrTxWorker
begin

text \<open>
  The receiving worker, \<^verbatim>\<open>src/sdr_rx_worker.c\<close>: it configures the receiver, starts and stops it and
  turns samples into soft bits for the client. A device is either pulled by the thread of the
  worker or pushes samples from its own thread through \<^verbatim>\<open>sdr_rx_callback\<close>; the second case is a step
  relation on the two threads and the mutex that protects the modem.
\<close>

abbreviation (input) SDR_RX_COMM_PARAMETERS :: u8 where "SDR_RX_COMM_PARAMETERS \<equiv> 0"
abbreviation (input) SDR_RX_START :: u8 where "SDR_RX_START \<equiv> 1"
abbreviation (input) SDR_RX_STOP :: u8 where "SDR_RX_STOP \<equiv> 2"
abbreviation (input) SDR_RX_MESSAGE_QUEUE_SIZE :: u16 where "SDR_RX_MESSAGE_QUEUE_SIZE \<equiv> 8"

record ('s, 'd, 'm) sdr_rx_worker =
  sdr_buffer_len :: u32
  rx_modem :: "addr option"
  rx_sdr :: "('s, 'd) sdr_device"
  rx_heap :: "'m modem_heap"
  rx_enabled :: bool
  rx_request_id :: u32

section \<open>Messages\<close>

definition sdr_rx_worker_put_empty :: "u8 \<Rightarrow> u32 \<Rightarrow> u8 list queue_message" where
  "sdr_rx_worker_put_empty ty rid = \<lparr>msg_type = ty, msg_request_id = rid, msg_buffer = [0], msg_buffer_len = 0\<rparr>"

definition sdr_rx_worker_start :: "u32 \<Rightarrow> u8 list queue_message" where
  "sdr_rx_worker_start rid = sdr_rx_worker_put_empty SDR_RX_START rid"

definition sdr_rx_worker_stop :: "u32 \<Rightarrow> u8 list queue_message" where
  "sdr_rx_worker_stop rid = sdr_rx_worker_put_empty SDR_RX_STOP rid"

definition sdr_rx_worker_set_comm_parameters :: "u32 \<Rightarrow> u8 list \<Rightarrow> nat \<Rightarrow> u8 list queue_message" where
  "sdr_rx_worker_set_comm_parameters rid buf n =
     \<lparr>msg_type = SDR_RX_COMM_PARAMETERS, msg_request_id = rid, msg_buffer = buf, msg_buffer_len = n\<rparr>"

section \<open>The handlers\<close>

definition sdr_rx_comm_parameters ::
  "('s, 'm) modem_ops \<Rightarrow> u8 list queue_message \<Rightarrow> ('s, 'd, 'm) sdr_rx_worker \<Rightarrow> (('s, 'd, 'm) sdr_rx_worker \<times> client_call list) option" where
  "sdr_rx_comm_parameters ops m w = do {
     let failure = SendResponse (msg_request_id m) RESPONSE_STATUS_FAILURE RESPONSE_DETAILS_INVALID_REQUEST;
     (code, so) \<leftarrow> api_decode_comm_settings (Some (msg_buffer m)) (msg_buffer_len m);
     (if code \<noteq> 0 then Some (w, [failure])
      else do {
        settings \<leftarrow> so;
        (case modem_create ops (modem_settings settings) (sdr_buffer_len w) (rx_heap w) of (code, new_modem, h) \<Rightarrow>
           if code \<noteq> 0 then Some (w\<lparr>rx_heap := h\<rparr>, [failure])
           else (case set_rx_parameters (rx_sdr w) (sdr_settings settings) (plugin (rx_sdr w)) of (code, d) \<Rightarrow>
             let w1 = w\<lparr>rx_heap := h, rx_sdr := (rx_sdr w)\<lparr>plugin := d\<rparr>\<rparr> in
             if code \<noteq> 0 then do {
               h' \<leftarrow> modem_destroy new_modem h;
               Some (w1\<lparr>rx_heap := h'\<rparr>, [failure]) }
             else do {
               let old_modem = rx_modem w1;
               let w2 = w1\<lparr>rx_modem := new_modem\<rparr>;
               h' \<leftarrow> modem_destroy old_modem h;
               Some (w2\<lparr>rx_heap := h'\<rparr>,
                 [SendResponse (msg_request_id m) RESPONSE_STATUS_SUCCESS RESPONSE_DETAILS_NO_DETAILS]) })) }) }"

definition sdr_rx_start :: "u8 list queue_message \<Rightarrow> ('s, 'd, 'm) sdr_rx_worker \<Rightarrow> ('s, 'd, 'm) sdr_rx_worker \<times> client_call list" where
  "sdr_rx_start m w =
    ((if rx_enabled w then w
      else w\<lparr>rx_sdr := (rx_sdr w)\<lparr>plugin := start_rx (rx_sdr w) (plugin (rx_sdr w))\<rparr>, rx_enabled := True\<rparr>),
     [SendResponse (msg_request_id m) RESPONSE_STATUS_SUCCESS RESPONSE_DETAILS_NO_DETAILS])"

definition sdr_rx_stop :: "u8 list queue_message \<Rightarrow> ('s, 'd, 'm) sdr_rx_worker \<Rightarrow> ('s, 'd, 'm) sdr_rx_worker \<times> client_call list" where
  "sdr_rx_stop m w =
    ((if rx_enabled w
      then w\<lparr>rx_sdr := (rx_sdr w)\<lparr>plugin := stop_rx (rx_sdr w) (plugin (rx_sdr w))\<rparr>, rx_enabled := False\<rparr> else w),
     [SendResponse (msg_request_id m) RESPONSE_STATUS_SUCCESS RESPONSE_DETAILS_NO_DETAILS])"

definition sdr_rx_worker_handle_message ::
  "('s, 'm) modem_ops \<Rightarrow> u8 list queue_message \<Rightarrow> ('s, 'd, 'm) sdr_rx_worker \<Rightarrow> (('s, 'd, 'm) sdr_rx_worker \<times> client_call list) option" where
  "sdr_rx_worker_handle_message ops m w =
    (if msg_type m = SDR_RX_COMM_PARAMETERS then sdr_rx_comm_parameters ops m w
     else if msg_type m = SDR_RX_START then Some (sdr_rx_start m w)
     else if msg_type m = SDR_RX_STOP then Some (sdr_rx_stop m w)
     else Some (w, []))"

text \<open>Samples arrive: soft bits are sent under a running number.\<close>

definition sdr_rx_callback ::
  "('s, 'm) modem_ops \<Rightarrow> 's list \<Rightarrow> ('s, 'd, 'm) sdr_rx_worker \<Rightarrow> (('s, 'd, 'm) sdr_rx_worker \<times> client_call list) option" where
  "sdr_rx_callback ops output w = do {
     (bits, w1) \<leftarrow> (case rx_modem w of
         None \<Rightarrow> Some (None, w)
       | Some a \<Rightarrow> do {
           (bits, h) \<leftarrow> modem_call (m_demodulate ops output) a (rx_heap w);
           Some (bits, w\<lparr>rx_heap := h\<rparr>) });
     (case bits of
        None \<Rightarrow> Some (w1, [])
      | Some b \<Rightarrow> Some (w1\<lparr>rx_request_id := rx_request_id w1 + 1\<rparr>, [SendSoftBits (rx_request_id w1) b])) }"

section \<open>The loop\<close>

text \<open>The part of a turn after the command: reading the device when it is pulled.\<close>

definition sdr_rx_read ::
  "('s, 'm) modem_ops \<Rightarrow> ('s, 'd, 'm) sdr_rx_worker \<Rightarrow> (turn \<times> ('s, 'd, 'm) sdr_rx_worker \<times> client_call list) option" where
  "sdr_rx_read ops w =
    (if \<not> rx_enabled w then Some (Handled, w, [])
     else (case sdr_process_rx (rx_sdr w) of
       None \<Rightarrow> Some (Handled, w, [])
     | Some f \<Rightarrow> (case f (plugin (rx_sdr w)) of (code, output, d) \<Rightarrow>
         let w1 = w\<lparr>rx_sdr := (rx_sdr w)\<lparr>plugin := d\<rparr>\<rparr> in
         if code < -1 then Some (Handled, w1, [])
         else if code \<noteq> 0 \<and> output = [] then Some (Stopped, w1, [])
         else do { (w2, out) \<leftarrow> sdr_rx_callback ops output w1; Some (Handled, w2, out) })))"

definition sdr_rx_turn ::
  "('s, 'm) modem_ops \<Rightarrow> queue \<Rightarrow> ('s, 'd, 'm) sdr_rx_worker \<Rightarrow> (turn \<times> queue \<times> ('s, 'd, 'm) sdr_rx_worker \<times> client_call list) option" where
  "sdr_rx_turn ops q w = do {
     let pull = (rx_enabled w \<and> sdr_process_rx (rx_sdr w) \<noteq> None);
     (r, q1) \<leftarrow> (if pull then queue_peak q else queue_take q);
     (case r of
        Waiting \<Rightarrow> Some (Blocked, q1, w, [])
      | NoMessage \<Rightarrow>
          (if \<not> pull then Some (Stopped, q1, w, [])
           else do { (t, w1, out) \<leftarrow> sdr_rx_read ops w; Some (t, q1, w1, out) })
      | Message m \<Rightarrow> do {
          b \<leftarrow> bufs (mem q1) (msg_buffer m);
          (w1, out) \<leftarrow> sdr_rx_worker_handle_message ops
            \<lparr>msg_type = msg_type m, msg_request_id = msg_request_id m, msg_buffer = b, msg_buffer_len = msg_buffer_len m\<rparr> w;
          q2 \<leftarrow> queue_complete q1;
          (t, w2, out2) \<leftarrow> sdr_rx_read ops w1;
          Some (t, q2, w2, out @ out2) }) }"

partial_function (option) sdr_rx_worker_callback ::
  "('s, 'm) modem_ops \<Rightarrow> queue \<Rightarrow> ('s, 'd, 'm) sdr_rx_worker \<Rightarrow> (queue \<times> ('s, 'd, 'm) sdr_rx_worker \<times> client_call list) option" where
  "sdr_rx_worker_callback ops q w = do {
     (t, q1, w1, out) \<leftarrow> sdr_rx_turn ops q w;
     (if t = Stopped then Some (q1, w1, out)
      else do {
        (q2, w2, out2) \<leftarrow> sdr_rx_worker_callback ops q1 w1;
        Some (q2, w2, out @ out2) }) }"

section \<open>Construction and destruction\<close>

definition sdr_rx_worker_destroy ::
  "('s, 'm) modem_ops \<Rightarrow> bool \<Rightarrow> addr \<Rightarrow> queue option \<Rightarrow> memory \<Rightarrow> ('s, 'd, 'm) sdr_rx_worker \<Rightarrow>
     (memory \<times> ('s, 'd, 'm) sdr_rx_worker \<times> client_call list) option" where
  "sdr_rx_worker_destroy ops thread_started this q m w = do {
     let q0 = queue_interrupt (map_option (\<lambda>q. q\<lparr>mem := m\<rparr>) q);
     (q1, w1, out) \<leftarrow> (case q0 of
         None \<Rightarrow> Some (None, w, [])
       | Some q1 \<Rightarrow> (if thread_started then do {
             (q2, w1, out) \<leftarrow> sdr_rx_worker_callback ops q1 w; Some (Some q2, w1, out) }
           else Some (Some q1, w, [])));
     h \<leftarrow> modem_destroy (rx_modem w1) (rx_heap w1);
     m1 \<leftarrow> (case q1 of None \<Rightarrow> Some m | Some q2 \<Rightarrow> destroy_queue q2);
     m2 \<leftarrow> free_struct (Some this) m1;
     Some (m2, w1\<lparr>rx_heap := h, rx_modem := None\<rparr>, out) }"

definition sdr_rx_worker_create ::
  "('s, 'm) modem_ops \<Rightarrow> (nat \<Rightarrow> bool) \<Rightarrow> int \<Rightarrow> u32 \<Rightarrow> ('s, 'd) sdr_device \<Rightarrow> 'm modem_heap \<Rightarrow> memory \<Rightarrow>
     (int \<times> memory \<times> (addr \<times> queue \<times> ('s, 'd, 'm) sdr_rx_worker) option) option" where
  "sdr_rx_worker_create ops oom thread_code blen sdr h m = (case malloc_struct oom m of
     (None, m1) \<Rightarrow> Some (- ENOMEM, m1, None)
   | (Some this, m1) \<Rightarrow> do {
       let w = \<lparr>sdr_buffer_len = blen, rx_modem = None, rx_sdr = sdr, rx_heap = h, rx_enabled = False, rx_request_id = 0\<rparr>;
       (code, m2, qo) \<leftarrow> queue_create oom blen SDR_RX_MESSAGE_QUEUE_SIZE True m1;
       (if code \<noteq> 0 then do { (m3, _, _) \<leftarrow> sdr_rx_worker_destroy ops False this None m2 w; Some (-1, m3, None) }
        else do {
          let w1 = (case sdr_set_rx_callback sdr of
              None \<Rightarrow> w | Some f \<Rightarrow> w\<lparr>rx_sdr := sdr\<lparr>plugin := f (plugin sdr)\<rparr>\<rparr>);
          (if thread_code \<noteq> 0
           then do { (m3, _, _) \<leftarrow> sdr_rx_worker_destroy ops False this qo m2 w1; Some (-1, m3, None) }
           else do { q \<leftarrow> qo; Some (0, m2, Some (this, q, w1)) }) }) })"

section \<open>Invariant\<close>

text \<open>
  What the worker relies on of a device: \<open>R b d\<close> says that the plugin in state \<open>d\<close> receives if and only
  if \<open>b\<close>; starting a stopped and stopping a started receiver, reading a started one and tuning it
  do what they say.
\<close>

definition device_ok :: "(bool \<Rightarrow> 'd \<Rightarrow> bool) \<Rightarrow> ('s, 'd) sdr_device \<Rightarrow> bool" where
  "device_ok R sdr \<longleftrightarrow> (\<forall>d. R False d \<longrightarrow> R True (start_rx sdr d)) \<and> (\<forall>d. R True d \<longrightarrow> R False (stop_rx sdr d)) \<and>
     (\<forall>c b d. R b d \<longrightarrow> R b (snd (set_rx_parameters sdr c d))) \<and>
     (\<forall>f d. sdr_process_rx sdr = Some f \<longrightarrow> R True d \<longrightarrow> R True (snd (snd (f d))))"

lemma device_ok_plugin [simp]: "device_ok R (sdr\<lparr>plugin := d\<rparr>) = device_ok R sdr"
  by (simp add: device_ok_def)

definition rx_inv :: "(bool \<Rightarrow> 'd \<Rightarrow> bool) \<Rightarrow> ('s, 'd, 'm) sdr_rx_worker \<Rightarrow> bool" where
  "rx_inv R w \<longleftrightarrow> owns (rx_modem w) (rx_heap w) \<and> device_ok R (rx_sdr w) \<and> R (rx_enabled w) (plugin (rx_sdr w))"

lemma sdr_rx_start_stop:
  assumes "rx_inv R w"
  shows "rx_inv R (fst (sdr_rx_start m w))" "rx_inv R (fst (sdr_rx_stop m w))"
  using assms by (auto simp: rx_inv_def sdr_rx_start_def sdr_rx_stop_def device_ok_def)

lemma sdr_rx_comm_parameters_spec:
  assumes inv: "rx_inv R w" and m: "sized m"
  shows "\<exists>w' s d. sdr_rx_comm_parameters ops m w = Some (w', [SendResponse (msg_request_id m) s d]) \<and> rx_inv R w' \<and>
    rx_enabled w' = rx_enabled w \<and> rx_request_id w' = rx_request_id w \<and> sdr_process_rx (rx_sdr w') = sdr_process_rx (rx_sdr w) \<and>
    (s = RESPONSE_STATUS_SUCCESS \<or> s = RESPONSE_STATUS_FAILURE) \<and>
    (if s = RESPONSE_STATUS_SUCCESS then \<exists>a. rx_modem w' = Some a \<and> rx_modem w \<noteq> Some a
     else rx_modem w' = rx_modem w \<and> live (rx_heap w') = live (rx_heap w))"
proof -
  from settings_codec.decode_total [of "msg_buffer_len m" "msg_buffer m"] m
  consider (bad) "api_decode_comm_settings (Some (msg_buffer m)) (msg_buffer_len m) = Some (-1, None)"
    | (good) s where "api_decode_comm_settings (Some (msg_buffer m)) (msg_buffer_len m) = Some (0, Some s)"
    by (auto simp: sized_def)
  then show ?thesis
  proof cases
    case bad
    with inv show ?thesis by (auto simp: sdr_rx_comm_parameters_def)
  next
    case good
    obtain c p h where mc: "modem_create ops (modem_settings s) (sdr_buffer_len w) (rx_heap w) = (c, p, h)" by (metis prod_cases3)
    have ok: "heap_ok (rx_heap w)" "dom (live (rx_heap w)) = set_option (rx_modem w)" using inv by (auto simp: rx_inv_def owns_def)
    note mcs = modem_create_spec [OF ok(1) mc]
    obtain c2 d where sp: "set_rx_parameters (rx_sdr w) (sdr_settings s) (plugin (rx_sdr w)) = (c2, d)" by fastforce
    have dev: "device_ok R (rx_sdr w)" "R (rx_enabled w) d"
      using inv sp by (auto simp: rx_inv_def device_ok_def dest: spec [of _ "sdr_settings s"]) (metis snd_conv)
    show ?thesis
    proof (cases "c = 0")
      case False
      with good mc mcs(2) inv show ?thesis by (auto simp: sdr_rx_comm_parameters_def)
    next
      case True
      from modem_replaced [OF ok mc True] obtain a h' hb where
        a: "p = Some a" "rx_modem w \<noteq> Some a" "modem_destroy (rx_modem w) h = Some h'" "owns (Some a) h'"
          "modem_destroy p h = Some hb" "heap_ok hb" "live hb = live (rx_heap w)" by blast
      show ?thesis
        using good mc True sp a ok dev
        by (cases "c2 = 0") (auto simp: sdr_rx_comm_parameters_def rx_inv_def owns_def Let_def)
    qed
  qed
qed

lemma sdr_rx_handle_spec:
  assumes "rx_inv R w" "sized m"
  shows "\<exists>w' out. sdr_rx_worker_handle_message ops m w = Some (w', out) \<and> rx_inv R w' \<and> length out \<le> 1 \<and>
    (\<forall>c \<in> set out. \<exists>s d. c = SendResponse (msg_request_id m) s d) \<and> rx_request_id w' = rx_request_id w \<and>
    sdr_process_rx (rx_sdr w') = sdr_process_rx (rx_sdr w) \<and> (msg_type m = SDR_RX_STOP \<longrightarrow> \<not> rx_enabled w')"
proof -
  consider "msg_type m = 0" | "msg_type m = 1" | "msg_type m = 2" | "msg_type m \<notin> {0, 1, 2}" by auto
  then show ?thesis
  proof cases
    case 1
    with sdr_rx_comm_parameters_spec [OF assms, of ops] show ?thesis by (fastforce simp: sdr_rx_worker_handle_message_def)
  next
    case 2
    with sdr_rx_start_stop(1) [OF assms(1), of m] show ?thesis
      by (simp add: sdr_rx_worker_handle_message_def sdr_rx_start_def split: if_splits)
  next
    case 3
    with sdr_rx_start_stop(2) [OF assms(1), of m] show ?thesis
      by (simp add: sdr_rx_worker_handle_message_def sdr_rx_stop_def split: if_splits)
  qed (use assms in \<open>simp add: sdr_rx_worker_handle_message_def\<close>)
qed

interpretation rx_worker: request_worker "sdr_rx_worker_handle_message ops" "rx_inv R" for ops R
  by unfold_locales (use sdr_rx_handle_spec in \<open>fastforce\<close>)

lemma sdr_rx_callback_spec:
  assumes "rx_inv R w"
  shows "\<exists>w' out. sdr_rx_callback ops xs w = Some (w', out) \<and> rx_inv R w' \<and> rx_enabled w' = rx_enabled w \<and>
    sdr_process_rx (rx_sdr w') = sdr_process_rx (rx_sdr w) \<and>
    (out = [] \<and> rx_request_id w' = rx_request_id w \<or>
     (\<exists>b. out = [SendSoftBits (rx_request_id w) b] \<and> rx_request_id w' = rx_request_id w + 1))"
proof (cases "rx_modem w")
  case None
  with assms show ?thesis by (simp add: sdr_rx_callback_def)
next
  case (Some a)
  with assms have "heap_ok (rx_heap w)" "a \<in> dom (live (rx_heap w))" by (auto simp: rx_inv_def owns_def)
  from modem_call_spec [OF this, of "m_demodulate ops xs"] obtain r h' where
    h: "modem_call (m_demodulate ops xs) a (rx_heap w) = Some (r, h')" "heap_ok h'" "dom (live h') = dom (live (rx_heap w))" by blast
  have "rx_inv R (w\<lparr>rx_heap := h'\<rparr>)" using h assms by (simp add: rx_inv_def owns_def)
  with h Some show ?thesis by (cases r) (auto simp: sdr_rx_callback_def rx_inv_def)
qed

section \<open>Running numbers of the soft bits\<close>

text \<open>What happens to the worker: commands from the queue and samples from the device, in any order.\<close>

datatype 's rx_event = Command "u8 list queue_message" | Samples "'s list"

fun rx_react ::
  "('s, 'm) modem_ops \<Rightarrow> 's rx_event \<Rightarrow> ('s, 'd, 'm) sdr_rx_worker \<Rightarrow> (('s, 'd, 'm) sdr_rx_worker \<times> client_call list) option" where
  "rx_react ops (Command m) w = sdr_rx_worker_handle_message ops m w"
| "rx_react ops (Samples xs) w = sdr_rx_callback ops xs w"

fun soft_ids :: "client_call list \<Rightarrow> u32 list" where
  "soft_ids [] = []"
| "soft_ids (SendSoftBits i b # cs) = i # soft_ids cs"
| "soft_ids (_ # cs) = soft_ids cs"

lemma soft_ids_append [simp]: "soft_ids (xs @ ys) = soft_ids xs @ soft_ids ys"
  by (induction xs rule: soft_ids.induct) auto

definition numbers :: "u32 \<Rightarrow> nat \<Rightarrow> u32 list" where
  "numbers r n = map (\<lambda>i. r + of_nat i) [0..<n]"

lemma numbers_Suc: "numbers r (Suc n) = r # numbers (r + 1) n"
  by (simp add: numbers_def upt_conv_Cons map_Suc_upt [symmetric] o_def add.assoc del: upt_Suc)

lemma rx_event_spec:
  assumes "rx_inv R w" "\<And>m. e = Command m \<Longrightarrow> sized m"
  shows "\<exists>w' out. rx_react ops e w = Some (w', out) \<and> rx_inv R w' \<and>
    (soft_ids out = [] \<and> rx_request_id w' = rx_request_id w \<or>
     soft_ids out = [rx_request_id w] \<and> rx_request_id w' = rx_request_id w + 1)"
proof (cases e)
  case (Command m)
  with sdr_rx_handle_spec [OF assms(1), of m ops] assms(2) obtain w' out where
    h: "rx_react ops e w = Some (w', out)" "rx_inv R w'" "\<forall>c \<in> set out. \<exists>s d. c = SendResponse (msg_request_id m) s d"
      "rx_request_id w' = rx_request_id w" by fastforce
  have "soft_ids out = []" using h(3) by (induction out) auto
  with h show ?thesis by blast
next
  case (Samples xs)
  with sdr_rx_callback_spec [OF assms(1), of ops xs] show ?thesis by fastforce
qed

lemma rx_events_numbered:
  "rx_inv R w \<Longrightarrow> \<forall>m. Command m \<in> set es \<longrightarrow> sized m \<Longrightarrow> \<exists>w' outs n. serve (rx_react ops) es w = Some (w', outs) \<and> rx_inv R w' \<and>
     soft_ids (concat outs) = numbers (rx_request_id w) n \<and> rx_request_id w' = rx_request_id w + of_nat n"
proof (induction es arbitrary: w)
  case Nil
  then show ?case by (auto simp: numbers_def intro!: exI [of _ 0])
next
  case (Cons e es)
  from rx_event_spec [OF Cons.prems(1), of e ops] Cons.prems(2) obtain w1 out where
    e: "rx_react ops e w = Some (w1, out)" "rx_inv R w1"
      "soft_ids out = [] \<and> rx_request_id w1 = rx_request_id w \<or> soft_ids out = [rx_request_id w] \<and> rx_request_id w1 = rx_request_id w + 1"
    by (metis list.set_intros(1))
  from Cons.IH [OF e(2)] Cons.prems(2) obtain w' outs n where
    IH: "serve (rx_react ops) es w1 = Some (w', outs)" "rx_inv R w'" "soft_ids (concat outs) = numbers (rx_request_id w1) n"
      "rx_request_id w' = rx_request_id w1 + of_nat n" by auto
  from e(3) show ?case
  proof
    assume "soft_ids out = [] \<and> rx_request_id w1 = rx_request_id w"
    with e IH show ?thesis by (auto intro!: exI [of _ n])
  next
    assume "soft_ids out = [rx_request_id w] \<and> rx_request_id w1 = rx_request_id w + 1"
    with e IH show ?thesis by (auto simp: numbers_Suc intro!: exI [of _ "Suc n"])
  qed
qed

section \<open>The loop ends after a stop, and only then\<close>

lemma sdr_rx_read_spec:
  assumes "rx_inv R w"
  shows "\<exists>t w' out. sdr_rx_read ops w = Some (t, w', out) \<and> rx_inv R w' \<and> rx_enabled w' = rx_enabled w \<and>
    sdr_process_rx (rx_sdr w') = sdr_process_rx (rx_sdr w) \<and> (t = Handled \<or> t = Stopped) \<and> (\<not> rx_enabled w \<longrightarrow> t = Handled)"
proof (cases "rx_enabled w \<and> sdr_process_rx (rx_sdr w) \<noteq> None")
  case False
  with assms show ?thesis by (auto simp: sdr_rx_read_def)
next
  case True
  then obtain f where f: "sdr_process_rx (rx_sdr w) = Some f" "rx_enabled w" by auto
  obtain code xs d where r: "f (plugin (rx_sdr w)) = (code, xs, d)" by (metis prod_cases3)
  let ?w = "w\<lparr>rx_sdr := (rx_sdr w)\<lparr>plugin := d\<rparr>\<rparr>"
  have inv: "rx_inv R ?w" using assms f r by (auto simp: rx_inv_def device_ok_def)
  from sdr_rx_callback_spec [OF inv, of ops xs] f r inv show ?thesis
    by (fastforce simp: sdr_rx_read_def Let_def)
qed

lemma rx_take_message:
  assumes "queue_rel q a" "a_busy a = None" "a_filled a = m # ms"
  obtains qm b q1 where "(if pull then queue_peak q else queue_take q) = Some (Message qm, q1)"
    "bufs (mem q1) (msg_buffer qm) = Some b" "msg_buffer_len qm \<le> length b"
    "m = (msg_type qm, msg_request_id qm, take (msg_buffer_len qm) b)" "queue_rel q1 (a\<lparr>a_filled := ms, a_busy := Some m\<rparr>)"
proof -
  let ?a1 = "a\<lparr>a_filled := ms, a_busy := Some m\<rparr>"
  have "a_take a = (AMessage m, ?a1)" "a_peak a = (AMessage m, ?a1)" using assms(3) by (simp_all add: a_take_def a_peak_def a_detach_def)
  with queue_take_refines [OF assms(1,2)] queue_peak_refines [OF assms(1,2)] obtain r q1 where
    q: "(if pull then queue_peak q else queue_take q) = Some (r, q1)" "take_view r q1 = Some (AMessage m)" "queue_rel q1 ?a1"
    by (cases pull) auto
  obtain ty rid p where m: "m = (ty, rid, p)" by (cases m)
  from q(2) obtain qm b where "r = Message qm" "bufs (mem q1) (msg_buffer qm) = Some b" "msg_buffer_len qm \<le> length b"
      "ty = msg_type qm" "rid = msg_request_id qm" "p = take (msg_buffer_len qm) b"
    unfolding m by (rule take_view_Message)
  with q m show thesis by (intro that) auto
qed

lemma rx_turn_message:
  assumes rel: "queue_rel q a" "a_busy a = None" "a_filled a = m # ms" and inv: "rx_inv R w"
  shows "\<exists>t q' w' out. sdr_rx_turn ops q w = Some (t, q', w', out) \<and> rx_inv R w' \<and> (t = Handled \<or> t = Stopped) \<and>
    (fst m = SDR_RX_STOP \<longrightarrow> \<not> rx_enabled w') \<and> queue_rel q' (a\<lparr>a_filled := ms, a_free := Suc (a_free a)\<rparr>)"
proof -
  let ?pull = "rx_enabled w \<and> sdr_process_rx (rx_sdr w) \<noteq> None"
  obtain qm b q1 where v: "(if ?pull then queue_peak q else queue_take q) = Some (Message qm, q1)"
      "bufs (mem q1) (msg_buffer qm) = Some b" "msg_buffer_len qm \<le> length b"
      "m = (msg_type qm, msg_request_id qm, take (msg_buffer_len qm) b)" "queue_rel q1 (a\<lparr>a_filled := ms, a_busy := Some m\<rparr>)"
    by (rule rx_take_message [OF rel])
  let ?m = "\<lparr>msg_type = msg_type qm, msg_request_id = msg_request_id qm, msg_buffer = b, msg_buffer_len = msg_buffer_len qm\<rparr>"
  from sdr_rx_handle_spec [OF inv, of ?m ops] v(3) obtain w1 out where
    h: "sdr_rx_worker_handle_message ops ?m w = Some (w1, out)" "rx_inv R w1" "fst m = 2 \<longrightarrow> \<not> rx_enabled w1"
    by (auto simp: sized_def v(4))
  from sdr_rx_read_spec [OF h(2), of ops] obtain t w2 out2 where
    r: "sdr_rx_read ops w1 = Some (t, w2, out2)" "rx_inv R w2" "rx_enabled w2 = rx_enabled w1" "t = Handled \<or> t = Stopped" by blast
  from queue_complete_refines [OF v(5)] obtain q2 where
    "queue_complete q1 = Some q2" "queue_rel q2 (a_complete (a\<lparr>a_filled := ms, a_busy := Some m\<rparr>))" by auto
  moreover have "a_complete (a\<lparr>a_filled := ms, a_busy := Some m\<rparr>) = a\<lparr>a_filled := ms, a_free := Suc (a_free a)\<rparr>"
    using rel(2) by (simp add: a_complete_def)
  ultimately show ?thesis using v(1,2) h r by (auto simp: sdr_rx_turn_def Let_def)
qed

lemma rx_callback_stops:
  assumes "queue_rel q a" "a_busy a = None" "a_poison a" "rx_inv R w"
    and "if a_filled a = [] then \<not> rx_enabled w else fst (last (a_filled a)) = SDR_RX_STOP"
  shows "\<exists>q' w' out. sdr_rx_worker_callback ops q w = Some (q', w', out) \<and> rx_inv R w'"
  using assms
proof (induction "a_filled a" arbitrary: a q w)
  case Nil
  from queue_take_refines [OF Nil.prems(1,2)] Nil.hyps Nil.prems(3) obtain r q1 where
    "queue_take q = Some (r, q1)" "take_view r q1 = Some ANoMessage" by (auto simp: a_take_def)
  with Nil.prems(5) have "sdr_rx_turn ops q w = Some (Stopped, q1, w, [])"
    by (auto simp: sdr_rx_turn_def take_view_def Nil.hyps [symmetric] split: take_result.splits)
  with Nil.prems(4) show ?case by (subst sdr_rx_worker_callback.simps) auto
next
  case (Cons m ms)
  let ?a1 = "a\<lparr>a_filled := ms, a_free := Suc (a_free a)\<rparr>"
  from rx_turn_message [OF Cons.prems(1,2) Cons.hyps(2) [symmetric] Cons.prems(4), of ops] obtain t q1 w1 out where
    t: "sdr_rx_turn ops q w = Some (t, q1, w1, out)" "rx_inv R w1" "t = Handled \<or> t = Stopped" "fst m = 2 \<longrightarrow> \<not> rx_enabled w1"
      "queue_rel q1 ?a1" by blast
  have "if ms = [] then \<not> rx_enabled w1 else fst (last ms) = 2"
    using Cons.prems(5) t(4) by (auto simp flip: Cons.hyps(2) split: if_splits)
  then have last: "if a_filled ?a1 = [] then \<not> rx_enabled w1 else fst (last (a_filled ?a1)) = 2" by simp
  from Cons.hyps(1) [OF _ t(5) _ _ t(2) last] Cons.prems(2,3) obtain q' w' out' where
    "sdr_rx_worker_callback ops q1 w1 = Some (q', w', out')" "rx_inv R w'" by auto
  with t show ?case by (subst sdr_rx_worker_callback.simps) auto
qed

text \<open>
  A receiver that is pulled never looks at the poison pill: with an empty queue every turn reads the
  device and goes on.
\<close>

lemma rx_turn_pull:
  assumes rel: "queue_rel q a" "a_busy a = None" "a_filled a = []" and inv: "rx_inv R w"
    and pull: "rx_enabled w" "sdr_process_rx (rx_sdr w) = Some f" and f: "\<forall>d. fst (f d) = 0"
  shows "\<exists>q' w' out. sdr_rx_turn ops q w = Some (Handled, q', w', out) \<and> queue_rel q' a \<and> rx_inv R w' \<and>
    rx_enabled w' \<and> sdr_process_rx (rx_sdr w') = Some f"
proof -
  from queue_peak_refines [OF rel(1,2)] rel(3) obtain r q1 where
    q: "queue_peak q = Some (r, q1)" "take_view r q1 = Some ANoMessage" "queue_rel q1 a" by (auto simp: a_peak_def)
  then have r: "r = NoMessage" by (auto simp: take_view_def split: take_result.splits)
  from sdr_rx_read_spec [OF inv, of ops] pull obtain t w' out where
    rd: "sdr_rx_read ops w = Some (t, w', out)" "rx_inv R w'" "rx_enabled w'" "sdr_process_rx (rx_sdr w') = Some f" by auto
  have "fst (f (plugin (rx_sdr w))) = 0" using f by blast
  with rd(1) pull have "t = Handled" by (auto simp: sdr_rx_read_def Let_def split: prod.splits bind_splits)
  with q r rd pull show ?thesis by (simp add: sdr_rx_turn_def)
qed

lemma rx_callback_diverges:
  fixes ops :: "('s, 'm) modem_ops" and w :: "('s, 'd, 'm) sdr_rx_worker"
  assumes "queue_rel q a" "a_busy a = None" "a_filled a = []" "rx_inv R w"
    "rx_enabled w" "sdr_process_rx (rx_sdr w) = Some f" "\<forall>d. fst (f d) = 0"
  shows "sdr_rx_worker_callback ops q w = None"
proof (rule ccontr)
  define I where "I q w \<longleftrightarrow> queue_rel q a \<and> rx_inv R w \<and> rx_enabled w \<and> sdr_process_rx (rx_sdr w) = Some f"
    for q and w :: "('s, 'd, 'm) sdr_rx_worker"
  assume "sdr_rx_worker_callback ops q w \<noteq> None"
  then obtain r where r: "sdr_rx_worker_callback ops q w = Some r" by blast
  have "\<not> I q w"
  proof (rule sdr_rx_worker_callback.raw_induct [of "\<lambda>ops q w r. \<not> I q w", OF _ r])
    fix callback and ops :: "('s, 'm) modem_ops" and q and w :: "('s, 'd, 'm) sdr_rx_worker" and r
    assume IH: "\<And>ops q w r. callback ops q w = Some r \<Longrightarrow> \<not> I q w"
      and step: "do { (t, q1, w1, out) \<leftarrow> sdr_rx_turn ops q w;
        (if t = Stopped then Some (q1, w1, out)
         else do { (q2, w2, out2) \<leftarrow> callback ops q1 w1; Some (q2, w2, out @ out2) }) } = Some r"
    show "\<not> I q w"
    proof
      assume "I q w"
      with rx_turn_pull [of q a R w f ops] assms(2,3,7) obtain q' w' out where
        "sdr_rx_turn ops q w = Some (Handled, q', w', out)" "I q' w'" by (auto simp: I_def)
      with step IH show False by (auto simp: bind_eq_Some)
    qed
  qed
  with assms show False by (simp add: I_def)
qed

section \<open>The modem between two threads\<close>

text \<open>
  \<^verbatim>\<open>sdr_rx_worker_handle_message\<close> replaces the modem on the thread of the worker while a device that
  pushes samples runs \<^verbatim>\<open>sdr_rx_callback\<close> on its own thread. The steps are the accesses to the shared
  pointer, the lock and the modems themselves; \<open>alive\<close> are the modems that are not destroyed.
\<close>

datatype thread = Worker | Sdr

datatype worker_pc = WIdle | WCreated addr | WLocked addr | WSwapped "addr option" | WDestroy "addr option"

datatype sdr_pc = SIdle | SLocked | SDemodulating addr | SDone

record rx_system =
  worker_at :: worker_pc
  sdr_at :: sdr_pc
  mutex :: "thread option"
  shared_modem :: "addr option"
  alive :: "addr set"
  fresh_modem :: addr

definition rx_system_start :: rx_system where
  "rx_system_start = \<lparr>worker_at = WIdle, sdr_at = SIdle, mutex = None, shared_modem = None, alive = {}, fresh_modem = 0\<rparr>"

inductive rx_step :: "rx_system \<Rightarrow> rx_system \<Rightarrow> bool" where
  create: "worker_at s = WIdle \<Longrightarrow> rx_step s (s\<lparr>worker_at := WCreated (fresh_modem s),
     alive := insert (fresh_modem s) (alive s), fresh_modem := Suc (fresh_modem s)\<rparr>)"
| rejected: "worker_at s = WCreated a \<Longrightarrow> rx_step s (s\<lparr>worker_at := WIdle, alive := alive s - {a}\<rparr>)"
| worker_lock: "worker_at s = WCreated a \<Longrightarrow> mutex s = None \<Longrightarrow> rx_step s (s\<lparr>worker_at := WLocked a, mutex := Some Worker\<rparr>)"
| swap: "worker_at s = WLocked a \<Longrightarrow> rx_step s (s\<lparr>worker_at := WSwapped (shared_modem s), shared_modem := Some a\<rparr>)"
| worker_unlock: "worker_at s = WSwapped old \<Longrightarrow> rx_step s (s\<lparr>worker_at := WDestroy old, mutex := None\<rparr>)"
| destroy: "worker_at s = WDestroy old \<Longrightarrow> rx_step s (s\<lparr>worker_at := WIdle, alive := alive s - set_option old\<rparr>)"
| sdr_lock: "sdr_at s = SIdle \<Longrightarrow> mutex s = None \<Longrightarrow> rx_step s (s\<lparr>sdr_at := SLocked, mutex := Some Sdr\<rparr>)"
| no_modem: "sdr_at s = SLocked \<Longrightarrow> shared_modem s = None \<Longrightarrow> rx_step s (s\<lparr>sdr_at := SDone\<rparr>)"
| demodulate: "sdr_at s = SLocked \<Longrightarrow> shared_modem s = Some a \<Longrightarrow> rx_step s (s\<lparr>sdr_at := SDemodulating a\<rparr>)"
| demodulated: "sdr_at s = SDemodulating a \<Longrightarrow> rx_step s (s\<lparr>sdr_at := SDone\<rparr>)"
| sdr_unlock: "sdr_at s = SDone \<Longrightarrow> rx_step s (s\<lparr>sdr_at := SIdle, mutex := None\<rparr>)"

fun worker_modem :: "worker_pc \<Rightarrow> addr option" where
  "worker_modem WIdle = None"
| "worker_modem (WCreated a) = Some a"
| "worker_modem (WLocked a) = Some a"
| "worker_modem (WSwapped p) = p"
| "worker_modem (WDestroy p) = p"

definition worker_in :: "rx_system \<Rightarrow> bool" where
  "worker_in s = (case worker_at s of WLocked _ \<Rightarrow> True | WSwapped _ \<Rightarrow> True | _ \<Rightarrow> False)"

text \<open>
  Both threads together own exactly the living modems: the shared one and the one the worker is about
  to install or to destroy; the mutex is held by the thread that is inside, and the modem the sdr
  thread demodulates with is the shared one.
\<close>

definition rx_safe :: "rx_system \<Rightarrow> bool" where
  "rx_safe s \<longleftrightarrow> alive s = set_option (shared_modem s) \<union> set_option (worker_modem (worker_at s)) \<and>
     set_option (shared_modem s) \<inter> set_option (worker_modem (worker_at s)) = {} \<and>
     (\<forall>a \<in> alive s. a < fresh_modem s) \<and>
     mutex s = (if worker_in s then Some Worker else if sdr_at s \<noteq> SIdle then Some Sdr else None) \<and>
     \<not> (worker_in s \<and> sdr_at s \<noteq> SIdle) \<and>
     (\<forall>a. sdr_at s = SDemodulating a \<longrightarrow> shared_modem s = Some a)"

lemma rx_safe_step: "rx_step s s' \<Longrightarrow> rx_safe s \<Longrightarrow> rx_safe s'"
proof (induction rule: rx_step.induct)
  case (create s)
  then show ?case by (auto simp: rx_safe_def worker_in_def)
qed (auto simp: rx_safe_def worker_in_def split: if_splits worker_pc.splits)

lemma rx_reachable_safe: "rx_step\<^sup>*\<^sup>* rx_system_start s \<Longrightarrow> rx_safe s"
  by (induction rule: rtranclp_induct) (auto simp: rx_safe_step, simp add: rx_safe_def rx_system_start_def worker_in_def)

lemma sdr_rx_worker_create_spec:
  assumes fresh: "fresh_above m" and blen: "blen \<noteq> 0" and h: "heap_ok h" "live h = Map.empty"
    and dev: "device_ok R sdr" "R False (plugin sdr)" "\<And>f d. sdr_set_rx_callback sdr = Some f \<Longrightarrow> R False d \<Longrightarrow> R False (f d)"
  shows "\<exists>code m' r. sdr_rx_worker_create ops oom thread_code blen sdr h m = Some (code, m', r) \<and>
    (code = 0 \<and> (\<exists>this q w. r = Some (this, q, w) \<and> rx_inv R w \<and> \<not> rx_enabled w \<and> rx_modem w = None \<and>
        queue_rel q (new_aqueue 8 (unat blen) True)) \<or>
     code \<noteq> 0 \<and> r = None \<and> same_objects m' m \<and> ((\<exists>i. oom i) \<or> thread_code \<noteq> 0))"
  using fresh
proof (cases rule: malloc_structE [of m oom])
  case oom
  then show ?thesis by (auto simp: sdr_rx_worker_create_def same_objects_def)
next
  case ok
  let ?m1 = "m\<lparr>brk := Suc (brk m), structs := insert (brk m) (structs m)\<rparr>"
  from queue_create_spec [OF ok(3) _ blen, of 8 oom True] obtain code m2 qo where
    qc: "queue_create oom blen 8 True ?m1 = Some (code, m2, qo)" and
    out: "if code = 0 then \<exists>q. qo = Some q else qo = None \<and> same_objects m2 ?m1 \<and> (\<exists>i. oom i)"
    by (fastforce split: if_splits)
  show ?thesis
  proof (cases "code = 0")
    case False
    with qc out ok show ?thesis
      by (auto simp: sdr_rx_worker_create_def sdr_rx_worker_destroy_def queue_interrupt_def free_struct_def modem_destroy_def
          same_objects_def Let_def)
  next
    case True
    with out qc obtain q where q: "queue_create oom blen 8 True ?m1 = Some (0, m2, Some q)" "code = 0" "qo = Some q" by auto
    note new = queue_create_ok [OF ok(3) q(1)]
    have st: "structs m2 = insert (Suc (brk m)) (insert (brk m) (structs m))"
      using new(4) by (auto simp: same_objects_def rest_of_sel)
    have "Suc (brk m) \<notin> structs m" using fresh by (simp add: fresh_above_def)
    moreover from destroy_new_queue [OF ok(3) q(1) refl refl, of 1] st obtain m3 where
      "destroy_queue (q\<lparr>mem := m2, poison_pill := 1\<rparr>) = Some m3" "nodes m3 = nodes m" "bufs m3 = bufs m"
      "structs m3 = structs m2 - {Suc (brk m)}" by auto
    moreover have "queue_rel q (new_aqueue 8 (unat blen) True)" using new(1) by simp
    ultimately show ?thesis
      using ok qc q st h dev
      by (cases "thread_code = 0"; cases "sdr_set_rx_callback sdr")
        (auto simp: sdr_rx_worker_create_def sdr_rx_worker_destroy_def queue_interrupt_def free_struct_def modem_destroy_def
          same_objects_def Let_def rx_inv_def owns_def)
  qed
qed

section \<open>Properties\<close>

text \<open>
  C35. The receiver serves every sequence of well-sized commands: each is answered at most once and
  under its own request id, the device is started only when it is stopped and stopped only when it
  runs, and at any time exactly the installed modem is alive.
\<close>

theorem sdr_rx_serves_commands:
  assumes "rx_inv R w" "\<forall>m \<in> set ms. sized m"
  shows "\<exists>w' outs. serve (sdr_rx_worker_handle_message ops) ms w = Some (w', outs) \<and>
    owns (rx_modem w') (rx_heap w') \<and> R (rx_enabled w') (plugin (rx_sdr w')) \<and>
    list_all2 (\<lambda>m out. length out \<le> 1 \<and> (\<forall>c \<in> set out. call_id c = Some (msg_request_id m))) ms outs"
  using rx_worker.serve_all [OF assms, of ops] by (auto simp: rx_inv_def)

text \<open>A receiver whose state is whether it runs.\<close>

definition toggle_device :: "(u8, bool) sdr_device" where
  "toggle_device = \<lparr>plugin = False, sdr_set_rx_callback = None, sdr_process_rx = Some (\<lambda>d. (0, [1, 2], d)), sdr_process_tx = None,
     sdr_flush_tx = None, set_rx_parameters = (\<lambda>_ d. (0, d)), set_tx_parameters = (\<lambda>_ d. (0, d)), start_rx = Not, stop_rx = Not\<rparr>"

definition toggle_worker :: "(u8, bool, unit) sdr_rx_worker" where
  "toggle_worker = \<lparr>sdr_buffer_len = 64, rx_modem = None, rx_sdr = toggle_device,
     rx_heap = \<lparr>live = Map.empty, next_modem = 0\<rparr>, rx_enabled = False, rx_request_id = 0\<rparr>"

lemma toggle_device_ok: "device_ok (=) toggle_device"
  by (auto simp: device_ok_def toggle_device_def)

lemma toggle_worker_inv: "rx_inv (=) toggle_worker"
  using toggle_device_ok by (simp add: rx_inv_def toggle_worker_def owns_def heap_ok_def) (simp add: toggle_device_def)

theorem sdr_rx_serves_commands_witness:
  "\<exists>w' outs. serve (sdr_rx_worker_handle_message echo_modem)
      [sdr_rx_worker_start 1, sdr_rx_worker_start 2, sdr_rx_worker_stop 3] toggle_worker = Some (w', outs) \<and>
    owns (rx_modem w') (rx_heap w') \<and> rx_enabled w' = plugin (rx_sdr w')"
  using sdr_rx_serves_commands [OF toggle_worker_inv, of "[sdr_rx_worker_start 1, sdr_rx_worker_start 2, sdr_rx_worker_stop 3]" echo_modem]
  by (auto simp: sized_def sdr_rx_worker_start_def sdr_rx_worker_stop_def sdr_rx_worker_put_empty_def simp del: serve.simps)

text \<open>
  C34. Soft bits are numbered without gaps: for every interleaving of commands and sample buffers, the
  soft bits messages carry consecutive request ids modulo \<open>2 ^ 32\<close>, starting at the current one,
  whatever restarts and reconfigurations happen in between.
\<close>

theorem sdr_rx_soft_bits_numbered:
  assumes "rx_inv R w" "\<forall>m. Command m \<in> set es \<longrightarrow> sized m"
  shows "\<exists>w' outs n. serve (rx_react ops) es w = Some (w', outs) \<and>
    soft_ids (concat outs) = map (\<lambda>i. rx_request_id w + of_nat i) [0..<n] \<and> rx_request_id w' = rx_request_id w + of_nat n"
  using rx_events_numbered [OF assms, of ops] by (auto simp: numbers_def)

theorem sdr_rx_soft_bits_numbered_witness:
  "\<exists>w' outs n. serve (rx_react echo_modem)
      [Command (sdr_rx_worker_set_comm_parameters 4 (wire_settings sample_settings) 47), Samples [1, 2], Samples [3]] toggle_worker
      = Some (w', outs) \<and> soft_ids (concat outs) = map of_nat [0..<n]"
proof -
  have "\<forall>m. Command m \<in> set [Command (sdr_rx_worker_set_comm_parameters 4 (wire_settings sample_settings) 47), Samples [1, 2], Samples [3]] \<longrightarrow> sized m"
    by (auto simp: sized_def sdr_rx_worker_set_comm_parameters_def length_wire_settings sample_settings_def)
  from sdr_rx_soft_bits_numbered [OF toggle_worker_inv this, of echo_modem] show ?thesis
    by (simp add: toggle_worker_def del: serve.simps) blast
qed



text \<open>
  The thread of the receiver ends when it is told to: after the interrupt, if the last pending
  command is a stop (as \<^verbatim>\<open>tcp_worker_callback\<close> sends when its client is gone) or the receiver is off,
  the loop serves what is pending and returns, with a pulled as well as with a pushing device.
\<close>

theorem sdr_rx_stop_terminates:
  assumes "queue_rel q a" "a_busy a = None" "queue_interrupt (Some q) = Some q1" "rx_inv R w"
    and "if a_filled a = [] then \<not> rx_enabled w else fst (last (a_filled a)) = SDR_RX_STOP"
  shows "\<exists>q' w' out. sdr_rx_worker_callback ops q1 w = Some (q', w', out) \<and> owns (rx_modem w') (rx_heap w')"
proof -
  have "queue_rel q1 (a_interrupt a)" using queue_interrupt_refines [OF assms(1)] assms(3) by auto
  moreover have ai: "a_filled (a_interrupt a) = a_filled a" "a_busy (a_interrupt a) = None" "a_poison (a_interrupt a)"
    using assms(2) by (simp_all add: a_interrupt_def)
  moreover have "if a_filled (a_interrupt a) = [] then \<not> rx_enabled w else fst (last (a_filled (a_interrupt a))) = SDR_RX_STOP"
    unfolding ai(1) by (rule assms(5))
  ultimately obtain q' w' out where "sdr_rx_worker_callback ops q1 w = Some (q', w', out)" "rx_inv R w'"
    using rx_callback_stops [OF _ _ _ assms(4)] by blast
  then show ?thesis by (auto simp: rx_inv_def)
qed

theorem sdr_rx_stop_terminates_witness:
  "\<exists>m q q1 q' w' out. queue_create (\<lambda>_. False) 64 8 True empty_memory = Some (0, m, Some q) \<and>
     queue_interrupt (Some q) = Some q1 \<and> sdr_rx_worker_callback echo_modem q1 toggle_worker = Some (q', w', out)"
proof -
  obtain m q where c: "queue_create (\<lambda>_. False) 64 8 True empty_memory = Some (0, m, Some q)"
    using queue_create_spec [of empty_memory 8 64 "\<lambda>_. False" True] by auto
  have rel: "queue_rel q (new_aqueue 8 64 True)" using queue_create_ok(1) [OF fresh_empty c] by simp
  obtain q1 where i: "queue_interrupt (Some q) = Some q1" by (simp add: queue_interrupt_def)
  from sdr_rx_stop_terminates [OF rel _ i toggle_worker_inv, of echo_modem] c i show ?thesis
    by (simp add: new_aqueue_def toggle_worker_def) blast
qed

text \<open>
  C37. The interrupt alone does not end the thread of a pulled receiver: as long as the device delivers
  and no command is pending, every turn of the loop is defined and continues, so the loop never
  returns, poison pill or not. Destroying the worker relies on a stop command being sent before.
\<close>

theorem sdr_rx_interrupt_ignored_while_pulling:
  fixes ops :: "('s, 'm) modem_ops" and w :: "('s, 'd, 'm) sdr_rx_worker"
  assumes "queue_rel q a" "a_busy a = None" "a_filled a = []" "rx_inv R w"
    "rx_enabled w" "sdr_process_rx (rx_sdr w) = Some f" "\<forall>d. fst (f d) = 0"
  shows "(\<exists>q' w' out. sdr_rx_turn ops q w = Some (Handled, q', w', out)) \<and> sdr_rx_worker_callback ops q w = None"
  using rx_turn_pull [OF assms, of ops] rx_callback_diverges [OF assms, of ops] by blast

theorem sdr_rx_interrupt_ignored_while_pulling_witness:
  "\<exists>m q q1. queue_create (\<lambda>_. False) 64 8 True empty_memory = Some (0, m, Some q) \<and> queue_interrupt (Some q) = Some q1 \<and>
     sdr_rx_worker_callback echo_modem q1 (fst (sdr_rx_start (sdr_rx_worker_start 1) toggle_worker)) = None"
proof -
  obtain m q where c: "queue_create (\<lambda>_. False) 64 8 True empty_memory = Some (0, m, Some q)"
    using queue_create_spec [of empty_memory 8 64 "\<lambda>_. False" True] by auto
  have rel: "queue_rel q (new_aqueue 8 64 True)" using queue_create_ok(1) [OF fresh_empty c] by simp
  from queue_interrupt_refines [OF rel] obtain q1 where
    i: "queue_interrupt (Some q) = Some q1" "queue_rel q1 (a_interrupt (new_aqueue 8 64 True))" by blast
  let ?w = "fst (sdr_rx_start (sdr_rx_worker_start 1) toggle_worker)"
  have "rx_inv (=) ?w" by (rule sdr_rx_start_stop [OF toggle_worker_inv])
  moreover have "rx_enabled ?w" "sdr_process_rx (rx_sdr ?w) = Some (\<lambda>d. (0, [1, 2], d))"
    by (simp_all add: sdr_rx_start_def toggle_worker_def toggle_device_def)
  ultimately have "sdr_rx_worker_callback echo_modem q1 ?w = None"
    using sdr_rx_interrupt_ignored_while_pulling [OF i(2), of "(=)" ?w "\<lambda>d. (0, [1, 2], d)" echo_modem]
    by (simp add: a_interrupt_def new_aqueue_def)
  with c i show ?thesis by blast
qed

end
