(* ===== verification/CLib.thy ===== *)
theory CLib
  imports Prelude
begin

text \<open>
  The parts of the C library that the configuration relies on: the conversion of strings to numbers
  (\<^verbatim>\<open>strtoull\<close>, \<^verbatim>\<open>strtoll\<close>, \<^verbatim>\<open>atoi\<close>; on a 64-bit machine \<^verbatim>\<open>long\<close> and \<^verbatim>\<open>long long\<close> agree) and GNU
  \<^verbatim>\<open>getopt_long\<close>, for options that all require an argument. \<^verbatim>\<open>atoi\<close> is \<^verbatim>\<open>(int) strtol(s, NULL, 10)\<close>, as
  glibc defines it where the standard leaves the result open.
\<close>

section \<open>Numbers\<close>

definition isspace :: "char \<Rightarrow> bool" where
  "isspace c = (let n = of_char c :: nat in n = 32 \<or> (9 \<le> n \<and> n \<le> 13))"

definition digit_val :: "char \<Rightarrow> nat option" where
  "digit_val c = (let n = of_char c :: nat in
     if 48 \<le> n \<and> n \<le> 57 then Some (n - 48)
     else if 97 \<le> n \<and> n \<le> 122 then Some (n - 87)
     else if 65 \<le> n \<and> n \<le> 90 then Some (n - 55) else None)"

definition is_digit :: "nat \<Rightarrow> char \<Rightarrow> bool" where
  "is_digit base c = (case digit_val c of None \<Rightarrow> False | Some d \<Rightarrow> d < base)"

definition digits_val :: "nat \<Rightarrow> string \<Rightarrow> nat" where
  "digits_val base ds = foldl (\<lambda>v c. v * base + (case digit_val c of None \<Rightarrow> 0 | Some d \<Rightarrow> d)) 0 ds"

text \<open>White space and a sign.\<close>

definition strto_sign :: "string \<Rightarrow> bool \<times> string" where
  "strto_sign str = (case dropWhile isspace str of
     c # s \<Rightarrow> if c = CHR ''-'' then (True, s) else if c = CHR ''+'' then (False, s) else (False, c # s)
   | [] \<Rightarrow> (False, []))"

text \<open>The prefix that selects the base when the caller passes 0.\<close>

definition strto_base :: "nat \<Rightarrow> string \<Rightarrow> nat \<times> string" where
  "strto_base base s =
    (if base \<in> {0, 16} \<and> 3 \<le> length s \<and> s ! 0 = CHR ''0'' \<and> s ! 1 \<in> {CHR ''x'', CHR ''X''} \<and> is_digit 16 (s ! 2)
     then (16, drop 2 s)
     else if base = 0 \<and> s \<noteq> [] \<and> hd s = CHR ''0'' then (8, s)
     else if base = 0 then (10, s) else (base, s))"

text \<open>Sign, magnitude and the rest behind the number; no digits at all consume nothing.\<close>

definition strto :: "nat \<Rightarrow> string \<Rightarrow> bool \<times> nat \<times> string" where
  "strto base str = (let (neg, s) = strto_sign str; (b, ds) = strto_base base s in
     if takeWhile (is_digit b) ds = [] then (False, 0, str)
     else (neg, digits_val b (takeWhile (is_digit b) ds), dropWhile (is_digit b) ds))"

text \<open>\<^verbatim>\<open>strtoull\<close>: the value, the rest of the string and whether \<^verbatim>\<open>errno\<close> became \<^verbatim>\<open>ERANGE\<close>.\<close>

definition strtoull :: "string \<Rightarrow> nat \<Rightarrow> u64 \<times> string \<times> bool" where
  "strtoull str base = (case strto base str of (neg, v, rest) \<Rightarrow>
     if v \<ge> 2 ^ 64 then (- 1, rest, True) else ((if neg then - of_nat v else of_nat v), rest, False))"

text \<open>\<^verbatim>\<open>strtoll\<close> in base 10 saturates.\<close>

definition strtoll :: "string \<Rightarrow> int" where
  "strtoll str = (case strto 10 str of (neg, v, _) \<Rightarrow>
     max (- (2 ^ 63)) (min (2 ^ 63 - 1) (if neg then - int v else int v)))"

definition atoi :: "string \<Rightarrow> int" where
  "atoi str = sint (word_of_int (strtoll str) :: u32)"

section \<open>Options\<close>

datatype getopt_result = Opt string string | Unknown

text \<open>A long option may be abbreviated as long as the abbreviation is not ambiguous.\<close>

definition long_match :: "string list \<Rightarrow> string \<Rightarrow> string option" where
  "long_match names n =
    (if n \<in> set names then Some n
     else (case filter (\<lambda>m. take (length n) m = n) names of [m] \<Rightarrow> Some m | _ \<Rightarrow> None))"

text \<open>
  All results of calling \<^verbatim>\<open>getopt_long\<close> until it returns -1. \<open>ordered\<close> is a leading \<^verbatim>\<open>+\<close> in the option
  string: scanning stops at the first element that is not an option, where the default skips it.
  \<open>short\<close> is the only short option and names the long one it stands for. Every option requires an
  argument, which follows after \<^verbatim>\<open>=\<close>, is the rest of a cluster of short options or the next element.
\<close>

fun getopt_long :: "bool \<Rightarrow> (char \<times> string) option \<Rightarrow> string list \<Rightarrow> string list \<Rightarrow> getopt_result list" where
  "getopt_long ordered short names [] = []"
| "getopt_long ordered short names (a # args) =
    (if a = ''--'' then []
     else if a = [] \<or> hd a \<noteq> CHR ''-'' \<or> a = ''-'' then (if ordered then [] else getopt_long ordered short names args)
     else if take 2 a = ''--'' then
       let name = takeWhile (\<lambda>c. c \<noteq> CHR ''='') (drop 2 a) in
       (case long_match names name of
          None \<Rightarrow> Unknown # getopt_long ordered short names args
        | Some m \<Rightarrow>
            if CHR ''='' \<in> set (drop 2 a) then Opt m (drop (length name + 3) a) # getopt_long ordered short names args
            else (case args of [] \<Rightarrow> [Unknown] | v # args' \<Rightarrow> Opt m v # getopt_long ordered short names args'))
     else (case short of
         None \<Rightarrow> replicate (length a - 1) Unknown @ getopt_long ordered short names args
       | Some (c, m) \<Rightarrow>
           let cluster = takeWhile (\<lambda>x. x \<noteq> c) (tl a); arg = drop (length cluster + 2) a in
           replicate (length cluster) Unknown @
           (if c \<notin> set (tl a) then getopt_long ordered short names args
            else if arg \<noteq> [] then Opt m arg # getopt_long ordered short names args
            else (case args of [] \<Rightarrow> [Unknown] | v # args' \<Rightarrow> Opt m v # getopt_long ordered short names args'))))"

declare getopt_long.simps(2) [simp del]

section \<open>Facts\<close>

lemma strtoll_range: "- (2 ^ 63) \<le> strtoll s \<and> strtoll s < 2 ^ 63"
  by (auto simp: strtoll_def split: prod.splits)

lemma digits_val_snoc: "digits_val b (ds @ [c]) = digits_val b ds * b + (case digit_val c of None \<Rightarrow> 0 | Some d \<Rightarrow> d)"
  by (simp add: digits_val_def)

text \<open>Arguments that are not options hide everything behind them from an ordered scan.\<close>

lemma getopt_ordered_stops:
  "a \<noteq> [] \<Longrightarrow> hd a \<noteq> CHR ''-'' \<Longrightarrow> getopt_long True short names (a # args) = []"
  by (auto simp: getopt_long.simps(2))

text \<open>Options given as two elements are all found, by either scan.\<close>

lemma getopt_pair:
  assumes "n \<in> set names" "CHR ''='' \<notin> set n" "n \<noteq> []"
  shows "getopt_long ordered short names ((''--'' @ n) # v # args) = Opt n v # getopt_long ordered short names args"
proof -
  have d: "drop 2 (''--'' @ n) = n" by simp
  have t: "takeWhile (\<lambda>c. c \<noteq> CHR ''='') n = n" using assms(2) by (auto simp: takeWhile_eq_all_conv)
  have "long_match names n = Some n" using assms(1) by (simp add: long_match_def)
  moreover have "''--'' @ n \<noteq> ''--''" "''--'' @ n \<noteq> ''-''" using assms(3) by auto
  ultimately show ?thesis
    unfolding getopt_long.simps(2) [of _ _ _ "''--'' @ n"] Let_def d t using assms(2) by simp
qed

lemma getopt_pairs:
  assumes "\<forall>(n, v) \<in> set ps. n \<in> set names \<and> CHR ''='' \<notin> set n \<and> n \<noteq> []"
  shows "getopt_long ordered short names (concat (map (\<lambda>(n, v). [''--'' @ n, v]) ps)) = map (\<lambda>(n, v). Opt n v) ps"
  using assms by (induction ps) (auto simp: getopt_pair [simplified])

end
