(* ===== verification/Log.thy ===== *)
theory Log
  imports Prelude
begin

text \<open>
  The logger of \<^verbatim>\<open>src/log.c\<close>: the level filter, the names of the levels and the line a message
  becomes on one of the two output streams. The formatted text of a message is an argument; the
  lines are kept in the order they were written.
\<close>

abbreviation (input) LOG_LEVEL_ERROR :: int where "LOG_LEVEL_ERROR \<equiv> 3"
abbreviation (input) LOG_LEVEL_WARN :: int where "LOG_LEVEL_WARN \<equiv> 4"
abbreviation (input) LOG_LEVEL_INFO :: int where "LOG_LEVEL_INFO \<equiv> 6"
abbreviation (input) LOG_LEVEL_DEBUG :: int where "LOG_LEVEL_DEBUG \<equiv> 7"

text \<open>The static variables of the file and the two streams; \<open>journal_prefix\<close> is unknown before \<^verbatim>\<open>log_init\<close> ran.\<close>

record log_state =
  current_level :: int
  journal_prefix :: "bool option"
  stderr_lines :: "string list"
  stdout_lines :: "string list"

definition log_initial :: log_state where
  "log_initial = \<lparr>current_level = LOG_LEVEL_INFO, journal_prefix = None, stderr_lines = [], stdout_lines = []\<rparr>"

text \<open>\<^verbatim>\<open>pthread_once\<close> runs \<^verbatim>\<open>log_init\<close> before the first message that is written, and never again.\<close>

definition log_init :: "string option \<Rightarrow> log_state \<Rightarrow> log_state" where
  "log_init journal_stream s = (case journal_prefix s of
     None \<Rightarrow> s\<lparr>journal_prefix := Some (journal_stream \<noteq> None)\<rparr> | Some _ \<Rightarrow> s)"

definition log_set_level :: "int \<Rightarrow> log_state \<Rightarrow> log_state" where
  "log_set_level level s = s\<lparr>current_level := level\<rparr>"

definition log_parse_level :: "string \<Rightarrow> int option" where
  "log_parse_level name =
    (if name = ''error'' then Some LOG_LEVEL_ERROR
     else if name = ''warn'' then Some LOG_LEVEL_WARN
     else if name = ''info'' then Some LOG_LEVEL_INFO
     else if name = ''debug'' then Some LOG_LEVEL_DEBUG else None)"

text \<open>Decimal text of the small numbers a level can be.\<close>

definition digit_char :: "nat \<Rightarrow> char" where
  "digit_char d = char_of (48 + d mod 10)"

fun decimal :: "nat \<Rightarrow> string" where
  "decimal n = (if n < 10 then [digit_char n] else decimal (n div 10) @ [digit_char n])"

definition decimal_int :: "int \<Rightarrow> string" where
  "decimal_int i = (if i < 0 then CHR ''-'' # decimal (nat (- i)) else decimal (nat i))"

definition log_line :: "bool \<Rightarrow> int \<Rightarrow> string \<Rightarrow> string" where
  "log_line prefix level msg =
    (if prefix then ''<'' @ decimal_int level @ ''>''
     else if level = LOG_LEVEL_ERROR then ''error: ''
     else if level = LOG_LEVEL_WARN then ''warning: '' else '''') @ msg"

definition log_write :: "string option \<Rightarrow> int \<Rightarrow> string \<Rightarrow> log_state \<Rightarrow> log_state" where
  "log_write journal_stream level msg s =
    (if level > current_level s then s
     else let s1 = log_init journal_stream s;
              line = log_line (journal_prefix s1 = Some True) level msg in
          if level \<le> LOG_LEVEL_WARN then s1\<lparr>stderr_lines := stderr_lines s1 @ [line]\<rparr>
          else s1\<lparr>stdout_lines := stdout_lines s1 @ [line]\<rparr>)"

section \<open>Lemmas\<close>

lemma log_parse_level_range:
  "log_parse_level name = Some l \<Longrightarrow> l \<in> {LOG_LEVEL_ERROR, LOG_LEVEL_WARN, LOG_LEVEL_INFO, LOG_LEVEL_DEBUG}"
  by (auto simp: log_parse_level_def split: if_splits)

lemma log_write_level [simp]: "current_level (log_write js level msg s) = current_level s"
  by (simp add: log_write_def log_init_def Let_def split: option.splits)

text \<open>Once decided, the prefix never changes, whatever the environment looks like later.\<close>

lemma log_write_prefix: "journal_prefix s = Some b \<Longrightarrow> journal_prefix (log_write js level msg s) = Some b"
  by (simp add: log_write_def log_init_def Let_def)

text \<open>The messages that pass the filter, in order, on the stream of their severity.\<close>

definition write_all :: "string option \<Rightarrow> (int \<times> string) list \<Rightarrow> log_state \<Rightarrow> log_state" where
  "write_all js ms s = fold (\<lambda>(l, t). log_write js l t) ms s"

lemma log_write_first: "level \<le> current_level s \<Longrightarrow> journal_prefix s = None \<Longrightarrow>
  log_write js level msg s = log_write js level msg (s\<lparr>journal_prefix := Some (js \<noteq> None)\<rparr>)"
  by (simp add: log_write_def log_init_def Let_def)

lemma write_all_lines:
  assumes "journal_prefix s \<in> {None, Some (js \<noteq> None)}"
  shows "stderr_lines (write_all js ms s) =
      stderr_lines s @ [log_line (js \<noteq> None) l t. (l, t) \<leftarrow> ms, l \<le> current_level s \<and> l \<le> LOG_LEVEL_WARN] \<and>
    stdout_lines (write_all js ms s) =
      stdout_lines s @ [log_line (js \<noteq> None) l t. (l, t) \<leftarrow> ms, l \<le> current_level s \<and> l > LOG_LEVEL_WARN]"
  using assms
proof (induction ms arbitrary: s)
  case (Cons m ms)
  obtain l t where m: "m = (l, t)" by (cases m)
  have "journal_prefix (log_write js l t s) \<in> {None, Some (js \<noteq> None)}"
    using Cons.prems by (auto simp: log_write_def log_init_def Let_def)
  note IH = Cons.IH [OF this]
  have step: "write_all js ((l, t) # ms) s = write_all js ms (log_write js l t s)" by (simp add: write_all_def)
  have out: "stderr_lines (log_write js l t s) = stderr_lines s @ (if l \<le> current_level s \<and> l \<le> 4 then [log_line (js \<noteq> None) l t] else [])"
    "stdout_lines (log_write js l t s) = stdout_lines s @ (if l \<le> current_level s \<and> l > 4 then [log_line (js \<noteq> None) l t] else [])"
    using Cons.prems by (auto simp: log_write_def log_init_def Let_def)
  show ?case using IH out by (simp add: step m)
qed (simp add: write_all_def)

end
