(* ===== verification/AppConfig.thy ===== *)
theory AppConfig
  imports CLib Settings Log
begin

text \<open>
  The configuration, \<^verbatim>\<open>src/app_config.c\<close>: a file read with libconfig, overridden by the command line,
  then defaults and validation. libconfig is a parameter (the record \<open>libconfig\<close>); so are \<^verbatim>\<open>atof\<close>,
  whose result is only stored as a bit pattern, and the answers of \<^verbatim>\<open>iio_lib_create\<close> and
  \<^verbatim>\<open>airspy_lib_create\<close>. Strings live in blocks of the heap, so that leaks and double frees show; log
  messages are left out.
\<close>

section \<open>Data\<close>

datatype sdr_device_type = SDR_TYPE_INVALID | SDR_TYPE_NONE | SDR_TYPE_PLUTOSDR | SDR_TYPE_FILE | SDR_TYPE_AIRSPY

datatype sdr_file_format = FILE_FORMAT_INVALID | FILE_FORMAT_GUESS | FILE_FORMAT_CU8 | FILE_FORMAT_CF32 | FILE_FORMAT_CS16

datatype iio_gain_mode = IIO_GAIN_MODE_MANUAL | IIO_GAIN_MODE_FAST_ATTACK | IIO_GAIN_MODE_SLOW_ATTACK | IIO_GAIN_MODE_HYBRID

datatype airspy_gain_mode =
  AIRSPY_GAIN_MODE_AUTO | AIRSPY_GAIN_MODE_SENSITIVITY | AIRSPY_GAIN_MODE_LINEARITY | AIRSPY_GAIN_MODE_MANUAL

abbreviation (input) AIRSPY_MAX_LNA_GAIN :: int where "AIRSPY_MAX_LNA_GAIN \<equiv> 14"
abbreviation (input) AIRSPY_MAX_MIXER_GAIN :: int where "AIRSPY_MAX_MIXER_GAIN \<equiv> 15"
abbreviation (input) AIRSPY_MAX_VGA_GAIN :: int where "AIRSPY_MAX_VGA_GAIN \<equiv> 15"

abbreviation (input) DIRECTION_RX :: int where "DIRECTION_RX \<equiv> 1"
abbreviation (input) DIRECTION_TX :: int where "DIRECTION_TX \<equiv> 2"

record sdr_file_settings =
  rx_file :: "addr option"
  rx_file_format :: sdr_file_format
  tx_file :: "addr option"
  tx_file_format :: sdr_file_format

record plutosdr_settings =
  tx_powerdown :: bool
  gain_control_mode :: iio_gain_mode
  timeout_ms :: u32
  uri :: "addr option"
  calib_mode :: "addr option"
  pluto_sample_rate :: u64

record airspy_settings =
  airspy_gain_mode :: airspy_gain_mode
  lna_gain :: u8
  mixer_gain :: u8
  vga_gain :: u8
  bias_tee :: bool
  serial_number :: u64
  airspy_sample_rate :: u64

record app_config =
  bind_address :: "addr option"
  port :: u16
  read_timeout_seconds :: int
  log_level :: int
  cfg_sdr_buffer_len :: u32
  queue_size :: u16
  cfg_max_frame_size :: u32
  direction :: int
  sdr_type :: sdr_device_type
  sdr_file :: sdr_file_settings
  plutosdr :: plutosdr_settings
  iio :: "addr option"
  airspy :: airspy_settings
  airspy_lib :: "addr option"
  input_file :: "addr option"
  output_file :: "addr option"
  cfg_modem :: u8
  cfg_frequency :: u64
  cfg_sample_rate :: u64
  cfg_gain :: f32
  power :: f32
  gfsk :: gfsk_modem_settings
  psk :: bpsk_modem_settings
  psk_pm :: psk_pm_modem_settings
  freq_offset_file :: "addr option"
  debug_freq_offset_file :: "addr option"
  debug_constellation_file :: "addr option"
  debug_baseband_file :: "addr option"
  debug_subcarrier_file :: "addr option"

text \<open>\<^verbatim>\<open>(app_config) {0}\<close>\<close>

definition app_config_zero :: app_config where
  "app_config_zero = \<lparr>bind_address = None, port = 0, read_timeout_seconds = 0, log_level = 0, cfg_sdr_buffer_len = 0,
     queue_size = 0, cfg_max_frame_size = 0, direction = 0, sdr_type = SDR_TYPE_NONE,
     sdr_file = \<lparr>rx_file = None, rx_file_format = FILE_FORMAT_GUESS, tx_file = None, tx_file_format = FILE_FORMAT_GUESS\<rparr>,
     plutosdr = \<lparr>tx_powerdown = False, gain_control_mode = IIO_GAIN_MODE_MANUAL, timeout_ms = 0, uri = None, calib_mode = None,
       pluto_sample_rate = 0\<rparr>,
     iio = None,
     airspy = \<lparr>airspy_gain_mode = AIRSPY_GAIN_MODE_AUTO, lna_gain = 0, mixer_gain = 0, vga_gain = 0, bias_tee = False,
       serial_number = 0, airspy_sample_rate = 0\<rparr>,
     airspy_lib = None, input_file = None, output_file = None, cfg_modem = MODEM_TYPE_INVALID, cfg_frequency = 0,
     cfg_sample_rate = 0, cfg_gain = 0, power = 0,
     gfsk = \<lparr>gfsk_sample_rate = 0, gfsk_baud_rate = 0, gfsk_deviation = 0, gfsk_bandwidth = 0, gfsk_bt = 0, gfsk_use_dc_block = 0,
       gfsk_syncword = 0, gfsk_syncword_bits = 0\<rparr>,
     psk = \<lparr>psk_sample_rate = 0, psk_baud_rate = 0, psk_bandwidth = 0, psk_rrc_beta = 0, psk_rrc_delay = 0, psk_costas_bandwidth = 0,
       psk_symsync_filter_bank_size = 0, psk_type = 0\<rparr>,
     psk_pm = \<lparr>pm_sample_rate = 0, pm_subcarrier_frequency = 0, pm_carrier_pll_bandwidth = 0, pm_baud_rate = 0,
       pm_subcarrier_bandwidth = 0, pm_rrc_beta = 0, pm_rrc_delay = 0, pm_costas_bandwidth = 0, pm_symsync_filter_bank_size = 0,
       pm_modulation_index = 0\<rparr>,
     freq_offset_file = None, debug_freq_offset_file = None, debug_constellation_file = None, debug_baseband_file = None,
     debug_subcarrier_file = None\<rparr>"

text \<open>
  The members that point to something the configuration owns, by name: the strings (what the
  \<^verbatim>\<open>char **\<close> argument of \<^verbatim>\<open>app_config_replace_str\<close> points to) and the two libraries.
\<close>

datatype ptr_member =
    Bind_address | Freq_offset_file | Debug_freq_offset_file | Debug_constellation_file | Debug_baseband_file
  | Debug_subcarrier_file | Uri | Calib_mode | Iio | Airspy_lib | Rx_file | Tx_file | Input_file | Output_file

fun ptr_of :: "ptr_member \<Rightarrow> app_config \<Rightarrow> addr option" where
  "ptr_of Bind_address c = bind_address c"
| "ptr_of Freq_offset_file c = freq_offset_file c"
| "ptr_of Debug_freq_offset_file c = debug_freq_offset_file c"
| "ptr_of Debug_constellation_file c = debug_constellation_file c"
| "ptr_of Debug_baseband_file c = debug_baseband_file c"
| "ptr_of Debug_subcarrier_file c = debug_subcarrier_file c"
| "ptr_of Uri c = uri (plutosdr c)"
| "ptr_of Calib_mode c = calib_mode (plutosdr c)"
| "ptr_of Iio c = iio c"
| "ptr_of Airspy_lib c = airspy_lib c"
| "ptr_of Rx_file c = rx_file (sdr_file c)"
| "ptr_of Tx_file c = tx_file (sdr_file c)"
| "ptr_of Input_file c = input_file c"
| "ptr_of Output_file c = output_file c"

fun set_ptr :: "ptr_member \<Rightarrow> addr option \<Rightarrow> app_config \<Rightarrow> app_config" where
  "set_ptr Bind_address p c = c\<lparr>bind_address := p\<rparr>"
| "set_ptr Freq_offset_file p c = c\<lparr>freq_offset_file := p\<rparr>"
| "set_ptr Debug_freq_offset_file p c = c\<lparr>debug_freq_offset_file := p\<rparr>"
| "set_ptr Debug_constellation_file p c = c\<lparr>debug_constellation_file := p\<rparr>"
| "set_ptr Debug_baseband_file p c = c\<lparr>debug_baseband_file := p\<rparr>"
| "set_ptr Debug_subcarrier_file p c = c\<lparr>debug_subcarrier_file := p\<rparr>"
| "set_ptr Uri p c = c\<lparr>plutosdr := (plutosdr c)\<lparr>uri := p\<rparr>\<rparr>"
| "set_ptr Calib_mode p c = c\<lparr>plutosdr := (plutosdr c)\<lparr>calib_mode := p\<rparr>\<rparr>"
| "set_ptr Iio p c = c\<lparr>iio := p\<rparr>"
| "set_ptr Airspy_lib p c = c\<lparr>airspy_lib := p\<rparr>"
| "set_ptr Rx_file p c = c\<lparr>sdr_file := (sdr_file c)\<lparr>rx_file := p\<rparr>\<rparr>"
| "set_ptr Tx_file p c = c\<lparr>sdr_file := (sdr_file c)\<lparr>tx_file := p\<rparr>\<rparr>"
| "set_ptr Input_file p c = c\<lparr>input_file := p\<rparr>"
| "set_ptr Output_file p c = c\<lparr>output_file := p\<rparr>"

text \<open>Blocks of the heap with the string they hold (other objects hold none) and the level of the logger.\<close>

record host =
  blocks :: "addr \<rightharpoonup> string"
  next_block :: addr
  host_log_level :: int

text \<open>\<open>oom i\<close>: the allocation of block \<open>i\<close> fails.\<close>

definition host_alloc :: "(nat \<Rightarrow> bool) \<Rightarrow> string \<Rightarrow> host \<Rightarrow> addr option \<times> host" where
  "host_alloc oom str h =
    (if oom (next_block h) then (None, h\<lparr>next_block := Suc (next_block h)\<rparr>)
     else (Some (next_block h), h\<lparr>blocks := (blocks h)(next_block h \<mapsto> str), next_block := Suc (next_block h)\<rparr>))"

definition host_free :: "addr option \<Rightarrow> host \<Rightarrow> host option" where
  "host_free p h = (case p of None \<Rightarrow> Some h
     | Some a \<Rightarrow> if blocks h a = None then None else Some (h\<lparr>blocks := (blocks h)(a := None)\<rparr>))"

definition str_at :: "addr option \<Rightarrow> host \<Rightarrow> string option" where
  "str_at p h = Option.bind p (blocks h)"

text \<open>A step of the configuration answers a return code; a code other than 0 ends the sequence.\<close>

type_synonym cfg_state = "app_config \<times> host"
type_synonym cfg_act = "cfg_state \<Rightarrow> (int \<times> cfg_state) option"

fun run_acts :: "cfg_act list \<Rightarrow> cfg_act" where
  "run_acts [] s = Some (0, s)"
| "run_acts (a # acts) s = (case a s of
     None \<Rightarrow> None
   | Some (code, s') \<Rightarrow> if code \<noteq> 0 then Some (code, s') else run_acts acts s')"

definition act_set :: "(app_config \<Rightarrow> app_config) \<Rightarrow> cfg_act" where
  "act_set f s = Some (0, f (fst s), snd s)"

definition act_when :: "(app_config \<Rightarrow> bool) \<Rightarrow> cfg_act list \<Rightarrow> cfg_act" where
  "act_when P acts s = (if P (fst s) then run_acts acts s else Some (0, s))"

text \<open>A parser that leaves the configuration unchanged when it fails.\<close>

definition act_parse :: "int \<Rightarrow> (app_config \<Rightarrow> app_config option) \<Rightarrow> cfg_act" where
  "act_parse err f s = (case f (fst s) of None \<Rightarrow> Some (err, s) | Some c \<Rightarrow> Some (0, c, snd s))"

section \<open>Conversions\<close>

definition app_config_convert_sdr_type :: "string \<Rightarrow> sdr_device_type" where
  "app_config_convert_sdr_type ty =
    (if ty = ''plutosdr'' then SDR_TYPE_PLUTOSDR
     else if ty = ''file'' then SDR_TYPE_FILE
     else if ty = ''airspy'' then SDR_TYPE_AIRSPY else SDR_TYPE_INVALID)"

definition app_config_parse_gain_mode :: "string \<Rightarrow> iio_gain_mode option" where
  "app_config_parse_gain_mode str =
    (if str = ''manual'' then Some IIO_GAIN_MODE_MANUAL
     else if str = ''fast_attack'' then Some IIO_GAIN_MODE_FAST_ATTACK
     else if str = ''slow_attack'' then Some IIO_GAIN_MODE_SLOW_ATTACK
     else if str = ''hybrid'' then Some IIO_GAIN_MODE_HYBRID else None)"

definition app_config_parse_airspy_gain_mode :: "string \<Rightarrow> airspy_gain_mode option" where
  "app_config_parse_airspy_gain_mode str =
    (if str = ''auto'' then Some AIRSPY_GAIN_MODE_AUTO
     else if str = ''sensitivity'' then Some AIRSPY_GAIN_MODE_SENSITIVITY
     else if str = ''linearity'' then Some AIRSPY_GAIN_MODE_LINEARITY
     else if str = ''manual'' then Some AIRSPY_GAIN_MODE_MANUAL else None)"

text \<open>A number is accepted only when the whole string is one and it does not exceed \<open>mx\<close>.\<close>

definition app_config_parse_airspy_number :: "string \<Rightarrow> u64 \<Rightarrow> u64 option" where
  "app_config_parse_airspy_number str mx = (case strtoull str 0 of (value, rest, erange) \<Rightarrow>
     if take 1 str = ''-'' \<or> str = [] \<or> rest \<noteq> [] \<or> erange \<or> value > mx then None else Some value)"

definition app_config_parse_airspy_gain :: "string \<Rightarrow> u8 \<Rightarrow> u8 option" where
  "app_config_parse_airspy_gain str mx = map_option ucast (app_config_parse_airspy_number str (ucast mx))"

definition app_config_convert_file_format :: "string \<Rightarrow> sdr_file_format" where
  "app_config_convert_file_format format =
    (if format = ''cu8'' then FILE_FORMAT_CU8
     else if format = ''cf32'' then FILE_FORMAT_CF32
     else if format = ''cs16'' then FILE_FORMAT_CS16 else FILE_FORMAT_INVALID)"

text \<open>The \<open>k\<close> characters before position \<open>len\<close> of a file name.\<close>

definition before :: "nat \<Rightarrow> nat \<Rightarrow> string \<Rightarrow> string" where
  "before len k filename = take k (drop (len - k) filename)"

definition app_config_guess_file_format :: "string option \<Rightarrow> sdr_file_format" where
  "app_config_guess_file_format fo = (case fo of None \<Rightarrow> FILE_FORMAT_INVALID | Some filename \<Rightarrow>
     let len0 = length filename;
         len = (if len0 > 3 \<and> drop (len0 - 3) filename = ''.gz'' then len0 - 3 else len0) in
     if len > 5 \<and> before len 5 filename = ''.cf32'' then FILE_FORMAT_CF32
     else if len > 4 \<and> before len 4 filename = ''.cu8'' then FILE_FORMAT_CU8
     else if len > 5 \<and> before len 5 filename = ''.cs16'' then FILE_FORMAT_CS16
     else FILE_FORMAT_INVALID)"

definition app_config_convert_modem_type :: "string \<Rightarrow> u8" where
  "app_config_convert_modem_type ty =
    (if ty = ''gfsk'' then MODEM_TYPE_GFSK
     else if ty = ''bpsk'' then MODEM_TYPE_BPSK
     else if ty = ''dpsk'' then MODEM_TYPE_DPSK
     else if ty = ''sdpsk'' then MODEM_TYPE_SDPSK
     else if ty = ''psk_pm'' then MODEM_TYPE_PSK_PM else MODEM_TYPE_INVALID)"

definition app_config_hex_to_nibble :: "char \<Rightarrow> int" where
  "app_config_hex_to_nibble c = (let n = of_char c :: int in
     if 48 \<le> n \<and> n \<le> 57 then n - 48
     else if 97 \<le> n \<and> n \<le> 102 then n - 97 + 10
     else if 65 \<le> n \<and> n \<le> 70 then n - 65 + 10 else -1)"

fun syncword_loop :: "string \<Rightarrow> u64 \<Rightarrow> u64 option" where
  "syncword_loop [] syncword = Some syncword"
| "syncword_loop (c # hex) syncword = (let nibble = app_config_hex_to_nibble c in
     if nibble < 0 then None else syncword_loop hex ((push_bit 4 syncword) OR word_of_int nibble))"

definition strip_0x :: "string \<Rightarrow> string" where
  "strip_0x hex = (if take 2 hex = ''0x'' \<or> take 2 hex = ''0X'' then drop 2 hex else hex)"

definition app_config_parse_syncword :: "string \<Rightarrow> gfsk_modem_settings \<Rightarrow> gfsk_modem_settings option" where
  "app_config_parse_syncword hex0 settings =
    (let hex = strip_0x hex0;
         hex_len = length hex in
     if hex_len = 0 \<or> hex_len > 16 then None
     else (case syncword_loop hex 0 of None \<Rightarrow> None
       | Some syncword \<Rightarrow> Some (settings\<lparr>gfsk_syncword := syncword, gfsk_syncword_bits := of_nat (hex_len * 4)\<rparr>)))"

definition app_config_convert_direction :: "string \<Rightarrow> int" where
  "app_config_convert_direction dir = (if dir = ''rx'' then DIRECTION_RX else if dir = ''tx'' then DIRECTION_TX else -1)"

definition app_config_replace_str :: "(nat \<Rightarrow> bool) \<Rightarrow> string option \<Rightarrow> ptr_member \<Rightarrow> cfg_act" where
  "app_config_replace_str oom value to s = do {
     v \<leftarrow> value;
     (case host_alloc oom v (snd s) of
        (None, h) \<Rightarrow> Some (- ENOMEM, fst s, h)
      | (Some copy, h) \<Rightarrow> do {
          h' \<leftarrow> host_free (ptr_of to (fst s)) h;
          Some (0, set_ptr to (Some copy) (fst s), h') }) }"

section \<open>The configuration file\<close>

text \<open>
  libconfig after \<^verbatim>\<open>config_init\<close>: whether a path can be read and what its settings answer then;
  \<^verbatim>\<open>config_setting_get_string\<close> is \<^verbatim>\<open>NULL\<close> for a setting that is not a string. Numbers are as the
  accessors return them, floats converted to \<^verbatim>\<open>float\<close>.
\<close>

record 'st libconfig =
  config_read_file :: "string \<Rightarrow> bool"
  config_lookup :: "string \<Rightarrow> 'st option"
  config_setting_get_int :: "'st \<Rightarrow> int"
  config_setting_get_int64 :: "'st \<Rightarrow> int"
  config_setting_get_float :: "'st \<Rightarrow> f32"
  config_setting_get_bool :: "'st \<Rightarrow> int"
  config_setting_get_string :: "'st \<Rightarrow> string option"

text \<open>\<^verbatim>\<open>setting = config_lookup(...); if (setting != NULL)\<close> and the assignment behind it.\<close>

definition if_setting :: "'st libconfig \<Rightarrow> string \<Rightarrow> ('st \<Rightarrow> cfg_act) \<Rightarrow> cfg_act" where
  "if_setting lc name f s = (case config_lookup lc name of None \<Rightarrow> Some (0, s) | Some st \<Rightarrow> f st s)"

definition from_int :: "'st libconfig \<Rightarrow> string \<Rightarrow> (int \<Rightarrow> app_config \<Rightarrow> app_config) \<Rightarrow> cfg_act" where
  "from_int lc name f = if_setting lc name (\<lambda>st. act_set (f (config_setting_get_int lc st)))"

definition from_float :: "'st libconfig \<Rightarrow> string \<Rightarrow> (f32 \<Rightarrow> app_config \<Rightarrow> app_config) \<Rightarrow> cfg_act" where
  "from_float lc name f = if_setting lc name (\<lambda>st. act_set (f (config_setting_get_float lc st)))"

definition from_bool :: "'st libconfig \<Rightarrow> string \<Rightarrow> (bool \<Rightarrow> app_config \<Rightarrow> app_config) \<Rightarrow> cfg_act" where
  "from_bool lc name f = if_setting lc name (\<lambda>st. act_set (f (config_setting_get_bool lc st \<noteq> 0)))"

definition from_string :: "'st libconfig \<Rightarrow> string \<Rightarrow> (string \<Rightarrow> cfg_act) \<Rightarrow> cfg_act" where
  "from_string lc name f = if_setting lc name (\<lambda>st s. do { v \<leftarrow> config_setting_get_string lc st; f v s })"

definition upd_gfsk :: "(gfsk_modem_settings \<Rightarrow> gfsk_modem_settings) \<Rightarrow> app_config \<Rightarrow> app_config" where
  "upd_gfsk f c = c\<lparr>gfsk := f (gfsk c)\<rparr>"

definition upd_psk :: "(bpsk_modem_settings \<Rightarrow> bpsk_modem_settings) \<Rightarrow> app_config \<Rightarrow> app_config" where
  "upd_psk f c = c\<lparr>psk := f (psk c)\<rparr>"

definition upd_psk_pm :: "(psk_pm_modem_settings \<Rightarrow> psk_pm_modem_settings) \<Rightarrow> app_config \<Rightarrow> app_config" where
  "upd_psk_pm f c = c\<lparr>psk_pm := f (psk_pm c)\<rparr>"

definition upd_airspy :: "(airspy_settings \<Rightarrow> airspy_settings) \<Rightarrow> app_config \<Rightarrow> app_config" where
  "upd_airspy f c = c\<lparr>airspy := f (airspy c)\<rparr>"

definition upd_plutosdr :: "(plutosdr_settings \<Rightarrow> plutosdr_settings) \<Rightarrow> app_config \<Rightarrow> app_config" where
  "upd_plutosdr f c = c\<lparr>plutosdr := f (plutosdr c)\<rparr>"

definition upd_sdr_file :: "(sdr_file_settings \<Rightarrow> sdr_file_settings) \<Rightarrow> app_config \<Rightarrow> app_config" where
  "upd_sdr_file f c = c\<lparr>sdr_file := f (sdr_file c)\<rparr>"

definition app_config_load_gfsk_from_file :: "'st libconfig \<Rightarrow> cfg_act list" where
  "app_config_load_gfsk_from_file lc = [
     from_int lc ''gfsk_baud_rate'' (\<lambda>v. upd_gfsk (\<lambda>g. g\<lparr>gfsk_baud_rate := word_of_int v\<rparr>)),
     if_setting lc ''gfsk_deviation'' (\<lambda>st. act_set (upd_gfsk (\<lambda>g. g\<lparr>gfsk_deviation := word_of_int (config_setting_get_int64 lc st)\<rparr>))),
     from_int lc ''gfsk_bandwidth'' (\<lambda>v. upd_gfsk (\<lambda>g. g\<lparr>gfsk_bandwidth := word_of_int v\<rparr>)),
     from_float lc ''gfsk_bt'' (\<lambda>v. upd_gfsk (\<lambda>g. g\<lparr>gfsk_bt := v\<rparr>)),
     from_bool lc ''gfsk_use_dc_block'' (\<lambda>v. upd_gfsk (\<lambda>g. g\<lparr>gfsk_use_dc_block := of_bool v\<rparr>))]"

definition app_config_load_psk_from_file :: "'st libconfig \<Rightarrow> cfg_act list" where
  "app_config_load_psk_from_file lc = [
     from_int lc ''psk_baud_rate'' (\<lambda>v. upd_psk (\<lambda>p. p\<lparr>psk_baud_rate := word_of_int v\<rparr>)),
     from_float lc ''psk_rrc_beta'' (\<lambda>v. upd_psk (\<lambda>p. p\<lparr>psk_rrc_beta := v\<rparr>)),
     from_int lc ''psk_rrc_delay'' (\<lambda>v. upd_psk (\<lambda>p. p\<lparr>psk_rrc_delay := word_of_int v\<rparr>)),
     from_float lc ''psk_costas_bandwidth'' (\<lambda>v. upd_psk (\<lambda>p. p\<lparr>psk_costas_bandwidth := v\<rparr>)),
     from_int lc ''psk_symsync_filter_bank_size'' (\<lambda>v. upd_psk (\<lambda>p. p\<lparr>psk_symsync_filter_bank_size := word_of_int v\<rparr>)),
     from_int lc ''psk_bandwidth'' (\<lambda>v. upd_psk (\<lambda>p. p\<lparr>psk_bandwidth := word_of_int v\<rparr>))]"

definition app_config_load_psk_pm_from_file :: "'st libconfig \<Rightarrow> cfg_act list" where
  "app_config_load_psk_pm_from_file lc = [
     from_int lc ''psk_pm_baud_rate'' (\<lambda>v. upd_psk_pm (\<lambda>p. p\<lparr>pm_baud_rate := word_of_int v\<rparr>)),
     from_float lc ''psk_pm_rrc_beta'' (\<lambda>v. upd_psk_pm (\<lambda>p. p\<lparr>pm_rrc_beta := v\<rparr>)),
     from_int lc ''psk_pm_rrc_delay'' (\<lambda>v. upd_psk_pm (\<lambda>p. p\<lparr>pm_rrc_delay := word_of_int v\<rparr>)),
     from_float lc ''psk_pm_costas_bandwidth'' (\<lambda>v. upd_psk_pm (\<lambda>p. p\<lparr>pm_costas_bandwidth := v\<rparr>)),
     from_int lc ''psk_pm_symsync_filter_bank_size'' (\<lambda>v. upd_psk_pm (\<lambda>p. p\<lparr>pm_symsync_filter_bank_size := word_of_int v\<rparr>)),
     from_int lc ''psk_pm_subcarrier_frequency'' (\<lambda>v. upd_psk_pm (\<lambda>p. p\<lparr>pm_subcarrier_frequency := word_of_int v\<rparr>)),
     from_float lc ''psk_pm_modulation_index'' (\<lambda>v. upd_psk_pm (\<lambda>p. p\<lparr>pm_modulation_index := v\<rparr>)),
     from_float lc ''psk_pm_carrier_pll_bandwidth'' (\<lambda>v. upd_psk_pm (\<lambda>p. p\<lparr>pm_carrier_pll_bandwidth := v\<rparr>)),
     from_int lc ''psk_pm_subcarrier_bandwidth'' (\<lambda>v. upd_psk_pm (\<lambda>p. p\<lparr>pm_subcarrier_bandwidth := word_of_int v\<rparr>))]"

definition app_config_load_airspy_gain_from_file :: "'st libconfig \<Rightarrow> string \<Rightarrow> int \<Rightarrow> (u8 \<Rightarrow> app_config \<Rightarrow> app_config) \<Rightarrow> cfg_act" where
  "app_config_load_airspy_gain_from_file lc name mx f = if_setting lc name (\<lambda>st.
     let value = config_setting_get_int lc st in
     act_parse (-1) (\<lambda>c. if value < 0 \<or> value > mx then None else Some (f (word_of_int value) c)))"

definition app_config_load_airspy_from_file :: "'st libconfig \<Rightarrow> cfg_act list" where
  "app_config_load_airspy_from_file lc = [
     from_string lc ''airspy_gain_mode'' (\<lambda>v. act_parse (-1) (\<lambda>c.
       map_option (\<lambda>m. upd_airspy (\<lambda>a. a\<lparr>airspy_gain_mode := m\<rparr>) c) (app_config_parse_airspy_gain_mode v))),
     app_config_load_airspy_gain_from_file lc ''airspy_lna_gain'' AIRSPY_MAX_LNA_GAIN (\<lambda>v. upd_airspy (\<lambda>a. a\<lparr>lna_gain := v\<rparr>)),
     app_config_load_airspy_gain_from_file lc ''airspy_mixer_gain'' AIRSPY_MAX_MIXER_GAIN (\<lambda>v. upd_airspy (\<lambda>a. a\<lparr>mixer_gain := v\<rparr>)),
     app_config_load_airspy_gain_from_file lc ''airspy_vga_gain'' AIRSPY_MAX_VGA_GAIN (\<lambda>v. upd_airspy (\<lambda>a. a\<lparr>vga_gain := v\<rparr>)),
     from_bool lc ''airspy_bias_tee'' (\<lambda>v. upd_airspy (\<lambda>a. a\<lparr>bias_tee := v\<rparr>)),
     from_string lc ''airspy_serial'' (\<lambda>v. act_parse (-1) (\<lambda>c.
       map_option (\<lambda>n. upd_airspy (\<lambda>a. a\<lparr>serial_number := n\<rparr>) c) (app_config_parse_airspy_number v (- 1))))]"

definition app_config_load_sdr_file_from_file :: "(nat \<Rightarrow> bool) \<Rightarrow> 'st libconfig \<Rightarrow> cfg_act list" where
  "app_config_load_sdr_file_from_file oom lc = [
     from_string lc ''rx_file'' (\<lambda>v. app_config_replace_str oom (Some v) Rx_file),
     from_string lc ''rx_file_format'' (\<lambda>v. act_set (upd_sdr_file (\<lambda>f. f\<lparr>rx_file_format := app_config_convert_file_format v\<rparr>))),
     from_string lc ''tx_file'' (\<lambda>v. app_config_replace_str oom (Some v) Tx_file),
     from_string lc ''tx_file_format'' (\<lambda>v. act_set (upd_sdr_file (\<lambda>f. f\<lparr>tx_file_format := app_config_convert_file_format v\<rparr>)))]"

text \<open>\<^verbatim>\<open>app_config_load_from_file\<close> in three parts: the server, the device and the modem.\<close>

definition load_server_from_file :: "(nat \<Rightarrow> bool) \<Rightarrow> 'st libconfig \<Rightarrow> cfg_act list" where
  "load_server_from_file oom lc = [
     from_int lc ''sdr_buffer_len'' (\<lambda>v c. c\<lparr>cfg_sdr_buffer_len := word_of_int v\<rparr>),
     from_string lc ''bind_address'' (\<lambda>v. app_config_replace_str oom (Some v) Bind_address),
     from_string lc ''log_level'' (\<lambda>v. act_parse (-1) (\<lambda>c. map_option (\<lambda>l. c\<lparr>log_level := l\<rparr>) (log_parse_level v))),
     from_int lc ''port'' (\<lambda>v c. c\<lparr>port := word_of_int v\<rparr>),
     from_int lc ''read_timeout_seconds'' (\<lambda>v c. c\<lparr>read_timeout_seconds := v\<rparr>),
     from_int lc ''queue_size'' (\<lambda>v c. c\<lparr>queue_size := word_of_int v\<rparr>),
     from_int lc ''max_frame_size'' (\<lambda>v c. c\<lparr>cfg_max_frame_size := word_of_int v\<rparr>),
     from_string lc ''direction'' (\<lambda>v. act_set (\<lambda>c. c\<lparr>direction := app_config_convert_direction v\<rparr>)),
     from_string lc ''sdr_type'' (\<lambda>v. act_set (\<lambda>c. c\<lparr>sdr_type := app_config_convert_sdr_type v\<rparr>))]"

definition load_device_from_file :: "(nat \<Rightarrow> bool) \<Rightarrow> 'st libconfig \<Rightarrow> cfg_act list" where
  "load_device_from_file oom lc = [
     act_when (\<lambda>c. sdr_type c = SDR_TYPE_PLUTOSDR) [
       from_string lc ''plutosdr_gain_control_mode'' (\<lambda>v. act_parse (-1) (\<lambda>c.
         map_option (\<lambda>m. upd_plutosdr (\<lambda>p. p\<lparr>gain_control_mode := m\<rparr>) c) (app_config_parse_gain_mode v))),
       from_bool lc ''plutosdr_tx_powerdown'' (\<lambda>v. upd_plutosdr (\<lambda>p. p\<lparr>tx_powerdown := v\<rparr>)),
       from_int lc ''plutosdr_timeout_ms'' (\<lambda>v. upd_plutosdr (\<lambda>p. p\<lparr>timeout_ms := word_of_int v\<rparr>)),
       from_string lc ''plutosdr_uri'' (\<lambda>v. app_config_replace_str oom (Some v) Uri),
       from_string lc ''plutosdr_calib_mode'' (\<lambda>v. app_config_replace_str oom (Some v) Calib_mode)],
     act_when (\<lambda>c. sdr_type c = SDR_TYPE_AIRSPY) (app_config_load_airspy_from_file lc)]
   @ app_config_load_sdr_file_from_file oom lc"

definition load_modem_from_file :: "(nat \<Rightarrow> bool) \<Rightarrow> 'st libconfig \<Rightarrow> cfg_act list" where
  "load_modem_from_file oom lc = [
     from_string lc ''modem'' (\<lambda>v. act_set (\<lambda>c. c\<lparr>cfg_modem := app_config_convert_modem_type v\<rparr>)),
     if_setting lc ''frequency'' (\<lambda>st. act_set (\<lambda>c. c\<lparr>cfg_frequency := word_of_int (config_setting_get_int64 lc st)\<rparr>)),
     if_setting lc ''sample_rate'' (\<lambda>st. act_set (\<lambda>c. c\<lparr>cfg_sample_rate := word_of_int (config_setting_get_int64 lc st)\<rparr>)),
     from_float lc ''gain'' (\<lambda>v c. c\<lparr>cfg_gain := v\<rparr>)]
   @ app_config_load_gfsk_from_file lc @ app_config_load_psk_from_file lc @ app_config_load_psk_pm_from_file lc
   @ [from_string lc ''syncword'' (\<lambda>v. act_parse (- EINVAL) (\<lambda>c.
       map_option (\<lambda>g. c\<lparr>gfsk := g\<rparr>) (app_config_parse_syncword v (gfsk c)))),
     from_string lc ''debug_constellation_file'' (\<lambda>v. app_config_replace_str oom (Some v) Debug_constellation_file),
     from_string lc ''debug_baseband_file'' (\<lambda>v. app_config_replace_str oom (Some v) Debug_baseband_file),
     from_string lc ''debug_subcarrier_file'' (\<lambda>v. app_config_replace_str oom (Some v) Debug_subcarrier_file)]"

definition app_config_load_from_file :: "(nat \<Rightarrow> bool) \<Rightarrow> 'st libconfig \<Rightarrow> string \<Rightarrow> cfg_act" where
  "app_config_load_from_file oom lc path s =
    (if \<not> config_read_file lc path then Some (-1, s)
     else run_acts (load_server_from_file oom lc @ load_device_from_file oom lc @ load_modem_from_file oom lc) s)"

section \<open>The command line\<close>

definition long_options :: "string list" where
  "long_options = [
     ''bind_address'', ''log_level'', ''port'', ''sdr_buffer_len'', ''read_timeout_seconds'', ''queue_size'', ''max_frame_size'',
     ''direction'', ''sdr_type'', ''plutosdr_gain_control_mode'', ''plutosdr_tx_powerdown'', ''plutosdr_timeout_ms'',
     ''plutosdr_uri'', ''plutosdr_calib_mode'', ''airspy_gain_mode'', ''airspy_lna_gain'', ''airspy_mixer_gain'',
     ''airspy_vga_gain'', ''airspy_bias_tee'', ''airspy_serial'', ''rx_file'', ''rx_file_format'', ''tx_file'',
     ''tx_file_format'', ''config'', ''input'', ''output'', ''modem'', ''syncword'', ''frequency'', ''sample_rate'', ''gain'',
     ''power'', ''gfsk_baud_rate'', ''gfsk_deviation'', ''gfsk_bandwidth'', ''gfsk_bt'', ''gfsk_use_dc_block'',
     ''psk_baud_rate'', ''psk_rrc_beta'', ''psk_rrc_delay'', ''psk_costas_bandwidth'', ''psk_symsync_filter_bank_size'',
     ''psk_bandwidth'', ''psk_pm_baud_rate'', ''psk_pm_rrc_beta'', ''psk_pm_rrc_delay'', ''psk_pm_costas_bandwidth'',
     ''psk_pm_symsync_filter_bank_size'', ''psk_pm_subcarrier_frequency'', ''psk_pm_modulation_index'',
     ''psk_pm_carrier_pll_bandwidth'', ''psk_pm_subcarrier_bandwidth'', ''freq_offset_file'', ''debug_freq_offset_file'',
     ''debug_constellation_file'', ''debug_baseband_file'', ''debug_subcarrier_file'']"

definition is_true :: "string \<Rightarrow> bool" where
  "is_true v \<longleftrightarrow> v = ''true'' \<or> v = ''1''"

text \<open>The cases of the switch, in the groups of the source; an option without a case is ignored.\<close>

type_synonym cli_cases = "(string \<times> (string \<Rightarrow> cfg_act)) list"

definition cli_server_cases :: "(nat \<Rightarrow> bool) \<Rightarrow> cli_cases" where
  "cli_server_cases oom = [
     (''log_level'', \<lambda>v. act_parse (-1) (\<lambda>c. map_option (\<lambda>l. c\<lparr>log_level := l\<rparr>) (log_parse_level v))),
     (''bind_address'', \<lambda>v. app_config_replace_str oom (Some v) Bind_address),
     (''port'', \<lambda>v. act_set (\<lambda>c. c\<lparr>port := word_of_int (atoi v)\<rparr>)),
     (''sdr_buffer_len'', \<lambda>v. act_set (\<lambda>c. c\<lparr>cfg_sdr_buffer_len := word_of_int (atoi v)\<rparr>)),
     (''read_timeout_seconds'', \<lambda>v. act_set (\<lambda>c. c\<lparr>read_timeout_seconds := atoi v\<rparr>)),
     (''queue_size'', \<lambda>v. act_set (\<lambda>c. c\<lparr>queue_size := word_of_int (atoi v)\<rparr>)),
     (''max_frame_size'', \<lambda>v. act_set (\<lambda>c. c\<lparr>cfg_max_frame_size := ucast (fst (strtoull v 10))\<rparr>)),
     (''direction'', \<lambda>v. act_set (\<lambda>c. c\<lparr>direction := app_config_convert_direction v\<rparr>))]"

definition cli_device_cases :: "(nat \<Rightarrow> bool) \<Rightarrow> cli_cases" where
  "cli_device_cases oom = [
     (''sdr_type'', \<lambda>v. act_set (\<lambda>c. c\<lparr>sdr_type := app_config_convert_sdr_type v\<rparr>)),
     (''plutosdr_gain_control_mode'', \<lambda>v. act_parse (-1) (\<lambda>c.
        map_option (\<lambda>m. upd_plutosdr (\<lambda>p. p\<lparr>gain_control_mode := m\<rparr>) c) (app_config_parse_gain_mode v))),
     (''plutosdr_tx_powerdown'', \<lambda>v. act_set (upd_plutosdr (\<lambda>p. p\<lparr>tx_powerdown := is_true v\<rparr>))),
     (''plutosdr_timeout_ms'', \<lambda>v. act_set (upd_plutosdr (\<lambda>p. p\<lparr>timeout_ms := word_of_int (atoi v)\<rparr>))),
     (''plutosdr_uri'', \<lambda>v. app_config_replace_str oom (Some v) Uri),
     (''plutosdr_calib_mode'', \<lambda>v. app_config_replace_str oom (Some v) Calib_mode),
     (''airspy_gain_mode'', \<lambda>v. act_parse (-1) (\<lambda>c.
        map_option (\<lambda>m. upd_airspy (\<lambda>a. a\<lparr>airspy_gain_mode := m\<rparr>) c) (app_config_parse_airspy_gain_mode v))),
     (''airspy_lna_gain'', \<lambda>v. act_parse (-1) (\<lambda>c.
        map_option (\<lambda>n. upd_airspy (\<lambda>a. a\<lparr>lna_gain := n\<rparr>) c) (app_config_parse_airspy_gain v (word_of_int AIRSPY_MAX_LNA_GAIN)))),
     (''airspy_mixer_gain'', \<lambda>v. act_parse (-1) (\<lambda>c.
        map_option (\<lambda>n. upd_airspy (\<lambda>a. a\<lparr>mixer_gain := n\<rparr>) c) (app_config_parse_airspy_gain v (word_of_int AIRSPY_MAX_MIXER_GAIN)))),
     (''airspy_vga_gain'', \<lambda>v. act_parse (-1) (\<lambda>c.
        map_option (\<lambda>n. upd_airspy (\<lambda>a. a\<lparr>vga_gain := n\<rparr>) c) (app_config_parse_airspy_gain v (word_of_int AIRSPY_MAX_VGA_GAIN)))),
     (''airspy_bias_tee'', \<lambda>v. act_set (upd_airspy (\<lambda>a. a\<lparr>bias_tee := is_true v\<rparr>))),
     (''airspy_serial'', \<lambda>v. act_parse (-1) (\<lambda>c.
        map_option (\<lambda>n. upd_airspy (\<lambda>a. a\<lparr>serial_number := n\<rparr>) c) (app_config_parse_airspy_number v (- 1)))),
     (''rx_file'', \<lambda>v. app_config_replace_str oom (Some v) Rx_file),
     (''rx_file_format'', \<lambda>v. act_set (upd_sdr_file (\<lambda>f. f\<lparr>rx_file_format := app_config_convert_file_format v\<rparr>))),
     (''tx_file'', \<lambda>v. app_config_replace_str oom (Some v) Tx_file),
     (''tx_file_format'', \<lambda>v. act_set (upd_sdr_file (\<lambda>f. f\<lparr>tx_file_format := app_config_convert_file_format v\<rparr>)))]"

definition cli_channel_cases :: "(string \<Rightarrow> f32) \<Rightarrow> (nat \<Rightarrow> bool) \<Rightarrow> cli_cases" where
  "cli_channel_cases atof oom = [
     (''input'', \<lambda>v. app_config_replace_str oom (Some v) Input_file),
     (''output'', \<lambda>v. app_config_replace_str oom (Some v) Output_file),
     (''modem'', \<lambda>v. act_set (\<lambda>c. c\<lparr>cfg_modem := app_config_convert_modem_type v\<rparr>)),
     (''syncword'', \<lambda>v. act_parse (- EINVAL) (\<lambda>c. map_option (\<lambda>g. c\<lparr>gfsk := g\<rparr>) (app_config_parse_syncword v (gfsk c)))),
     (''frequency'', \<lambda>v. act_set (\<lambda>c. c\<lparr>cfg_frequency := fst (strtoull v 10)\<rparr>)),
     (''sample_rate'', \<lambda>v. act_set (\<lambda>c. c\<lparr>cfg_sample_rate := fst (strtoull v 10)\<rparr>)),
     (''gain'', \<lambda>v. act_set (\<lambda>c. c\<lparr>cfg_gain := atof v\<rparr>)),
     (''power'', \<lambda>v. act_set (\<lambda>c. c\<lparr>power := atof v\<rparr>))]"

definition cli_modem_cases :: "(string \<Rightarrow> f32) \<Rightarrow> cli_cases" where
  "cli_modem_cases atof = [
     (''gfsk_baud_rate'', \<lambda>v. act_set (upd_gfsk (\<lambda>g. g\<lparr>gfsk_baud_rate := word_of_int (atoi v)\<rparr>))),
     (''gfsk_deviation'', \<lambda>v. act_set (upd_gfsk (\<lambda>g. g\<lparr>gfsk_deviation := word_of_int (strtoll v)\<rparr>))),
     (''gfsk_bandwidth'', \<lambda>v. act_set (upd_gfsk (\<lambda>g. g\<lparr>gfsk_bandwidth := word_of_int (atoi v)\<rparr>))),
     (''gfsk_bt'', \<lambda>v. act_set (upd_gfsk (\<lambda>g. g\<lparr>gfsk_bt := atof v\<rparr>))),
     (''gfsk_use_dc_block'', \<lambda>v. act_set (upd_gfsk (\<lambda>g. g\<lparr>gfsk_use_dc_block := of_bool (is_true v)\<rparr>))),
     (''psk_baud_rate'', \<lambda>v. act_set (upd_psk (\<lambda>p. p\<lparr>psk_baud_rate := word_of_int (atoi v)\<rparr>))),
     (''psk_rrc_beta'', \<lambda>v. act_set (upd_psk (\<lambda>p. p\<lparr>psk_rrc_beta := atof v\<rparr>))),
     (''psk_rrc_delay'', \<lambda>v. act_set (upd_psk (\<lambda>p. p\<lparr>psk_rrc_delay := word_of_int (atoi v)\<rparr>))),
     (''psk_costas_bandwidth'', \<lambda>v. act_set (upd_psk (\<lambda>p. p\<lparr>psk_costas_bandwidth := atof v\<rparr>))),
     (''psk_symsync_filter_bank_size'', \<lambda>v. act_set (upd_psk (\<lambda>p. p\<lparr>psk_symsync_filter_bank_size := word_of_int (atoi v)\<rparr>))),
     (''psk_bandwidth'', \<lambda>v. act_set (upd_psk (\<lambda>p. p\<lparr>psk_bandwidth := word_of_int (atoi v)\<rparr>))),
     (''psk_pm_baud_rate'', \<lambda>v. act_set (upd_psk_pm (\<lambda>p. p\<lparr>pm_baud_rate := word_of_int (atoi v)\<rparr>))),
     (''psk_pm_rrc_beta'', \<lambda>v. act_set (upd_psk_pm (\<lambda>p. p\<lparr>pm_rrc_beta := atof v\<rparr>))),
     (''psk_pm_rrc_delay'', \<lambda>v. act_set (upd_psk_pm (\<lambda>p. p\<lparr>pm_rrc_delay := word_of_int (atoi v)\<rparr>))),
     (''psk_pm_costas_bandwidth'', \<lambda>v. act_set (upd_psk_pm (\<lambda>p. p\<lparr>pm_costas_bandwidth := atof v\<rparr>))),
     (''psk_pm_symsync_filter_bank_size'', \<lambda>v. act_set (upd_psk_pm (\<lambda>p. p\<lparr>pm_symsync_filter_bank_size := word_of_int (atoi v)\<rparr>))),
     (''psk_pm_subcarrier_frequency'', \<lambda>v. act_set (upd_psk_pm (\<lambda>p. p\<lparr>pm_subcarrier_frequency := word_of_int (atoi v)\<rparr>))),
     (''psk_pm_modulation_index'', \<lambda>v. act_set (upd_psk_pm (\<lambda>p. p\<lparr>pm_modulation_index := atof v\<rparr>))),
     (''psk_pm_carrier_pll_bandwidth'', \<lambda>v. act_set (upd_psk_pm (\<lambda>p. p\<lparr>pm_carrier_pll_bandwidth := atof v\<rparr>))),
     (''psk_pm_subcarrier_bandwidth'', \<lambda>v. act_set (upd_psk_pm (\<lambda>p. p\<lparr>pm_subcarrier_bandwidth := word_of_int (atoi v)\<rparr>)))]"

definition cli_file_cases :: "(nat \<Rightarrow> bool) \<Rightarrow> cli_cases" where
  "cli_file_cases oom = [
     (''freq_offset_file'', \<lambda>v. app_config_replace_str oom (Some v) Freq_offset_file),
     (''debug_freq_offset_file'', \<lambda>v. app_config_replace_str oom (Some v) Debug_freq_offset_file),
     (''debug_constellation_file'', \<lambda>v. app_config_replace_str oom (Some v) Debug_constellation_file),
     (''debug_baseband_file'', \<lambda>v. app_config_replace_str oom (Some v) Debug_baseband_file),
     (''debug_subcarrier_file'', \<lambda>v. app_config_replace_str oom (Some v) Debug_subcarrier_file)]"

definition cli_cases :: "(string \<Rightarrow> f32) \<Rightarrow> (nat \<Rightarrow> bool) \<Rightarrow> cli_cases" where
  "cli_cases atof oom = cli_server_cases oom @ cli_device_cases oom @ cli_channel_cases atof oom @ cli_modem_cases atof @ cli_file_cases oom"

fun cli_act :: "cli_cases \<Rightarrow> getopt_result \<Rightarrow> cfg_act" where
  "cli_act cs (Opt name v) = (case map_of cs name of None \<Rightarrow> (\<lambda>s. Some (0, s)) | Some f \<Rightarrow> f v)"
| "cli_act cs Unknown = (\<lambda>s. Some (0, s))"

definition app_config_load_from_cli :: "(string \<Rightarrow> f32) \<Rightarrow> (nat \<Rightarrow> bool) \<Rightarrow> string list \<Rightarrow> cfg_act" where
  "app_config_load_from_cli atof oom argv =
     run_acts (map (cli_act (cli_cases atof oom)) (getopt_long False None long_options (tl argv)))"

section \<open>Defaults and validation\<close>

definition is_fzero :: "f32 \<Rightarrow> bool" where
  "is_fzero f \<longleftrightarrow> f = 0 \<or> f = 0x80000000"

definition or_default :: "('a \<Rightarrow> bool) \<Rightarrow> 'a \<Rightarrow> 'a \<Rightarrow> 'a" where
  "or_default unset d v = (if unset v then d else v)"

text \<open>The literals 0.35f, 0.01f, 0.005f and 0.0001f are written as their bit patterns.\<close>

definition app_config_apply_psk_defaults :: "bpsk_modem_settings \<Rightarrow> bpsk_modem_settings" where
  "app_config_apply_psk_defaults p = p\<lparr>
     psk_symsync_filter_bank_size := or_default (\<lambda>v. v = 0) 32 (psk_symsync_filter_bank_size p),
     psk_rrc_delay := or_default (\<lambda>v. v = 0) 5 (psk_rrc_delay p),
     psk_rrc_beta := or_default is_fzero 0x3eb33333 (psk_rrc_beta p),
     psk_costas_bandwidth := or_default is_fzero 0x3c23d70a (psk_costas_bandwidth p)\<rparr>"

definition app_config_apply_psk_pm_defaults :: "psk_pm_modem_settings \<Rightarrow> psk_pm_modem_settings" where
  "app_config_apply_psk_pm_defaults p = p\<lparr>
     pm_symsync_filter_bank_size := or_default (\<lambda>v. v = 0) 32 (pm_symsync_filter_bank_size p),
     pm_rrc_delay := or_default (\<lambda>v. v = 0) 5 (pm_rrc_delay p),
     pm_rrc_beta := or_default is_fzero 0x3eb33333 (pm_rrc_beta p),
     pm_costas_bandwidth := or_default is_fzero 0x3ba3d70a (pm_costas_bandwidth p),
     pm_carrier_pll_bandwidth := or_default is_fzero 0x38d1b717 (pm_carrier_pll_bandwidth p)\<rparr>"

definition app_config_validate_file :: "string option \<Rightarrow> sdr_file_format \<Rightarrow> int \<times> sdr_file_format" where
  "app_config_validate_file file format = (case file of None \<Rightarrow> (0, format) | Some f \<Rightarrow>
     let fmt = (if format = FILE_FORMAT_GUESS then app_config_guess_file_format (Some f) else format) in
     (if fmt = FILE_FORMAT_INVALID then -1 else 0, fmt))"

text \<open>A check that ends the validation.\<close>

definition act_check :: "(app_config \<Rightarrow> bool) \<Rightarrow> cfg_act" where
  "act_check bad s = Some (if bad (fst s) then -1 else 0, s)"

definition is_cli_mode :: "app_config \<Rightarrow> bool" where
  "is_cli_mode c \<longleftrightarrow> bind_address c = None"

definition validate_server :: "cfg_act list" where
  "validate_server = [
     act_set (\<lambda>c. c\<lparr>log_level := or_default (\<lambda>v. v = 0) LOG_LEVEL_INFO (log_level c)\<rparr>),
     (\<lambda>(c, h). Some (0, c, h\<lparr>host_log_level := log_level c\<rparr>)),
     act_set (\<lambda>c. c\<lparr>cfg_sdr_buffer_len := or_default (\<lambda>v. v = 0) 262144 (cfg_sdr_buffer_len c)\<rparr>),
     act_set (\<lambda>c. c\<lparr>port := or_default (\<lambda>v. v = 0) 8091 (port c)\<rparr>),
     act_check (\<lambda>c. read_timeout_seconds c < 0),
     act_set (\<lambda>c. c\<lparr>read_timeout_seconds := or_default (\<lambda>v. v = 0) 5 (read_timeout_seconds c)\<rparr>),
     act_set (\<lambda>c. c\<lparr>queue_size := or_default (\<lambda>v. v = 0) 64 (queue_size c)\<rparr>),
     act_check (\<lambda>c. is_cli_mode c \<and> direction c < 0),
     act_check (\<lambda>c. is_cli_mode c \<and> direction c = 0),
     act_check (\<lambda>c. (\<not> is_cli_mode c \<or> direction c = DIRECTION_TX) \<and> cfg_max_frame_size c = 0)]"

text \<open>An empty string is freed and becomes \<^verbatim>\<open>NULL\<close>.\<close>

definition drop_if_empty :: "ptr_member \<Rightarrow> cfg_act" where
  "drop_if_empty m s = (case ptr_of m (fst s) of
     None \<Rightarrow> Some (0, s)
   | Some a \<Rightarrow> do {
       str \<leftarrow> blocks (snd s) a;
       (if str = [] then do { h \<leftarrow> host_free (Some a) (snd s); Some (0, set_ptr m None (fst s), h) } else Some (0, s)) })"

definition default_calib_mode :: "(nat \<Rightarrow> bool) \<Rightarrow> cfg_act" where
  "default_calib_mode oom s =
    (if calib_mode (plutosdr (fst s)) \<noteq> None then Some (0, s)
     else (case host_alloc oom ''manual_tx_quad'' (snd s) of (p, h) \<Rightarrow> Some (0, set_ptr Calib_mode p (fst s), h)))"

definition validate_files :: "cfg_act" where
  "validate_files s = do {
     let (c, h) = s;
     let (code, fmt) = app_config_validate_file (str_at (rx_file (sdr_file c)) h) (rx_file_format (sdr_file c));
     let c1 = upd_sdr_file (\<lambda>f. f\<lparr>rx_file_format := fmt\<rparr>) c;
     (if code \<noteq> 0 then Some (-1, c1, h)
      else do {
        let (code, fmt) = app_config_validate_file (str_at (tx_file (sdr_file c1)) h) (tx_file_format (sdr_file c1));
        Some (if code \<noteq> 0 then -1 else 0, upd_sdr_file (\<lambda>f. f\<lparr>tx_file_format := fmt\<rparr>) c1, h) }) }"

definition validate_device :: "(nat \<Rightarrow> bool) \<Rightarrow> cfg_act list" where
  "validate_device oom = [
     act_when (\<lambda>c. sdr_type c = SDR_TYPE_PLUTOSDR) [
       act_set (upd_plutosdr (\<lambda>p. p\<lparr>timeout_ms := or_default (\<lambda>v. v = 0) 1000 (timeout_ms p)\<rparr>)),
       drop_if_empty Uri, drop_if_empty Calib_mode, default_calib_mode oom,
       act_set (\<lambda>c. upd_plutosdr (\<lambda>p. p\<lparr>pluto_sample_rate := cfg_sample_rate c\<rparr>) c)],
     act_when (\<lambda>c. sdr_type c = SDR_TYPE_AIRSPY) [
       act_set (\<lambda>c. upd_airspy (\<lambda>a. a\<lparr>airspy_sample_rate := cfg_sample_rate c\<rparr>) c),
       act_check (\<lambda>c. is_cli_mode c \<and> direction c = DIRECTION_TX)],
     act_when (\<lambda>c. sdr_type c = SDR_TYPE_FILE) [
       act_check (\<lambda>c. \<not> is_cli_mode c),
       act_check (\<lambda>c. direction c = DIRECTION_RX \<and> rx_file (sdr_file c) = None),
       act_check (\<lambda>c. direction c = DIRECTION_TX \<and> tx_file (sdr_file c) = None),
       validate_files],
     act_check (\<lambda>c. sdr_type c \<notin> {SDR_TYPE_PLUTOSDR, SDR_TYPE_AIRSPY, SDR_TYPE_FILE})]"

definition validate_modem :: "cfg_act list" where
  "validate_modem = [
     act_check (\<lambda>c. is_cli_mode c \<and> direction c = DIRECTION_RX \<and> output_file c = None),
     act_check (\<lambda>c. is_cli_mode c \<and> direction c = DIRECTION_TX \<and> input_file c = None),
     act_check (\<lambda>c. is_cli_mode c \<and> cfg_modem c = MODEM_TYPE_INVALID),
     act_set (\<lambda>c.
       if cfg_modem c = MODEM_TYPE_BPSK then upd_psk (\<lambda>p. p\<lparr>psk_type := BPSK\<rparr>) c
       else if cfg_modem c = MODEM_TYPE_DPSK then upd_psk (\<lambda>p. p\<lparr>psk_type := DPSK\<rparr>) c
       else if cfg_modem c = MODEM_TYPE_SDPSK then upd_psk (\<lambda>p. p\<lparr>psk_type := SDPSK\<rparr>) c else c),
     act_set (upd_psk app_config_apply_psk_defaults),
     act_set (upd_psk_pm app_config_apply_psk_pm_defaults)]"

definition app_config_validate_and_log :: "(nat \<Rightarrow> bool) \<Rightarrow> cfg_act" where
  "app_config_validate_and_log oom = run_acts (validate_server @ validate_device oom @ validate_modem)"

section \<open>Construction and destruction\<close>

text \<open>
  \<^verbatim>\<open>app_config_destroy\<close> frees the strings, the two libraries and the structure \<open>this\<close>, in the order of
  the source.
\<close>

fun free_all :: "addr option list \<Rightarrow> host \<Rightarrow> host option" where
  "free_all [] h = Some h"
| "free_all (p # ps) h = do { h1 \<leftarrow> host_free p h; free_all ps h1 }"

definition app_config_destroy :: "addr \<Rightarrow> app_config \<Rightarrow> host \<Rightarrow> host option" where
  "app_config_destroy this c h = free_all [
     bind_address c, freq_offset_file c, debug_freq_offset_file c, debug_constellation_file c, debug_baseband_file c,
     debug_subcarrier_file c, uri (plutosdr c), calib_mode (plutosdr c), iio c, airspy_lib c, rx_file (sdr_file c),
     tx_file (sdr_file c), input_file c, output_file c, Some this] h"

text \<open>The first pass over the command line looks for the configuration file only.\<close>

definition config_path_of :: "string list \<Rightarrow> string option" where
  "config_path_of argv =
     last_opt (concat (map (\<lambda>r. case r of Opt _ v \<Rightarrow> [v] | Unknown \<Rightarrow> [])
       (getopt_long True (Some (CHR ''c'', ''config'')) [''config''] (tl argv))))"

text \<open>\<open>iio_code\<close> and \<open>airspy_code\<close> are the answers of the two libraries; a library that was loaded is a block of the heap.\<close>

definition load_libraries :: "int \<Rightarrow> int \<Rightarrow> cfg_act list" where
  "load_libraries iio_code airspy_code = [
     act_when (\<lambda>c. sdr_type c = SDR_TYPE_PLUTOSDR) [(\<lambda>(c, h).
       if iio_code \<noteq> 0 then Some (-1, c, h)
       else (case host_alloc (\<lambda>_. False) '''' h of (p, h') \<Rightarrow> Some (0, c\<lparr>iio := p\<rparr>, h')))],
     act_when (\<lambda>c. sdr_type c = SDR_TYPE_AIRSPY) [(\<lambda>(c, h).
       if airspy_code \<noteq> 0 then Some (-1, c, h)
       else (case host_alloc (\<lambda>_. False) '''' h of (p, h') \<Rightarrow> Some (0, c\<lparr>airspy_lib := p\<rparr>, h')))]]"

definition app_config_create ::
  "(string \<Rightarrow> f32) \<Rightarrow> (nat \<Rightarrow> bool) \<Rightarrow> 'st libconfig \<Rightarrow> int \<Rightarrow> int \<Rightarrow> string list \<Rightarrow> host \<Rightarrow> (int \<times> (addr \<times> app_config) option \<times> host) option" where
  "app_config_create atof oom lc iio_code airspy_code argv h = (case host_alloc oom '''' h of
     (None, h1) \<Rightarrow> Some (- ENOMEM, None, h1)
   | (Some this, h1) \<Rightarrow> do {
       (code, c, h2) \<leftarrow> run_acts
         ((case config_path_of argv of None \<Rightarrow> [] | Some path \<Rightarrow> [app_config_load_from_file oom lc path])
          @ [app_config_load_from_cli atof oom argv, app_config_validate_and_log oom]
          @ load_libraries iio_code airspy_code) (app_config_zero, h1);
       (if code \<noteq> 0 then do { h3 \<leftarrow> app_config_destroy this c h2; Some (code, None, h3) }
        else Some (0, Some (this, c), h2)) })"

end
