(* ===== verification/Construction.thy ===== *)
theory Construction
  imports Prelude
begin

text \<open>
  The pattern of the constructors of the program: a structure is zeroed, its parts are created one
  after the other, and when a step fails the destructor is called on what is there so far. It
  looks at every pointer and releases the parts that are set, in a fixed order. A part may keep
  pointers to others, its \<open>users\<close> must be gone before a part is released: releasing it earlier is
  undefined. The locale states what makes an order of release correct, once for all components.
\<close>

text \<open>\<^verbatim>\<open>if (p != NULL) destroy(p)\<close>\<close>

definition release :: "('p \<Rightarrow> 'p set) \<Rightarrow> 'p \<Rightarrow> 'p set \<Rightarrow> 'p set option" where
  "release users p ps = (if p \<notin> ps then Some ps else if users p \<inter> ps = {} then Some (ps - {p}) else None)"

fun release_all :: "('p \<Rightarrow> 'p set) \<Rightarrow> 'p list \<Rightarrow> 'p set \<Rightarrow> 'p set option" where
  "release_all users [] ps = Some ps"
| "release_all users (p # order) ps = do { ps1 \<leftarrow> release users p ps; release_all users order ps1 }"

text \<open>A step of a constructor: whether it succeeds, the code it fails with, the part it adds.\<close>

type_synonym 'p step = "bool \<times> int \<times> 'p option"

fun construct :: "('p \<Rightarrow> 'p set) \<Rightarrow> 'p list \<Rightarrow> 'p step list \<Rightarrow> 'p set \<Rightarrow> (int \<times> 'p set) option" where
  "construct users order [] ps = Some (0, ps)"
| "construct users order ((ok, err, p) # steps) ps =
    (if \<not> ok then do { ps' \<leftarrow> release_all users order ps; Some (err, ps') }
     else construct users order steps (ps \<union> set_option p))"

definition parts_of :: "'p step list \<Rightarrow> 'p set" where
  "parts_of steps = (\<Union>st \<in> set steps. set_option (snd (snd st)))"

fun ordered :: "('p \<Rightarrow> 'p set) \<Rightarrow> 'p set \<Rightarrow> 'p list \<Rightarrow> bool" where
  "ordered users gone [] = True"
| "ordered users gone (p # order) = (users p \<subseteq> gone \<and> ordered users (insert p gone) order)"

lemma release_all_ordered:
  "ordered users gone order \<Longrightarrow> ps \<inter> gone = {} \<Longrightarrow> release_all users order ps = Some (ps - set order)"
proof (induction order arbitrary: gone ps)
  case (Cons p order)
  from Cons.prems have "users p \<inter> ps = {}" by auto
  then have "release users p ps = Some (ps - {p})" by (auto simp: release_def)
  moreover have "(ps - {p}) \<inter> insert p gone = {}" using Cons.prems(2) by auto
  with Cons.IH [of "insert p gone" "ps - {p}"] Cons.prems(1) have "release_all users order (ps - {p}) = Some (ps - {p} - set order)"
    by simp
  ultimately show ?case by (simp add: Diff_insert2 [symmetric])
qed simp

text \<open>A component whose destructor releases every part, users first.\<close>

locale component =
  fixes users :: "'p \<Rightarrow> 'p set" and order :: "'p list"
  assumes users_first: "ordered users {} order"
    and complete: "p \<in> set order"
begin

lemma destroys: "release_all users order ps = Some {}"
proof -
  have "ps - set order = {}" using complete by auto
  with release_all_ordered [OF users_first, of ps] show ?thesis by simp
qed

lemma construct_total: "\<exists>code ps'. construct users order steps ps = Some (code, ps')"
proof (induction steps arbitrary: ps)
  case (Cons st steps)
  then show ?case by (cases st) (auto simp: destroys)
qed simp

lemma construct_outcome:
  assumes "list_all (\<lambda>st. fst st \<or> fst (snd st) \<noteq> 0) steps"
  shows "\<exists>code ps'. construct users order steps ps = Some (code, ps') \<and>
    (if code = 0 then list_all fst steps \<and> ps' = ps \<union> parts_of steps else \<not> list_all fst steps \<and> ps' = {})"
  using assms
proof (induction steps arbitrary: ps)
  case (Cons st steps)
  obtain ok err p where st: "st = (ok, err, p)" by (metis prod_cases3)
  show ?case
  proof (cases ok)
    case True
    with Cons.IH [of "ps \<union> set_option p"] Cons.prems st show ?thesis
      by (auto simp: parts_of_def Un_assoc split: if_splits)
  qed (use st Cons.prems in \<open>auto simp: destroys\<close>)
qed (simp add: parts_of_def)

end

end
