(* ===== verification/TcpServer.thy ===== *)
theory TcpServer
  imports SdrRxWorker AppConfig Construction
begin

text \<open>
  The server, \<^verbatim>\<open>src/tcp_server.c\<close>: one client at a time, served on the acceptor thread. Requests are
  read off the socket, checked and either answered or passed on to the workers; what the thread
  asks of the other components is a list of \<open>server_action\<close>s, in order. The construction and
  destruction of the server are about the order in which its parts are created and destroyed; the
  parts themselves are the subject of the other theories.
\<close>

section \<open>Data\<close>

abbreviation (input) MESSAGE_TYPE_RX_COMM_PARAMETERS :: u8 where "MESSAGE_TYPE_RX_COMM_PARAMETERS \<equiv> 0"
abbreviation (input) MESSAGE_TYPE_SHUTDOWN :: u8 where "MESSAGE_TYPE_SHUTDOWN \<equiv> 1"
abbreviation (input) MESSAGE_TYPE_PING :: u8 where "MESSAGE_TYPE_PING \<equiv> 2"
abbreviation (input) MESSAGE_TYPE_TX_COMM_PARAMETERS :: u8 where "MESSAGE_TYPE_TX_COMM_PARAMETERS \<equiv> 3"
abbreviation (input) MESSAGE_TYPE_TX_FRAME :: u8 where "MESSAGE_TYPE_TX_FRAME \<equiv> 6"
abbreviation (input) MESSAGE_TYPE_RX_START :: u8 where "MESSAGE_TYPE_RX_START \<equiv> 7"
abbreviation (input) MESSAGE_TYPE_RX_STOP :: u8 where "MESSAGE_TYPE_RX_STOP \<equiv> 8"

record tcp_server =
  client_counter :: u32
  client_disconnected :: bool
  srv_client_socket :: int
  has_tx_worker :: bool
  srv_max_frame_size :: u32
  srv_buffer :: "u8 list"
  buffer_length :: nat

text \<open>
  What the thread asks for: a call of a sender of the client worker, a message for the queue of the
  receiving or the transmitting worker, closing a socket.
\<close>

datatype server_action =
  ToClient client_call | ToRx "u8 list queue_message" | ToTx "u8 list queue_message" | CloseSocket int

definition invalid_request :: "u32 \<Rightarrow> server_action" where
  "invalid_request rid = ToClient (SendResponse rid RESPONSE_STATUS_FAILURE RESPONSE_DETAILS_INVALID_REQUEST)"

section \<open>Requests\<close>

definition tcp_comm_parameters :: "message_header \<Rightarrow> tcp_server \<Rightarrow> server_action list option" where
  "tcp_comm_parameters header srv = do {
     let n = unat (message_length header);
     (code, settings) \<leftarrow> api_decode_comm_settings (Some (srv_buffer srv)) n;
     (if code \<noteq> 0 then Some [invalid_request (request_id header)]
      else if type header = MESSAGE_TYPE_TX_COMM_PARAMETERS then
        (if \<not> has_tx_worker srv then Some [invalid_request (request_id header)]
         else Some [ToTx (sdr_tx_worker_set_comm_parameters (request_id header) (srv_buffer srv) n)])
      else if type header = MESSAGE_TYPE_RX_COMM_PARAMETERS then
        Some [ToRx (sdr_rx_worker_set_comm_parameters (request_id header) (srv_buffer srv) n)]
      else Some []) }"

definition tcp_tx_frame :: "message_header \<Rightarrow> tcp_server \<Rightarrow> server_action list" where
  "tcp_tx_frame header srv =
    (if message_length header > srv_max_frame_size srv then []
     else if \<not> has_tx_worker srv then [invalid_request (request_id header)]
     else [ToTx (sdr_tx_worker_send (request_id header) (srv_buffer srv) (unat (message_length header)))])"

text \<open>The switch over the type of a request whose payload is in the buffer.\<close>

definition tcp_dispatch :: "message_header \<Rightarrow> tcp_server \<Rightarrow> (tcp_server \<times> server_action list) option" where
  "tcp_dispatch header srv =
    (if type header \<in> {MESSAGE_TYPE_RX_COMM_PARAMETERS, MESSAGE_TYPE_TX_COMM_PARAMETERS} then do {
       out \<leftarrow> tcp_comm_parameters header srv;
       Some (srv, out) }
     else if type header = MESSAGE_TYPE_TX_FRAME then Some (srv, tcp_tx_frame header srv)
     else if type header = MESSAGE_TYPE_RX_START then Some (srv, [ToRx (sdr_rx_worker_start (request_id header))])
     else if type header = MESSAGE_TYPE_RX_STOP then Some (srv, [ToRx (sdr_rx_worker_stop (request_id header))])
     else if type header = MESSAGE_TYPE_PING then
       Some (srv, [ToClient (SendResponse (request_id header) RESPONSE_STATUS_SUCCESS RESPONSE_DETAILS_NO_DETAILS)])
     else if type header = MESSAGE_TYPE_SHUTDOWN then
       Some (srv\<lparr>client_disconnected := True\<rparr>, [ToClient (SendNew (-1))])
     else Some (srv, [invalid_request (request_id header)]))"

text \<open>One turn of the loop of \<^verbatim>\<open>tcp_worker_callback\<close>; the flag says that the loop was left by \<^verbatim>\<open>break\<close>.\<close>

definition tcp_turn :: "tcp_server \<Rightarrow> sock_event list \<Rightarrow> (bool \<times> tcp_server \<times> sock_event list \<times> server_action list) option" where
  "tcp_turn srv s = do {
     (code, buf, s1) \<leftarrow> tcp_utils_read_data (srv_buffer srv) API_HEADER_SIZE s;
     let srv1 = srv\<lparr>srv_buffer := buf\<rparr>;
     (if code < -1 then Some (False, srv1, s1, [])
      else if code = -1 then Some (True, srv1\<lparr>client_disconnected := True\<rparr>, s1, [ToClient (SendNew (-1))])
      else do {
        (code, ho) \<leftarrow> api_decode_message_header (Some buf) API_HEADER_SIZE;
        (if code \<noteq> 0 then Some (False, srv1, s1, [])
         else do {
           header \<leftarrow> ho;
           (if protocol_version header \<noteq> PROTOCOL_VERSION then Some (False, srv1, s1, [invalid_request (request_id header)])
            else if unat (message_length header) > buffer_length srv1 then
              Some (True, srv1\<lparr>client_disconnected := True\<rparr>, s1, [invalid_request (request_id header), ToClient (SendNew (-1))])
            else do {
              (code, buf2, s2) \<leftarrow> tcp_utils_read_data buf (unat (message_length header)) s1;
              let srv2 = srv1\<lparr>srv_buffer := buf2\<rparr>;
              (if code \<noteq> 0 then Some (False, srv2, s2, [])
               else do {
                 (srv3, out) \<leftarrow> tcp_dispatch header srv2;
                 Some (False, srv3, s2, out) }) }) }) }) }"

text \<open>\<open>running k\<close> is what turn \<open>k\<close> reads from \<^verbatim>\<open>is_running\<close>, which another thread clears to stop the server.\<close>

partial_function (option) tcp_loop ::
  "(nat \<Rightarrow> bool) \<Rightarrow> tcp_server \<Rightarrow> sock_event list \<Rightarrow> (tcp_server \<times> sock_event list \<times> server_action list) option" where
  "tcp_loop running srv s =
    (if \<not> running 0 \<or> client_disconnected srv then Some (srv, s, [])
     else do {
       (brk, srv1, s1, out) \<leftarrow> tcp_turn srv s;
       (if brk then Some (srv1, s1, out)
        else do {
          (srv2, s2, out2) \<leftarrow> tcp_loop (\<lambda>k. running (Suc k)) srv1 s1;
          Some (srv2, s2, out @ out2) }) })"

definition tcp_worker_callback ::
  "(nat \<Rightarrow> bool) \<Rightarrow> tcp_server \<Rightarrow> sock_event list \<Rightarrow> (tcp_server \<times> server_action list) option" where
  "tcp_worker_callback running srv s = do {
     (srv1, s1, out) \<leftarrow> tcp_loop running srv s;
     Some (srv1, out @ [ToRx (sdr_rx_worker_stop 0), CloseSocket (srv_client_socket srv1)]) }"

section \<open>Connections\<close>

text \<open>
  What the acceptor meets in one round of its loop: whether \<^verbatim>\<open>is_running\<close> still holds, the answers of
  \<^verbatim>\<open>accept\<close> and \<^verbatim>\<open>setsockopt\<close>, and what the client does on the connection.
\<close>

record connection =
  running_before :: bool
  accept_fd :: int
  sockopt_code :: int
  incoming :: "sock_event list"
  running_during :: "nat \<Rightarrow> bool"

fun acceptor_worker :: "connection list \<Rightarrow> tcp_server \<Rightarrow> (tcp_server \<times> server_action list) option" where
  "acceptor_worker [] srv = Some (srv, [])"
| "acceptor_worker (c # cs) srv =
    (if \<not> running_before c then Some (srv, [])
     else let srv1 = srv\<lparr>srv_client_socket := accept_fd c\<rparr> in
       if accept_fd c < 0 then Some (srv1, [])
       else if sockopt_code c \<noteq> 0 then do {
         (srv2, out) \<leftarrow> acceptor_worker cs srv1;
         Some (srv2, CloseSocket (accept_fd c) # out) }
       else do {
         let srv2 = srv1\<lparr>client_counter := client_counter srv1 + 1, client_disconnected := False\<rparr>;
         (srv3, out) \<leftarrow> tcp_worker_callback (running_during c) srv2 (incoming c);
         (srv4, out2) \<leftarrow> acceptor_worker cs srv3;
         Some (srv4, ToClient (SendNew (accept_fd c)) # out @ out2) })"

text \<open>The buffer of the server: \<^verbatim>\<open>config->sdr_buffer_len + API_HEADER_SIZE + 100\<close> is computed in 32 bits.\<close>

definition server_buffer_length :: "u32 \<Rightarrow> nat" where
  "server_buffer_length sdr_len = unat (sdr_len + of_nat API_HEADER_SIZE + 100)"

definition new_server :: "app_config \<Rightarrow> bool \<Rightarrow> tcp_server" where
  "new_server config tx = \<lparr>client_counter = - 1, client_disconnected = False, srv_client_socket = 0, has_tx_worker = tx,
     srv_max_frame_size = cfg_max_frame_size config,
     srv_buffer = replicate (server_buffer_length (cfg_sdr_buffer_len config)) 0,
     buffer_length = server_buffer_length (cfg_sdr_buffer_len config)\<rparr>"

section \<open>Construction and destruction\<close>

text \<open>
  The resources of a server. The workers keep pointers to the device and to the client worker, so
  these must outlive them.
\<close>

datatype part = Server_struct | Server_buffer | Sdr_device | Client_worker | Rx_worker | Tx_worker

fun users :: "part \<Rightarrow> part set" where
  "users Sdr_device = {Rx_worker, Tx_worker}"
| "users Client_worker = {Rx_worker, Tx_worker}"
| "users Server_struct = {Server_buffer, Sdr_device, Client_worker, Rx_worker, Tx_worker}"
| "users _ = {}"

text \<open>The order of \<^verbatim>\<open>tcp_server_destroy\<close>.\<close>

definition destroy_order :: "part list" where
  "destroy_order = [Rx_worker, Tx_worker, Client_worker, Sdr_device, Server_buffer, Server_struct]"

definition tcp_server_destroy :: "part set \<Rightarrow> part set option" where
  "tcp_server_destroy ps = release_all users destroy_order ps"

text \<open>The answers of the calls that \<^verbatim>\<open>tcp_server_create\<close> makes, in their order.\<close>

record create_env =
  env_malloc :: bool
  env_socket :: int
  env_buffer :: bool
  env_sdr :: int
  env_client_worker :: int
  env_rx_worker :: int
  env_device_sends :: bool
  env_tx_worker :: int
  env_reuseaddr :: int
  env_reuseport :: int
  env_inet_pton :: int
  env_bind :: int
  env_listen :: int
  env_pthread :: int

definition create_steps :: "create_env \<Rightarrow> part step list" where
  "create_steps e = [
     (env_socket e \<noteq> 0, -1, None),
     (env_buffer e, - ENOMEM, Some Server_buffer),
     (env_sdr e = 0, -1, Some Sdr_device),
     (env_client_worker e = 0, -1, Some Client_worker),
     (env_rx_worker e = 0, -1, Some Rx_worker)]
     @ (if env_device_sends e then [(env_tx_worker e = 0, -1, Some Tx_worker)] else [])
     @ [(env_reuseaddr e = 0, -1, None),
     (env_reuseport e = 0, -1, None),
     (env_inet_pton e > 0, -1, None),
     (env_bind e \<ge> 0, -1, None),
     (env_listen e \<ge> 0, -1, None),
     (env_pthread e = 0, -1, None)]"

definition tcp_server_create :: "create_env \<Rightarrow> (int \<times> part set) option" where
  "tcp_server_create e =
    (if \<not> env_malloc e then Some (- ENOMEM, {})
     else construct users destroy_order (create_steps e) {Server_struct})"

text \<open>\<^verbatim>\<open>tcp_server_shutdown\<close>: the flag and what happens to the listening socket.\<close>

datatype socket_state = Listening | Shut_down | Closed

definition tcp_server_shutdown :: "int \<Rightarrow> bool \<times> socket_state \<Rightarrow> bool \<times> socket_state" where
  "tcp_server_shutdown shutdown_code st = (False, if shutdown_code \<noteq> 0 then Closed else Shut_down)"

definition tcp_server_join_thread :: "bool \<Rightarrow> connection list \<Rightarrow> tcp_server \<Rightarrow> part set \<Rightarrow> (part set \<times> server_action list) option" where
  "tcp_server_join_thread thread_started cs srv ps = do {
     (_, out) \<leftarrow> (if thread_started then acceptor_worker cs srv else Some (srv, []));
     ps' \<leftarrow> tcp_server_destroy ps;
     Some (ps', out) }"

section \<open>Safety of a session\<close>

definition server_ok :: "tcp_server \<Rightarrow> bool" where
  "server_ok srv \<longleftrightarrow> buffer_length srv = length (srv_buffer srv) \<and> API_HEADER_SIZE \<le> buffer_length srv"

text \<open>Calls that stay within their buffers and belong to a session: a response, or the end of the client.\<close>

fun action_ok :: "server_action \<Rightarrow> bool" where
  "action_ok (ToClient (SendResponse i st de)) = True"
| "action_ok (ToClient (SendNew fd)) = (fd = -1)"
| "action_ok (ToClient _) = False"
| "action_ok (ToRx m) = sized m"
| "action_ok (ToTx m) = sized m"
| "action_ok (CloseSocket fd) = False"

lemma invalid_request_ok [simp]: "action_ok (invalid_request i)"
  by (simp add: invalid_request_def)

lemma tcp_dispatch_safe:
  assumes "unat (message_length h) \<le> length (srv_buffer srv)"
  shows "\<exists>srv' out. tcp_dispatch h srv = Some (srv', out) \<and> srv_buffer srv' = srv_buffer srv \<and> buffer_length srv' = buffer_length srv \<and>
    srv_client_socket srv' = srv_client_socket srv \<and> list_all action_ok out \<and> length out \<le> 1"
proof -
  have "\<exists>out. tcp_comm_parameters h srv = Some out \<and> list_all action_ok out \<and> length out \<le> 1"
    using settings_codec.decode_total [OF assms] assms
    by (auto simp: tcp_comm_parameters_def Let_def sized_def sdr_tx_worker_set_comm_parameters_def sdr_rx_worker_set_comm_parameters_def)
  then show ?thesis
    using assms by (auto simp: tcp_dispatch_def tcp_tx_frame_def sized_def sdr_tx_worker_send_def sdr_rx_worker_start_def
        sdr_rx_worker_stop_def sdr_rx_worker_put_empty_def)
qed

lemma header_decodes:
  assumes "10 \<le> length buf"
  obtains h where "api_decode_message_header (Some buf) API_HEADER_SIZE = Some (0, Some h)" "take API_HEADER_SIZE buf = wire_header h"
proof -
  have "\<exists>h. api_decode_message_header (Some buf) 10 = Some (0, Some h)"
    using header_codec.decode_total [of 10 buf] assms by (auto simp: api_decode_message_header_def split: bind_splits)
  then show thesis using that header_codec.decode_sound [of 10 buf] assms by auto
qed

text \<open>What the socket still has to offer decreases with every turn that goes on.\<close>

definition offer :: "sock_event list \<Rightarrow> nat" where
  "offer s = length s + length (inbound s)"

lemma read_offer:
  assumes "len \<le> length buf"
  obtains code buf' s' where "tcp_utils_read_data buf len s = Some (code, buf', s')" "code \<in> {0, -1, - EAGAIN}"
    "length buf' = length buf" "offer s' \<le> offer s" "code = 0 \<Longrightarrow> 0 < len \<Longrightarrow> offer s' < offer s" "code = - EAGAIN \<Longrightarrow> offer s' < offer s"
proof -
  from tcp_utils_read_data_spec [OF assms, of s] obtain code buf' n s' where
    r: "tcp_utils_read_data buf len s = Some (code, buf', s')" "code \<in> {0, -1, - EAGAIN}" "code = 0 \<longrightarrow> n = len"
      "inbound s = take n buf' @ inbound s'" "length buf' = length buf" "n \<le> len" by blast
  have len: "length s' \<le> length s" "code \<notin> {0, -1} \<longrightarrow> length s' < length s"
    using read_data_loop_shrinks [of buf len 0 0 s code buf' s'] r(1) by (simp_all add: tcp_utils_read_data_def)
  have "length (inbound s) = n + length (inbound s')" using r(4-6) assms by simp
  with r len show thesis by (intro that [of code buf' s']) (auto simp: offer_def)
qed

lemma tcp_turn_safe:
  assumes ok: "server_ok srv"
  shows "\<exists>brk srv' s' out. tcp_turn srv s = Some (brk, srv', s', out) \<and> server_ok srv' \<and> list_all action_ok out \<and>
    srv_client_socket srv' = srv_client_socket srv \<and> (\<not> brk \<longrightarrow> offer s' < offer s)"
proof -
  have room: "API_HEADER_SIZE \<le> length (srv_buffer srv)" using ok by (simp add: server_ok_def)
  obtain code buf s1 where r1: "tcp_utils_read_data (srv_buffer srv) API_HEADER_SIZE s = Some (code, buf, s1)" "code \<in> {0, -1, - EAGAIN}"
      "length buf = length (srv_buffer srv)" "code = 0 \<Longrightarrow> offer s1 < offer s" "code = - EAGAIN \<Longrightarrow> offer s1 < offer s"
    by (rule read_offer [OF room, of s]) auto
  have ok1: "server_ok (srv\<lparr>srv_buffer := buf\<rparr>)" using ok r1(3) by (simp add: server_ok_def)
  show ?thesis
  proof (cases "code = 0")
    case False
    with r1 ok1 show ?thesis by (auto simp: tcp_turn_def server_ok_def)
  next
    case True
    obtain h where h: "api_decode_message_header (Some buf) API_HEADER_SIZE = Some (0, Some h)"
      using header_decodes [of buf] room r1(3) by auto
    show ?thesis
    proof (cases "protocol_version h \<noteq> PROTOCOL_VERSION \<or> unat (message_length h) > buffer_length srv")
      case True
      with r1 ok1 h \<open>code = 0\<close> show ?thesis
        by (cases "protocol_version h = 0") (auto simp: tcp_turn_def server_ok_def Let_def)
    next
      case False
      then have fits: "unat (message_length h) \<le> length buf" using ok r1(3) by (simp add: server_ok_def)
      obtain code2 buf2 s2 where r2: "tcp_utils_read_data buf (unat (message_length h)) s1 = Some (code2, buf2, s2)"
          "length buf2 = length buf" "offer s2 \<le> offer s1"
        by (rule read_offer [OF fits, of s1]) auto
      let ?srv2 = "srv\<lparr>srv_buffer := buf2\<rparr>"
      from tcp_dispatch_safe [of h ?srv2] fits r2(2) obtain srv3 out where d: "tcp_dispatch h ?srv2 = Some (srv3, out)"
          "srv_buffer srv3 = buf2" "buffer_length srv3 = buffer_length srv" "srv_client_socket srv3 = srv_client_socket srv"
          "list_all action_ok out" by auto
      have less: "offer s2 < offer s" using r1(4) \<open>code = 0\<close> r2(3) by simp
      show ?thesis
      proof (cases "code2 = 0")
        case True
        then show ?thesis using False r1 r2 h d ok less \<open>code = 0\<close> by (auto simp: tcp_turn_def server_ok_def)
      next
        case False2: False
        then show ?thesis using False r1 r2 h ok less \<open>code = 0\<close> by (auto simp: tcp_turn_def server_ok_def)
      qed
    qed
  qed
qed

lemma tcp_loop_safe:
  "server_ok srv \<Longrightarrow> \<exists>srv' s' out. tcp_loop running srv s = Some (srv', s', out) \<and> server_ok srv' \<and> list_all action_ok out \<and>
     srv_client_socket srv' = srv_client_socket srv"
proof (induction "offer s" arbitrary: running srv s rule: less_induct)
  case less
  show ?case
  proof (cases "\<not> running 0 \<or> client_disconnected srv")
    case True
    with less.prems show ?thesis by (simp add: tcp_loop.simps [of running srv s])
  next
    case False
    from tcp_turn_safe [OF less.prems, of s] obtain brk srv1 s1 out where t: "tcp_turn srv s = Some (brk, srv1, s1, out)"
        "server_ok srv1" "list_all action_ok out" "srv_client_socket srv1 = srv_client_socket srv" "\<not> brk \<longrightarrow> offer s1 < offer s"
      by blast
    show ?thesis
    proof (cases brk)
      case True
      with t False show ?thesis by (simp add: tcp_loop.simps [of running srv s])
    next
      case go: False
      with less.hyps [of s1 srv1 "\<lambda>k. running (Suc k)"] t obtain srv2 s2 out2 where
        "tcp_loop (\<lambda>k. running (Suc k)) srv1 s1 = Some (srv2, s2, out2)" "server_ok srv2" "list_all action_ok out2"
        "srv_client_socket srv2 = srv_client_socket srv1" by auto
      with t False go show ?thesis by (simp add: tcp_loop.simps [of running srv s])
    qed
  qed
qed

section \<open>The protocol\<close>

text \<open>
  What a client may rely on, as a function of the bytes it sends, whatever chunks they arrive in: a
  request is a header and its payload; a message for a worker is its type, request id and payload.
\<close>

datatype answer = Reply client_call | Rx msg | Tx msg

fun answer_of :: "server_action \<Rightarrow> answer option" where
  "answer_of (ToClient c) = Some (Reply c)"
| "answer_of (ToRx m) = Some (Rx (msg_of m))"
| "answer_of (ToTx m) = Some (Tx (msg_of m))"
| "answer_of (CloseSocket fd) = None"

record limits =
  lim_buffer :: nat
  lim_frame :: u32
  lim_tx :: bool

abbreviation (input) failure :: "u32 \<Rightarrow> answer" where
  "failure i \<equiv> Reply (SendResponse i RESPONSE_STATUS_FAILURE RESPONSE_DETAILS_INVALID_REQUEST)"

definition settings_in :: "u8 list \<Rightarrow> bool" where
  "settings_in payload \<longleftrightarrow> (\<exists>s r. settings_valid s \<and> payload = wire_settings s @ r)"

definition answer_request :: "limits \<Rightarrow> message_header \<Rightarrow> u8 list \<Rightarrow> answer list" where
  "answer_request lim h payload = (let i = request_id h in
     if type h = MESSAGE_TYPE_RX_COMM_PARAMETERS then [if settings_in payload then Rx (SDR_RX_COMM_PARAMETERS, i, payload) else failure i]
     else if type h = MESSAGE_TYPE_TX_COMM_PARAMETERS then
       [if settings_in payload \<and> lim_tx lim then Tx (SDR_TX_COMM_PARAMETERS, i, payload) else failure i]
     else if type h = MESSAGE_TYPE_TX_FRAME then
       (if lim_frame lim < message_length h then [] else if lim_tx lim then [Tx (SDR_TX_FRAME, i, payload)] else [failure i])
     else if type h = MESSAGE_TYPE_RX_START then [Rx (SDR_RX_START, i, [])]
     else if type h = MESSAGE_TYPE_RX_STOP then [Rx (SDR_RX_STOP, i, [])]
     else if type h = MESSAGE_TYPE_PING then [Reply (SendResponse i RESPONSE_STATUS_SUCCESS RESPONSE_DETAILS_NO_DETAILS)]
     else if type h = MESSAGE_TYPE_SHUTDOWN then [Reply (SendNew (-1))]
     else [failure i])"

definition header_of :: "u8 list \<Rightarrow> message_header" where
  "header_of bytes = (case api_decode_message_header (Some bytes) API_HEADER_SIZE of
     Some (_, Some h) \<Rightarrow> h | _ \<Rightarrow> \<lparr>protocol_version = 0, type = 0, request_id = 0, message_length = 0\<rparr>)"

function session :: "limits \<Rightarrow> u8 list \<Rightarrow> answer list" where
  "session lim bytes =
    (if length bytes < API_HEADER_SIZE then [Reply (SendNew (-1))]
     else let h = header_of bytes; n = unat (message_length h); rest = drop API_HEADER_SIZE bytes in
       if protocol_version h \<noteq> PROTOCOL_VERSION then failure (request_id h) # session lim rest
       else if lim_buffer lim < n then [failure (request_id h), Reply (SendNew (-1))]
       else if length rest < n then [Reply (SendNew (-1))]
       else answer_request lim h (take n rest) @ (if type h = MESSAGE_TYPE_SHUTDOWN then [] else session lim (drop n rest)))"
  by pat_completeness auto
termination
  by (relation "measure (length \<circ> snd)") auto

declare session.simps [simp del]

definition limits_of :: "tcp_server \<Rightarrow> limits" where
  "limits_of srv = \<lparr>lim_buffer = buffer_length srv, lim_frame = srv_max_frame_size srv, lim_tx = has_tx_worker srv\<rparr>"

lemma header_of_wire: "header_of (wire_header h @ r) = h"
  using header_codec.decode_wire [of h 10 r] by (simp add: header_of_def)

lemma header_of_take: "take 10 buf = take 10 bytes \<Longrightarrow> 10 \<le> length buf \<Longrightarrow> 10 \<le> length bytes \<Longrightarrow>
  api_decode_message_header (Some buf) API_HEADER_SIZE = Some (0, Some (header_of bytes))"
proof -
  assume t: "take 10 buf = take 10 bytes" and l: "10 \<le> length buf" "10 \<le> length bytes"
  obtain h where h: "api_decode_message_header (Some buf) 10 = Some (0, Some h)" "take 10 buf = wire_header h"
    using header_decodes [OF l(1)] by blast
  have "bytes = wire_header h @ drop 10 bytes" using h(2) t by (metis append_take_drop_id)
  then have "header_of bytes = h" using header_of_wire by metis
  with h show ?thesis by simp
qed

lemma settings_in_iff:
  assumes "n \<le> length buf"
  shows "(\<exists>s. api_decode_comm_settings (Some buf) n = Some (0, Some s)) \<longleftrightarrow> settings_in (take n buf)"
  using settings_codec.accepts_exactly [OF assms] by (auto simp: settings_in_def)

lemma tcp_dispatch_answers:
  assumes "n = unat (message_length h)" "n \<le> length (srv_buffer srv)"
  shows "\<exists>srv' out. tcp_dispatch h srv = Some (srv', out) \<and>
    map answer_of out = map Some (answer_request (limits_of srv) h (take n (srv_buffer srv))) \<and>
    srv' = srv\<lparr>client_disconnected := client_disconnected srv \<or> type h = MESSAGE_TYPE_SHUTDOWN\<rparr>"
proof -
  have comm: "\<exists>out. tcp_comm_parameters h srv = Some out \<and>
      map answer_of out = map Some (answer_request (limits_of srv) h (take n (srv_buffer srv)))"
    if "type h = MESSAGE_TYPE_RX_COMM_PARAMETERS \<or> type h = MESSAGE_TYPE_TX_COMM_PARAMETERS"
    using settings_codec.decode_total [OF assms(2)] settings_in_iff [OF assms(2)] that assms(1)
    by (auto simp: tcp_comm_parameters_def answer_request_def limits_of_def invalid_request_def msg_of_def Let_def
        sdr_tx_worker_set_comm_parameters_def sdr_rx_worker_set_comm_parameters_def)
  show ?thesis
  proof (cases "type h = MESSAGE_TYPE_RX_COMM_PARAMETERS \<or> type h = MESSAGE_TYPE_TX_COMM_PARAMETERS")
    case True
    with comm show ?thesis by (auto simp: tcp_dispatch_def)
  next
    case False
    then show ?thesis
      by (auto simp: tcp_dispatch_def tcp_tx_frame_def answer_request_def limits_of_def invalid_request_def msg_of_def Let_def assms(1)
          sdr_tx_worker_send_def sdr_rx_worker_start_def sdr_rx_worker_stop_def sdr_rx_worker_put_empty_def not_less)
  qed
qed

text \<open>One turn on a steady connection, in the five ways it can go.\<close>

lemma server_room: "server_ok srv \<Longrightarrow> API_HEADER_SIZE \<le> length (srv_buffer srv)" "server_ok srv \<Longrightarrow> buffer_length srv = length (srv_buffer srv)"
  by (simp_all add: server_ok_def)

lemma turn_closed:
  assumes "server_ok srv" "steady s" "length (inbound s) < API_HEADER_SIZE"
  shows "\<exists>srv' s'. tcp_turn srv s = Some (True, srv', s', [ToClient (SendNew (-1))])"
proof -
  from steady_read_data [OF assms(2) server_room(1) [OF assms(1)]] assms(3) obtain buf where
    "tcp_utils_read_data (srv_buffer srv) API_HEADER_SIZE s = Some (-1, buf, [])"
    by (metis not_less)
  then show ?thesis by (simp add: tcp_turn_def)
qed

lemma steady_header:
  assumes "server_ok srv" "steady s" "API_HEADER_SIZE \<le> length (inbound s)"
  obtains buf s1 where "tcp_utils_read_data (srv_buffer srv) API_HEADER_SIZE s = Some (0, buf, s1)" "steady s1"
    "length buf = length (srv_buffer srv)" "inbound s1 = drop API_HEADER_SIZE (inbound s)"
    "api_decode_message_header (Some buf) API_HEADER_SIZE = Some (0, Some (header_of (inbound s)))"
proof (rule steady_read_data [OF assms(2) server_room(1) [OF assms(1)]])
  fix buf s1
  assume "tcp_utils_read_data (srv_buffer srv) 10 s = Some (0, buf, s1)" "steady s1" "length buf = length (srv_buffer srv)"
    "take 10 buf = take 10 (inbound s)" "inbound s1 = drop 10 (inbound s)"
  with header_of_take [of buf "inbound s"] assms(3) server_room(1) [OF assms(1)] show thesis by (intro that) auto
qed (use assms(3) in simp)

lemma turn_version:
  assumes "server_ok srv" "steady s" "API_HEADER_SIZE \<le> length (inbound s)" "protocol_version (header_of (inbound s)) \<noteq> PROTOCOL_VERSION"
  shows "\<exists>buf s'. length buf = length (srv_buffer srv) \<and> steady s' \<and> inbound s' = drop API_HEADER_SIZE (inbound s) \<and>
    tcp_turn srv s = Some (False, srv\<lparr>srv_buffer := buf\<rparr>, s', [invalid_request (request_id (header_of (inbound s)))])"
  by (rule steady_header [OF assms(1-3)]) (use assms(4) in \<open>auto simp: tcp_turn_def\<close>)

lemma turn_oversize:
  assumes "server_ok srv" "steady s" "API_HEADER_SIZE \<le> length (inbound s)" "protocol_version (header_of (inbound s)) = PROTOCOL_VERSION"
    and "buffer_length srv < unat (message_length (header_of (inbound s)))"
  shows "\<exists>srv' s'. tcp_turn srv s = Some (True, srv', s', [invalid_request (request_id (header_of (inbound s))), ToClient (SendNew (-1))])"
  by (rule steady_header [OF assms(1-3)]) (use assms(4,5) in \<open>auto simp: tcp_turn_def Let_def\<close>)

lemma turn_served:
  assumes srv: "server_ok srv" "steady s" and h: "h = header_of (inbound s)" and n: "n = unat (message_length h)"
    and req: "API_HEADER_SIZE + n \<le> length (inbound s)" "protocol_version h = PROTOCOL_VERSION" "n \<le> buffer_length srv"
  shows "\<exists>buf s' out. length buf = length (srv_buffer srv) \<and> steady s' \<and> inbound s' = drop n (drop API_HEADER_SIZE (inbound s)) \<and>
    map answer_of out = map Some (answer_request (limits_of srv) h (take n (drop API_HEADER_SIZE (inbound s)))) \<and>
    tcp_turn srv s = Some (False, srv\<lparr>srv_buffer := buf, client_disconnected := client_disconnected srv \<or> type h = MESSAGE_TYPE_SHUTDOWN\<rparr>, s', out)"
proof -
  have "API_HEADER_SIZE \<le> length (inbound s)" using req(1) by simp
  then obtain buf s1 where r1: "tcp_utils_read_data (srv_buffer srv) API_HEADER_SIZE s = Some (0, buf, s1)" "steady s1"
    "length buf = length (srv_buffer srv)" "inbound s1 = drop API_HEADER_SIZE (inbound s)"
    "api_decode_message_header (Some buf) API_HEADER_SIZE = Some (0, Some h)"
    unfolding h by (rule steady_header [OF srv])
  have "n \<le> length buf" using req(3) server_room(2) [OF srv(1)] r1(3) by simp
  then obtain buf2 s2 where r2: "tcp_utils_read_data buf n s1 = Some (0, buf2, s2)" "steady s2" "length buf2 = length buf"
      "take n buf2 = take n (inbound s1)" "inbound s2 = drop n (inbound s1)"
    by (rule steady_read_data [OF r1(2)]) (use req(1) r1(4) in auto)
  have "n \<le> length (srv_buffer (srv\<lparr>srv_buffer := buf2\<rparr>))" using \<open>n \<le> length buf\<close> r2(3) by simp
  from tcp_dispatch_answers [OF n this] obtain srv' out where
    d: "tcp_dispatch h (srv\<lparr>srv_buffer := buf2\<rparr>) = Some (srv', out)"
      "map answer_of out = map Some (answer_request (limits_of srv) h (take n buf2))"
      "srv' = srv\<lparr>srv_buffer := buf2, client_disconnected := client_disconnected srv \<or> type h = MESSAGE_TYPE_SHUTDOWN\<rparr>"
    by (auto simp: limits_of_def)
  have "tcp_turn srv s = Some (False, srv', s2, out)" using r1(1,5) r2(1) req(2,3) d(1) n by (simp add: tcp_turn_def)
  with r1 r2 d show ?thesis by (intro exI [of _ buf2] exI [of _ s2] exI [of _ out]) simp
qed

lemma turn_truncated:
  assumes srv: "server_ok srv" "steady s" and h: "h = header_of (inbound s)" and n: "n = unat (message_length h)"
    and req: "API_HEADER_SIZE \<le> length (inbound s)" "length (inbound s) < API_HEADER_SIZE + n" "protocol_version h = PROTOCOL_VERSION"
      "n \<le> buffer_length srv"
  shows "\<exists>buf. length buf = length (srv_buffer srv) \<and> tcp_turn srv s = Some (False, srv\<lparr>srv_buffer := buf\<rparr>, [], [])"
proof -
  obtain buf s1 where r1: "tcp_utils_read_data (srv_buffer srv) API_HEADER_SIZE s = Some (0, buf, s1)" "steady s1"
    "length buf = length (srv_buffer srv)" "inbound s1 = drop API_HEADER_SIZE (inbound s)"
    "api_decode_message_header (Some buf) API_HEADER_SIZE = Some (0, Some h)"
    unfolding h by (rule steady_header [OF srv req(1)])
  have "n \<le> length buf" using req(4) server_room(2) [OF srv(1)] r1(3) by simp
  then obtain buf2 where r2: "tcp_utils_read_data buf n s1 = Some (-1, buf2, [])" "length buf2 = length buf"
    by (rule steady_read_data [OF r1(2)]) (use req(1,2) r1(4) in auto)
  with r1 req(3,4) n show ?thesis by (intro exI [of _ buf2]) (simp add: tcp_turn_def)
qed

lemma server_ok_buffer: "server_ok srv \<Longrightarrow> length buf = length (srv_buffer srv) \<Longrightarrow> server_ok (srv\<lparr>srv_buffer := buf, client_disconnected := b\<rparr>)"
  "server_ok srv \<Longrightarrow> length buf = length (srv_buffer srv) \<Longrightarrow> server_ok (srv\<lparr>srv_buffer := buf\<rparr>)"
  by (simp_all add: server_ok_def)

lemma limits_of_buffer [simp]: "limits_of (srv\<lparr>srv_buffer := buf\<rparr>) = limits_of srv"
  "limits_of (srv\<lparr>srv_buffer := buf, client_disconnected := b\<rparr>) = limits_of srv"
  by (simp_all add: limits_of_def)

lemma tcp_loop_session:
  "server_ok srv \<Longrightarrow> steady s \<Longrightarrow> \<not> client_disconnected srv \<Longrightarrow>
   \<exists>srv' s' out. tcp_loop (\<lambda>_. True) srv s = Some (srv', s', out) \<and> map answer_of out = map Some (session (limits_of srv) (inbound s))"
proof (induction "length (inbound s)" arbitrary: srv s rule: less_induct)
  case less
  note step = tcp_loop.simps [of "\<lambda>_. True" srv s]
  let ?h = "header_of (inbound s)" and ?n = "unat (message_length (header_of (inbound s)))"
  note spec = session.simps [of "limits_of srv" "inbound s", unfolded Let_def limits_of_def limits.select_convs, folded limits_of_def]
  consider (closed) "length (inbound s) < API_HEADER_SIZE"
    | (version) "API_HEADER_SIZE \<le> length (inbound s)" "protocol_version ?h \<noteq> PROTOCOL_VERSION"
    | (oversize) "API_HEADER_SIZE \<le> length (inbound s)" "protocol_version ?h = PROTOCOL_VERSION" "buffer_length srv < ?n"
    | (truncated) "API_HEADER_SIZE \<le> length (inbound s)" "length (inbound s) < API_HEADER_SIZE + ?n" "protocol_version ?h = PROTOCOL_VERSION"
        "?n \<le> buffer_length srv"
    | (served) "API_HEADER_SIZE + ?n \<le> length (inbound s)" "protocol_version ?h = PROTOCOL_VERSION" "?n \<le> buffer_length srv"
    by linarith
  then show ?case
  proof cases
    case closed
    with turn_closed [OF less.prems(1,2)] less.prems(3) step show ?thesis by (auto simp: spec)
  next
    case version
    from turn_version [OF less.prems(1,2) version] obtain buf s1 where t: "length buf = length (srv_buffer srv)" "steady s1"
        "inbound s1 = drop 10 (inbound s)" "tcp_turn srv s = Some (False, srv\<lparr>srv_buffer := buf\<rparr>, s1, [invalid_request (request_id ?h)])"
      by blast
    have "length (inbound s1) < length (inbound s)" unfolding t(3) using version(1) by simp
    with less.hyps [of s1 "srv\<lparr>srv_buffer := buf\<rparr>"] t(1,2) less.prems server_ok_buffer(2) obtain srv' s' out where
      "tcp_loop (\<lambda>_. True) (srv\<lparr>srv_buffer := buf\<rparr>) s1 = Some (srv', s', out)" "map answer_of out = map Some (session (limits_of srv) (inbound s1))"
      by auto
    with t version less.prems(3) step show ?thesis by (auto simp: spec invalid_request_def)
  next
    case oversize
    with turn_oversize [OF less.prems(1,2)] less.prems(3) step show ?thesis by (auto simp: spec invalid_request_def)
  next
    case truncated
    from turn_truncated [OF less.prems(1,2) refl refl truncated] obtain buf where
      t: "length buf = length (srv_buffer srv)" "tcp_turn srv s = Some (False, srv\<lparr>srv_buffer := buf\<rparr>, [], [])" by blast
    have "length (inbound []) < length (inbound s)" using truncated(1) by auto
    with less.hyps [of "[]" "srv\<lparr>srv_buffer := buf\<rparr>"] t(1) less.prems server_ok_buffer(2) obtain srv' s' out where
      "tcp_loop (\<lambda>_. True) (srv\<lparr>srv_buffer := buf\<rparr>) [] = Some (srv', s', out)" "map answer_of out = map Some (session (limits_of srv) [])"
      by auto
    with t truncated less.prems(3) step show ?thesis by (auto simp: spec session.simps [of _ "[]"])
  next
    case served
    from turn_served [OF less.prems(1,2) refl refl served] obtain buf s1 out where t: "length buf = length (srv_buffer srv)" "steady s1"
        "inbound s1 = drop ?n (drop API_HEADER_SIZE (inbound s))"
        "map answer_of out = map Some (answer_request (limits_of srv) ?h (take ?n (drop API_HEADER_SIZE (inbound s))))"
        "tcp_turn srv s = Some (False, srv\<lparr>srv_buffer := buf, client_disconnected := client_disconnected srv \<or> type ?h = MESSAGE_TYPE_SHUTDOWN\<rparr>, s1, out)"
      by blast
    let ?srv = "srv\<lparr>srv_buffer := buf, client_disconnected := type ?h = MESSAGE_TYPE_SHUTDOWN\<rparr>"
    have whole: "\<not> length (drop API_HEADER_SIZE (inbound s)) < ?n" "\<not> length (inbound s) < API_HEADER_SIZE" using served(1) by auto
    have spec: "session (limits_of srv) (inbound s) = answer_request (limits_of srv) ?h (take ?n (drop API_HEADER_SIZE (inbound s))) @
        (if type ?h = MESSAGE_TYPE_SHUTDOWN then [] else session (limits_of srv) (inbound s1))"
      unfolding spec t(3) using whole served(2,3) by (simp add: not_less)
    show ?thesis
    proof (cases "type ?h = MESSAGE_TYPE_SHUTDOWN")
      case True
      with t(4,5) less.prems(3) step tcp_loop.simps [of "\<lambda>_. True" ?srv s1] show ?thesis by (simp add: spec)
    next
      case False
      have "length (inbound s1) < length (inbound s)" using t(3) served(1) by auto
      with less.hyps [of s1 ?srv] t(1,2) False less.prems server_ok_buffer(1) obtain srv' s' out2 where
        "tcp_loop (\<lambda>_. True) ?srv s1 = Some (srv', s', out2)" "map answer_of out2 = map Some (session (limits_of srv) (inbound s1))"
        by auto
      with t(4,5) less.prems(3) step False show ?thesis by (simp add: spec)
    qed
  qed
qed

section \<open>Connections and resources\<close>

text \<open>
  The actions of one connection: refused at once, or a session between the announcement of the
  client and the end, at which the receiver is stopped and the socket closed.
\<close>

definition connection_actions :: "int \<Rightarrow> server_action list \<Rightarrow> bool" where
  "connection_actions fd acts \<longleftrightarrow> acts = [CloseSocket fd] \<or>
     (\<exists>mid. list_all action_ok mid \<and> acts = ToClient (SendNew fd) # mid @ [ToRx (sdr_rx_worker_stop 0), CloseSocket fd])"

lemma tcp_worker_callback_safe:
  assumes "server_ok srv"
  shows "\<exists>srv' out. tcp_worker_callback running srv s = Some (srv', out @ [ToRx (sdr_rx_worker_stop 0), CloseSocket (srv_client_socket srv)]) \<and>
    server_ok srv' \<and> list_all action_ok out"
  using tcp_loop_safe [OF assms, of running s] by (auto simp: tcp_worker_callback_def)

lemma acceptor_safe:
  "server_ok srv \<Longrightarrow> \<exists>srv' segments fds. acceptor_worker cs srv = Some (srv', concat segments) \<and> server_ok srv' \<and>
     list_all2 connection_actions fds segments \<and> list_all (\<lambda>fd. 0 \<le> fd) fds"
proof (induction cs arbitrary: srv)
  case Nil
  then show ?case by (intro exI [of _ srv] exI [of _ "[]"]) simp
next
  case (Cons c cs)
  let ?srv1 = "srv\<lparr>srv_client_socket := accept_fd c\<rparr>"
  have ok1: "server_ok ?srv1" using Cons.prems by (simp add: server_ok_def)
  consider (stop) "\<not> running_before c \<or> accept_fd c < 0" | (refused) "running_before c" "0 \<le> accept_fd c" "sockopt_code c \<noteq> 0"
    | (session) "running_before c" "0 \<le> accept_fd c" "sockopt_code c = 0" by linarith
  then show ?case
  proof cases
    case stop
    with Cons.prems ok1 show ?thesis by (auto simp: Let_def intro!: exI [of _ "[]"])
  next
    case refused
    from Cons.IH [OF ok1] obtain srv' segments fds where r: "acceptor_worker cs ?srv1 = Some (srv', concat segments)" "server_ok srv'"
        "list_all2 connection_actions fds segments" "list_all (\<lambda>fd. 0 \<le> fd) fds" by blast
    moreover have "connection_actions (accept_fd c) [CloseSocket (accept_fd c)]" by (simp add: connection_actions_def)
    ultimately show ?thesis using refused
      by (intro exI [of _ srv'] exI [of _ "[CloseSocket (accept_fd c)] # segments"] exI [of _ "accept_fd c # fds"])
        (simp add: Let_def)
  next
    case session
    let ?srv2 = "?srv1\<lparr>client_counter := client_counter srv + 1, client_disconnected := False\<rparr>"
    have ok2: "server_ok ?srv2" using ok1 by (simp add: server_ok_def)
    from tcp_worker_callback_safe [OF this, of "running_during c" "incoming c"] obtain srv3 out where
      w: "tcp_worker_callback (running_during c) ?srv2 (incoming c) = Some (srv3, out @ [ToRx (sdr_rx_worker_stop 0), CloseSocket (accept_fd c)])"
        "server_ok srv3" "list_all action_ok out" by auto
    from Cons.IH [OF w(2)] obtain srv' segments fds where r: "acceptor_worker cs srv3 = Some (srv', concat segments)" "server_ok srv'"
        "list_all2 connection_actions fds segments" "list_all (\<lambda>fd. 0 \<le> fd) fds" by blast
    let ?seg = "ToClient (SendNew (accept_fd c)) # out @ [ToRx (sdr_rx_worker_stop 0), CloseSocket (accept_fd c)]"
    have "connection_actions (accept_fd c) ?seg" using w(3) by (auto simp: connection_actions_def)
    with session w r show ?thesis
      by (intro exI [of _ srv'] exI [of _ "?seg # segments"] exI [of _ "accept_fd c # fds"])
        (simp add: Let_def)
  qed
qed

interpretation server: component users destroy_order
proof
  show "ordered users {} destroy_order" by (simp add: destroy_order_def)
  show "p \<in> set destroy_order" for p by (cases p) (simp_all add: destroy_order_def)
qed

section \<open>Properties\<close>

text \<open>
  C5. No client can harm the server: whatever bytes arrive, in whatever chunks, with whatever timeouts,
  errors and disconnects, and whenever the server is stopped, serving a connection terminates and
  never leaves the buffer. Everything it hands to the queues of the workers lies within the buffer;
  at the end the receiver is stopped and the socket closed.
\<close>

theorem tcp_session_safe:
  assumes "server_ok srv"
  shows "\<exists>srv' out. tcp_worker_callback running srv s =
      Some (srv', out @ [ToRx (sdr_rx_worker_stop 0), CloseSocket (srv_client_socket srv)]) \<and>
    server_ok srv' \<and> list_all action_ok out"
  using assms by (rule tcp_worker_callback_safe)

definition sample_server :: tcp_server where
  "sample_server = \<lparr>client_counter = 0, client_disconnected = False, srv_client_socket = 5, has_tx_worker = True,
     srv_max_frame_size = 4, srv_buffer = replicate 64 0, buffer_length = 64\<rparr>"

lemma sample_server_ok: "server_ok sample_server"
  by (simp add: server_ok_def sample_server_def)

theorem tcp_session_safe_witness:
  "\<exists>srv' out. tcp_worker_callback (\<lambda>k. k < 9) sample_server [Data [0, 6, 0], Timeout, Data [0, 0, 1, 0, 0, 0, 9], Broken] =
      Some (srv', out @ [ToRx (sdr_rx_worker_stop 0), CloseSocket 5])"
  using tcp_session_safe [OF sample_server_ok, of "\<lambda>k. k < 9" "[Data [0, 6, 0], Timeout, Data [0, 0, 1, 0, 0, 0, 9], Broken]"]
  by (auto simp: sample_server_def)

text \<open>
  C4. The server implements its protocol: on a connection without read timeouts, what it answers and
  passes on is a function of the bytes the client sent, independent of the chunks they came in.
  Each request is answered or forwarded at most once, in order, under its own request id and with
  exactly its payload; the wrong version is refused, a message that does not fit ends the session,
  and so does \<^verbatim>\<open>SHUTDOWN\<close> or the end of the stream.
\<close>

theorem tcp_session_refines_protocol:
  assumes "server_ok srv" "steady s" "\<not> client_disconnected srv"
  shows "\<exists>srv' out. tcp_worker_callback (\<lambda>_. True) srv s =
      Some (srv', out @ [ToRx (sdr_rx_worker_stop 0), CloseSocket (srv_client_socket srv)]) \<and>
    map answer_of out = map Some (session (limits_of srv) (inbound s))"
proof -
  from tcp_loop_session [OF assms] obtain srv' s' out where
    r: "tcp_loop (\<lambda>_. True) srv s = Some (srv', s', out)" "map answer_of out = map Some (session (limits_of srv) (inbound s))" by blast
  from tcp_loop_safe [OF assms(1), of "\<lambda>_. True" s] r(1) have "srv_client_socket srv' = srv_client_socket srv" by auto
  with r show ?thesis by (auto simp: tcp_worker_callback_def)
qed

theorem tcp_session_refines_protocol_witness:
  "\<exists>srv' out. tcp_worker_callback (\<lambda>_. True) sample_server [Data [0, 2, 0], Interrupted, Data [0, 0, 7, 0, 0, 0, 0]] =
      Some (srv', out @ [ToRx (sdr_rx_worker_stop 0), CloseSocket 5]) \<and>
    map answer_of out = map Some (session (limits_of sample_server) [0, 2, 0, 0, 0, 7, 0, 0, 0, 0])"
  using tcp_session_refines_protocol [OF sample_server_ok, of "[Data [0, 2, 0], Interrupted, Data [0, 0, 7, 0, 0, 0, 0]]"]
  by (simp add: sample_server_def)

text \<open>
  C39. A pause between the header and the payload of a request desynchronises the stream: when a read
  timeout passes before the first byte of the payload, the request is dropped without an answer
  and the payload stays in the socket, where the next turn reads it as a header.
\<close>

theorem tcp_payload_timeout_desynchronises:
  assumes "server_ok srv" "protocol_version h = PROTOCOL_VERSION" "0 < message_length h" "unat (message_length h) \<le> buffer_length srv"
  shows "\<exists>srv'. tcp_turn srv (Data (wire_header h) # Timeout # s) = Some (False, srv', s, [])"
proof -
  have room: "10 \<le> length (srv_buffer srv)" "buffer_length srv = length (srv_buffer srv)" using assms(1) by (simp_all add: server_ok_def)
  let ?s = "Data (wire_header h) # Timeout # s" and ?buf = "wire_header h @ drop 10 (srv_buffer srv)"
  have ne: "wire_header h \<noteq> []" by (simp add: wire_header_def)
  have m: "memcpy (srv_buffer srv) 0 (wire_header h) 10 = Some ?buf" using room by (simp add: memcpy_def)
  have "read_loop (srv_buffer srv) 0 10 10 ?s = Some (0, ?buf, 10, Timeout # s)"
    unfolding read_loop.simps [of _ _ _ _ ?s] using ne m by (simp add: read_loop.simps [of _ _ _ 0])
  then have r1: "tcp_utils_read_data (srv_buffer srv) 10 ?s = Some (0, ?buf, Timeout # s)"
    unfolding tcp_utils_read_data_def read_data_loop.simps [of _ _ _ _ ?s] by (simp add: tcp_utils_read_data_partially_def)
  have n: "0 < unat (message_length h)" using assms(3) by (simp add: word_less_nat_alt)
  have "read_loop ?buf 0 (unat (message_length h)) (unat (message_length h)) (Timeout # s) = Some (- EAGAIN, ?buf, 0, s)"
    unfolding read_loop.simps [of _ _ _ _ "Timeout # s"] using n by simp
  then have r2: "tcp_utils_read_data ?buf (unat (message_length h)) (Timeout # s) = Some (- EAGAIN, ?buf, s)"
    unfolding tcp_utils_read_data_def read_data_loop.simps [of _ _ _ _ "Timeout # s"] by (simp add: tcp_utils_read_data_partially_def)
  have d: "api_decode_message_header (Some ?buf) 10 = Some (0, Some h)" using header_codec.decode_wire [of h 10] by simp
  show ?thesis using r1 r2 d assms(2,4) by (simp add: tcp_turn_def)
qed

theorem tcp_payload_timeout_desynchronises_witness:
  "\<exists>srv'. tcp_turn sample_server (Data (wire_header \<lparr>protocol_version = 0, type = 6, request_id = 1, message_length = 3\<rparr>) # Timeout # [Data [7, 8, 9]])
      = Some (False, srv', [Data [7, 8, 9]], [])"
  using tcp_payload_timeout_desynchronises [OF sample_server_ok, of "\<lparr>protocol_version = 0, type = 6, request_id = 1, message_length = 3\<rparr>" "[Data [7, 8, 9]]"]
  by (simp add: sample_server_def)

text \<open>
  C38. The buffer of the server has room for a header and for every message of at most the configured
  buffer size, unless the sum wraps around in 32 bits; for the ten values of \<^verbatim>\<open>sdr_buffer_len\<close>
  where it wraps to less than a header, the buffer is too small for the first read of any client.
\<close>

theorem tcp_server_buffer_wraps:
  "(server_ok (new_server config tx) \<longleftrightarrow> cfg_sdr_buffer_len config \<notin> {0xFFFFFF92 .. 0xFFFFFF9B}) \<and>
   (unat (cfg_sdr_buffer_len config) + 110 < 2 ^ 32 \<longrightarrow> buffer_length (new_server config tx) = unat (cfg_sdr_buffer_len config) + 110)"
proof -
  let ?x = "cfg_sdr_buffer_len config"
  have x: "unat ?x < 2 ^ 32" using unsigned_less [of ?x] by simp
  have len: "server_buffer_length ?x = (unat ?x + 110) mod 2 ^ 32"
    by (simp add: server_buffer_length_def add.assoc unat_word_ariths)
  have "10 \<le> server_buffer_length ?x \<longleftrightarrow> \<not> (2 ^ 32 - 110 \<le> unat ?x \<and> unat ?x < 2 ^ 32 - 100)"
    unfolding len using x by (auto simp: mod_if)
  moreover have "?x \<in> {0xFFFFFF92 .. 0xFFFFFF9B} \<longleftrightarrow> 2 ^ 32 - 110 \<le> unat ?x \<and> unat ?x < 2 ^ 32 - 100"
    by (auto simp: word_le_nat_alt)
  ultimately show ?thesis using len by (auto simp: server_ok_def new_server_def)
qed

theorem tcp_server_buffer_wraps_witness:
  "\<not> server_ok (new_server (app_config_zero\<lparr>cfg_sdr_buffer_len := word_of_int (-105)\<rparr>) True)"
  using tcp_server_buffer_wraps [of "app_config_zero\<lparr>cfg_sdr_buffer_len := word_of_int (-105)\<rparr>" True] by simp

text \<open>
  Connections are bracketed: for every sequence of connections the acceptor terminates, and its
  actions fall into one block per connection. A block announces the client, serves it, stops the
  receiver and closes exactly the socket that was accepted, or only closes it when it cannot be set
  up; no block touches another connection's socket.
\<close>

theorem tcp_connections_bracketed:
  assumes "server_ok srv"
  shows "\<exists>srv' segments fds. acceptor_worker cs srv = Some (srv', concat segments) \<and> server_ok srv' \<and>
    list_all2 connection_actions fds segments \<and> list_all (\<lambda>fd. 0 \<le> fd) fds"
  using assms by (rule acceptor_safe)

theorem tcp_connections_bracketed_witness:
  "\<exists>srv' segments fds. acceptor_worker [\<lparr>running_before = True, accept_fd = 7, sockopt_code = 0, incoming = [Data [0, 2]], running_during = \<lambda>_. True\<rparr>,
      \<lparr>running_before = True, accept_fd = 8, sockopt_code = -1, incoming = [], running_during = \<lambda>_. True\<rparr>] sample_server
    = Some (srv', concat segments) \<and> list_all2 connection_actions fds segments"
  using tcp_connections_bracketed [OF sample_server_ok] by blast

text \<open>
  Creating the server is all or nothing: whichever call fails, the parts created before it are
  destroyed, each once and none while another part still uses it; when all succeed, the server has
  its device, its workers (the transmitting one if and only if the device can send) and its buffer,
  and destroying it frees all of them.
\<close>

theorem tcp_server_create_all_or_nothing:
  "\<exists>code ps. tcp_server_create e = Some (code, ps) \<and>
    (if code = 0
     then ps = {Server_struct, Server_buffer, Sdr_device, Client_worker, Rx_worker} \<union> (if env_device_sends e then {Tx_worker} else {}) \<and>
       tcp_server_destroy ps = Some {}
     else ps = {})"
proof (cases "env_malloc e")
  case False
  then show ?thesis by (simp add: tcp_server_create_def)
next
  case True
  have "list_all (\<lambda>st. fst st \<or> fst (snd st) \<noteq> 0) (create_steps e)" by (simp add: create_steps_def)
  from server.construct_outcome [OF this, of "{Server_struct}"] obtain code ps where
    r: "construct users destroy_order (create_steps e) {Server_struct} = Some (code, ps)"
      "if code = 0 then list_all fst (create_steps e) \<and> ps = {Server_struct} \<union> parts_of (create_steps e) else ps = {}"
    by (auto split: if_splits)
  moreover have "{Server_struct} \<union> parts_of (create_steps e) =
      {Server_struct, Server_buffer, Sdr_device, Client_worker, Rx_worker} \<union> (if env_device_sends e then {Tx_worker} else {})"
    by (auto simp: create_steps_def parts_of_def)
  ultimately show ?thesis using True server.destroys [of ps] by (auto simp: tcp_server_create_def tcp_server_destroy_def split: if_splits)
qed

end
