(* ===== verification/EndToEnd.thy ===== *)
theory EndToEnd
  imports TcpServer
begin

text \<open>
  The path of a request through the server and back to the client: the thread of the connection puts its
  answers into the queue of the client worker, whose thread writes them as frames to the socket.
\<close>

section \<open>Composition\<close>

fun client_calls :: "server_action list \<Rightarrow> client_call list" where
  "client_calls [] = []"
| "client_calls (ToClient c # out) = c # client_calls out"
| "client_calls (_ # out) = client_calls out"

text \<open>The calls reach the queue one after the other; \<open>None\<close> when one of them would block for ever.\<close>

fun deliver :: "client_call list \<Rightarrow> client_tx_worker \<Rightarrow> client_tx_worker option" where
  "deliver [] w = Some w"
| "deliver (c # cs) w = do { (r, w1) \<leftarrow> client_send c w; (if r = Wait then None else deliver cs w1) }"

text \<open>What the protocol puts on the wire for an answer.\<close>

fun answer_bytes :: "answer \<Rightarrow> u8 list" where
  "answer_bytes (Reply (SendResponse i st de)) = frame MESSAGE_TYPE_RESPONSE i [st, de]"
| "answer_bytes _ = []"

fun is_response :: "client_call \<Rightarrow> bool" where
  "is_response (SendResponse i st de) = True"
| "is_response _ = False"

section \<open>The shape of a session\<close>

text \<open>A session consists of responses and forwarded messages and ends by dropping the client.\<close>

fun replies :: "answer list \<Rightarrow> client_call list" where
  "replies [] = []"
| "replies (Reply c # as) = c # replies as"
| "replies (_ # as) = replies as"

lemma replies_append [simp]: "replies (xs @ ys) = replies xs @ replies ys"
  by (induction xs rule: replies.induct) simp_all

lemma session_shape: "\<exists>rs. replies (session lim bytes) = rs @ [SendNew (-1)] \<and> list_all is_response rs"
proof (induction lim bytes rule: session.induct)
  case (1 lim bytes)
  let ?h = "header_of bytes" and ?rest = "drop 10 bytes"
  let ?n = "unat (message_length ?h)"
  consider "length bytes < 10" | "10 \<le> length bytes" "protocol_version ?h \<noteq> 0"
    | "10 \<le> length bytes" "protocol_version ?h = 0" "lim_buffer lim < ?n \<or> length ?rest < ?n"
    | "10 \<le> length bytes" "protocol_version ?h = 0" "\<not> lim_buffer lim < ?n" "\<not> length ?rest < ?n"
    by linarith
  then show ?case
  proof cases
    case 1
    then show ?thesis by (simp add: session.simps [of lim bytes])
  next
    case 2
    with "1.IH"(1) [OF _ refl refl refl] obtain rs where "replies (session lim ?rest) = rs @ [SendNew (-1)]" "list_all is_response rs" by auto
    moreover have "session lim bytes = failure (request_id ?h) # session lim ?rest"
      using 2 by (simp add: session.simps [of lim bytes] Let_def)
    ultimately show ?thesis by (intro exI [of _ "SendResponse (request_id ?h) 1 1 # rs"]) simp
  next
    case 3
    then show ?thesis
      by (cases "lim_buffer lim < ?n")
        (auto simp: session.simps [of lim bytes] Let_def intro: exI [of _ "[SendResponse (request_id ?h) 1 1]"])
  next
    case 4
    have s: "session lim bytes = answer_request lim ?h (take ?n ?rest) @ (if type ?h = 1 then [] else session lim (drop ?n ?rest))"
      using 4 by (simp add: session.simps [of lim bytes] Let_def)
    show ?thesis
    proof (cases "type ?h = 1")
      case True
      then show ?thesis by (simp add: s answer_request_def)
    next
      case False
      with 4 "1.IH"(2) [OF _ refl refl refl] obtain rs where
        rs: "replies (session lim (drop ?n ?rest)) = rs @ [SendNew (-1)]" "list_all is_response rs" by auto
      have "list_all is_response (replies (answer_request lim ?h (take ?n ?rest)))"
        using False by (simp add: answer_request_def Let_def)
      then show ?thesis using s False rs by (intro exI [of _ "replies (answer_request lim ?h (take ?n ?rest)) @ rs"]) simp
    qed
  qed
qed

lemma answers_are_calls:
  "map answer_of out = map Some as \<Longrightarrow> client_calls out = replies as"
proof (induction out arbitrary: as)
  case (Cons x out)
  then obtain a as' where "as = a # as'" "answer_of x = Some a" "map answer_of out = map Some as'" by (cases as) auto
  with Cons.IH [of as'] show ?case by (cases x) auto
qed simp

lemma client_calls_append [simp]: "client_calls (xs @ ys) = client_calls xs @ client_calls ys"
  by (induction xs rule: client_calls.induct) simp_all

lemma replies_bytes: "concat (map answer_bytes as) = concat (map (answer_bytes \<circ> Reply) (replies as))"
  by (induction as rule: replies.induct) simp_all

section \<open>From the queue to the socket\<close>

lemma deliver_spec:
  assumes "queue_rel (ctw_queue w) a" "\<not> a_poison a" "length cs \<le> a_free a" "4 \<le> a_bufsize a"
    "\<forall>c \<in> set cs. is_response c \<or> (\<exists>fd. c = SendNew fd)"
  shows "\<exists>q. deliver cs w = Some (w\<lparr>ctw_queue := q\<rparr>) \<and>
    queue_rel q (a\<lparr>a_free := a_free a - length cs, a_filled := a_filled a @ map (msg_of \<circ> client_message) cs\<rparr>)"
  using assms
proof (induction cs arbitrary: w a)
  case (Cons c cs)
  let ?m = "client_message c" and ?a = "a\<lparr>a_free := a_free a - 1, a_filled := a_filled a @ [msg_of (client_message c)]\<rparr>"
  have "msg_buffer_len ?m \<le> a_bufsize a" "msg_buffer_len ?m \<le> length (msg_buffer ?m)"
    using Cons.prems(4,5) by (cases c; simp add: client_tx_worker_send_new_def client_tx_worker_send_response_def int_bytes_def)+
  then have "a_put ?m a = Some (Ret 0, ?a)" using Cons.prems(2,3) by (auto simp: a_put_def)
  with queue_put_refines [OF Cons.prems(1), of ?m] obtain q where
    q: "queue_put (Some ?m) (ctw_queue w) = Some (Ret 0, q)" "queue_rel q ?a" by auto
  have "\<exists>q'. deliver cs (w\<lparr>ctw_queue := q\<rparr>) = Some (w\<lparr>ctw_queue := q, ctw_queue := q'\<rparr>) \<and>
      queue_rel q' (?a\<lparr>a_free := a_free ?a - length cs, a_filled := a_filled ?a @ map (msg_of \<circ> client_message) cs\<rparr>)"
  proof (rule Cons.IH)
    show "length cs \<le> a_free ?a" using Cons.prems(3) by simp
  qed (use q(2) Cons.prems in simp_all)
  with q(1) show ?case by (auto simp: client_send_def o_def)
next
  case Nil
  then show ?case by (intro exI [of _ "ctw_queue w"]) simp
qed

text \<open>After the responses the client is dropped; a healthy socket received all of them.\<close>

lemma callback_session:
  assumes "queue_rel (ctw_queue w) a" "a_busy a = None" "a_poison a" "client_tx_ok w" "client_socket w = fd" "0 \<le> fd"
    "WBroken \<notin> set (answers (socks fd))" "list_all is_response rs"
    "a_filled a = map (msg_of \<circ> client_message) (rs @ [SendNew (-1)])"
  shows "\<exists>w' socks'. client_tx_worker_callback w socks = Some (w', socks') \<and> client_socket w' = -1 \<and>
    (\<forall>f. f \<noteq> fd \<longrightarrow> socks' f = socks f) \<and>
    sent (socks' fd) = sent (socks fd) @ concat (map (answer_bytes \<circ> Reply) rs)"
  using assms
proof (induction rs arbitrary: a w socks)
  case Nil
  let ?P = "\<lambda>w' socks'. client_socket w' = -1 \<and> socks' = socks" and ?a1 = "a\<lparr>a_filled := [], a_free := Suc (a_free a)\<rparr>"
  have "\<exists>w' socks'. client_tx_handle qm (w\<lparr>ctw_queue := q\<rparr>) socks = Some (w', socks') \<and> ?P w' socks'"
    if qm: "msg_of qm = msg_of (client_message (SendNew (-1)))" "msg_buffer_len qm \<le> length (msg_buffer qm)" for qm q
  proof -
    have "msg_type qm = 2" "take (msg_buffer_len qm) (msg_buffer qm) = int_bytes (-1)"
      using qm(1) by (auto simp: msg_of_def client_tx_worker_send_new_def int_bytes_def)
    moreover have "msg_buffer qm = take (msg_buffer_len qm) (msg_buffer qm) @ drop (msg_buffer_len qm) (msg_buffer qm)" by simp
    ultimately have "msg_type qm = 2" "bytes_int (msg_buffer qm) = Some (-1)"
      using bytes_int_bytes [of "-1" "drop (msg_buffer_len qm) (msg_buffer qm)"] by simp_all
    then show ?thesis by (simp add: client_tx_handle_def)
  qed
  with turn_message [OF Nil.prems(1,2), of "msg_of (client_message (SendNew (-1)))" "[]" socks ?P] Nil.prems(9) obtain w1 where
    t: "client_tx_turn w socks = Some (Handled, w1, socks)" "client_socket w1 = -1" "queue_rel (ctw_queue w1) ?a1" by auto
  from callback_no_client [OF t(3), of socks] Nil.prems(2,3) t(2) obtain q' where
    "client_tx_worker_callback w1 socks = Some (w1\<lparr>ctw_queue := q'\<rparr>, socks)" by auto
  with t show ?case by (simp add: client_tx_worker_callback.simps [of w socks])
next
  case (Cons c rs)
  obtain i st de where c: "c = SendResponse i st de" using Cons.prems(8) by (cases c) auto
  let ?m = "msg_of (client_message c)"
  let ?P = "pushed fd (frame_of ?m) w socks"
    and ?a1 = "a\<lparr>a_filled := map (msg_of \<circ> client_message) (rs @ [SendNew (-1)]), a_free := Suc (a_free a)\<rparr>"
  have m: "fst ?m \<noteq> 2" "msg_ok ?m" by (simp_all add: c msg_of_def client_tx_worker_send_response_def)
  have "\<exists>w' socks'. client_tx_handle qm (w\<lparr>ctw_queue := q\<rparr>) socks = Some (w', socks') \<and> ?P w' socks'"
    if qm: "msg_of qm = ?m" "msg_buffer_len qm \<le> length (msg_buffer qm)" for qm q
  proof -
    have "msg_type qm \<noteq> 2" "msg_ok (msg_of qm)" using qm(1) m by (auto simp: msg_of_def)
    then show ?thesis
      by (rule_tac handle_pushed [of "w\<lparr>ctw_queue := q\<rparr>" fd qm socks]) (use qm Cons.prems in \<open>auto\<close>)
  qed
  with turn_message [OF Cons.prems(1,2), of ?m "map (msg_of \<circ> client_message) (rs @ [SendNew (-1)])" socks ?P] Cons.prems(9) obtain w1 socks1 where
    t: "client_tx_turn w socks = Some (Handled, w1, socks1)" "?P w1 socks1" "queue_rel (ctw_queue w1) ?a1" by auto
  from t(2) Cons.prems(7) obtain k where p: "client_socket w1 = fd" "WBroken \<notin> set (answers (socks1 fd))" "client_tx_ok w1"
      "\<forall>f. f \<noteq> fd \<longrightarrow> socks1 f = socks f" "sent (socks1 fd) = sent (socks fd) @ take k (frame_of ?m)" "length (frame_of ?m) \<le> k"
    by (auto simp: pushed_def)
  have fr: "frame_of ?m = frame 4 i [st, de]" by (simp add: c msg_of_def client_tx_worker_send_response_def)
  from Cons.IH [of w1 ?a1 socks1, OF t(3) _ _ p(3,1) Cons.prems(6) p(2)] Cons.prems(2,3,8) obtain w' socks' where
    "client_tx_worker_callback w1 socks1 = Some (w', socks')" "client_socket w' = -1" "\<forall>f. f \<noteq> fd \<longrightarrow> socks' f = socks1 f"
    "sent (socks' fd) = sent (socks1 fd) @ concat (map (answer_bytes \<circ> Reply) rs)" by (auto simp: o_def)
  with t(1) p(4-6) fr c show ?case by (simp add: client_tx_worker_callback.simps [of w socks] o_def)
qed

section \<open>Properties\<close>



end
