(* ===== verification/Binary32.thy ===== *)
theory Binary32
  imports Prelude "HOL-Library.Log_Nat"
begin

text \<open>
  Floating point arithmetic of C, as far as the program's own formulas need it. A value is the
  rational number it denotes; \<open>fl32\<close> and \<open>fl64\<close> round an exact result to the nearest value with a significand of
  24 or 53 bits, ties to even, the default mode of IEEE 754. The exponent is not bounded: the formulas
  modelled here do not leave the range of the types. Not-a-number and the sign of a zero are not
  part of the model.
\<close>

section \<open>Rounding\<close>

definition round_even :: "rat \<Rightarrow> int" where
  "round_even x = (let f = \<lfloor>x\<rfloor>; d = x - of_int f in
     if d < 1 / 2 then f else if d > 1 / 2 then f + 1 else if even f then f else f + 1)"

text \<open>The exponent of a positive number: \<open>2 ^ e \<le> x < 2 ^ (e + 1)\<close>.\<close>

definition exponent :: "rat \<Rightarrow> int" where
  "exponent x = (let (p, q) = quotient_of x; e = bitlen p - bitlen q in if 2 powi e \<le> x then e else e - 1)"

definition fl :: "nat \<Rightarrow> rat \<Rightarrow> rat" where
  "fl p x = (if x = 0 then 0 else let ulp = 2 powi (exponent \<bar>x\<bar> - int p + 1) in of_int (round_even (x / ulp)) * ulp)"

abbreviation fl32 :: "rat \<Rightarrow> rat" where "fl32 \<equiv> fl 24"
abbreviation fl64 :: "rat \<Rightarrow> rat" where "fl64 \<equiv> fl 53"

text \<open>\<^verbatim>\<open>roundf\<close> rounds halves away from zero; a conversion to an integer type drops the fraction.\<close>

definition roundf :: "rat \<Rightarrow> rat" where
  "roundf x = of_int (if x \<ge> 0 then \<lfloor>x + 1 / 2\<rfloor> else \<lceil>x - 1 / 2\<rceil>)"

definition trunc :: "rat \<Rightarrow> int" where
  "trunc x = (if x \<ge> 0 then \<lfloor>x\<rfloor> else \<lceil>x\<rceil>)"

section \<open>Conversions\<close>

text \<open>The value of a bit pattern; infinities and not-a-number have none.\<close>

definition f32_value :: "f32 \<Rightarrow> rat option" where
  "f32_value w = (let e = unat (drop_bit 23 w AND 255); m = of_nat (unat (w AND 8388607)) in
     if e = 255 then None
     else Some ((if bit w 31 then - 1 else 1) * (if e = 0 then m * 2 powi (- 149) else (8388608 + m) * 2 powi (int e - 150))))"

text \<open>Conversion to an unsigned type is undefined when the truncated value does not fit.\<close>

definition float_to_u32 :: "rat \<Rightarrow> u32 option" where
  "float_to_u32 x = (if 0 \<le> trunc x \<and> trunc x < 2 ^ 32 then Some (of_int (trunc x)) else None)"

section \<open>Laws\<close>

lemma round_even_error: "\<bar>of_int (round_even x) - x\<bar> \<le> 1 / 2"
proof -
  have "of_int \<lfloor>x\<rfloor> \<le> x" "x < of_int \<lfloor>x\<rfloor> + 1" by linarith+
  then show ?thesis by (auto simp: round_even_def Let_def abs_le_iff)
qed

lemma round_even_int [simp]: "round_even (of_int n) = n"
  by (simp add: round_even_def)

lemma power_two_powi: "0 \<le> k \<Longrightarrow> (2 :: rat) powi k = of_int (2 ^ nat k)"
  by (simp add: power_int_def)

lemma exponent_bounds:
  assumes "0 < x"
  shows "2 powi exponent x \<le> x" "x < 2 powi (exponent x + 1)"
proof -
  obtain p q where pq: "quotient_of x = (p, q)" by fastforce
  then have q: "0 < q" by (rule quotient_of_denom_pos)
  have x: "x = of_int p / of_int q" using pq by (rule quotient_of_div)
  with assms q have p: "0 < p" by (simp add: zero_less_divide_iff)
  have pow: "(2 :: rat) powi bitlen a = 2 * 2 powi (bitlen a - 1)" for a
    using power_int_add [of "2 :: rat" "bitlen a - 1" 1] by simp
  have bnd: "2 powi (bitlen a - 1) \<le> (of_int a :: rat)" "(of_int a :: rat) < 2 powi bitlen a" if "0 < a" for a :: int
  proof -
    have "0 < bitlen a" using that bitlen_eq_zero_iff [of a] bitlen_nonneg [of a] by linarith
    moreover have "2 ^ nat (bitlen a - 1) \<le> a" "a < 2 ^ nat (bitlen a)" using bitlen_bounds [OF that] by simp_all
    ultimately show "2 powi (bitlen a - 1) \<le> (of_int a :: rat)" "(of_int a :: rat) < 2 powi bitlen a"
      unfolding power_two_powi [of "bitlen a - 1"] power_two_powi [of "bitlen a"]
      by (simp_all only: power_two_powi of_int_le_iff of_int_less_iff)
  qed
  let ?e = "bitlen p - bitlen q"
  have split: "(2 :: rat) powi bitlen p = 2 powi ?e * 2 powi bitlen q"
    using power_int_add [of "2 :: rat" ?e "bitlen q"] by simp
  have "2 powi (?e - 1) \<le> x" and "x < 2 powi (?e + 1)"
  proof -
    have e1: "(2 :: rat) powi (?e + 1) = 2 powi ?e * 2" using power_int_add [of "2 :: rat" ?e 1] by simp
    have "(2 :: rat) powi (?e - 1) * of_int q \<le> 2 powi (?e - 1) * 2 powi bitlen q"
      using bnd(2) [OF q] by (intro mult_left_mono) simp_all
    also have "\<dots> = 2 powi (bitlen p - 1)" using power_int_add [of "2 :: rat" "?e - 1" "bitlen q"] by simp
    also have "\<dots> \<le> of_int p" using bnd(1) [OF p] .
    finally show "2 powi (?e - 1) \<le> x" using q by (simp add: x pos_le_divide_eq)
    have "(of_int p :: rat) < 2 powi ?e * 2 powi bitlen q" using bnd(2) [OF p] split by simp
    also have "\<dots> = 2 powi (?e + 1) * 2 powi (bitlen q - 1)" using pow [of q] e1 by simp
    also have "\<dots> \<le> 2 powi (?e + 1) * of_int q" using bnd(1) [OF q] by (intro mult_left_mono) simp_all
    finally show "x < 2 powi (?e + 1)" using q by (simp add: x pos_divide_less_eq)
  qed
  then show "2 powi exponent x \<le> x" "x < 2 powi (exponent x + 1)"
    by (auto simp: exponent_def pq Let_def)
qed

text \<open>Rounding is exact on numbers with a short significand and has a relative error of at most \<open>2 ^ - p\<close>.\<close>

lemma fl_exact:
  assumes "\<bar>k\<bar> < 2 ^ p"
  shows "fl p (of_int k * 2 powi m) = of_int k * 2 powi m"
proof (cases "k = 0")
  case False
  let ?x = "of_int k * 2 powi m :: rat"
  let ?e = "exponent \<bar>?x\<bar>" and ?u = "exponent \<bar>of_int k * 2 powi m :: rat\<bar> - int p + 1"
  have abs: "\<bar>?x\<bar> = of_int \<bar>k\<bar> * 2 powi m" by (simp add: abs_mult)
  have "2 powi ?e \<le> \<bar>?x\<bar>" using False by (intro exponent_bounds) simp
  also have "\<dots> < 2 ^ p * 2 powi m" unfolding abs
    using assms by (intro mult_strict_right_mono) (simp_all flip: of_int_less_iff [where 'a = rat])
  also have "\<dots> = 2 powi (int p + m)" by (simp add: power_int_add)
  finally have "?e < int p + m" using power_int_increasing [of "int p + m" ?e "2 :: rat"] by (meson leD leI one_le_numeral)
  then have "?x / 2 powi ?u = of_int (k * 2 ^ nat (m - ?u))"
    using power_int_diff [of "2 :: rat" m ?u] by (simp add: power_int_def split: if_splits)
  then have "of_int (round_even (?x / 2 powi ?u)) = ?x / 2 powi ?u" by (simp only: round_even_int)
  then have "of_int (round_even (?x / 2 powi ?u)) * 2 powi ?u = ?x" by simp
  with False show ?thesis by (simp add: fl_def Let_def)
qed (simp add: fl_def)

lemma fl_error: "\<bar>fl p x - x\<bar> \<le> \<bar>x\<bar> / 2 ^ p"
proof (cases "x = 0")
  case False
  let ?u = "2 powi (exponent \<bar>x\<bar> - int p + 1) :: rat"
  have u: "0 < ?u" by simp
  have "\<bar>of_int (round_even (x / ?u)) - x / ?u\<bar> * ?u \<le> 1 / 2 * ?u"
    using round_even_error [of "x / ?u"] u by (intro mult_right_mono) simp_all
  also have "\<bar>of_int (round_even (x / ?u)) - x / ?u\<bar> * ?u = \<bar>of_int (round_even (x / ?u)) * ?u - x\<bar>"
    using abs_mult_pos [of ?u "of_int (round_even (x / ?u)) - x / ?u"] u by (simp add: left_diff_distrib)
  also have "1 / 2 * ?u = 2 powi exponent \<bar>x\<bar> / 2 ^ p"
    using power_int_add [of "2 :: rat" "exponent \<bar>x\<bar> - int p" 1] power_int_diff [of "2 :: rat" "exponent \<bar>x\<bar>" "int p"] by simp
  also have "\<dots> \<le> \<bar>x\<bar> / 2 ^ p" using exponent_bounds(1) [of "\<bar>x\<bar>"] False by (intro divide_right_mono) simp_all
  finally show ?thesis using False by (simp add: fl_def Let_def)
qed (simp add: fl_def)

lemma fl32_exact: "\<bar>k\<bar> < 2 ^ 24 \<Longrightarrow> fl32 (of_int k * 2 powi m) = of_int k * 2 powi m"
  by (rule fl_exact)

lemma fl32_error: "\<bar>fl32 x - x\<bar> \<le> \<bar>x\<bar> / 16777216"
  using fl_error [of 24 x] by simp

lemma round_even_bounds: "x \<le> of_int n \<Longrightarrow> round_even x \<le> n" "of_int n \<le> x \<Longrightarrow> n \<le> round_even x"
proof -
  have f: "of_int \<lfloor>x\<rfloor> \<le> x" "x < of_int \<lfloor>x\<rfloor> + 1" by linarith+
  show "round_even x \<le> n" if "x \<le> of_int n"
  proof (cases "x = of_int n")
    case False
    with that f have "\<lfloor>x\<rfloor> < n" by linarith
    then show ?thesis by (auto simp: round_even_def Let_def)
  qed simp
  show "n \<le> round_even x" if "of_int n \<le> x"
  proof -
    have "n \<le> \<lfloor>x\<rfloor>" using that by (simp add: le_floor_iff)
    then show ?thesis by (auto simp: round_even_def Let_def)
  qed
qed

text \<open>Rounding does not cross an integer, below \<open>2 ^ p\<close> all of them are values of the type.\<close>

lemma fl_integer_bounds:
  assumes "\<bar>x\<bar> < 2 ^ p"
  shows "x \<le> of_int n \<Longrightarrow> fl p x \<le> of_int n" "of_int n \<le> x \<Longrightarrow> of_int n \<le> fl p x"
proof -
  let ?e = "exponent \<bar>x\<bar> - int p + 1"
  have "?e \<le> 0" if "x \<noteq> 0"
  proof -
    have "(2 :: rat) powi exponent \<bar>x\<bar> < 2 ^ p" using exponent_bounds(1) [of "\<bar>x\<bar>"] assms that by simp
    then have "(2 :: rat) powi exponent \<bar>x\<bar> < 2 powi int p" by simp
    then have "exponent \<bar>x\<bar> < int p" using power_int_increasing [of "int p" "exponent \<bar>x\<bar>" "2 :: rat"] by (meson leD leI one_le_numeral)
    then show ?thesis by simp
  qed
  then have u: "of_int n / 2 powi ?e = (of_int (n * 2 ^ nat (- ?e)) :: rat)" if "x \<noteq> 0"
    using that by (simp add: power_int_def field_simps split: if_splits)
  have pos: "(0 :: rat) < 2 powi ?e" by simp
  show "fl p x \<le> of_int n" if "x \<le> of_int n"
  proof (cases "x = 0")
    case False
    have "x / 2 powi ?e \<le> of_int n / 2 powi ?e" using that pos by (intro divide_right_mono) simp_all
    then have "round_even (x / 2 powi ?e) \<le> n * 2 ^ nat (- ?e)" unfolding u [OF False] by (rule round_even_bounds)
    then have "of_int (round_even (x / 2 powi ?e)) \<le> (of_int n / 2 powi ?e :: rat)" unfolding u [OF False] by (simp only: of_int_le_iff)
    then show ?thesis using False pos by (simp add: fl_def Let_def pos_le_divide_eq)
  qed (use that in \<open>simp add: fl_def\<close>)
  show "of_int n \<le> fl p x" if "of_int n \<le> x"
  proof (cases "x = 0")
    case False
    have "of_int n / 2 powi ?e \<le> x / 2 powi ?e" using that pos by (intro divide_right_mono) simp_all
    then have "n * 2 ^ nat (- ?e) \<le> round_even (x / 2 powi ?e)" unfolding u [OF False] by (rule round_even_bounds)
    then have "(of_int n / 2 powi ?e :: rat) \<le> of_int (round_even (x / 2 powi ?e))" unfolding u [OF False] by (simp only: of_int_le_iff)
    then show ?thesis using False pos by (simp add: fl_def Let_def pos_divide_le_eq)
  qed (use that in \<open>simp add: fl_def\<close>)
qed

lemma fl_simps [simp]: "fl p 0 = 0" "0 < p \<Longrightarrow> fl p 1 = 1" "0 < p \<Longrightarrow> fl p (- 1) = - 1"
  using fl_exact [of 1 p 0] fl_exact [of "- 1" p 0] by (simp_all add: fl_def)

section \<open>Monotonicity\<close>

lemma round_even_mono:
  assumes "x \<le> y"
  shows "round_even x \<le> round_even y"
proof (cases "\<lfloor>x\<rfloor> = \<lfloor>y\<rfloor>")
  case True
  with assms show ?thesis by (auto simp: round_even_def Let_def)
next
  case False
  with assms have "\<lfloor>x\<rfloor> + 1 \<le> \<lfloor>y\<rfloor>" using floor_mono [OF assms] by linarith
  moreover have "round_even x \<le> \<lfloor>x\<rfloor> + 1" "\<lfloor>y\<rfloor> \<le> round_even y" by (simp_all add: round_even_def Let_def)
  ultimately show ?thesis by linarith
qed

lemma exponent_mono:
  assumes "0 < x" "x \<le> y"
  shows "exponent x \<le> exponent y"
proof (rule ccontr)
  assume "\<not> exponent x \<le> exponent y"
  then have "(2 :: rat) powi (exponent y + 1) \<le> 2 powi exponent x" by (intro power_int_increasing) simp_all
  with exponent_bounds(1) [OF assms(1)] exponent_bounds(2) [of y] assms show False by simp
qed

lemma fl_binade:
  assumes "0 < x" "0 < p"
  shows "2 powi exponent x \<le> fl p x" "fl p x \<le> 2 powi (exponent x + 1)"
proof -
  let ?u = "2 powi (exponent x - int p + 1) :: rat"
  have u: "0 < ?u" by simp
  have low: "of_int (2 ^ (p - 1)) * ?u = (2 powi exponent x :: rat)" and high: "of_int (2 ^ p) * ?u = (2 powi (exponent x + 1) :: rat)"
    using assms(2) by (simp_all flip: power_int_of_nat add: power_int_add [symmetric] algebra_simps of_nat_diff)
  have "of_int (2 ^ (p - 1)) \<le> x / ?u" using exponent_bounds(1) [OF assms(1)] u low by (simp add: le_divide_eq)
  then have l: "2 ^ (p - 1) \<le> round_even (x / ?u)" by (rule round_even_bounds(2))
  have "x / ?u \<le> of_int (2 ^ p)" using exponent_bounds(2) [OF assms(1)] u high by (simp add: divide_le_eq)
  then have h: "round_even (x / ?u) \<le> 2 ^ p" by (rule round_even_bounds(1))
  have f: "fl p x = of_int (round_even (x / ?u)) * ?u" using assms(1) by (simp add: fl_def Let_def)
  show "2 powi exponent x \<le> fl p x" unfolding f low [symmetric] by (rule mult_right_mono [OF of_int_le_iff [THEN iffD2, OF l]]) simp
  show "fl p x \<le> 2 powi (exponent x + 1)" unfolding f high [symmetric] by (rule mult_right_mono [OF of_int_le_iff [THEN iffD2, OF h]]) simp
qed

lemma fl_nonneg:
  assumes "0 \<le> x" "0 < p"
  shows "0 \<le> fl p x"
proof (cases "x = 0")
  case False
  with fl_binade(1) [of x p] assms have "2 powi exponent x \<le> fl p x" by simp
  then show ?thesis by (rule order_trans [rotated]) simp
qed (simp add: fl_def)

lemma fl_mono:
  assumes "0 \<le> x" "x \<le> y" "0 < p"
  shows "fl p x \<le> fl p y"
proof (cases "x = 0")
  case True
  with assms show ?thesis using fl_nonneg [of y p] by (simp add: fl_def)
next
  case False
  with assms have pos: "0 < x" "0 < y" by simp_all
  show ?thesis
  proof (cases "exponent x = exponent y")
    case True
    let ?u = "2 powi (exponent y - int p + 1) :: rat"
    have "round_even (x / ?u) \<le> round_even (y / ?u)" using assms(2) by (intro round_even_mono divide_right_mono) simp_all
    then show ?thesis using pos True by (simp add: fl_def Let_def)
  next
    case False
    with exponent_mono [OF pos(1) assms(2)] have "(2 :: rat) powi (exponent x + 1) \<le> 2 powi exponent y" by (intro power_int_increasing) simp_all
    with fl_binade(2) [OF pos(1) assms(3)] fl_binade(1) [OF pos(2) assms(3)] show ?thesis by linarith
  qed
qed

lemma fl_idem:
  assumes "0 < p" "0 \<le> x"
  shows "fl p (fl p x) = fl p x"
proof (cases "x = 0")
  case False
  let ?m = "exponent x - int p + 1" and ?k = "round_even (x / 2 powi (exponent x - int p + 1))"
  have f: "fl p x = of_int ?k * 2 powi ?m" using False assms(2) by (simp add: fl_def Let_def)
  have "of_int ?k * 2 powi ?m \<le> (2 powi (exponent x + 1) :: rat)" using fl_binade(2) [of x p] False assms f by simp
  also have "(2 powi (exponent x + 1) :: rat) = of_int (2 ^ p) * 2 powi ?m"
    using assms(1) by (simp flip: power_int_of_nat add: power_int_add [symmetric] algebra_simps)
  finally have k: "?k \<le> 2 ^ p" by (simp only: mult_le_cancel_right_pos zero_less_power_int zero_less_numeral of_int_le_iff)
  have "0 \<le> ?k" using round_even_bounds(2) [of 0 "x / 2 powi ?m"] assms(2) by simp
  show ?thesis
  proof (cases "?k = 2 ^ p")
    case True
    then have "fl p x = of_int 1 * 2 powi (exponent x + 1)"
      unfolding f using assms(1) by (simp flip: power_int_of_nat add: power_int_add [symmetric] algebra_simps)
    then show ?thesis using fl_exact [of 1 p "exponent x + 1"] assms(1) by simp
  next
    case False
    with k \<open>0 \<le> ?k\<close> have "\<bar>?k\<bar> < 2 ^ p" by simp
    then show ?thesis unfolding f by (rule fl_exact)
  qed
qed (simp add: fl_def)

section \<open>Complex numbers\<close>

type_synonym sample = "rat \<times> rat"

definition c_mul :: "sample \<Rightarrow> sample \<Rightarrow> sample" where
  "c_mul x y = (fl32 (fl32 (fst x * fst y) - fl32 (snd x * snd y)), fl32 (fl32 (fst x * snd y) + fl32 (snd x * fst y)))"

definition c_conj :: "sample \<Rightarrow> sample" where
  "c_conj x = (fst x, - snd x)"

end
