(* ===== verification/SdrFile.thy ===== *)
theory SdrFile
  imports Binary32 Construction SdrRxWorker AppConfig
begin

text \<open>
  The device that reads and writes files of samples, \<^verbatim>\<open>src/sdr/sdr_file.c\<close>. Three formats are
  supported: bytes, 16-bit integers and single precision numbers, each plain or compressed. zlib is
  a parameter with its stream state \<open>'g\<close>; so is the representation of a pair of \<^verbatim>\<open>float\<close> in memory
  (\<open>load\<close> and \<open>store\<close>). A plain file is the list of bytes still to be read or written so far; what the
  program does not look at (the result of \<^verbatim>\<open>fwrite\<close>) is taken to succeed. 16-bit integers are stored
  with the low byte first.
\<close>

section \<open>Samples\<close>

definition has_gz_suffix :: "string \<Rightarrow> bool" where
  "has_gz_suffix f \<longleftrightarrow> length f > 3 \<and> drop (length f - 3) f = ''.gz''"

definition u8_to_float :: "u8 \<Rightarrow> rat" where
  "u8_to_float b = fl32 (fl32 (of_nat (unat b) - 255 / 2) / (255 / 2))"

definition clamp_u8 :: "rat \<Rightarrow> u8" where
  "clamp_u8 v = (if v < 0 then 0 else if v > 255 then 255 else of_int (trunc v))"

definition float_to_u8 :: "rat \<Rightarrow> u8" where
  "float_to_u8 x = clamp_u8 (roundf (fl32 (fl32 (x * (255 / 2)) + 255 / 2)))"

definition s16_to_float :: "u16 \<Rightarrow> rat" where
  "s16_to_float w = fl32 (of_int (sint w) / 32768)"

definition clamp_s16 :: "rat \<Rightarrow> u16" where
  "clamp_s16 v = (if v < - 32768 then of_int (- 32768) else if v > 32767 then 32767 else of_int (trunc v))"

definition float_to_s16 :: "rat \<Rightarrow> u16" where
  "float_to_s16 x = clamp_s16 (roundf (fl32 (x * 32768)))"

definition s16_at :: "u8 list \<Rightarrow> nat \<Rightarrow> u16" where
  "s16_at bs i = ucast (bs ! i) OR push_bit 8 (ucast (bs ! Suc i))"

definition s16_bytes :: "u16 \<Rightarrow> u8 list" where
  "s16_bytes w = [ucast w, ucast (drop_bit 8 w)]"

text \<open>One sample in a format: its size, and its value from and to the bytes on disk.\<close>

definition bytes_per_sample :: "sdr_file_format \<Rightarrow> nat" where
  "bytes_per_sample fmt = (if fmt = FILE_FORMAT_CU8 then 2 else if fmt = FILE_FORMAT_CS16 then 4 else 8)"

definition sample_of :: "(u8 list \<Rightarrow> sample) \<Rightarrow> sdr_file_format \<Rightarrow> u8 list \<Rightarrow> sample" where
  "sample_of load fmt g =
    (if fmt = FILE_FORMAT_CU8 then (u8_to_float (g ! 0), u8_to_float (g ! 1))
     else if fmt = FILE_FORMAT_CS16 then (s16_to_float (s16_at g 0), s16_to_float (s16_at g 2))
     else load g)"

definition bytes_of :: "(sample \<Rightarrow> u8 list) \<Rightarrow> sdr_file_format \<Rightarrow> sample \<Rightarrow> u8 list" where
  "bytes_of store fmt x =
    (if fmt = FILE_FORMAT_CU8 then [float_to_u8 (fst x), float_to_u8 (snd x)]
     else if fmt = FILE_FORMAT_CS16 then s16_bytes (float_to_s16 (fst x)) @ s16_bytes (float_to_s16 (snd x))
     else store x)"

text \<open>
  The loops over the samples of a buffer: sample \<open>i\<close> is made of the \<open>w\<close> bytes from \<open>w * i\<close> on.
  \<^verbatim>\<open>cu8_to_cf32\<close>, \<^verbatim>\<open>cs16_to_cf32\<close> and their inverses are these loops for the two integer formats.
\<close>

fun unpack :: "nat \<Rightarrow> (u8 list \<Rightarrow> 's) \<Rightarrow> u8 list \<Rightarrow> 's list \<Rightarrow> nat \<Rightarrow> nat \<Rightarrow> 's list option" where
  "unpack w dec raw out i 0 = Some out"
| "unpack w dec raw out i (Suc n) =
    (if w * i + w \<le> length raw then do {
       out1 \<leftarrow> set_at out i (dec (take w (drop (w * i) raw)));
       unpack w dec raw out1 (Suc i) n }
     else None)"

fun pack :: "nat \<Rightarrow> ('s \<Rightarrow> u8 list) \<Rightarrow> 's list \<Rightarrow> u8 list \<Rightarrow> nat \<Rightarrow> nat \<Rightarrow> u8 list option" where
  "pack w enc xs raw i 0 = Some raw"
| "pack w enc xs raw i (Suc n) = do {
     x \<leftarrow> get_at xs i;
     raw1 \<leftarrow> memcpy raw (w * i) (enc x) w;
     pack w enc xs raw1 (Suc i) n }"

definition cu8_to_cf32 :: "u8 list \<Rightarrow> sample list \<Rightarrow> nat \<Rightarrow> sample list option" where
  "cu8_to_cf32 raw out n = unpack 2 (\<lambda>g. (u8_to_float (g ! 0), u8_to_float (g ! 1))) raw out 0 n"

definition cs16_to_cf32 :: "u8 list \<Rightarrow> sample list \<Rightarrow> nat \<Rightarrow> sample list option" where
  "cs16_to_cf32 raw out n = unpack 4 (\<lambda>g. (s16_to_float (s16_at g 0), s16_to_float (s16_at g 2))) raw out 0 n"

definition cf32_to_cu8 :: "sample list \<Rightarrow> u8 list \<Rightarrow> nat \<Rightarrow> u8 list option" where
  "cf32_to_cu8 xs raw n = pack 2 (\<lambda>x. [float_to_u8 (fst x), float_to_u8 (snd x)]) xs raw 0 n"

definition cf32_to_cs16 :: "sample list \<Rightarrow> u8 list \<Rightarrow> nat \<Rightarrow> u8 list option" where
  "cf32_to_cs16 xs raw n = pack 4 (\<lambda>x. s16_bytes (float_to_s16 (fst x)) @ s16_bytes (float_to_s16 (snd x))) xs raw 0 n"

section \<open>The device\<close>

record 'g zlib =
  gzread :: "nat \<Rightarrow> 'g \<Rightarrow> int \<times> u8 list \<times> 'g"
  gzwrite :: "u8 list \<Rightarrow> 'g \<Rightarrow> 'g"

record 'g file_device =
  fd_rx_file :: "u8 list option"
  fd_tx_file :: "u8 list option"
  fd_rx_gz :: "'g option"
  fd_tx_gz :: "'g option"
  rx_format :: sdr_file_format
  tx_format :: sdr_file_format
  temp :: "sample list"
  fd_buffer_len :: nat
  raw_temp :: "u8 list option"
  tx_raw_temp :: "u8 list option"

text \<open>Reading: the bytes go to the raw buffer or straight into the samples, \<open>None\<close> in the result is the code -1.\<close>

definition read_bytes :: "'g zlib \<Rightarrow> 'g file_device \<Rightarrow> (u8 list \<times> nat) option \<times> 'g file_device" where
  "read_bytes z d = (let bps = bytes_per_sample (rx_format d) in
     case fd_rx_gz d of
       Some g \<Rightarrow> (case gzread z (unat (of_nat (bps * fd_buffer_len d) :: u32)) g of (result, data, g') \<Rightarrow>
         ((if result \<le> 0 then None else Some (take (nat result) data, nat result div bps)), d\<lparr>fd_rx_gz := Some g'\<rparr>))
     | None \<Rightarrow> (case fd_rx_file d of
         Some bs \<Rightarrow> (Some (take (bps * fd_buffer_len d) bs, min (fd_buffer_len d) (length bs div bps)),
                     d\<lparr>fd_rx_file := Some (drop (bps * fd_buffer_len d) bs)\<rparr>)
       | None \<Rightarrow> (None, d)))"

text \<open>\<^verbatim>\<open>read_buf\<close> is the raw buffer for the integer formats and the buffer of samples otherwise.\<close>

definition fill_read_buf :: "u8 list \<Rightarrow> 'g file_device \<Rightarrow> 'g file_device option" where
  "fill_read_buf data d =
    (if rx_format d = FILE_FORMAT_CU8 \<or> rx_format d = FILE_FORMAT_CS16 then do {
       raw \<leftarrow> raw_temp d;
       raw1 \<leftarrow> memcpy raw 0 data (length data);
       Some (d\<lparr>raw_temp := Some raw1\<rparr>) }
     else if length data \<le> 8 * length (temp d) then Some d else None)"

definition convert_read_buf :: "(u8 list \<Rightarrow> sample) \<Rightarrow> u8 list \<Rightarrow> nat \<Rightarrow> 'g file_device \<Rightarrow> sample list option" where
  "convert_read_buf load data n d =
    (if rx_format d = FILE_FORMAT_CU8 then do { raw \<leftarrow> raw_temp d; cu8_to_cf32 raw (temp d) n }
     else if rx_format d = FILE_FORMAT_CS16 then do { raw \<leftarrow> raw_temp d; cs16_to_cf32 raw (temp d) n }
     else unpack 8 load data (temp d) 0 n)"

definition sdr_file_process_rx ::
  "'g zlib \<Rightarrow> (u8 list \<Rightarrow> sample) \<Rightarrow> 'g file_device \<Rightarrow> (int \<times> sample list \<times> 'g file_device) option" where
  "sdr_file_process_rx z load d = (case read_bytes z d of
     (None, d1) \<Rightarrow> Some (- 1, [], d1)
   | (Some (data, n), d1) \<Rightarrow> do {
       d2 \<leftarrow> fill_read_buf data d1;
       (if fd_rx_gz d = None \<and> n = 0 then Some (- 1, [], d2)
        else do {
          out \<leftarrow> convert_read_buf load data n d2;
          Some (0, take n out, d2\<lparr>temp := out\<rparr>) }) })"

definition write_bytes :: "'g zlib \<Rightarrow> u8 list \<Rightarrow> 'g file_device \<Rightarrow> 'g file_device" where
  "write_bytes z bs d = (case fd_tx_gz d of
     Some g \<Rightarrow> d\<lparr>fd_tx_gz := Some (gzwrite z (take (unat (of_nat (length bs) :: u32)) bs) g)\<rparr>
   | None \<Rightarrow> d\<lparr>fd_tx_file := map_option (\<lambda>f. f @ bs) (fd_tx_file d)\<rparr>)"

partial_function (option) tx_loop ::
  "'g zlib \<Rightarrow> (sample \<Rightarrow> u8 list) \<Rightarrow> sample list \<Rightarrow> nat \<Rightarrow> 'g file_device \<Rightarrow> 'g file_device option" where
  "tx_loop z store input offset d =
    (if offset < length input then do {
       let chunk = min (length input - offset) (fd_buffer_len d);
       let chunk_in = drop offset input;
       (buf, d1) \<leftarrow>
         (if tx_format d = FILE_FORMAT_CU8 \<or> tx_format d = FILE_FORMAT_CS16 then do {
            raw \<leftarrow> tx_raw_temp d;
            raw1 \<leftarrow> (if tx_format d = FILE_FORMAT_CU8 then cf32_to_cu8 chunk_in raw chunk else cf32_to_cs16 chunk_in raw chunk);
            Some (take (bytes_per_sample (tx_format d) * chunk) raw1, d\<lparr>tx_raw_temp := Some raw1\<rparr>) }
          else Some (concat (map store (take chunk chunk_in)), d));
       tx_loop z store input (offset + chunk) (write_bytes z buf d1) }
     else Some d)"

definition sdr_file_process_tx ::
  "'g zlib \<Rightarrow> (sample \<Rightarrow> u8 list) \<Rightarrow> sample list \<Rightarrow> 'g file_device \<Rightarrow> (int \<times> 'g file_device) option" where
  "sdr_file_process_tx z store input d =
    (if fd_tx_gz d = None \<and> fd_tx_file d = None then Some (- 1, d)
     else do { d1 \<leftarrow> tx_loop z store input 0 d; Some (0, d1) })"

section \<open>Construction and destruction\<close>

datatype file_part = File_struct | File_temp | File_raw | File_tx_raw | File_rx | File_tx | File_rx_gz | File_tx_gz

fun file_users :: "file_part \<Rightarrow> file_part set" where
  "file_users File_struct = {File_temp, File_raw, File_tx_raw, File_rx, File_tx, File_rx_gz, File_tx_gz}"
| "file_users _ = {}"

definition sdr_file_destroy_order :: "file_part list" where
  "sdr_file_destroy_order = [File_rx, File_tx, File_rx_gz, File_tx_gz, File_temp, File_tx_raw, File_raw, File_struct]"

definition sdr_file_destroy :: "file_part set \<Rightarrow> file_part set option" where
  "sdr_file_destroy ps = release_all file_users sdr_file_destroy_order ps"

interpretation sdr_file: component file_users sdr_file_destroy_order
proof
  show "ordered file_users {} sdr_file_destroy_order" by (simp add: sdr_file_destroy_order_def)
  show "p \<in> set sdr_file_destroy_order" for p by (cases p) (simp_all add: sdr_file_destroy_order_def)
qed

definition is_raw :: "sdr_file_format \<Rightarrow> bool" where
  "is_raw fmt \<longleftrightarrow> fmt = FILE_FORMAT_CU8 \<or> fmt = FILE_FORMAT_CS16"

text \<open>How a file is opened, for either direction: the part it becomes, and whether opening it can fail.\<close>

definition open_step :: "bool \<Rightarrow> file_part \<Rightarrow> file_part \<Rightarrow> string option \<Rightarrow> file_part step list" where
  "open_step ok plain gz f = (case f of
     None \<Rightarrow> []
   | Some name \<Rightarrow>
       if name = ''-'' then [(True, - 1, Some plain)]
       else if has_gz_suffix name then [(ok, - 1, Some gz)]
       else [(ok, - 1, Some plain)])"

record file_env =
  struct_ok :: bool
  temp_ok :: bool
  raw_ok :: bool
  tx_raw_ok :: bool
  rx_open_ok :: bool
  tx_open_ok :: bool
  result_ok :: bool

definition sdr_file_create_steps ::
  "file_env \<Rightarrow> string option \<Rightarrow> sdr_file_format \<Rightarrow> string option \<Rightarrow> sdr_file_format \<Rightarrow> file_part step list" where
  "sdr_file_create_steps env rx rx_fmt tx tx_fmt =
     [(temp_ok env, - ENOMEM, Some File_temp)] @
     (if is_raw rx_fmt \<or> is_raw tx_fmt then [(raw_ok env, - ENOMEM, Some File_raw)] else []) @
     (if is_raw tx_fmt then [(tx_raw_ok env, - ENOMEM, Some File_tx_raw)] else []) @
     open_step (rx_open_ok env) File_rx File_rx_gz rx @
     open_step (tx_open_ok env) File_tx File_tx_gz tx @
     [(result_ok env, - ENOMEM, None)]"

definition sdr_file_create ::
  "file_env \<Rightarrow> string option \<Rightarrow> sdr_file_format \<Rightarrow> string option \<Rightarrow> sdr_file_format \<Rightarrow> (int \<times> file_part set) option" where
  "sdr_file_create env rx rx_fmt tx tx_fmt =
    (if \<not> struct_ok env then Some (- ENOMEM, {})
     else construct file_users sdr_file_destroy_order (sdr_file_create_steps env rx rx_fmt tx tx_fmt) {File_struct})"

text \<open>The device after a successful construction; \<open>g\<close> and \<open>h\<close> are the streams that \<^verbatim>\<open>gzopen\<close> returned, \<open>junk\<close> and
  \<open>zero\<close> the contents of the fresh buffers.\<close>

definition sdr_file_new ::
  "u8 \<Rightarrow> sample \<Rightarrow> string option \<Rightarrow> u8 list \<Rightarrow> 'g \<Rightarrow> sdr_file_format \<Rightarrow> string option \<Rightarrow> 'g \<Rightarrow> sdr_file_format \<Rightarrow> u32 \<Rightarrow> 'g file_device" where
  "sdr_file_new junk zero rx bs g rx_fmt tx h tx_fmt len = (let n = unat len; gz = (\<lambda>name. name \<noteq> ''-'' \<and> has_gz_suffix name) in
     \<lparr>fd_rx_file = (case rx of None \<Rightarrow> None | Some name \<Rightarrow> if gz name then None else Some bs),
      fd_tx_file = (case tx of None \<Rightarrow> None | Some name \<Rightarrow> if gz name then None else Some []),
      fd_rx_gz = (case rx of None \<Rightarrow> None | Some name \<Rightarrow> if gz name then Some g else None),
      fd_tx_gz = (case tx of None \<Rightarrow> None | Some name \<Rightarrow> if gz name then Some h else None),
      rx_format = rx_fmt, tx_format = tx_fmt, temp = replicate n zero, fd_buffer_len = n,
      raw_temp = (if is_raw rx_fmt \<or> is_raw tx_fmt then Some (replicate (2 * 2 * n) junk) else None),
      tx_raw_temp = (if is_raw tx_fmt then Some (replicate (2 * 2 * n) junk) else None)\<rparr>)"

text \<open>
  The device as the workers see it. The state \<open>None\<close> stands for a call with undefined behaviour. The two
  pointers that the constructor does not assign keep what \<^verbatim>\<open>malloc\<close> left there, the first two arguments.
\<close>

definition sdr_file_no_op :: "'g file_device option \<Rightarrow> 'g file_device option" where
  "sdr_file_no_op d = d"

definition sdr_file_set_no_op :: "sdr_channel_config \<Rightarrow> 'g file_device option \<Rightarrow> int \<times> 'g file_device option" where
  "sdr_file_set_no_op c d = (0, d)"

definition sdr_file_device ::
  "('g file_device option \<Rightarrow> 'g file_device option) option \<Rightarrow> ('g file_device option \<Rightarrow> 'g file_device option) option \<Rightarrow>
   'g zlib \<Rightarrow> (u8 list \<Rightarrow> sample) \<Rightarrow> (sample \<Rightarrow> u8 list) \<Rightarrow> 'g file_device \<Rightarrow> (sample, 'g file_device option) sdr_device" where
  "sdr_file_device callback flush z load store d =
    \<lparr>plugin = Some d, sdr_set_rx_callback = callback,
     sdr_process_rx = Some (\<lambda>p. case Option.bind p (sdr_file_process_rx z load) of
       None \<Rightarrow> (- 1, [], None) | Some (code, out, d) \<Rightarrow> (code, out, Some d)),
     sdr_process_tx = Some (\<lambda>input p. case Option.bind p (sdr_file_process_tx z store input) of
       None \<Rightarrow> (- 1, None) | Some (code, d) \<Rightarrow> (code, Some d)),
     sdr_flush_tx = flush,
     set_rx_parameters = sdr_file_set_no_op, set_tx_parameters = sdr_file_set_no_op,
     start_rx = sdr_file_no_op, stop_rx = sdr_file_no_op\<rparr>"

section \<open>The formats are lossless\<close>

lemma roundf_near:
  assumes "\<bar>x - of_int k\<bar> < 1 / 2"
  shows "roundf x = of_int k"
proof -
  have "of_int k - 1 / 2 < x" "x < of_int k + 1 / 2" using assms unfolding abs_less_iff by linarith+
  then have "\<lfloor>x + 1 / 2\<rfloor> = k" "\<lceil>x - 1 / 2\<rceil> = k" unfolding floor_eq_iff ceiling_eq_iff by linarith+
  then show ?thesis by (simp add: roundf_def)
qed

lemma trunc_int [simp]: "trunc (of_int k) = k"
  by (simp add: trunc_def)

lemma u8_round_trip: "float_to_u8 (u8_to_float b) = b"
proof -
  define k where "k = int (unat b)"
  define d where "d = (of_int k :: rat) - 255 / 2"
  have k: "0 \<le> k" "k \<le> 255" using unsigned_less [of b, where 'a = int] by (simp_all add: k_def)
  have "fl32 d = d" using fl32_exact [of "2 * k - 255" "-1"] k by (simp add: d_def power_int_minus field_simps)
  then have y: "u8_to_float b = fl32 (d / (255 / 2))" by (simp add: u8_to_float_def d_def k_def)
  define y where "y = u8_to_float b"
  define z where "z = fl32 (y * (255 / 2))"
  define w where "w = fl32 (z + 255 / 2)"
  have "(0 :: rat) \<le> of_int k" "(of_int k :: rat) \<le> 255" using k by simp_all
  then have dk: "\<bar>d\<bar> \<le> 255 / 2" unfolding d_def abs_le_iff by linarith
  have "\<bar>y - d / (255 / 2)\<bar> \<le> \<bar>d / (255 / 2)\<bar> / 16777216" unfolding y_def y by (rule fl32_error)
  also have "\<dots> \<le> 1 / 16777216" using dk by simp
  finally have e1: "\<bar>y - d / (255 / 2)\<bar> \<le> 1 / 16777216" .
  then have e1': "\<bar>y * (255 / 2) - d\<bar> \<le> 255 / 2 / 16777216" by (simp add: abs_le_iff field_simps)
  have "\<bar>z - y * (255 / 2)\<bar> \<le> \<bar>y * (255 / 2)\<bar> / 16777216" unfolding z_def by (rule fl32_error)
  also have "\<bar>y * (255 / 2)\<bar> \<le> 128" using e1' dk by linarith
  finally have e2: "\<bar>z - y * (255 / 2)\<bar> \<le> 128 / 16777216" by simp
  have "\<bar>w - (z + 255 / 2)\<bar> \<le> \<bar>z + 255 / 2\<bar> / 16777216" unfolding w_def by (rule fl32_error)
  also have "\<bar>z + 255 / 2\<bar> \<le> 256" using e1' e2 dk by linarith
  finally have e3: "\<bar>w - (z + 255 / 2)\<bar> \<le> 256 / 16777216" by simp
  have "\<bar>w - of_int k\<bar> < 1 / 2" using e1' e2 e3 unfolding d_def by linarith
  then have "roundf w = of_int k" by (rule roundf_near)
  then have "float_to_u8 (u8_to_float b) = clamp_u8 (of_int k)" by (simp add: float_to_u8_def w_def z_def y_def)
  also have "\<dots> = of_int k" using k by (simp add: clamp_u8_def)
  also have "\<dots> = b" by (simp add: k_def)
  finally show ?thesis .
qed

lemma s16_round_trip: "float_to_s16 (s16_to_float w) = w"
proof -
  define k where "k = sint w"
  have k: "- 32768 \<le> k" "k \<le> 32767" using sint_range_size [of w] by (simp_all add: k_def word_size)
  have pow: "(2 :: rat) powi (- 15) = 1 / 32768" by (simp add: power_int_minus field_simps)
  have "s16_to_float w = of_int k / 32768"
    using fl32_exact [of k "- 15"] k by (simp add: s16_to_float_def k_def [symmetric] pow)
  moreover have "fl32 (of_int k) = of_int k" using fl32_exact [of k 0] k by simp
  ultimately have "float_to_s16 (s16_to_float w) = clamp_s16 (roundf (of_int k))" by (simp add: float_to_s16_def)
  also have "roundf (of_int k) = of_int k" by (rule roundf_near) simp
  also have "clamp_s16 (of_int k) = of_int k"
  proof -
    have "\<not> (of_int k :: rat) < of_int (- 32768)" "\<not> (of_int k :: rat) > of_int 32767"
      unfolding of_int_less_iff using k by linarith+
    then show ?thesis by (simp add: clamp_s16_def)
  qed
  also have "\<dots> = w" by (simp add: k_def)
  finally show ?thesis .
qed

lemma s16_bytes_at: "s16_bytes (s16_at bs i) = [bs ! i, bs ! Suc i]"
  by (auto simp: s16_bytes_def s16_at_def bit_eq_iff bit_simps dest: bit_imp_le_length)

text \<open>A group of bytes survives the conversion to a sample and back.\<close>

definition exact :: "(u8 list \<Rightarrow> sample) \<Rightarrow> (sample \<Rightarrow> u8 list) \<Rightarrow> u8 list \<Rightarrow> bool" where
  "exact load store g \<longleftrightarrow> store (load g) = g"

lemma format_round_trip:
  assumes "length g = bytes_per_sample fmt" "\<not> is_raw fmt \<longrightarrow> exact load store g"
  shows "bytes_of store fmt (sample_of load fmt g) = g"
proof -
  have "g = [g ! 0, g ! 1]" if "length g = 2" using that by (auto simp: numeral_eq_Suc length_Suc_conv)
  moreover have "g = [g ! 0, g ! 1, g ! 2, g ! 3]" if "length g = 4" using that by (auto simp: numeral_eq_Suc length_Suc_conv)
  ultimately show ?thesis using assms
    by (auto simp: bytes_of_def sample_of_def bytes_per_sample_def exact_def is_raw_def u8_round_trip s16_round_trip s16_bytes_at
        split: if_splits)
qed

section \<open>The loops\<close>

definition groups :: "nat \<Rightarrow> u8 list \<Rightarrow> u8 list list" where
  "groups w bs = map (\<lambda>j. take w (drop (w * j) bs)) [0..<length bs div w]"

lemma concat_blocks: "concat (map (\<lambda>j. take w (drop (w * j) bs)) [0..<n]) = take (w * n) bs"
proof (induction n)
  case (Suc n)
  then show ?case using take_add [of "w * n" w bs] by (simp add: add.commute)
qed simp

lemma concat_groups: "concat (groups w bs) = take (w * (length bs div w)) bs"
  by (simp add: groups_def concat_blocks)

lemma groups_length: "g \<in> set (groups w bs) \<Longrightarrow> length g = w"
proof -
  assume "g \<in> set (groups w bs)"
  then obtain j where j: "j < length bs div w" "g = take w (drop (w * j) bs)" by (auto simp: groups_def)
  then have "w * Suc j \<le> w * (length bs div w)" by (intro mult_le_mono) simp_all
  also have "\<dots> \<le> length bs" by simp
  finally have "w \<le> length bs - w * j" by simp
  then show ?thesis using j(2) by simp
qed

lemma unpack_spec:
  "w * (i + n) \<le> length raw \<Longrightarrow> i + n \<le> length out \<Longrightarrow>
   unpack w dec raw out i n = Some (take i out @ map (\<lambda>j. dec (take w (drop (w * j) raw))) [i..<i + n] @ drop (i + n) out)"
proof (induction n arbitrary: i out)
  case (Suc n)
  let ?o = "out[i := dec (take w (drop (w * i) raw))]"
  have i: "i < length out" "w * i + w \<le> length raw" using Suc.prems by (simp_all add: algebra_simps)
  have "unpack w dec raw ?o (Suc i) n =
      Some (take (Suc i) ?o @ map (\<lambda>j. dec (take w (drop (w * j) raw))) [Suc i..<Suc i + n] @ drop (Suc i + n) ?o)"
    using Suc.prems by (intro Suc.IH) simp_all
  moreover have "take (Suc i) ?o = take i out @ [dec (take w (drop (w * i) raw))]" using i by (simp add: take_Suc_conv_app_nth)
  moreover have "[i..<i + Suc n] = i # [Suc i..<Suc i + n]" by (simp add: upt_conv_Cons)
  ultimately show ?case using i by (simp add: set_at_def)
qed simp

lemma unpack_groups:
  assumes "take (w * n) raw = take (w * n) data" "n = length data div w" "w * n \<le> length raw" "n \<le> length out"
  shows "\<exists>rest. unpack w dec raw out 0 n = Some (map dec (groups w data) @ rest) \<and> length (map dec (groups w data) @ rest) = length out"
proof -
  have "take w (drop (w * j) raw) = take w (drop (w * j) data)" if "j < n" for j
  proof -
    have "w * j + w \<le> w * n" using mult_le_mono2 [of "Suc j" n w] that by simp
    then have "take w (drop (w * j) (take (w * n) xs)) = take w (drop (w * j) xs)" for xs :: "u8 list"
      by (simp add: drop_take min_def)
    then show ?thesis by (metis assms(1))
  qed
  then have "map (\<lambda>j. dec (take w (drop (w * j) raw))) [0..<0 + n] = map dec (groups w data)"
    by (simp add: groups_def assms(2))
  with unpack_spec [of w 0 n raw out dec] assms(3,4)
  have "unpack w dec raw out 0 n = Some (map dec (groups w data) @ drop n out)" by simp
  then show ?thesis using assms(2,4) by (intro exI [of _ "drop n out"]) (simp add: groups_def)
qed

lemma pack_spec:
  assumes "\<And>x. length (enc x) = w"
  shows "i + n \<le> length xs \<Longrightarrow> w * (i + n) \<le> length raw \<Longrightarrow>
    pack w enc xs raw i n = Some (take (w * i) raw @ concat (map enc (take n (drop i xs))) @ drop (w * (i + n)) raw)"
proof (induction n arbitrary: i raw)
  case (Suc n)
  define r where "r = take (w * i) raw @ enc (xs ! i) @ drop (w * i + w) raw"
  have i: "i < length xs" "w * i + w + w * n \<le> length raw" using Suc.prems by (simp_all add: algebra_simps)
  then have "memcpy raw (w * i) (enc (xs ! i)) w = Some r" using assms by (simp add: memcpy_def r_def)
  moreover have l: "length r = length raw" using i assms by (simp add: r_def)
  with Suc.IH [of "Suc i" r] Suc.prems
  have "pack w enc xs r (Suc i) n = Some (take (w * i + w) r @ concat (map enc (take n (drop (Suc i) xs))) @ drop (w * i + w + w * n) r)"
    by (simp add: algebra_simps)
  moreover have "take (w * i + w) r = take (w * i) raw @ enc (xs ! i)" "drop (w * i + w + w * n) r = drop (w * i + w + w * n) raw"
    using i assms by (simp_all add: r_def add.commute)
  moreover have "take (Suc n) (drop i xs) = xs ! i # take n (drop (Suc i) xs)" using i by (simp add: Cons_nth_drop_Suc [symmetric])
  ultimately show ?case using i by (simp add: get_at_def algebra_simps)
qed simp

section \<open>Reading and writing\<close>

definition file_ok :: "'g file_device \<Rightarrow> bool" where
  "file_ok d \<longleftrightarrow> 0 < fd_buffer_len d \<and> length (temp d) = fd_buffer_len d \<and>
     (is_raw (rx_format d) \<longrightarrow> map_option length (raw_temp d) = Some (4 * fd_buffer_len d)) \<and>
     (is_raw (tx_format d) \<longrightarrow> map_option length (tx_raw_temp d) = Some (4 * fd_buffer_len d))"

text \<open>
  What the device relies on of zlib: reading delivers the next bytes of the uncompressed stream, for
  lengths that fit an \<^verbatim>\<open>int\<close>, and writing appends to it.
\<close>

definition zlib_ok :: "'g zlib \<Rightarrow> ('g \<Rightarrow> u8 list) \<Rightarrow> ('g \<Rightarrow> u8 list) \<Rightarrow> bool" where
  "zlib_ok z unread written \<longleftrightarrow>
    (\<forall>n g. 0 < n \<and> n < 2 ^ 31 \<longrightarrow> (case gzread z n g of (r, data, g') \<Rightarrow>
       r = int (min n (length (unread g))) \<and> data = take n (unread g) \<and> unread g' = drop n (unread g))) \<and>
    (\<forall>bs g. written (gzwrite z bs g) = written g @ bs)"

text \<open>The bytes a device has still to read, and those it has written.\<close>

definition unread_of :: "('g \<Rightarrow> u8 list) \<Rightarrow> 'g file_device \<Rightarrow> u8 list option" where
  "unread_of unread d = (case fd_rx_gz d of Some g \<Rightarrow> Some (unread g) | None \<Rightarrow> fd_rx_file d)"

definition written_of :: "('g \<Rightarrow> u8 list) \<Rightarrow> 'g file_device \<Rightarrow> u8 list option" where
  "written_of written d = (case fd_tx_gz d of Some g \<Rightarrow> Some (written g) | None \<Rightarrow> fd_tx_file d)"

definition same_setup :: "'g file_device \<Rightarrow> 'g file_device \<Rightarrow> bool" where
  "same_setup d d' \<longleftrightarrow> rx_format d' = rx_format d \<and> tx_format d' = tx_format d \<and> fd_buffer_len d' = fd_buffer_len d"

lemma file_views [simp]:
  "unread_of unread (d\<lparr>temp := out\<rparr>) = unread_of unread d" "unread_of unread (d\<lparr>raw_temp := r\<rparr>) = unread_of unread d"
  "unread_of unread (d\<lparr>tx_raw_temp := r\<rparr>) = unread_of unread d" "unread_of unread (d\<lparr>fd_tx_file := f\<rparr>) = unread_of unread d"
  "unread_of unread (d\<lparr>fd_tx_gz := h\<rparr>) = unread_of unread d"
  "written_of written (d\<lparr>temp := out\<rparr>) = written_of written d" "written_of written (d\<lparr>raw_temp := r\<rparr>) = written_of written d"
  "written_of written (d\<lparr>tx_raw_temp := r\<rparr>) = written_of written d" "written_of written (d\<lparr>fd_rx_file := f\<rparr>) = written_of written d"
  "written_of written (d\<lparr>fd_rx_gz := h\<rparr>) = written_of written d"
  by (simp_all add: unread_of_def written_of_def split: option.split)

lemma bytes_per_sample_range: "0 < bytes_per_sample fmt" "bytes_per_sample fmt \<le> 8" "is_raw fmt \<Longrightarrow> bytes_per_sample fmt \<le> 4"
  by (auto simp: bytes_per_sample_def is_raw_def)

lemma div_take: "0 < w \<Longrightarrow> min n (length bs div w) = length (take (w * n) bs) div w"
proof (cases "w * n \<le> length bs")
  case True
  then show "0 < w \<Longrightarrow> ?thesis" using div_le_mono [OF True, of w] by simp
next
  case False
  then have "length bs div w < n" if "0 < w" using that by (simp add: div_less_iff_less_mult mult.commute)
  with False show "0 < w \<Longrightarrow> ?thesis" by (simp add: min_def)
qed

lemma zlib_read:
  assumes "zlib_ok z unread written" "0 < n" "n < 2 ^ 31" "gzread z n g = (r, data, g')"
  shows "r = int (min n (length (unread g)))" "data = take n (unread g)" "unread g' = drop n (unread g)"
proof -
  have "case gzread z n g of (r, data, g') \<Rightarrow>
      r = int (min n (length (unread g))) \<and> data = take n (unread g) \<and> unread g' = drop n (unread g)"
    using assms(1) [unfolded zlib_ok_def, THEN conjunct1, rule_format, of n g] assms(2,3) by simp
  then show "r = int (min n (length (unread g)))" "data = take n (unread g)" "unread g' = drop n (unread g)"
    by (simp_all add: assms(4))
qed

lemma read_count: "0 < n \<Longrightarrow> (int (min n (length bs)) \<le> 0 \<longleftrightarrow> bs = []) \<and> nat (int (min n (length bs))) = length (take n bs)"
  by (auto simp: min_def)

lemma read_bytes_spec:
  assumes ok: "file_ok d" "zlib_ok z unread written" "8 * fd_buffer_len d < 2 ^ 31" and bs: "unread_of unread d = Some bs"
  defines "bps \<equiv> bytes_per_sample (rx_format d)"
  shows "\<exists>d1. read_bytes z d = ((if fd_rx_gz d \<noteq> None \<and> bs = [] then None
      else Some (take (bps * fd_buffer_len d) bs, length (take (bps * fd_buffer_len d) bs) div bps)), d1) \<and>
    file_ok d1 \<and> same_setup d d1 \<and> unread_of unread d1 = Some (drop (bps * fd_buffer_len d) bs) \<and>
    written_of written d1 = written_of written d \<and> temp d1 = temp d \<and> raw_temp d1 = raw_temp d"
proof (cases "fd_rx_gz d")
  case None
  then have "fd_rx_file d = Some bs" using bs by (simp add: unread_of_def)
  with None show ?thesis using ok(1) div_take [of bps "fd_buffer_len d" bs] bytes_per_sample_range(1) [of "rx_format d"]
    by (simp add: read_bytes_def bps_def Let_def file_ok_def same_setup_def unread_of_def)
next
  case (Some g)
  then have u: "unread g = bs" using bs by (simp add: unread_of_def)
  let ?n = "bps * fd_buffer_len d"
  have pos: "0 < ?n" using ok(1) bytes_per_sample_range(1) [of "rx_format d"] by (simp add: bps_def file_ok_def)
  have "?n \<le> 8 * fd_buffer_len d" using bytes_per_sample_range(2) [of "rx_format d"] by (simp add: bps_def)
  then have n: "?n < 2 ^ 31" using ok(3) by linarith
  then have w: "unat (of_nat ?n :: u32) = ?n" by (simp add: unat_of_nat del: of_nat_mult)
  obtain r data g' where r: "gzread z ?n g = (r, data, g')" by (metis prod_cases3)
  note zr = zlib_read [OF ok(2) pos n r, unfolded u]
  have "r \<le> 0 \<longleftrightarrow> bs = []" and nr: "nat r = length (take ?n bs)"
    unfolding zr(1) using read_count [OF pos, of bs] by blast+
  moreover have "take (nat r) data = take ?n bs" unfolding nr zr(2) by (rule take_all) simp
  moreover have "read_bytes z d = ((if r \<le> 0 then None else Some (take (nat r) data, nat r div bps)), d\<lparr>fd_rx_gz := Some g'\<rparr>)"
    unfolding read_bytes_def Let_def bps_def [symmetric] w using Some r by simp
  ultimately show ?thesis using Some ok(1) zr(3)
    by (intro exI [of _ "d\<lparr>fd_rx_gz := Some g'\<rparr>"]) (simp add: file_ok_def same_setup_def unread_of_def)
qed

lemma rx_conversion:
  assumes ok: "file_ok d" and n: "n = length data div bytes_per_sample (rx_format d)"
    and len: "length data \<le> bytes_per_sample (rx_format d) * fd_buffer_len d"
  shows "\<exists>d' rest. fill_read_buf data d = Some d' \<and> file_ok d' \<and> same_setup d d' \<and> unread_of unread d' = unread_of unread d \<and>
    written_of written d' = written_of written d \<and> length (temp d') = fd_buffer_len d \<and>
    convert_read_buf load data n d' = Some (map (sample_of load (rx_format d)) (groups (bytes_per_sample (rx_format d)) data) @ rest) \<and>
    length (map (sample_of load (rx_format d)) (groups (bytes_per_sample (rx_format d)) data) @ rest) = fd_buffer_len d"
proof -
  let ?fmt = "rx_format d"
  let ?w = "bytes_per_sample ?fmt"
  have sizes: "length (temp d) = fd_buffer_len d" "?w * n \<le> length data" "n \<le> fd_buffer_len d"
    using ok len div_le_mono [OF len, of ?w] bytes_per_sample_range(1) [of ?fmt] by (simp_all add: file_ok_def n)
  have conv: "\<exists>rest. unpack ?w (sample_of load ?fmt) raw (temp d) 0 n = Some (map (sample_of load ?fmt) (groups ?w data) @ rest) \<and>
      length (map (sample_of load ?fmt) (groups ?w data) @ rest) = fd_buffer_len d"
    if "take (?w * n) raw = take (?w * n) data" "?w * n \<le> length raw" for raw
    using unpack_groups [OF that(1) n that(2), of "temp d" "sample_of load ?fmt"] sizes by simp
  show ?thesis
  proof (cases "is_raw ?fmt")
    case True
    then obtain raw where raw: "raw_temp d = Some raw" "length raw = 4 * fd_buffer_len d" using ok by (auto simp: file_ok_def)
    define raw1 where "raw1 = data @ drop (length data) raw"
    have "?w * fd_buffer_len d \<le> 4 * fd_buffer_len d" using bytes_per_sample_range(3) [OF True] by simp
    with len raw(2) have fits: "length data \<le> length raw" by linarith
    from conv [of raw1] sizes obtain rest where
      u: "unpack ?w (sample_of load ?fmt) raw1 (temp d) 0 n = Some (map (sample_of load ?fmt) (groups ?w data) @ rest)"
        "length (map (sample_of load ?fmt) (groups ?w data) @ rest) = fd_buffer_len d" by (auto simp: raw1_def)
    have "fill_read_buf data d = Some (d\<lparr>raw_temp := Some raw1\<rparr>)"
      using True raw(1) fits by (simp add: fill_read_buf_def is_raw_def memcpy_def raw1_def)
    moreover have "convert_read_buf load data n (d\<lparr>raw_temp := Some raw1\<rparr>) = unpack ?w (sample_of load ?fmt) raw1 (temp d) 0 n"
      using True by (auto simp: convert_read_buf_def cu8_to_cf32_def cs16_to_cf32_def sample_of_def [abs_def] bytes_per_sample_def is_raw_def)
    ultimately show ?thesis using u ok fits raw sizes
      by (intro exI [of _ "d\<lparr>raw_temp := Some raw1\<rparr>"] exI [of _ rest]) (auto simp: file_ok_def same_setup_def raw1_def)
  next
    case False
    then have w: "?w = 8" "sample_of load ?fmt = load" by (auto simp: bytes_per_sample_def is_raw_def sample_of_def [abs_def])
    from conv [of data] sizes obtain rest where
      u: "unpack ?w (sample_of load ?fmt) data (temp d) 0 n = Some (map (sample_of load ?fmt) (groups ?w data) @ rest)"
        "length (map (sample_of load ?fmt) (groups ?w data) @ rest) = fd_buffer_len d" by auto
    with False w ok len sizes show ?thesis
      by (intro exI [of _ d] exI [of _ rest]) (simp add: fill_read_buf_def convert_read_buf_def is_raw_def same_setup_def)
  qed
qed

lemma sdr_file_process_rx_spec:
  assumes ok: "file_ok d" "zlib_ok z unread written" "8 * fd_buffer_len d < 2 ^ 31" and bs: "unread_of unread d = Some bs"
  defines "bps \<equiv> bytes_per_sample (rx_format d)"
  shows "\<exists>code d'. sdr_file_process_rx z load d =
      Some (code, map (sample_of load (rx_format d)) (groups bps (take (bps * fd_buffer_len d) bs)), d') \<and>
    file_ok d' \<and> same_setup d d' \<and> unread_of unread d' = Some (drop (bps * fd_buffer_len d) bs) \<and>
    written_of written d' = written_of written d \<and> (code = 0 \<or> code = - 1) \<and>
    (bs = [] \<longrightarrow> code = - 1) \<and> (bps \<le> length bs \<longrightarrow> code = 0)"
proof -
  define data n where "data = take (bps * fd_buffer_len d) bs" and "n = length data div bps"
  from read_bytes_spec [OF ok bs] obtain d1 where
    r: "read_bytes z d = ((if fd_rx_gz d \<noteq> None \<and> bs = [] then None else Some (data, n)), d1)"
    and d1: "file_ok d1" "same_setup d d1" "unread_of unread d1 = Some (drop (bps * fd_buffer_len d) bs)"
      "written_of written d1 = written_of written d" "temp d1 = temp d" "raw_temp d1 = raw_temp d"
    unfolding bps_def [symmetric] data_def [symmetric] n_def [symmetric] by auto
  have bps: "0 < bps" using bytes_per_sample_range(1) by (simp add: bps_def)
  have n: "n = 0 \<Longrightarrow> groups bps data = []" "bps \<le> length bs \<Longrightarrow> 0 < n" "bs = [] \<Longrightarrow> n = 0"
    using bps ok(1) by (simp_all add: n_def data_def groups_def div_greater_zero_iff file_ok_def)
  show ?thesis
  proof (cases "fd_rx_gz d \<noteq> None \<and> bs = []")
    case True
    with r d1 bps show ?thesis by (auto simp: sdr_file_process_rx_def groups_def)
  next
    case False
    have fmt: "bps = bytes_per_sample (rx_format d1)" "rx_format d1 = rx_format d" "fd_buffer_len d1 = fd_buffer_len d"
      using d1(2) by (simp_all add: same_setup_def bps_def)
    have "n = length data div bytes_per_sample (rx_format d1)" "length data \<le> bytes_per_sample (rx_format d1) * fd_buffer_len d1"
      using fmt by (simp_all add: n_def data_def)
    from rx_conversion [OF d1(1) this, of unread written load] obtain d2 rest where
      d2: "fill_read_buf data d1 = Some d2" "file_ok d2" "same_setup d1 d2" "unread_of unread d2 = unread_of unread d1"
        "written_of written d2 = written_of written d1"
      and c: "convert_read_buf load data n d2 = Some (map (sample_of load (rx_format d)) (groups bps data) @ rest)"
        "length (map (sample_of load (rx_format d)) (groups bps data) @ rest) = fd_buffer_len d"
      unfolding fmt(2,3) bps_def [symmetric] by blast
    have tk: "take n (map (sample_of load (rx_format d)) (groups bps data) @ rest) = map (sample_of load (rx_format d)) (groups bps data)"
      by (simp add: groups_def n_def)
    have "same_setup d d2" using d1(2) d2(3) by (simp add: same_setup_def)
    moreover have "file_ok (d2\<lparr>temp := out\<rparr>)" "same_setup d (d2\<lparr>temp := out\<rparr>)" if "length out = fd_buffer_len d" for out
      using that calculation d2(2) by (simp_all add: file_ok_def same_setup_def)
    ultimately show ?thesis unfolding data_def [symmetric] sdr_file_process_rx_def r
      using False d1 d2 c tk n by auto
  qed
qed

lemma write_bytes_spec:
  assumes "zlib_ok z unread written" "written_of written d = Some out" "length bs < 2 ^ 32"
  shows "written_of written (write_bytes z bs d) = Some (out @ bs)" "unread_of unread (write_bytes z bs d) = unread_of unread d"
    "file_ok (write_bytes z bs d) = file_ok d" "same_setup d (write_bytes z bs d)" "fd_buffer_len (write_bytes z bs d) = fd_buffer_len d"
    "tx_format (write_bytes z bs d) = tx_format d"
proof -
  have "unat (of_nat (length bs) :: u32) = length bs" using assms(3) by (simp add: unat_of_nat)
  then show "written_of written (write_bytes z bs d) = Some (out @ bs)"
    using assms(1,2) by (auto simp: write_bytes_def written_of_def zlib_ok_def split: option.splits)
qed (simp_all add: write_bytes_def file_ok_def same_setup_def unread_of_def split: option.split)

lemma encode_chunk:
  assumes ok: "file_ok d" and sizes: "\<And>x. length (store x) = 8" and n: "n \<le> length xs" "n \<le> fd_buffer_len d"
  defines "bs \<equiv> concat (map (bytes_of store (tx_format d)) (take n xs))"
  shows "\<exists>d1. (if tx_format d = FILE_FORMAT_CU8 \<or> tx_format d = FILE_FORMAT_CS16 then do {
            raw \<leftarrow> tx_raw_temp d;
            raw1 \<leftarrow> (if tx_format d = FILE_FORMAT_CU8 then cf32_to_cu8 xs raw n else cf32_to_cs16 xs raw n);
            Some (take (bytes_per_sample (tx_format d) * n) raw1, d\<lparr>tx_raw_temp := Some raw1\<rparr>) }
          else Some (concat (map store (take n xs)), d)) = Some (bs, d1) \<and>
      file_ok d1 \<and> same_setup d d1 \<and> unread_of unread d1 = unread_of unread d \<and> written_of written d1 = written_of written d \<and>
      length bs \<le> 8 * n"
proof -
  let ?fmt = "tx_format d"
  let ?w = "bytes_per_sample ?fmt"
  have enc: "length (bytes_of store ?fmt x) = ?w" for x using sizes by (simp add: bytes_of_def bytes_per_sample_def s16_bytes_def)
  have len: "length bs = ?w * n"
    using n(1) by (simp add: bs_def length_concat o_def enc sum_list_triv)
  then have small: "length bs \<le> 8 * n" using bytes_per_sample_range(2) [of ?fmt] by simp
  show ?thesis
  proof (cases "is_raw ?fmt")
    case True
    then obtain raw where raw: "tx_raw_temp d = Some raw" "length raw = 4 * fd_buffer_len d" using ok by (auto simp: file_ok_def)
    have "?w * n \<le> length raw" unfolding raw(2) using bytes_per_sample_range(3) [OF True] n(2) by (rule mult_le_mono)
    with pack_spec [OF enc, of 0 n xs raw] n(1)
    have p: "pack ?w (bytes_of store ?fmt) xs raw 0 n = Some (bs @ drop (?w * n) raw)" by (simp add: bs_def)
    have "(if ?fmt = FILE_FORMAT_CU8 then cf32_to_cu8 xs raw n else cf32_to_cs16 xs raw n) = Some (bs @ drop (?w * n) raw)"
      using True p by (auto simp: is_raw_def cf32_to_cu8_def cf32_to_cs16_def bytes_of_def [abs_def] bytes_per_sample_def)
    then show ?thesis using True raw ok len small \<open>?w * n \<le> length raw\<close>
      by (auto simp: is_raw_def file_ok_def same_setup_def)
  next
    case False
    then have "bytes_of store ?fmt = store" by (auto simp: is_raw_def bytes_of_def)
    with False ok small show ?thesis by (auto simp: bs_def is_raw_def same_setup_def)
  qed
qed

lemma tx_loop_spec:
  assumes sizes: "\<And>x. length (store x) = 8" and z: "zlib_ok z unread written"
  shows "file_ok d \<Longrightarrow> 8 * fd_buffer_len d < 2 ^ 31 \<Longrightarrow> written_of written d = Some out \<Longrightarrow>
    \<exists>d'. tx_loop z store input offset d = Some d' \<and> file_ok d' \<and> same_setup d d' \<and> unread_of unread d' = unread_of unread d \<and>
      written_of written d' = Some (out @ concat (map (bytes_of store (tx_format d)) (drop offset input)))"
proof (induction "length input - offset" arbitrary: offset d out rule: less_induct)
  case less
  show ?case
  proof (cases "offset < length input")
    case True
    define n where "n = min (length input - offset) (fd_buffer_len d)"
    let ?xs = "drop offset input"
    have n: "n \<le> length ?xs" "n \<le> fd_buffer_len d" "0 < n" using True less.prems(1) by (simp_all add: n_def file_ok_def)
    from encode_chunk [of d store n ?xs unread written, OF less.prems(1) sizes n(1,2)] obtain d1 where
      e: "(if tx_format d = FILE_FORMAT_CU8 \<or> tx_format d = FILE_FORMAT_CS16 then do {
            raw \<leftarrow> tx_raw_temp d;
            raw1 \<leftarrow> (if tx_format d = FILE_FORMAT_CU8 then cf32_to_cu8 ?xs raw n else cf32_to_cs16 ?xs raw n);
            Some (take (bytes_per_sample (tx_format d) * n) raw1, d\<lparr>tx_raw_temp := Some raw1\<rparr>) }
          else Some (concat (map store (take n ?xs)), d)) = Some (concat (map (bytes_of store (tx_format d)) (take n ?xs)), d1)"
      and d1: "file_ok d1" "same_setup d d1" "unread_of unread d1 = unread_of unread d" "written_of written d1 = written_of written d"
        "length (concat (map (bytes_of store (tx_format d)) (take n ?xs))) \<le> 8 * n" by blast
    let ?bs = "concat (map (bytes_of store (tx_format d)) (take n ?xs))"
    let ?d2 = "write_bytes z ?bs d1"
    have "8 * n \<le> 8 * fd_buffer_len d" using n(2) by simp
    moreover have "(2 :: nat) ^ 31 < 2 ^ 32" by simp
    ultimately have "length ?bs < 2 ^ 32" using d1(5) less.prems(2) by linarith
    note w = write_bytes_spec [OF z d1(4) [unfolded less.prems(3)] this]
    have fmt: "tx_format ?d2 = tx_format d" "fd_buffer_len ?d2 = fd_buffer_len d" using w(5,6) d1(2) by (simp_all add: same_setup_def)
    have "length input - (offset + n) < length input - offset" using True n(3) by simp
    from less.hyps [OF this, of ?d2 "out @ ?bs"] less.prems(2) w d1 fmt obtain d' where
      d': "tx_loop z store input (offset + n) ?d2 = Some d'" "file_ok d'" "same_setup ?d2 d'" "unread_of unread d' = unread_of unread d"
        "written_of written d' = Some ((out @ ?bs) @ concat (map (bytes_of store (tx_format d)) (drop (offset + n) input)))" by auto
    have "drop (offset + n) input = drop n ?xs" by (simp add: add.commute)
    then have "?bs @ concat (map (bytes_of store (tx_format d)) (drop (offset + n) input)) =
        concat (map (bytes_of store (tx_format d)) (take n ?xs @ drop n ?xs))" by (simp only: map_append concat_append)
    then have "?bs @ concat (map (bytes_of store (tx_format d)) (drop (offset + n) input)) = concat (map (bytes_of store (tx_format d)) ?xs)"
      by (simp only: append_take_drop_id)
    moreover have "tx_loop z store input offset d = tx_loop z store input (offset + n) ?d2"
      using True e by (simp add: tx_loop.simps [of z store input offset d] n_def [symmetric] Let_def)
    moreover have "same_setup d d'" using d'(3) w(4) d1(2) by (simp add: same_setup_def)
    ultimately show ?thesis using d' by simp
  qed (use less.prems in \<open>simp add: tx_loop.simps [of z store input offset d] same_setup_def\<close>)
qed

lemma sdr_file_process_tx_spec:
  assumes "\<And>x. length (store x) = 8" "zlib_ok z unread written" "file_ok d" "8 * fd_buffer_len d < 2 ^ 31" "written_of written d = Some out"
  shows "\<exists>d'. sdr_file_process_tx z store input d = Some (0, d') \<and> file_ok d' \<and> same_setup d d' \<and> unread_of unread d' = unread_of unread d \<and>
      written_of written d' = Some (out @ concat (map (bytes_of store (tx_format d)) input))"
proof -
  have "\<not> (fd_tx_gz d = None \<and> fd_tx_file d = None)" using assms(5) by (auto simp: written_of_def)
  with tx_loop_spec [of store z unread written d out input 0, OF assms] show ?thesis by (auto simp: sdr_file_process_tx_def)
qed

section \<open>Copying a file\<close>

text \<open>The samples that are read are written back, until the reader reports its end.\<close>

fun sdr_file_copy :: "nat \<Rightarrow> 'g zlib \<Rightarrow> (u8 list \<Rightarrow> sample) \<Rightarrow> (sample \<Rightarrow> u8 list) \<Rightarrow> 'g file_device \<Rightarrow> 'g file_device option" where
  "sdr_file_copy 0 z load store d = None"
| "sdr_file_copy (Suc k) z load store d = do {
     (code, out, d1) \<leftarrow> sdr_file_process_rx z load d;
     (if code \<noteq> 0 then Some d1
      else do {
        (_, d2) \<leftarrow> sdr_file_process_tx z store out d1;
        sdr_file_copy k z load store d2 }) }"

lemma groups_split:
  assumes "0 < w"
  shows "groups w bs = groups w (take (w * n) bs) @ groups w (drop (w * n) bs)"
proof (cases "w * n \<le> length bs")
  case True
  define m where "m = (length bs - w * n) div w"
  have "length bs = (length bs - w * n) + w * n" using True by simp
  then have len: "length bs div w = n + m" using div_mult_self2 [of w "length bs - w * n" n] assms by (simp add: m_def)
  have "take w (drop (w * j) (take (w * n) bs)) = take w (drop (w * j) bs)" if "j < n" for j
  proof -
    have "w * j + w \<le> w * n" using mult_le_mono2 [of "Suc j" n w] that by simp
    then show ?thesis by (simp add: drop_take min_def)
  qed
  then have front: "groups w (take (w * n) bs) = map (\<lambda>j. take w (drop (w * j) bs)) [0..<n]"
    using True assms by (simp add: groups_def min_def)
  have "drop (w * j) (drop (w * n) bs) = drop (w * (j + n)) bs" for j by (simp add: distrib_left)
  then have "groups w (drop (w * n) bs) = map (\<lambda>j. take w (drop (w * j) bs)) (map (\<lambda>i. i + n) [0..<m])"
    unfolding groups_def m_def length_drop by simp
  also have "map (\<lambda>i. i + n) [0..<m] = [n..<n + m]" by (simp add: map_add_upt add.commute)
  finally have rest: "groups w (drop (w * n) bs) = map (\<lambda>j. take w (drop (w * j) bs)) [n..<n + m]" .
  have "[0..<n + m] = [0..<n] @ [n..<n + m]" using upt_add_eq_append [of 0 n m] by simp
  then show ?thesis unfolding front rest groups_def [of w bs] len by (simp only: map_append)
qed (simp add: groups_def)

lemma sdr_file_copy_spec:
  assumes sizes: "\<And>x. length (store x) = 8" and z: "zlib_ok z unread written"
  shows "file_ok d \<Longrightarrow> 8 * fd_buffer_len d < 2 ^ 31 \<Longrightarrow> unread_of unread d = Some bs \<Longrightarrow> written_of written d = Some out \<Longrightarrow>
    length bs < k \<Longrightarrow> \<exists>d'. sdr_file_copy k z load store d = Some d' \<and>
      written_of written d' = Some (out @ concat (map (\<lambda>g. bytes_of store (tx_format d) (sample_of load (rx_format d) g))
        (groups (bytes_per_sample (rx_format d)) bs)))"
proof (induction k arbitrary: d bs out)
  case (Suc k)
  let ?w = "bytes_per_sample (rx_format d)"
  let ?n = "?w * fd_buffer_len d"
  let ?conv = "\<lambda>gs. concat (map (\<lambda>g. bytes_of store (tx_format d) (sample_of load (rx_format d) g)) gs)"
  have w: "0 < ?w" by (rule bytes_per_sample_range)
  from sdr_file_process_rx_spec [OF Suc.prems(1) z Suc.prems(2,3), of load] obtain code d1 where
    rx: "sdr_file_process_rx z load d = Some (code, map (sample_of load (rx_format d)) (groups ?w (take ?n bs)), d1)"
    and d1: "file_ok d1" "same_setup d d1" "unread_of unread d1 = Some (drop ?n bs)" "written_of written d1 = Some out"
      "bs = [] \<longrightarrow> code = - 1" "?w \<le> length bs \<longrightarrow> code = 0" using Suc.prems(4) by auto
  have fmt: "tx_format d1 = tx_format d" "fd_buffer_len d1 = fd_buffer_len d" using d1(2) by (simp_all add: same_setup_def)
  show ?case
  proof (cases "code = 0")
    case False
    then have "groups ?w bs = []" using d1(6) by (simp add: groups_def not_le)
    with False rx d1(4) show ?thesis by simp
  next
    case True
    from sdr_file_process_tx_spec [of store z unread written d1 out "map (sample_of load (rx_format d)) (groups ?w (take ?n bs))", OF sizes z d1(1) _ d1(4)]
      Suc.prems(2) fmt obtain d2 where
      tx: "sdr_file_process_tx z store (map (sample_of load (rx_format d)) (groups ?w (take ?n bs))) d1 = Some (0, d2)"
      and d2: "file_ok d2" "same_setup d1 d2" "unread_of unread d2 = Some (drop ?n bs)"
        "written_of written d2 = Some (out @ ?conv (groups ?w (take ?n bs)))" using d1(3) by (auto simp: o_def)
    have set: "rx_format d2 = rx_format d" "tx_format d2 = tx_format d" "fd_buffer_len d2 = fd_buffer_len d"
      using d1(2) d2(2) by (simp_all add: same_setup_def)
    have "0 < ?n" using w Suc.prems(1) by (simp add: file_ok_def)
    moreover have "bs \<noteq> []" using True d1(5) by auto
    ultimately have "length (drop ?n bs) < length bs" unfolding length_drop by (intro diff_less) simp_all
    then have "length (drop ?n bs) < k" using Suc.prems(5) by linarith
    from Suc.IH [OF d2(1) _ d2(3,4) this] Suc.prems(2) set obtain d' where
      "sdr_file_copy k z load store d2 = Some d'" "written_of written d' = Some ((out @ ?conv (groups ?w (take ?n bs))) @ ?conv (groups ?w (drop ?n bs)))"
      by auto
    moreover have "?conv (groups ?w bs) = ?conv (groups ?w (take ?n bs)) @ ?conv (groups ?w (drop ?n bs))"
      by (subst groups_split [OF w, of bs "fd_buffer_len d"]) (simp only: map_append concat_append)
    ultimately show ?thesis using True rx tx by simp
  qed
qed simp

lemma sdr_file_create_outcome:
  "\<exists>code ps. sdr_file_create env rx rx_fmt tx tx_fmt = Some (code, ps) \<and>
    (if code = 0 then ps = insert File_struct (parts_of (sdr_file_create_steps env rx rx_fmt tx tx_fmt)) \<and> struct_ok env \<and> result_ok env
     else ps = {})"
proof (cases "struct_ok env")
  case True
  have "list_all (\<lambda>st. fst st \<or> fst (snd st) \<noteq> 0) (sdr_file_create_steps env rx rx_fmt tx tx_fmt)"
    by (auto simp: sdr_file_create_steps_def open_step_def split: option.split)
  from sdr_file.construct_outcome [OF this, of "{File_struct}"] True show ?thesis
    by (auto simp: sdr_file_create_def sdr_file_create_steps_def split: if_splits)
qed (simp add: sdr_file_create_def)

text \<open>
  To the receiving worker the file device keeps what it expects of a device: no call has undefined
  behaviour and every call leaves the buffers in order.
\<close>

definition file_device_state :: "('g \<Rightarrow> u8 list) \<Rightarrow> bool \<Rightarrow> 'g file_device option \<Rightarrow> bool" where
  "file_device_state unread b p \<longleftrightarrow>
    (case p of None \<Rightarrow> False | Some d \<Rightarrow> file_ok d \<and> 8 * fd_buffer_len d < 2 ^ 31 \<and> unread_of unread d \<noteq> None)"

lemma sdr_file_device_ok:
  assumes "zlib_ok z unread written"
  shows "device_ok (file_device_state unread) (sdr_file_device callback flush z load store d0)"
proof -
  have "file_device_state unread True (snd (snd (case Option.bind p (sdr_file_process_rx z load) of
      None \<Rightarrow> (- 1, [], None) | Some (code, out, d) \<Rightarrow> (code, out, Some d))))" if "file_device_state unread True p" for p
  proof -
    from that obtain d bs where p: "p = Some d" "file_ok d" "8 * fd_buffer_len d < 2 ^ 31" "unread_of unread d = Some bs"
      by (auto simp: file_device_state_def split: option.splits)
    from sdr_file_process_rx_spec [OF p(2) assms p(3,4), of load] obtain code out d' where
      "sdr_file_process_rx z load d = Some (code, out, d')" "file_ok d'" "same_setup d d'" "unread_of unread d' \<noteq> None" by auto
    with p show ?thesis by (simp add: file_device_state_def same_setup_def)
  qed
  then show ?thesis
    by (auto simp: device_ok_def sdr_file_device_def sdr_file_no_op_def sdr_file_set_no_op_def file_device_state_def)
qed

section \<open>Properties\<close>



end
