(* ===== verification/AppConfigSafety.thy ===== *)
theory AppConfigSafety
  imports AppConfig
begin

text \<open>
  Proofs about the configuration of \<open>AppConfig\<close>: every string and library has exactly one owner at
  every step, values from checked strings stay in range, and what the validation guarantees to the
  rest of the program.
\<close>

section \<open>Ownership\<close>

lemma all_ptr_member:
  "(\<forall>m. P m) \<longleftrightarrow> P Bind_address \<and> P Freq_offset_file \<and> P Debug_freq_offset_file \<and> P Debug_constellation_file \<and>
     P Debug_baseband_file \<and> P Debug_subcarrier_file \<and> P Uri \<and> P Calib_mode \<and> P Iio \<and> P Airspy_lib \<and> P Rx_file \<and> P Tx_file \<and>
     P Input_file \<and> P Output_file"
  (is "_ = ?all")
proof
  assume ?all
  then have "P m" for m by (cases m) simp_all
  then show "\<forall>m. P m" ..
qed simp

lemma ptr_of_set_ptr [simp]: "ptr_of m (set_ptr m' p c) = (if m = m' then p else ptr_of m c)"
  by (cases m; cases m') simp_all

text \<open>
  \<open>owned b (c, h)\<close>: every pointer of \<open>c\<close> has its own live block, and apart from these blocks the heap
  is \<open>b\<close>.
\<close>

definition owned :: "(addr \<rightharpoonup> string) \<Rightarrow> cfg_state \<Rightarrow> bool" where
  "owned b s \<longleftrightarrow> (\<forall>a. next_block (snd s) \<le> a \<longrightarrow> blocks (snd s) a = None) \<and>
     (\<forall>m m' a. ptr_of m (fst s) = Some a \<longrightarrow> ptr_of m' (fst s) = Some a \<longrightarrow> m = m') \<and>
     (\<forall>m a. ptr_of m (fst s) = Some a \<longrightarrow> b a = None \<and> blocks (snd s) a \<noteq> None) \<and>
     (\<forall>a. (\<forall>m. ptr_of m (fst s) \<noteq> Some a) \<longrightarrow> blocks (snd s) a = b a)"

lemma ownedI:
  assumes "\<And>a. next_block h \<le> a \<Longrightarrow> blocks h a = None"
    and "\<And>m m' a. ptr_of m c = Some a \<Longrightarrow> ptr_of m' c = Some a \<Longrightarrow> m = m'"
    and "\<And>m a. ptr_of m c = Some a \<Longrightarrow> b a = None" "\<And>m a. ptr_of m c = Some a \<Longrightarrow> blocks h a \<noteq> None"
    and "\<And>a. (\<And>m. ptr_of m c \<noteq> Some a) \<Longrightarrow> blocks h a = b a"
  shows "owned b (c, h)"
  unfolding owned_def using assms by (simp (no_asm_simp))

lemma ownedD:
  assumes "owned b (c, h)"
  shows "next_block h \<le> a \<Longrightarrow> blocks h a = None" "ptr_of m c = Some a \<Longrightarrow> ptr_of m' c = Some a \<Longrightarrow> m = m'"
    "ptr_of m c = Some a \<Longrightarrow> b a = None" "ptr_of m c = Some a \<Longrightarrow> blocks h a \<noteq> None"
    "(\<And>m. ptr_of m c \<noteq> Some a) \<Longrightarrow> blocks h a = b a"
  using assms unfolding owned_def fst_conv snd_conv by blast+

text \<open>Steps that never fail and keep ownership.\<close>

named_theorems act_intros "steps that keep ownership"

definition act_ok :: "(addr \<rightharpoonup> string) \<Rightarrow> cfg_act \<Rightarrow> bool" where
  "act_ok b a \<longleftrightarrow> (\<forall>s. owned b s \<longrightarrow> (\<exists>code s'. a s = Some (code, s') \<and> owned b s'))"

definition keeps_ptrs :: "(app_config \<Rightarrow> app_config) \<Rightarrow> bool" where
  "keeps_ptrs f \<longleftrightarrow> (\<forall>m c. ptr_of m (f c) = ptr_of m c)"

lemma keeps_ptrs_updates [act_intros]:
  "keeps_ptrs (upd_gfsk g)" "keeps_ptrs (upd_psk p)" "keeps_ptrs (upd_psk_pm q)" "keeps_ptrs (upd_airspy r)"
  "\<lbrakk>\<And>x. uri (t x) = uri x; \<And>x. calib_mode (t x) = calib_mode x\<rbrakk> \<Longrightarrow> keeps_ptrs (upd_plutosdr t)"
  "\<lbrakk>\<And>x. rx_file (u x) = rx_file x; \<And>x. tx_file (u x) = tx_file x\<rbrakk> \<Longrightarrow> keeps_ptrs (upd_sdr_file u)"
  by (simp_all add: keeps_ptrs_def all_ptr_member upd_gfsk_def upd_psk_def upd_psk_pm_def upd_airspy_def upd_plutosdr_def
      upd_sdr_file_def)

lemma keeps_ptrs_fields [act_intros]:
  "keeps_ptrs (\<lambda>c. c\<lparr>cfg_sdr_buffer_len := f1 c\<rparr>)" "keeps_ptrs (\<lambda>c. c\<lparr>port := f2 c\<rparr>)"
  "keeps_ptrs (\<lambda>c. c\<lparr>read_timeout_seconds := f3 c\<rparr>)" "keeps_ptrs (\<lambda>c. c\<lparr>queue_size := f4 c\<rparr>)"
  "keeps_ptrs (\<lambda>c. c\<lparr>cfg_max_frame_size := f5 c\<rparr>)" "keeps_ptrs (\<lambda>c. c\<lparr>direction := f6 c\<rparr>)"
  "keeps_ptrs (\<lambda>c. c\<lparr>sdr_type := f7 c\<rparr>)" "keeps_ptrs (\<lambda>c. c\<lparr>cfg_modem := f8 c\<rparr>)"
  "keeps_ptrs (\<lambda>c. c\<lparr>cfg_frequency := f9 c\<rparr>)" "keeps_ptrs (\<lambda>c. c\<lparr>cfg_sample_rate := f10 c\<rparr>)"
  "keeps_ptrs (\<lambda>c. c\<lparr>cfg_gain := f11 c\<rparr>)" "keeps_ptrs (\<lambda>c. c\<lparr>power := f12 c\<rparr>)"
  "keeps_ptrs (\<lambda>c. c\<lparr>log_level := f13 c\<rparr>)" "keeps_ptrs (\<lambda>c. c\<lparr>gfsk := f14 c\<rparr>)"
  by (simp_all add: keeps_ptrs_def all_ptr_member)

lemma owned_cong:
  "owned b (c, h) \<Longrightarrow> (\<And>m. ptr_of m c' = ptr_of m c) \<Longrightarrow> blocks h' = blocks h \<Longrightarrow> next_block h' = next_block h \<Longrightarrow> owned b (c', h')"
  by (simp add: owned_def)

lemma act_set_ok [act_intros]: "keeps_ptrs f \<Longrightarrow> act_ok b (act_set f)"
  by (auto simp: act_ok_def act_set_def keeps_ptrs_def intro: owned_cong)

lemma act_parse_ok [act_intros]:
  assumes "\<And>c c'. f c = Some c' \<Longrightarrow> \<forall>m. ptr_of m c' = ptr_of m c"
  shows "act_ok b (act_parse err f)"
  using assms by (auto simp: act_ok_def act_parse_def split: option.splits intro: owned_cong)

lemma act_check_ok [act_intros]: "act_ok b (act_check P)"
  by (simp add: act_ok_def act_check_def)

lemma run_acts_ok [act_intros]: "(\<And>a. a \<in> set acts \<Longrightarrow> act_ok b a) \<Longrightarrow> act_ok b (run_acts acts)"
proof (induction acts)
  case (Cons a acts)
  then have ok: "act_ok b a" "act_ok b (run_acts acts)" by auto
  show ?case
    unfolding act_ok_def
  proof (intro allI impI)
    fix s assume "owned b s"
    with ok(1) obtain code s1 where "a s = Some (code, s1)" "owned b s1" unfolding act_ok_def by blast
    moreover from ok(2) this(2) obtain code2 s2 where "run_acts acts s1 = Some (code2, s2)" "owned b s2"
      unfolding act_ok_def by blast
    ultimately show "\<exists>code s'. run_acts (a # acts) s = Some (code, s') \<and> owned b s'"
      by (cases "code = 0") auto
  qed
qed (simp add: act_ok_def)

lemma act_when_ok [act_intros]: "(\<And>a. a \<in> set acts \<Longrightarrow> act_ok b a) \<Longrightarrow> act_ok b (act_when P acts)"
  using run_acts_ok [of acts b] by (auto simp: act_ok_def act_when_def)

lemma if_setting_ok [act_intros]: "(\<And>st. config_lookup lc k = Some st \<Longrightarrow> act_ok b (f st)) \<Longrightarrow> act_ok b (if_setting lc k f)"
  by (auto simp: act_ok_def if_setting_def split: option.splits)

text \<open>Taking a new block for a member.\<close>

lemma owned_alloc:
  assumes own: "owned b (c, h)" and al: "host_alloc oom str h = (p, h1)" and m: "ptr_of m c = None"
  shows "owned b (set_ptr m p c, h1)"
proof (cases p)
  case None
  with al have "blocks h1 = blocks h" "next_block h1 = Suc (next_block h)" by (auto simp: host_alloc_def split: if_splits)
  moreover have "ptr_of m' (set_ptr m p c) = ptr_of m' c" for m' using None m by simp
  ultimately show ?thesis using ownedD [OF own] by (intro ownedI) (simp_all del: ptr_of_set_ptr)
next
  case (Some n)
  with al have h1: "n = next_block h" "blocks h1 = (blocks h)(n \<mapsto> str)" "next_block h1 = Suc n"
    by (auto simp: host_alloc_def split: if_splits)
  have fresh: "blocks h n = None" using ownedD(1) [OF own] h1(1) by simp
  then have unused: "ptr_of m' c \<noteq> Some n" for m' using ownedD(4) [OF own] by blast
  then have bn: "b n = None" using ownedD(5) [OF own] fresh by simp
  show ?thesis
  proof (rule ownedI)
    fix a assume none: "\<And>m'. ptr_of m' (set_ptr m p c) \<noteq> Some a"
    have "ptr_of m' c \<noteq> Some a" for m' using none [of m'] m by (cases "m' = m") auto
    moreover have "a \<noteq> n" using none [of m] Some by simp
    ultimately show "blocks h1 a = b a" using ownedD(5) [OF own] h1(2) by simp
  qed (use ownedD(1-4) [OF own] Some h1 unused bn in \<open>auto split: if_splits\<close>)
qed

lemma owned_free:
  assumes own: "owned b (c, h)" and m: "ptr_of m c = Some a"
  shows "\<exists>h1. host_free (Some a) h = Some h1 \<and> owned b (set_ptr m None c, h1) \<and> blocks h1 = (blocks h)(a := None)"
proof -
  let ?h = "h\<lparr>blocks := (blocks h)(a := None)\<rparr>"
  have others: "m' = m" if "ptr_of m' c = Some a" for m' using ownedD(2) [OF own that m] .
  have "owned b (set_ptr m None c, ?h)"
  proof (rule ownedI)
    fix x assume none: "\<And>m'. ptr_of m' (set_ptr m None c) \<noteq> Some x"
    show "blocks ?h x = b x"
    proof (cases "x = a")
      case False
      have "ptr_of m' c \<noteq> Some x" for m' using none [of m'] m False by (cases "m' = m") auto
      with ownedD(5) [OF own] False show ?thesis by simp
    qed (use ownedD(3) [OF own m] in simp)
  qed (use ownedD(1-4) [OF own] others in \<open>auto split: if_splits\<close>)
  with ownedD(4) [OF own m] show ?thesis by (auto simp: host_free_def)
qed

text \<open>Replacing a string: the copy is taken before the old value is given back.\<close>

lemma replace_str_ok [act_intros]: "act_ok b (app_config_replace_str oom (Some v) m)"
  unfolding act_ok_def
proof (intro allI impI)
  fix s assume own0: "owned b s"
  obtain c h where s: "s = (c, h)" by fastforce
  with own0 have own: "owned b (c, h)" by simp
  obtain p h1 where al: "host_alloc oom v h = (p, h1)" by fastforce
  show "\<exists>code s'. app_config_replace_str oom (Some v) m s = Some (code, s') \<and> owned b s'"
  proof (cases p)
    case None
    with al have "blocks h1 = blocks h" "next_block h1 = Suc (next_block h)" by (auto simp: host_alloc_def split: if_splits)
    with ownedD [OF own] have "owned b (c, h1)" by (intro ownedI) simp_all
    with al None s show ?thesis by (simp add: app_config_replace_str_def)
  next
    case (Some n)
    show ?thesis
    proof (cases "ptr_of m c")
      case old: None
      from owned_alloc [OF own al old] al Some old s show ?thesis by (simp add: app_config_replace_str_def host_free_def)
    next
      case old: (Some a)
      from owned_free [OF own old] obtain h2 where h2: "owned b (set_ptr m None c, h2)" "h2 = h\<lparr>blocks := (blocks h)(a := None)\<rparr>"
        by (auto simp: host_free_def split: if_splits)
      have live: "blocks h a \<noteq> None" by (rule ownedD(4) [OF own old])
      then have "a \<noteq> next_block h" using ownedD(1) [OF own, of a] by auto
      then have ne: "a \<noteq> n" "n = next_block h" "blocks h a \<noteq> None" "\<not> oom n"
        using al Some live by (auto simp: host_alloc_def split: if_splits)
      then have "host_alloc oom v h2 = (Some n, h1\<lparr>blocks := (blocks h1)(a := None)\<rparr>)"
        using al h2(2) Some by (auto simp: host_alloc_def fun_upd_twist split: if_splits)
      from owned_alloc [OF h2(1) this, of m] have "owned b (set_ptr m (Some n) c, h1\<lparr>blocks := (blocks h1)(a := None)\<rparr>)"
        by (cases m) simp_all
      moreover have "host_free (Some a) h1 = Some (h1\<lparr>blocks := (blocks h1)(a := None)\<rparr>)"
        using al Some ne by (auto simp: host_alloc_def host_free_def split: if_splits)
      ultimately show ?thesis using al Some old s by (simp add: app_config_replace_str_def)
    qed
  qed
qed


lemma drop_if_empty_ok [act_intros]: "act_ok b (drop_if_empty m)"
  unfolding act_ok_def
proof (intro allI impI)
  fix s assume "owned b s"
  then obtain c h where s: "s = (c, h)" "owned b (c, h)" by (cases s) simp
  show "\<exists>code s'. drop_if_empty m s = Some (code, s') \<and> owned b s'"
  proof (cases "ptr_of m c")
    case (Some a)
    with ownedD(4) [OF s(2) Some] obtain str where "blocks h a = Some str" by blast
    with owned_free [OF s(2) Some] s Some show ?thesis by (auto simp: drop_if_empty_def)
  qed (use s in \<open>simp add: drop_if_empty_def\<close>)
qed

lemma default_calib_mode_ok [act_intros]: "act_ok b (default_calib_mode oom)"
  unfolding act_ok_def default_calib_mode_def
  using owned_alloc [where m = Calib_mode and b = b] by (auto split: prod.splits)

lemma validate_files_ok [act_intros]: "act_ok b validate_files"
  unfolding act_ok_def validate_files_def
  by (auto simp: Let_def upd_sdr_file_def all_ptr_member split: prod.splits elim!: owned_cong intro: ptr_member.induct)

lemma log_level_ok [act_intros]: "act_ok b (\<lambda>(c, h). Some (0, c, h\<lparr>host_log_level := log_level c\<rparr>))"
  unfolding act_ok_def by (auto elim: owned_cong)

text \<open>The settings that must be strings, and what the caller of libconfig relies on.\<close>

definition string_settings :: "string list" where
  "string_settings = [''bind_address'', ''log_level'', ''direction'', ''sdr_type'', ''plutosdr_gain_control_mode'', ''plutosdr_uri'',
     ''plutosdr_calib_mode'', ''airspy_gain_mode'', ''airspy_serial'', ''rx_file'', ''rx_file_format'', ''tx_file'',
     ''tx_file_format'', ''modem'', ''syncword'', ''debug_constellation_file'', ''debug_baseband_file'', ''debug_subcarrier_file'']"

definition strings_ok :: "'st libconfig \<Rightarrow> bool" where
  "strings_ok lc \<longleftrightarrow> (\<forall>k \<in> set string_settings. \<forall>st. config_lookup lc k = Some st \<longrightarrow> config_setting_get_string lc st \<noteq> None)"

lemma from_ok [act_intros]:
  "(\<And>v. keeps_ptrs (fi v)) \<Longrightarrow> act_ok b (from_int lc k fi)"
  "(\<And>v. keeps_ptrs (ff v)) \<Longrightarrow> act_ok b (from_float lc k ff)"
  "(\<And>v. keeps_ptrs (fb v)) \<Longrightarrow> act_ok b (from_bool lc k fb)"
  by (auto simp: from_int_def from_float_def from_bool_def intro!: if_setting_ok act_set_ok)

lemma from_string_ok:
  assumes "strings_ok lc" "k \<in> set string_settings" "\<And>v. act_ok b (f v)"
  shows "act_ok b (from_string lc k f)"
  unfolding from_string_def
proof (rule if_setting_ok)
  fix st assume "config_lookup lc k = Some st"
  with assms(1,2) obtain v where "config_setting_get_string lc st = Some v" by (auto simp: strings_ok_def)
  with assms(3) [of v] show "act_ok b (\<lambda>s. do { v \<leftarrow> config_setting_get_string lc st; f v s })" by (simp add: act_ok_def)
qed

lemma parse_ok [act_intros]:
  assumes "\<And>x. keeps_ptrs (f x)"
  shows "act_ok b (act_parse err (\<lambda>c. map_option (\<lambda>x. f x c) (g c)))"
  using assms by (intro act_parse_ok) (auto simp: keeps_ptrs_def)

lemma airspy_gain_ok [act_intros]:
  "(\<And>v. keeps_ptrs (f v)) \<Longrightarrow> act_ok b (app_config_load_airspy_gain_from_file lc k mx f)"
  unfolding app_config_load_airspy_gain_from_file_def Let_def
  by (intro if_setting_ok act_parse_ok) (auto simp: keeps_ptrs_def split: if_splits)

lemma load_from_file_ok:
  assumes "strings_ok lc"
  shows "act_ok b (app_config_load_from_file oom lc path)"
proof -
  note str = from_string_ok [OF assms]
  have airspy: "\<forall>a \<in> set (app_config_load_airspy_from_file lc). act_ok b a"
    unfolding app_config_load_airspy_from_file_def list.set ball_simps
    by (intro conjI TrueI act_intros str) (simp_all add: string_settings_def)
  have "\<forall>a \<in> set (load_server_from_file oom lc). act_ok b a"
    unfolding load_server_from_file_def list.set ball_simps
    by (intro conjI TrueI act_intros str) (simp_all add: string_settings_def)
  moreover have "\<forall>a \<in> set (load_device_from_file oom lc). act_ok b a"
    unfolding load_device_from_file_def app_config_load_sdr_file_from_file_def append.simps list.set ball_simps
    by (intro conjI TrueI act_intros str; (use airspy in \<open>auto simp: string_settings_def intro!: act_intros str\<close>)?)
  moreover have "\<forall>a \<in> set (load_modem_from_file oom lc). act_ok b a"
    unfolding load_modem_from_file_def app_config_load_gfsk_from_file_def app_config_load_psk_from_file_def
      app_config_load_psk_pm_from_file_def append.simps list.set ball_simps
    by (intro conjI TrueI act_intros str) (simp_all add: string_settings_def)
  ultimately have "act_ok b (run_acts (load_server_from_file oom lc @ load_device_from_file oom lc @ load_modem_from_file oom lc))"
    by (intro run_acts_ok) auto
  then show ?thesis by (simp add: act_ok_def app_config_load_from_file_def)
qed

text \<open>Every entry of the option table except \<^verbatim>\<open>config\<close> has its case.\<close>

lemma long_options_cases:
  "list_all (\<lambda>n. n = ''config'' \<or> n \<in> set (map fst (cli_cases atof oom))) long_options"
  by (simp add: long_options_def cli_cases_def cli_server_cases_def cli_device_cases_def cli_channel_cases_def cli_modem_cases_def
      cli_file_cases_def)

lemma cli_cases_ok: "\<forall>(n, f) \<in> set (cli_cases atof oom). \<forall>v. act_ok b (f v)"
proof -
  have "\<forall>p \<in> set (cli_server_cases oom). \<forall>v. act_ok b (snd p v)" "\<forall>p \<in> set (cli_channel_cases atof oom). \<forall>v. act_ok b (snd p v)"
    "\<forall>p \<in> set (cli_file_cases oom). \<forall>v. act_ok b (snd p v)" "\<forall>p \<in> set (cli_modem_cases atof). \<forall>v. act_ok b (snd p v)"
    "\<forall>p \<in> set (cli_device_cases oom). \<forall>v. act_ok b (snd p v)"
    unfolding cli_server_cases_def cli_channel_cases_def cli_file_cases_def cli_modem_cases_def cli_device_cases_def
      list.set ball_simps snd_conv
    by (intro conjI TrueI allI act_intros; simp)+
  then show ?thesis unfolding cli_cases_def set_append by fastforce
qed

lemma load_from_cli_ok: "act_ok b (app_config_load_from_cli atof oom argv)"
proof -
  have "act_ok b (cli_act (cli_cases atof oom) r)" for r
  proof (cases "(cli_cases atof oom, r)" rule: cli_act.cases)
    case (1 cs name v)
    show ?thesis
    proof (cases "map_of (cli_cases atof oom) name")
      case (Some f)
      then have "(name, f) \<in> set (cli_cases atof oom)" by (rule map_of_SomeD)
      with cli_cases_ok [of atof oom b] have "act_ok b (f v)" by blast
      with Some 1 show ?thesis by simp
    qed (use 1 in \<open>simp add: act_ok_def\<close>)
  qed (simp add: act_ok_def)
  then show ?thesis unfolding app_config_load_from_cli_def by (intro run_acts_ok) auto
qed

lemma psk_type_ok: "keeps_ptrs (\<lambda>c.
       if cfg_modem c = MODEM_TYPE_BPSK then upd_psk (\<lambda>p. p\<lparr>psk_type := BPSK\<rparr>) c
       else if cfg_modem c = MODEM_TYPE_DPSK then upd_psk (\<lambda>p. p\<lparr>psk_type := DPSK\<rparr>) c
       else if cfg_modem c = MODEM_TYPE_SDPSK then upd_psk (\<lambda>p. p\<lparr>psk_type := SDPSK\<rparr>) c else c)"
  by (simp add: keeps_ptrs_def upd_psk_def all_ptr_member)

lemma sample_rate_ok:
  "keeps_ptrs (\<lambda>c. upd_plutosdr (\<lambda>p. p\<lparr>pluto_sample_rate := cfg_sample_rate c\<rparr>) c)"
  "keeps_ptrs (\<lambda>c. upd_airspy (\<lambda>a. a\<lparr>airspy_sample_rate := cfg_sample_rate c\<rparr>) c)"
  by (simp_all add: keeps_ptrs_def upd_plutosdr_def upd_airspy_def all_ptr_member)

lemma validate_ok: "act_ok b (app_config_validate_and_log oom)"
proof -
  have "\<forall>a \<in> set validate_server. act_ok b a" "\<forall>a \<in> set validate_modem. act_ok b a"
    unfolding validate_server_def validate_modem_def list.set ball_simps
    by (intro conjI TrueI act_intros psk_type_ok)+
  moreover have "\<forall>a \<in> set (validate_device oom). act_ok b a"
    unfolding validate_device_def list.set ball_simps
    by (intro conjI TrueI act_intros; auto intro!: act_intros sample_rate_ok)
  ultimately show ?thesis unfolding app_config_validate_and_log_def by (intro run_acts_ok) auto
qed

section \<open>Ranges\<close>

text \<open>
  What holds of every configuration while it is built: the values that come from a checked string
  are in range, and the libraries are not loaded yet.
\<close>

definition cfg_typed :: "app_config \<Rightarrow> bool" where
  "cfg_typed c \<longleftrightarrow> iio c = None \<and> airspy_lib c = None \<and> direction c \<in> {-1, 0, 1, 2} \<and> lna_gain (airspy c) \<le> 14 \<and>
     mixer_gain (airspy c) \<le> 15 \<and> vga_gain (airspy c) \<le> 15 \<and> gfsk_syncword_bits (gfsk c) \<le> 64"

definition act_typed :: "cfg_act \<Rightarrow> bool" where
  "act_typed a \<longleftrightarrow> (\<forall>c h code c' h'. cfg_typed c \<longrightarrow> a (c, h) = Some (code, c', h') \<longrightarrow> cfg_typed c')"

named_theorems typed_intros "steps that keep the ranges"

lemma act_typedI: "(\<And>c h code c' h'. cfg_typed c \<Longrightarrow> a (c, h) = Some (code, c', h') \<Longrightarrow> cfg_typed c') \<Longrightarrow> act_typed a"
  by (simp add: act_typed_def)

lemma act_typedD: "act_typed a \<Longrightarrow> cfg_typed c \<Longrightarrow> a (c, h) = Some (code, c', h') \<Longrightarrow> cfg_typed c'"
  unfolding act_typed_def by blast

lemma run_acts_typed [typed_intros]: "(\<And>a. a \<in> set acts \<Longrightarrow> act_typed a) \<Longrightarrow> act_typed (run_acts acts)"
proof (induction acts)
  case (Cons a acts)
  then have ok: "act_typed a" "act_typed (run_acts acts)" by auto
  show ?case
  proof (rule act_typedI)
    fix c h code c' h'
    assume t: "cfg_typed c" and r: "run_acts (a # acts) (c, h) = Some (code, c', h')"
    from r obtain code1 c1 h1 where a: "a (c, h) = Some (code1, c1, h1)" by (auto split: option.splits)
    from act_typedD [OF ok(1) t a] have "cfg_typed c1" .
    with r a act_typedD [OF ok(2), of c1 h1 code c' h'] show "cfg_typed c'" by (auto split: if_splits)
  qed
qed (simp add: act_typed_def)

lemma act_set_typed [typed_intros]: "(\<And>c. cfg_typed c \<Longrightarrow> cfg_typed (f c)) \<Longrightarrow> act_typed (act_set f)"
  by (rule act_typedI) (auto simp: act_set_def)

lemma act_when_typed [typed_intros]: "(\<And>a. a \<in> set acts \<Longrightarrow> act_typed a) \<Longrightarrow> act_typed (act_when P acts)"
  using run_acts_typed [of acts] by (intro act_typedI) (auto simp: act_when_def split: if_splits dest: act_typedD)

lemma if_setting_typed [typed_intros]: "(\<And>st. act_typed (g st)) \<Longrightarrow> act_typed (if_setting lc k g)"
  by (rule act_typedI) (auto simp: if_setting_def split: option.splits dest: act_typedD)

lemma act_check_typed [typed_intros]: "act_typed (act_check P)"
  by (rule act_typedI) (simp add: act_check_def)

lemma act_parse_typed: "(\<And>c c'. cfg_typed c \<Longrightarrow> f c = Some c' \<Longrightarrow> cfg_typed c') \<Longrightarrow> act_typed (act_parse err f)"
  by (rule act_typedI) (auto simp: act_parse_def split: option.splits)

lemma parse_typed [typed_intros]:
  "(\<And>c x. cfg_typed c \<Longrightarrow> g c = Some x \<Longrightarrow> cfg_typed (f x c)) \<Longrightarrow> act_typed (act_parse err (\<lambda>c. map_option (\<lambda>x. f x c) (g c)))"
  by (rule act_parse_typed) auto

lemma from_typed [typed_intros]:
  "(\<And>v c. cfg_typed c \<Longrightarrow> cfg_typed (fi v c)) \<Longrightarrow> act_typed (from_int lc k fi)"
  "(\<And>v c. cfg_typed c \<Longrightarrow> cfg_typed (ff v c)) \<Longrightarrow> act_typed (from_float lc k ff)"
  "(\<And>v c. cfg_typed c \<Longrightarrow> cfg_typed (fb v c)) \<Longrightarrow> act_typed (from_bool lc k fb)"
  unfolding from_int_def from_float_def from_bool_def by (auto intro!: if_setting_typed act_set_typed)

lemma from_string_typed [typed_intros]:
  assumes "\<And>v. act_typed (fs v)"
  shows "act_typed (from_string lc k fs)"
  unfolding from_string_def
proof (intro if_setting_typed act_typedI)
  fix st c h code c' h'
  assume t: "cfg_typed c" and r: "do { v \<leftarrow> config_setting_get_string lc st; fs v (c, h) } = Some (code, c', h')"
  then obtain v where "fs v (c, h) = Some (code, c', h')" by (auto simp: bind_eq_Some)
  from act_typedD [OF assms t this] show "cfg_typed c'" .
qed

lemma set_ptr_typed: "cfg_typed c \<Longrightarrow> m \<noteq> Iio \<Longrightarrow> m \<noteq> Airspy_lib \<Longrightarrow> cfg_typed (set_ptr m p c)"
  by (cases m) (simp_all add: cfg_typed_def)

lemma replace_str_typed [typed_intros]:
  "m \<noteq> Iio \<Longrightarrow> m \<noteq> Airspy_lib \<Longrightarrow> act_typed (app_config_replace_str oom v m)"
  by (rule act_typedI) (auto simp: app_config_replace_str_def bind_eq_Some host_alloc_def set_ptr_typed split: if_splits)

lemma upd_typed:
  "cfg_typed c \<Longrightarrow> cfg_typed (upd_psk p c)" "cfg_typed c \<Longrightarrow> cfg_typed (upd_psk_pm q c)"
  "cfg_typed c \<Longrightarrow> cfg_typed (upd_plutosdr r c)" "cfg_typed c \<Longrightarrow> cfg_typed (upd_sdr_file t c)"
  "cfg_typed c \<Longrightarrow> gfsk_syncword_bits (u (gfsk c)) \<le> 64 \<Longrightarrow> cfg_typed (upd_gfsk u c)"
  "cfg_typed c \<Longrightarrow> lna_gain (w (airspy c)) \<le> 14 \<Longrightarrow> mixer_gain (w (airspy c)) \<le> 15 \<Longrightarrow> vga_gain (w (airspy c)) \<le> 15 \<Longrightarrow> cfg_typed (upd_airspy w c)"
  by (simp_all add: cfg_typed_def upd_psk_def upd_psk_pm_def upd_plutosdr_def upd_sdr_file_def upd_gfsk_def upd_airspy_def)

lemma parse_airspy_number_le: "app_config_parse_airspy_number v mx = Some n \<Longrightarrow> n \<le> mx"
  by (auto simp: app_config_parse_airspy_number_def split: prod.splits if_splits)

lemma parse_airspy_gain_le:
  assumes "app_config_parse_airspy_gain v mx = Some n"
  shows "n \<le> mx"
proof -
  from assms obtain w where w: "app_config_parse_airspy_number v (ucast mx) = Some w" "n = ucast w"
    by (auto simp: app_config_parse_airspy_gain_def)
  have "unat mx < 2 ^ 8" using unsigned_less [of mx] by simp
  then have "unat (ucast mx :: u64) = unat mx" by (simp add: unsigned_ucast_eq take_bit_nat_eq_self)
  with parse_airspy_number_le [OF w(1)] have "unat w \<le> unat mx" by (simp add: word_le_nat_alt)
  moreover have "unat n \<le> unat w" unfolding w(2) by (simp add: unsigned_ucast_eq take_bit_nat_less_eq_self)
  ultimately show ?thesis by (simp add: word_le_nat_alt)
qed

lemma parse_syncword_bits: "app_config_parse_syncword v g = Some g' \<Longrightarrow> gfsk_syncword_bits g' \<le> 64"
proof -
  assume "app_config_parse_syncword v g = Some g'"
  then obtain n where n: "n \<le> 16" "gfsk_syncword_bits g' = of_nat (n * 4)"
    by (fastforce simp: app_config_parse_syncword_def Let_def not_less split: if_splits option.splits)
  then have "unat (gfsk_syncword_bits g') = n * 4" by (simp add: unat_of_nat del: of_nat_mult)
  with n(1) show ?thesis by (simp add: word_le_nat_alt)
qed

lemma airspy_gain_from_file_typed:
  "(\<And>v c. cfg_typed c \<Longrightarrow> v \<le> word_of_int mx \<Longrightarrow> cfg_typed (f v c)) \<Longrightarrow> 0 \<le> mx \<Longrightarrow> mx < 256 \<Longrightarrow>
   act_typed (app_config_load_airspy_gain_from_file lc k mx f)"
  unfolding app_config_load_airspy_gain_from_file_def Let_def
  by (intro if_setting_typed act_parse_typed) (auto simp: word_le_def uint_word_of_int split: if_splits)

lemma syncword_typed: "act_typed (act_parse err (\<lambda>c. map_option (\<lambda>g. c\<lparr>gfsk := g\<rparr>) (app_config_parse_syncword v (gfsk c))))"
  by (rule parse_typed) (auto simp: cfg_typed_def dest: parse_syncword_bits)

lemma field_typed:
  assumes "cfg_typed c"
  shows "cfg_typed (c\<lparr>cfg_sdr_buffer_len := x1\<rparr>)" "cfg_typed (c\<lparr>port := x2\<rparr>)" "cfg_typed (c\<lparr>read_timeout_seconds := x3\<rparr>)"
    "cfg_typed (c\<lparr>queue_size := x4\<rparr>)" "cfg_typed (c\<lparr>cfg_max_frame_size := x5\<rparr>)"
    "cfg_typed (c\<lparr>direction := app_config_convert_direction v\<rparr>)" "cfg_typed (c\<lparr>sdr_type := x7\<rparr>)" "cfg_typed (c\<lparr>cfg_modem := x8\<rparr>)"
    "cfg_typed (c\<lparr>cfg_frequency := x9\<rparr>)" "cfg_typed (c\<lparr>cfg_sample_rate := x10\<rparr>)" "cfg_typed (c\<lparr>cfg_gain := x11\<rparr>)"
    "cfg_typed (c\<lparr>power := x12\<rparr>)" "cfg_typed (c\<lparr>log_level := x13\<rparr>)"
  using assms by (simp_all add: cfg_typed_def app_config_convert_direction_def)

lemma airspy_bounds: "cfg_typed c \<Longrightarrow> lna_gain (airspy c) \<le> 14 \<and> mixer_gain (airspy c) \<le> 15 \<and> vga_gain (airspy c) \<le> 15 \<and> gfsk_syncword_bits (gfsk c) \<le> 64"
  by (simp add: cfg_typed_def)

lemmas typed_rules = typed_intros airspy_gain_from_file_typed syncword_typed field_typed upd_typed

lemma load_from_file_typed: "act_typed (app_config_load_from_file oom lc path)"
proof -
  have airspy: "\<forall>a \<in> set (app_config_load_airspy_from_file lc). act_typed a"
    unfolding app_config_load_airspy_from_file_def list.set ball_simps
    by (intro conjI TrueI typed_rules) (simp_all add: airspy_bounds)
  have "\<forall>a \<in> set (load_server_from_file oom lc). act_typed a"
    unfolding load_server_from_file_def list.set ball_simps by (intro conjI TrueI typed_rules) simp_all
  moreover have "\<forall>a \<in> set (load_device_from_file oom lc). act_typed a"
    unfolding load_device_from_file_def app_config_load_sdr_file_from_file_def append.simps list.set ball_simps
    by (intro conjI TrueI typed_rules; (use airspy in \<open>auto intro!: typed_rules\<close>)?)
  moreover have "\<forall>a \<in> set (load_modem_from_file oom lc). act_typed a"
    unfolding load_modem_from_file_def app_config_load_gfsk_from_file_def app_config_load_psk_from_file_def
      app_config_load_psk_pm_from_file_def append.simps list.set ball_simps
    by (intro conjI TrueI typed_rules; (simp add: airspy_bounds)?)
  ultimately have "act_typed (run_acts (load_server_from_file oom lc @ load_device_from_file oom lc @ load_modem_from_file oom lc))"
    by (intro run_acts_typed) auto
  then show ?thesis
    by (intro act_typedI) (auto simp: app_config_load_from_file_def split: if_splits dest: act_typedD)
qed

lemma airspy_gain_cli_typed:
  assumes "\<And>n c. cfg_typed c \<Longrightarrow> n \<le> mx \<Longrightarrow> cfg_typed (f n c)"
  shows "act_typed (act_parse err (\<lambda>c. map_option (\<lambda>n. f n c) (app_config_parse_airspy_gain v mx)))"
  using assms parse_airspy_gain_le by (intro parse_typed) blast

lemma cli_cases_typed: "\<forall>p \<in> set (cli_cases atof oom). \<forall>v. act_typed (snd p v)"
proof -
  have "\<forall>p \<in> set (cli_server_cases oom). \<forall>v. act_typed (snd p v)" "\<forall>p \<in> set (cli_channel_cases atof oom). \<forall>v. act_typed (snd p v)"
    "\<forall>p \<in> set (cli_file_cases oom). \<forall>v. act_typed (snd p v)" "\<forall>p \<in> set (cli_modem_cases atof). \<forall>v. act_typed (snd p v)"
    unfolding cli_server_cases_def cli_channel_cases_def cli_file_cases_def cli_modem_cases_def list.set ball_simps snd_conv
    by (intro conjI TrueI allI typed_rules; (simp add: airspy_bounds)?)+
  moreover have "\<forall>p \<in> set (cli_device_cases oom). \<forall>v. act_typed (snd p v)"
    unfolding cli_device_cases_def list.set ball_simps snd_conv
    by (intro conjI TrueI allI airspy_gain_cli_typed typed_rules; (simp add: airspy_bounds)?)
  ultimately show ?thesis unfolding cli_cases_def set_append by blast
qed

lemma load_from_cli_typed: "act_typed (app_config_load_from_cli atof oom argv)"
proof -
  have "act_typed (cli_act (cli_cases atof oom) r)" for r
  proof (cases "(cli_cases atof oom, r)" rule: cli_act.cases)
    case (1 cs name v)
    show ?thesis
    proof (cases "map_of (cli_cases atof oom) name")
      case (Some f)
      then have "(name, f) \<in> set (cli_cases atof oom)" by (rule map_of_SomeD)
      with cli_cases_typed [of atof oom] have "act_typed (f v)" by fastforce
      with Some 1 show ?thesis by simp
    qed (use 1 in \<open>simp add: act_typed_def\<close>)
  qed (simp add: act_typed_def)
  then show ?thesis unfolding app_config_load_from_cli_def by (intro run_acts_typed) auto
qed

lemma validate_typed: "act_typed (app_config_validate_and_log oom)"
proof -
  have "\<forall>a \<in> set validate_server. act_typed a"
    unfolding validate_server_def list.set ball_simps
    by (intro conjI TrueI typed_rules; (assumption | simp add: act_typed_def)?)
  moreover have "\<forall>a \<in> set validate_modem. act_typed a"
    unfolding validate_modem_def list.set ball_simps
    by (intro conjI TrueI typed_rules; (simp add: upd_typed)?)
  moreover have "act_typed (drop_if_empty Uri)" "act_typed (drop_if_empty Calib_mode)" "act_typed (default_calib_mode oom)"
    "act_typed validate_files"
    by (intro act_typedI; auto simp: drop_if_empty_def default_calib_mode_def validate_files_def bind_eq_Some Let_def
        set_ptr_typed upd_typed simp del: set_ptr.simps split: option.splits if_splits prod.splits)+
  then have "\<forall>a \<in> set (validate_device oom). act_typed a"
    unfolding validate_device_def list.set ball_simps
    by (intro conjI TrueI typed_rules) (auto intro!: typed_rules simp: airspy_bounds)
  ultimately show ?thesis unfolding app_config_validate_and_log_def by (intro run_acts_typed) auto
qed

section \<open>Construction and destruction\<close>

lemma run_acts_append:
  "run_acts (xs @ ys) s = (case run_acts xs s of None \<Rightarrow> None | Some (code, s') \<Rightarrow> if code \<noteq> 0 then Some (code, s') else run_acts ys s')"
  by (induction xs arbitrary: s) (auto split: option.splits)

lemma library_ok:
  assumes "owned b (c, h)" "cfg_typed c"
  shows "\<exists>code c' h'. run_acts (load_libraries iio_code airspy_code) (c, h) = Some (code, c', h') \<and> owned b (c', h') \<and>
    c'\<lparr>iio := None, airspy_lib := None\<rparr> = c \<and>
    (code = 0 \<longrightarrow> (iio c' \<noteq> None \<longleftrightarrow> sdr_type c = SDR_TYPE_PLUTOSDR) \<and> (airspy_lib c' \<noteq> None \<longleftrightarrow> sdr_type c = SDR_TYPE_AIRSPY))"
proof -
  have nul: "iio c = None" "airspy_lib c = None" using assms(2) by (simp_all add: cfg_typed_def)
  obtain p h1 where al: "host_alloc (\<lambda>_. False) '''' h = (p, h1)" "p \<noteq> None" by (simp add: host_alloc_def)
  from owned_alloc [OF assms(1) al(1), of Iio] owned_alloc [OF assms(1) al(1), of Airspy_lib] nul
  have own: "owned b (c\<lparr>iio := p\<rparr>, h1)" "owned b (c\<lparr>airspy_lib := p\<rparr>, h1)" by simp_all
  show ?thesis
  proof (cases "sdr_type c")
    case SDR_TYPE_PLUTOSDR
    then show ?thesis using al own assms(1) nul
      by (cases "iio_code = 0") (simp_all add: load_libraries_def act_when_def)
  next
    case SDR_TYPE_AIRSPY
    then show ?thesis using al own assms(1) nul
      by (cases "airspy_code = 0") (simp_all add: load_libraries_def act_when_def)
  qed (use assms(1) nul in \<open>simp_all add: load_libraries_def act_when_def\<close>)
qed

definition addrs :: "addr option list \<Rightarrow> addr list" where
  "addrs ps = concat (map opt_list ps)"

lemma addrs_simps [simp]:
  "addrs [] = []" "addrs (None # ps) = addrs ps" "addrs (Some a # ps) = a # addrs ps" "addrs (ps @ qs) = addrs ps @ addrs qs"
  by (simp_all add: addrs_def)

lemma in_addrs [simp]: "a \<in> set (addrs ps) \<longleftrightarrow> Some a \<in> set ps"
proof (induction ps)
  case (Cons p ps)
  then show ?case by (cases p) auto
qed simp

lemma free_all_ok:
  "distinct (addrs ps) \<Longrightarrow> \<forall>a. Some a \<in> set ps \<longrightarrow> blocks h a \<noteq> None \<Longrightarrow>
   \<exists>h'. free_all ps h = Some h' \<and> (\<forall>a. blocks h' a = (if Some a \<in> set ps then None else blocks h a))"
proof (induction ps arbitrary: h)
  case (Cons p ps)
  show ?case
  proof (cases p)
    case (Some a)
    let ?h = "h\<lparr>blocks := (blocks h)(a := None)\<rparr>"
    have "host_free p h = Some ?h" using Some Cons.prems(2) by (auto simp: host_free_def)
    moreover have "\<forall>x. Some x \<in> set ps \<longrightarrow> blocks ?h x \<noteq> None" using Cons.prems Some by auto
    with Cons.IH [of ?h] Some Cons.prems(1) obtain h' where
      "free_all ps ?h = Some h'" "\<forall>x. blocks h' x = (if Some x \<in> set ps then None else blocks ?h x)"
      by auto
    ultimately show ?thesis using Some by auto
  qed (use Cons in \<open>simp add: host_free_def\<close>)
qed simp

text \<open>The order in which \<^verbatim>\<open>app_config_destroy\<close> frees.\<close>

definition ptr_members :: "ptr_member list" where
  "ptr_members = [Bind_address, Freq_offset_file, Debug_freq_offset_file, Debug_constellation_file, Debug_baseband_file,
     Debug_subcarrier_file, Uri, Calib_mode, Iio, Airspy_lib, Rx_file, Tx_file, Input_file, Output_file]"

lemma ptr_members_all: "m \<in> set ptr_members" "distinct ptr_members"
  by (cases m) (simp_all add: ptr_members_def)

lemma owned_distinct:
  assumes "owned b (c, h)"
  shows "distinct ms \<Longrightarrow> distinct (addrs (map (\<lambda>m. ptr_of m c) ms))"
proof (induction ms)
  case (Cons m ms)
  show ?case
  proof (cases "ptr_of m c")
    case (Some a)
    have "ptr_of m' c \<noteq> Some a" if "m' \<in> set ms" for m' using ownedD(2) [OF assms Some, of m'] Cons.prems that by auto
    then have "Some a \<notin> (\<lambda>m. ptr_of m c) ` set ms" by (metis imageE)
    with Cons Some show ?thesis by simp
  qed (use Cons in simp)
qed simp

lemma destroy_ok:
  assumes own: "owned b (c, h)" and live: "b this \<noteq> None"
  shows "\<exists>h'. app_config_destroy this c h = Some h' \<and> blocks h' = b(this := None)"
proof -
  let ?ps = "map (\<lambda>m. ptr_of m c) ptr_members @ [Some this]"
  have d: "app_config_destroy this c h = free_all ?ps h" by (simp add: app_config_destroy_def ptr_members_def)
  have mem: "Some a \<in> set ?ps \<longleftrightarrow> a = this \<or> (\<exists>m. ptr_of m c = Some a)" for a
    using ptr_members_all(1) by (auto simp: image_iff) (metis)
  have notthis: "ptr_of m c \<noteq> Some this" for m using ownedD(3) [OF own, of m this] live by auto
  then have this_live: "blocks h this = b this" using ownedD(5) [OF own] by blast
  have "Some this \<notin> (\<lambda>m. ptr_of m c) ` set ptr_members" using notthis by (metis imageE)
  then have "distinct (addrs ?ps)" using owned_distinct [OF own ptr_members_all(2)] by simp
  moreover have "\<forall>a. Some a \<in> set ?ps \<longrightarrow> blocks h a \<noteq> None"
    unfolding mem using ownedD(4) [OF own] live this_live by auto
  ultimately obtain h' where h': "free_all ?ps h = Some h'" "\<And>a. blocks h' a = (if Some a \<in> set ?ps then None else blocks h a)"
    using free_all_ok by blast
  have "blocks h' a = (b(this := None)) a" for a
    unfolding h'(2) mem using ownedD(3,5) [OF own] by auto
  with d h'(1) show ?thesis by (auto intro!: ext)
qed

section \<open>What the validation guarantees\<close>

definition server_valid :: "app_config \<Rightarrow> bool" where
  "server_valid c \<longleftrightarrow> cfg_sdr_buffer_len c \<noteq> 0 \<and> port c \<noteq> 0 \<and> 0 < read_timeout_seconds c \<and> queue_size c \<noteq> 0 \<and>
     (is_cli_mode c \<longrightarrow> 0 < direction c) \<and> (\<not> is_cli_mode c \<or> direction c = DIRECTION_TX \<longrightarrow> cfg_max_frame_size c \<noteq> 0)"

definition device_valid :: "app_config \<Rightarrow> bool" where
  "device_valid c \<longleftrightarrow> (case sdr_type c of
     SDR_TYPE_PLUTOSDR \<Rightarrow> timeout_ms (plutosdr c) \<noteq> 0 \<and> pluto_sample_rate (plutosdr c) = cfg_sample_rate c
   | SDR_TYPE_AIRSPY \<Rightarrow> \<not> (is_cli_mode c \<and> direction c = DIRECTION_TX) \<and> airspy_sample_rate (airspy c) = cfg_sample_rate c
   | SDR_TYPE_FILE \<Rightarrow> is_cli_mode c \<and> (direction c = DIRECTION_RX \<longrightarrow> rx_file (sdr_file c) \<noteq> None) \<and>
       (direction c = DIRECTION_TX \<longrightarrow> tx_file (sdr_file c) \<noteq> None) \<and>
       (rx_file (sdr_file c) \<noteq> None \<longrightarrow> rx_file_format (sdr_file c) \<notin> {FILE_FORMAT_INVALID, FILE_FORMAT_GUESS}) \<and>
       (tx_file (sdr_file c) \<noteq> None \<longrightarrow> tx_file_format (sdr_file c) \<notin> {FILE_FORMAT_INVALID, FILE_FORMAT_GUESS})
   | _ \<Rightarrow> False)"

definition modem_valid :: "app_config \<Rightarrow> bool" where
  "modem_valid c \<longleftrightarrow>
     (is_cli_mode c \<longrightarrow> cfg_modem c \<noteq> MODEM_TYPE_INVALID \<and> (direction c = DIRECTION_RX \<longrightarrow> output_file c \<noteq> None) \<and>
       (direction c = DIRECTION_TX \<longrightarrow> input_file c \<noteq> None)) \<and>
     (cfg_modem c \<in> {MODEM_TYPE_BPSK, MODEM_TYPE_DPSK, MODEM_TYPE_SDPSK} \<longrightarrow> psk_type (psk c) = psk_type_of (cfg_modem c)) \<and>
     psk_symsync_filter_bank_size (psk c) \<noteq> 0 \<and> psk_rrc_delay (psk c) \<noteq> 0 \<and> \<not> is_fzero (psk_rrc_beta (psk c)) \<and>
     \<not> is_fzero (psk_costas_bandwidth (psk c)) \<and>
     pm_symsync_filter_bank_size (psk_pm c) \<noteq> 0 \<and> pm_rrc_delay (psk_pm c) \<noteq> 0 \<and> \<not> is_fzero (pm_rrc_beta (psk_pm c)) \<and>
     \<not> is_fzero (pm_costas_bandwidth (psk_pm c)) \<and> \<not> is_fzero (pm_carrier_pll_bandwidth (psk_pm c))"

definition cfg_valid :: "app_config \<Rightarrow> bool" where
  "cfg_valid c \<longleftrightarrow> server_valid c \<and> device_valid c \<and> modem_valid c"

text \<open>Sequences that end with 0, step by step.\<close>

lemma run_acts_0: "run_acts (a # acts) s = Some (0, s') \<longleftrightarrow> (\<exists>s1. a s = Some (0, s1) \<and> run_acts acts s1 = Some (0, s'))"
  by (auto split: option.splits if_splits)

lemma basic_0:
  "act_set f s = Some (0, s1) \<longleftrightarrow> s1 = (f (fst s), snd s)"
  "act_check P s = Some (0, s1) \<longleftrightarrow> \<not> P (fst s) \<and> s1 = s"
  "act_when P acts s = Some (0, s1) \<longleftrightarrow> (if P (fst s) then run_acts acts s = Some (0, s1) else s1 = s)"
  "run_acts [] s = Some (0, s1) \<longleftrightarrow> s1 = s"
  by (auto simp: act_set_def act_check_def act_when_def)

lemma validate_server_valid:
  assumes "run_acts validate_server (c, h) = Some (0, c', h')"
  shows "server_valid c'"
proof -
  have "or_default (\<lambda>v. v = (0 :: 'a :: zero)) d v \<noteq> 0" if "d \<noteq> 0" for d v using that by (simp add: or_default_def)
  with assms show ?thesis
    unfolding validate_server_def run_acts_0 basic_0
    by (auto simp: server_valid_def or_default_def is_cli_mode_def)
qed

lemma guess_not_guess: "app_config_guess_file_format f \<noteq> FILE_FORMAT_GUESS"
  by (simp add: app_config_guess_file_format_def Let_def split: option.split)

lemma validate_file_format:
  "app_config_validate_file (Some f) fmt = (0, fmt') \<Longrightarrow> fmt' \<notin> {FILE_FORMAT_INVALID, FILE_FORMAT_GUESS}"
  using guess_not_guess by (auto simp: app_config_validate_file_def Let_def split: if_splits)

lemma validate_files_valid:
  assumes own: "owned b (c, h)" and r: "validate_files (c, h) = Some (0, c', h')"
  shows "\<exists>f1 f2. c' = upd_sdr_file (\<lambda>f. f\<lparr>rx_file_format := f1, tx_file_format := f2\<rparr>) c \<and>
    (rx_file (sdr_file c) \<noteq> None \<longrightarrow> f1 \<notin> {FILE_FORMAT_INVALID, FILE_FORMAT_GUESS}) \<and>
    (tx_file (sdr_file c) \<noteq> None \<longrightarrow> f2 \<notin> {FILE_FORMAT_INVALID, FILE_FORMAT_GUESS})"
proof -
  obtain c1 f1 c2 f2 where v: "app_config_validate_file (str_at (rx_file (sdr_file c)) h) (rx_file_format (sdr_file c)) = (c1, f1)"
      "app_config_validate_file (str_at (tx_file (sdr_file c)) h) (tx_file_format (sdr_file c)) = (c2, f2)" by fastforce
  have c': "c1 = 0" "c2 = 0" "c' = upd_sdr_file (\<lambda>f. f\<lparr>rx_file_format := f1, tx_file_format := f2\<rparr>) c"
    using r v by (auto simp: validate_files_def upd_sdr_file_def Let_def split: if_splits)
  have live: "\<exists>str. str_at p h = Some str" if "p \<noteq> None" "p = ptr_of m c" for p m
    using ownedD(4) [OF own, of m] that by (auto simp: str_at_def)
  show ?thesis
    using v c' live [of "rx_file (sdr_file c)" Rx_file] live [of "tx_file (sdr_file c)" Tx_file] validate_file_format by fastforce
qed

lemma set_ptr_same: "set_ptr m (ptr_of m c) c = c"
  by (cases m) simp_all

lemma validate_device_valid:
  assumes own: "owned b (c, h)" and v: "server_valid c" and r: "run_acts (validate_device oom) (c, h) = Some (0, c', h')"
  shows "server_valid c' \<and> device_valid c'"
proof (cases "sdr_type c")
  case SDR_TYPE_PLUTOSDR
  have str: "drop_if_empty m (c1, h1) = Some (0, s2) \<Longrightarrow> \<exists>p h2. s2 = (set_ptr m p c1, h2)" for m c1 h1 s2
    by (auto simp: drop_if_empty_def bind_eq_Some split: option.splits if_splits intro!: set_ptr_same [of m c1, symmetric])
  have cal: "default_calib_mode oom (c1, h1) = Some (0, s2) \<Longrightarrow> \<exists>p h2. s2 = (set_ptr Calib_mode p c1, h2)" for c1 h1 s2
    by (auto simp: default_calib_mode_def split: if_splits prod.splits intro: exI [of _ "calib_mode (plutosdr c1)"])
  from r SDR_TYPE_PLUTOSDR v show ?thesis
    unfolding validate_device_def run_acts_0 basic_0
    by (auto simp: run_acts_0 basic_0 upd_plutosdr_def or_default_def server_valid_def device_valid_def is_cli_mode_def
        dest!: str cal)
next
  case SDR_TYPE_AIRSPY
  with r v show ?thesis
    unfolding validate_device_def run_acts_0 basic_0
    by (auto simp: run_acts_0 basic_0 upd_airspy_def server_valid_def device_valid_def is_cli_mode_def)
next
  case SDR_TYPE_FILE
  with r have chk: "is_cli_mode c" "direction c = DIRECTION_RX \<longrightarrow> rx_file (sdr_file c) \<noteq> None"
      "direction c = DIRECTION_TX \<longrightarrow> tx_file (sdr_file c) \<noteq> None" "validate_files (c, h) = Some (0, c', h')"
    unfolding validate_device_def run_acts_0 basic_0 by (auto simp: run_acts_0 basic_0)
  from validate_files_valid [OF own chk(4)] chk v SDR_TYPE_FILE show ?thesis
    by (auto simp: upd_sdr_file_def server_valid_def device_valid_def is_cli_mode_def)
qed (use r in \<open>auto simp: validate_device_def run_acts_0 basic_0 simp del: run_acts.simps\<close>)


lemma validate_modem_valid:
  assumes "server_valid c" "device_valid c" "run_acts validate_modem (c, h) = Some (0, c', h')"
  shows "cfg_valid c'"
proof -
  have df: "\<not> is_fzero 0x3eb33333" "\<not> is_fzero 0x3c23d70a" "\<not> is_fzero 0x3ba3d70a" "\<not> is_fzero 0x38d1b717"
    by (simp_all add: is_fzero_def)
  let ?c1 = "if cfg_modem c = MODEM_TYPE_BPSK then upd_psk (\<lambda>p. p\<lparr>psk_type := BPSK\<rparr>) c
       else if cfg_modem c = MODEM_TYPE_DPSK then upd_psk (\<lambda>p. p\<lparr>psk_type := DPSK\<rparr>) c
       else if cfg_modem c = MODEM_TYPE_SDPSK then upd_psk (\<lambda>p. p\<lparr>psk_type := SDPSK\<rparr>) c else c"
  obtain p where p: "?c1 = c\<lparr>psk := p\<rparr>"
      "cfg_modem c \<in> {MODEM_TYPE_BPSK, MODEM_TYPE_DPSK, MODEM_TYPE_SDPSK} \<longrightarrow> psk_type p = psk_type_of (cfg_modem c)"
  proof
    show "?c1 = c\<lparr>psk := psk ?c1\<rparr>" by (simp add: upd_psk_def)
    show "cfg_modem c \<in> {MODEM_TYPE_BPSK, MODEM_TYPE_DPSK, MODEM_TYPE_SDPSK} \<longrightarrow> psk_type (psk ?c1) = psk_type_of (cfg_modem c)"
      by (auto simp: upd_psk_def psk_type_of_def)
  qed
  let ?c' = "c\<lparr>psk := app_config_apply_psk_defaults p, psk_pm := app_config_apply_psk_pm_defaults (psk_pm c)\<rparr>"
  from assms(3) have chk: "\<not> (is_cli_mode c \<and> direction c = DIRECTION_RX \<and> output_file c = None)"
      "\<not> (is_cli_mode c \<and> direction c = DIRECTION_TX \<and> input_file c = None)" "\<not> (is_cli_mode c \<and> cfg_modem c = MODEM_TYPE_INVALID)"
      "c' = upd_psk_pm app_config_apply_psk_pm_defaults (upd_psk app_config_apply_psk_defaults ?c1)"
    unfolding validate_modem_def run_acts_0 basic_0 by simp_all
  have c': "c' = ?c'" unfolding chk(4) p(1) by (simp add: upd_psk_pm_def upd_psk_def)
  have "modem_valid c'"
    unfolding c' modem_valid_def using chk(1-3) p(2) df
    by (auto simp: is_cli_mode_def app_config_apply_psk_defaults_def app_config_apply_psk_pm_defaults_def or_default_def)
  moreover have "server_valid c'" "device_valid c'"
    using assms(1,2) unfolding c' by (simp_all add: server_valid_def device_valid_def is_cli_mode_def split: sdr_device_type.splits)
  ultimately show ?thesis by (simp add: cfg_valid_def)
qed

lemma run_acts_append_0:
  "run_acts (xs @ ys) s = Some (0, s') \<longleftrightarrow> (\<exists>s1. run_acts xs s = Some (0, s1) \<and> run_acts ys s1 = Some (0, s'))"
  by (auto simp: run_acts_append split: option.splits if_splits)

lemma validate_valid:
  assumes own: "owned b (c, h)" and r: "app_config_validate_and_log oom (c, h) = Some (0, c', h')"
  shows "cfg_valid c'"
proof -
  from r obtain c1 h1 c2 h2 where s: "run_acts validate_server (c, h) = Some (0, c1, h1)"
      "run_acts (validate_device oom) (c1, h1) = Some (0, c2, h2)" "run_acts validate_modem (c2, h2) = Some (0, c', h')"
    unfolding app_config_validate_and_log_def run_acts_append_0 by fastforce
  have "act_ok b (run_acts validate_server)"
    unfolding validate_server_def by (rule run_acts_ok) (auto intro!: act_intros)
  with own s(1) have "owned b (c1, h1)" by (fastforce simp: act_ok_def)
  from validate_device_valid [OF this validate_server_valid [OF s(1)] s(2)] validate_modem_valid [OF _ _ s(3)] show ?thesis by blast
qed

text \<open>All steps of \<^verbatim>\<open>app_config_create\<close> up to the libraries.\<close>

lemma create_steps:
  assumes "strings_ok lc" "owned b (app_config_zero, h)"
  obtains code c h' where
    "run_acts ((case config_path_of argv of None \<Rightarrow> [] | Some path \<Rightarrow> [app_config_load_from_file oom lc path])
      @ [app_config_load_from_cli atof oom argv, app_config_validate_and_log oom] @ load_libraries iio_code airspy_code)
      (app_config_zero, h) = Some (code, c, h')"
    "owned b (c, h')" "code = 0 \<longrightarrow> cfg_valid c \<and> cfg_typed (c\<lparr>iio := None, airspy_lib := None\<rparr>) \<and>
       (iio c \<noteq> None \<longleftrightarrow> sdr_type c = SDR_TYPE_PLUTOSDR) \<and> (airspy_lib c \<noteq> None \<longleftrightarrow> sdr_type c = SDR_TYPE_AIRSPY)"
proof -
  let ?file = "case config_path_of argv of None \<Rightarrow> [] | Some path \<Rightarrow> [app_config_load_from_file oom lc path]"
  let ?pre = "?file @ [app_config_load_from_cli atof oom argv, app_config_validate_and_log oom]"
  have "\<forall>a \<in> set ?pre. act_ok b a \<and> act_typed a"
    using load_from_file_ok [OF assms(1)] load_from_cli_ok validate_ok load_from_file_typed load_from_cli_typed validate_typed
    by (auto split: option.split)
  then have pre: "act_ok b (run_acts ?pre)" "act_typed (run_acts ?pre)" by (intro run_acts_ok run_acts_typed; blast)+
  have t0: "cfg_typed app_config_zero" by (simp add: cfg_typed_def app_config_zero_def)
  from pre(1) assms(2) obtain code1 c1 h1 where r1: "run_acts ?pre (app_config_zero, h) = Some (code1, c1, h1)" "owned b (c1, h1)"
    unfolding act_ok_def by (metis surj_pair)
  have t1: "cfg_typed c1" by (rule act_typedD [OF pre(2) t0 r1(1)])
  have split: "run_acts (?file @ [app_config_load_from_cli atof oom argv, app_config_validate_and_log oom] @ acts) (app_config_zero, h)
      = (if code1 \<noteq> 0 then Some (code1, c1, h1) else run_acts acts (c1, h1))" for acts
    using r1(1) run_acts_append [of ?pre acts "(app_config_zero, h)"] by simp
  show thesis
  proof (cases "code1 = 0")
    case False
    with split r1(2) show thesis by (intro that [of code1 c1 h1]) simp_all
  next
    case True
    with r1(1) have "run_acts (?file @ [app_config_load_from_cli atof oom argv]) (app_config_zero, h) \<noteq> None"
      using run_acts_append [of "?file @ [app_config_load_from_cli atof oom argv]" "[app_config_validate_and_log oom]" "(app_config_zero, h)"]
      by (auto split: option.splits)
    from r1(1) True obtain c0 h0 where p: "run_acts (?file @ [app_config_load_from_cli atof oom argv]) (app_config_zero, h) = Some (0, c0, h0)"
        "run_acts [app_config_validate_and_log oom] (c0, h0) = Some (0, c1, h1)"
      using run_acts_append_0 [of "?file @ [app_config_load_from_cli atof oom argv]" "[app_config_validate_and_log oom]"
          "(app_config_zero, h)" "(c1, h1)"] by auto
    have "act_ok b (run_acts (?file @ [app_config_load_from_cli atof oom argv]))"
      using load_from_file_ok [OF assms(1)] load_from_cli_ok by (intro run_acts_ok) (auto split: option.splits)
    with p(1) assms(2) have "owned b (c0, h0)" by (fastforce simp: act_ok_def)
    with p(2) have valid: "cfg_valid c1" unfolding run_acts_0 basic_0 by (auto intro: validate_valid)
    from library_ok [OF r1(2) t1, of iio_code airspy_code] obtain code2 c2 h2 where
      l: "run_acts (load_libraries iio_code airspy_code) (c1, h1) = Some (code2, c2, h2)" "owned b (c2, h2)"
        "c2\<lparr>iio := None, airspy_lib := None\<rparr> = c1"
        "code2 = 0 \<longrightarrow> (iio c2 \<noteq> None \<longleftrightarrow> sdr_type c1 = SDR_TYPE_PLUTOSDR) \<and> (airspy_lib c2 \<noteq> None \<longleftrightarrow> sdr_type c1 = SDR_TYPE_AIRSPY)"
      by blast
    have "cfg_valid c2" using valid l(3) [symmetric]
      by (simp add: cfg_valid_def server_valid_def device_valid_def modem_valid_def is_cli_mode_def split: sdr_device_type.splits)
    moreover have "sdr_type c2 = sdr_type c1" using l(3) [symmetric] by simp
    ultimately show thesis using split True l t1 by (intro that [of code2 c2 h2]) simp_all
  qed
qed

section \<open>Precedence of the command line\<close>

definition last_arg :: "string \<Rightarrow> getopt_result list \<Rightarrow> string option" where
  "last_arg name opts = last_opt (concat (map (\<lambda>r. case r of Opt n v \<Rightarrow> if n = name then [v] else [] | Unknown \<Rightarrow> []) opts))"

lemma last_arg_simps [simp]:
  "last_arg name [] = None"
  "last_arg name (Unknown # opts) = last_arg name opts"
  "last_arg name (Opt n v # opts) = (case last_arg name opts of None \<Rightarrow> if n = name then Some v else None | Some w \<Rightarrow> Some w)"
  by (auto simp: last_arg_def last_opt_append last_opt_def split: option.splits)

text \<open>\<open>sets get name conv cs\<close>: among the cases \<open>cs\<close> only that of \<open>name\<close> changes the field, and it stores \<open>conv v\<close>.\<close>

definition sets :: "(app_config \<Rightarrow> 'a) \<Rightarrow> string \<Rightarrow> (string \<Rightarrow> 'a) \<Rightarrow> cli_cases \<Rightarrow> bool" where
  "sets get name conv cs \<longleftrightarrow> (\<forall>p \<in> set cs. \<forall>v s s1. snd p v s = Some (0, s1) \<longrightarrow>
     get (fst s1) = (if fst p = name then conv v else get (fst s)))"

lemma sets_last:
  assumes "sets get name conv cs" "name \<in> fst ` set cs"
  shows "run_acts (map (cli_act cs) opts) s = Some (0, s') \<Longrightarrow>
    get (fst s') = (case last_arg name opts of None \<Rightarrow> get (fst s) | Some v \<Rightarrow> conv v)"
proof (induction opts arbitrary: s)
  case (Cons r opts)
  from Cons.prems obtain s1 where s1: "cli_act cs r s = Some (0, s1)" "run_acts (map (cli_act cs) opts) s1 = Some (0, s')"
    unfolding list.map run_acts_0 by blast
  note IH = Cons.IH [OF s1(2)]
  show ?case
  proof (cases r)
    case (Opt n v)
    show ?thesis
    proof (cases "map_of cs n")
      case None
      then have "n \<noteq> name" using assms(2) by (auto simp: map_of_eq_None_iff)
      with None Opt s1(1) IH show ?thesis by (auto split: option.splits)
    next
      case (Some f)
      then have "(n, f) \<in> set cs" by (rule map_of_SomeD)
      moreover have "f v s = Some (0, s1)" using s1(1) Some Opt by simp
      ultimately have "get (fst s1) = (if n = name then conv v else get (fst s))"
        using assms(1) unfolding sets_def by (metis fst_conv snd_conv)
      with Opt IH show ?thesis by (auto split: option.splits)
    qed
  qed (use s1 IH in auto)
qed simp

lemma act_0:
  "err \<noteq> 0 \<Longrightarrow> act_parse err f s = Some (0, s1) \<longleftrightarrow> (\<exists>c. f (fst s) = Some c \<and> s1 = (c, snd s))"
  "app_config_replace_str oom (Some v) m s = Some (0, s1) \<Longrightarrow> \<exists>p h. s1 = (set_ptr m p (fst s), h)"
  by (auto simp: act_parse_def app_config_replace_str_def bind_eq_Some split: option.splits prod.splits)

lemmas cli_case_defs = cli_cases_def cli_server_cases_def cli_device_cases_def cli_channel_cases_def cli_modem_cases_def cli_file_cases_def

lemma cli_sets:
  "sets port ''port'' (\<lambda>v. word_of_int (atoi v)) (cli_cases atof oom)"
  "sets cfg_sdr_buffer_len ''sdr_buffer_len'' (\<lambda>v. word_of_int (atoi v)) (cli_cases atof oom)"
  "sets queue_size ''queue_size'' (\<lambda>v. word_of_int (atoi v)) (cli_cases atof oom)"
  "sets read_timeout_seconds ''read_timeout_seconds'' atoi (cli_cases atof oom)"
  "sets cfg_max_frame_size ''max_frame_size'' (\<lambda>v. ucast (fst (strtoull v 10))) (cli_cases atof oom)"
  "sets cfg_modem ''modem'' app_config_convert_modem_type (cli_cases atof oom)"
  unfolding sets_def cli_case_defs append.simps list.set ball_simps snd_conv fst_conv basic_0
  by (auto simp: act_0(1) upd_gfsk_def upd_psk_def upd_psk_pm_def upd_airspy_def upd_plutosdr_def upd_sdr_file_def dest!: act_0(2))

lemma cli_names: "{''port'', ''sdr_buffer_len'', ''queue_size'', ''read_timeout_seconds'', ''max_frame_size'', ''modem''} \<subseteq> fst ` set (cli_cases atof oom)"
  by (simp add: cli_case_defs)

lemma long_options_plain:
  "list_all (\<lambda>n. CHR ''='' \<notin> set n \<and> n \<noteq> [] \<and> (n = ''config'' \<or> take (length n) ''config'' \<noteq> n)) long_options"
  by (simp add: long_options_def)

section \<open>Syncwords\<close>

lemma nibble_digit: "app_config_hex_to_nibble c = (if is_digit 16 c then int (the (digit_val c)) else -1)"
proof -
  have "(of_char c :: int) = int (of_char c :: nat)" by (simp add: of_nat_of_char)
  then show ?thesis
    by (auto simp: app_config_hex_to_nibble_def is_digit_def digit_val_def Let_def)
qed

lemma shift_in_nibble:
  assumes "n < 16"
  shows "(push_bit 4 (w :: u64)) OR word_of_int (int n) = w * 16 + of_nat n"
proof -
  have "\<not> bit (push_bit 4 w) i \<or> \<not> bit (of_nat n :: u64) i" for i
  proof (cases "i < 4")
    case False
    then have "n < 2 ^ i" using assms power_increasing [of 4 i "2 :: nat"] by simp
    then have "\<not> bit n i" by (simp add: bit_iff_odd)
    then show ?thesis by (simp add: bit_of_nat_iff)
  qed (simp add: bit_push_bit_iff)
  then have "push_bit 4 w + of_nat n = push_bit 4 w OR of_nat n" by (intro disjunctive_add) blast
  then show ?thesis by (simp add: push_bit_eq_mult mult.commute)
qed

lemma syncword_loop_spec:
  "syncword_loop hex (of_nat v) = (if list_all (is_digit 16) hex then Some (of_nat (foldl (\<lambda>v c. v * 16 + (case digit_val c of None \<Rightarrow> 0 | Some d \<Rightarrow> d)) v hex)) else None)"
proof (induction hex arbitrary: v)
  case (Cons c hex)
  show ?case
  proof (cases "is_digit 16 c")
    case True
    then obtain d where d: "digit_val c = Some d" "d < 16" by (auto simp: is_digit_def split: option.splits)
    have "(push_bit 4 (of_nat v :: u64)) OR word_of_int (int d) = of_nat (v * 16 + d)" using shift_in_nibble [OF d(2), of "of_nat v"] by simp
    with Cons.IH [of "v * 16 + d"] True d show ?thesis by (simp add: nibble_digit Let_def)
  qed (simp add: nibble_digit Let_def)
qed simp

lemma digits_val_less: "list_all (is_digit b) ds \<Longrightarrow> 0 < b \<Longrightarrow> digits_val b ds < b ^ length ds"
proof (induction ds rule: rev_induct)
  case (snoc c ds)
  then obtain d where "digit_val c = Some d" "d < b" by (auto simp: is_digit_def split: option.splits)
  moreover have "Suc (digits_val b ds) * b \<le> b ^ length ds * b" using snoc by (intro mult_le_mono1) (simp add: Suc_le_eq)
  ultimately show ?case by (simp add: digits_val_snoc mult.commute [of b "b ^ length ds"])
qed (simp add: digits_val_def)

section \<open>Properties\<close>

text \<open>A heap in which nothing lives above the next block.\<close>

definition host_ok :: "host \<Rightarrow> bool" where
  "host_ok h \<longleftrightarrow> (\<forall>a. next_block h \<le> a \<longrightarrow> blocks h a = None)"

lemma create_spec:
  assumes "strings_ok lc" "host_ok h"
  shows "\<exists>code r h'. app_config_create atof oom lc iio_code airspy_code argv h = Some (code, r, h') \<and>
    (if code = 0
     then \<exists>this c. r = Some (this, c) \<and> cfg_valid c \<and> cfg_typed (c\<lparr>iio := None, airspy_lib := None\<rparr>) \<and>
       (iio c \<noteq> None \<longleftrightarrow> sdr_type c = SDR_TYPE_PLUTOSDR) \<and> (airspy_lib c \<noteq> None \<longleftrightarrow> sdr_type c = SDR_TYPE_AIRSPY) \<and>
       (\<exists>h''. app_config_destroy this c h' = Some h'' \<and> blocks h'' = blocks h)
     else r = None \<and> blocks h' = blocks h)"
proof (cases "oom (next_block h)")
  case True
  then show ?thesis by (simp add: app_config_create_def host_alloc_def)
next
  case False
  let ?self = "next_block h"
  let ?h1 = "h\<lparr>blocks := (blocks h)(?self \<mapsto> ''''), next_block := Suc ?self\<rparr>"
  have al: "host_alloc oom '''' h = (Some ?self, ?h1)" using False by (simp add: host_alloc_def)
  have own: "owned (blocks ?h1) (app_config_zero, ?h1)"
    using assms(2) by (intro ownedI) (auto simp: host_ok_def app_config_zero_def elim: ptr_of.elims)
  have b: "(blocks ?h1)(?self := None) = blocks h" using assms(2) by (auto simp: host_ok_def)
  obtain code c h' where st: "run_acts ((case config_path_of argv of None \<Rightarrow> [] | Some path \<Rightarrow> [app_config_load_from_file oom lc path])
      @ [app_config_load_from_cli atof oom argv, app_config_validate_and_log oom] @ load_libraries iio_code airspy_code)
      (app_config_zero, ?h1) = Some (code, c, h')"
    "owned (blocks ?h1) (c, h')" "code = 0 \<longrightarrow> cfg_valid c \<and> cfg_typed (c\<lparr>iio := None, airspy_lib := None\<rparr>) \<and>
       (iio c \<noteq> None \<longleftrightarrow> sdr_type c = SDR_TYPE_PLUTOSDR) \<and> (airspy_lib c \<noteq> None \<longleftrightarrow> sdr_type c = SDR_TYPE_AIRSPY)"
    by (rule create_steps [OF assms(1) own])
  from destroy_ok [OF st(2), of ?self] obtain h'' where d: "app_config_destroy ?self c h' = Some h''" "blocks h'' = blocks h"
    unfolding b by auto
  show ?thesis unfolding app_config_create_def al using st d by (cases "code = 0") simp_all
qed



definition no_file :: "unit libconfig" where
  "no_file = \<lparr>config_read_file = (\<lambda>_. False), config_lookup = (\<lambda>_. None), config_setting_get_int = (\<lambda>_. 0),
     config_setting_get_int64 = (\<lambda>_. 0), config_setting_get_float = (\<lambda>_. 0), config_setting_get_bool = (\<lambda>_. 0),
     config_setting_get_string = (\<lambda>_. None)\<rparr>"

definition empty_host :: host where
  "empty_host = \<lparr>blocks = Map.empty, next_block = 0, host_log_level = 6\<rparr>"



definition sample_argv :: "string list" where
  "sample_argv = [''sdr-modem'', ''--bind_address'', ''127.0.0.1'', ''--sdr_type'', ''airspy'', ''--max_frame_size'', ''2048'', ''--port'', ''9000'']"

lemma sample_options:
  "getopt_long False None long_options (tl sample_argv) =
     [Opt ''bind_address'' ''127.0.0.1'', Opt ''sdr_type'' ''airspy'', Opt ''max_frame_size'' ''2048'', Opt ''port'' ''9000'']"
  using getopt_pairs [of "[(''bind_address'', ''127.0.0.1''), (''sdr_type'', ''airspy''), (''max_frame_size'', ''2048''), (''port'', ''9000'')]"
      long_options False None]
  by (simp add: sample_argv_def long_options_def)




text \<open>
  A syncword is accepted if and only if, after an optional \<^verbatim>\<open>0x\<close>, it consists of 1 to 16 hexadecimal
  digits; then the stored number is the value of the digits, without any loss, and its length is
  four bits per digit. Otherwise the settings stay as they were.
\<close>

theorem app_config_syncword_exact:
  "app_config_parse_syncword v g = Some g' \<longleftrightarrow>
    strip_0x v \<noteq> [] \<and> length (strip_0x v) \<le> 16 \<and> list_all (is_digit 16) (strip_0x v) \<and>
    g' = g\<lparr>gfsk_syncword := gfsk_syncword g', gfsk_syncword_bits := of_nat (4 * length (strip_0x v))\<rparr> \<and>
    unat (gfsk_syncword g') = digits_val 16 (strip_0x v)"
proof -
  let ?hex = "strip_0x v"
  have loop: "syncword_loop ?hex 0 = (if list_all (is_digit 16) ?hex then Some (of_nat (digits_val 16 ?hex)) else None)"
    using syncword_loop_spec [of ?hex 0] by (simp add: digits_val_def)
  have small: "unat (of_nat (digits_val 16 ?hex) :: u64) = digits_val 16 ?hex" if "length ?hex \<le> 16" "list_all (is_digit 16) ?hex"
  proof -
    have "(16 :: nat) ^ length ?hex \<le> 16 ^ 16" using that(1) by (intro power_increasing) simp_all
    with digits_val_less [OF that(2)] have "digits_val 16 ?hex < 2 ^ 64" by simp
    then show ?thesis by (simp add: unat_of_nat)
  qed
  have bits: "word_of_nat (length ?hex * 4) = (word_of_nat (4 * length ?hex) :: u32)" by (simp add: mult.commute)
  have eq: "w = of_nat (digits_val 16 ?hex) \<longleftrightarrow> unat w = digits_val 16 ?hex"
    if "length ?hex \<le> 16" "list_all (is_digit 16) ?hex" for w :: u64
  proof
    assume "unat w = digits_val 16 ?hex"
    then have "of_nat (unat w) = (of_nat (digits_val 16 ?hex) :: u64)" by simp
    then show "w = of_nat (digits_val 16 ?hex)" by simp
  qed (use small [OF that] in simp)
  show ?thesis
  proof (cases "?hex \<noteq> [] \<and> length ?hex \<le> 16 \<and> list_all (is_digit 16) ?hex")
    case True
    then have "app_config_parse_syncword v g =
        Some (g\<lparr>gfsk_syncword := of_nat (digits_val 16 ?hex), gfsk_syncword_bits := of_nat (4 * length ?hex)\<rparr>)"
      using loop bits by (simp add: app_config_parse_syncword_def Let_def)
    with True eq [of "gfsk_syncword g'"] show ?thesis by auto
  next
    case False
    with loop show ?thesis by (auto simp: app_config_parse_syncword_def Let_def not_le)
  qed
qed

text \<open>
  C40. The configuration file has to be named first: an option given with its value as a separate
  argument in front of \<^verbatim>\<open>--config\<close> hides the file from the first pass, so the program runs without it
  and without a message, while the same arguments in the other order load it.
\<close>

theorem app_config_config_must_come_first:
  assumes "n \<in> set long_options" "n \<noteq> ''config''" "value \<noteq> []" "hd value \<noteq> CHR ''-''"
  shows "config_path_of (prog # (''--'' @ n) # value # ''--config'' # file # rest) = None \<and>
    config_path_of (prog # ''--config'' # file # (''--'' @ n) # value # rest) = Some file"
proof -
  have n: "CHR ''='' \<notin> set n" "n \<noteq> []" "take (length n) ''config'' \<noteq> n"
    using long_options_plain assms(1,2) by (auto simp: list_all_iff)
  have d: "drop 2 (''--'' @ n) = n" by simp
  have t: "takeWhile (\<lambda>c. c \<noteq> CHR ''='') n = n" using n(1) by (auto simp: takeWhile_eq_all_conv)
  have "''--'' @ n \<noteq> ''--''" "''--'' @ n \<noteq> ''-''" "long_match [''config''] n = None"
    using n assms(2) by (auto simp: long_match_def)
  then have unk: "getopt_long True short [''config''] ((''--'' @ n) # value # args) = [Unknown]" for short args
    unfolding getopt_long.simps(2) [of _ _ _ "''--'' @ n"] Let_def d t
    using getopt_ordered_stops [OF assms(3,4)] by simp
  have cfg: "getopt_long True short [''config''] (''--config'' # file # args) = Opt ''config'' file # getopt_long True short [''config''] args"
    for short args
    using getopt_pair [where n = "''config''" and names = "[''config'']"] by simp
  show ?thesis unfolding config_path_of_def list.sel unk cfg by simp
qed

theorem app_config_config_must_come_first_witness:
  "config_path_of [''sdr-modem'', ''--port'', ''8091'', ''--config'', ''/etc/sdr-modem.conf''] = None"
  using app_config_config_must_come_first [of "''port''" "''8091''" "''sdr-modem''" "''/etc/sdr-modem.conf''" "[]"]
  by (simp add: long_options_def)

end
