(* ===== verification/Cli.thy ===== *)
theory Cli
  imports SdrFile AppConfigSafety
begin

text \<open>
  The command line mode: \<^verbatim>\<open>src/cli.c\<close>, the choice of the device in \<^verbatim>\<open>src/sdr_utils.c\<close> and \<^verbatim>\<open>src/main.c\<close>.
  One modem and one device work on files: received soft bits go to the output file, the input file is
  transmitted frame by frame. The flag \<^verbatim>\<open>do_exit\<close> is set by a signal handler at any time; turn \<open>k\<close> of a loop
  reads \<open>exits k\<close>. The waiting of the push mode is a step relation of the main thread and the handlers.
\<close>

section \<open>State\<close>

text \<open>An output file takes bytes as long as there is room for them.\<close>

record out_file =
  contents :: "u8 list"
  room :: nat

definition fwrite :: "u8 list \<Rightarrow> out_file \<Rightarrow> nat \<times> out_file" where
  "fwrite bs f = (let n = min (length bs) (room f) in (n, f\<lparr>contents := contents f @ take n bs, room := room f - n\<rparr>))"

record ('s, 'd, 'm) cli =
  cli_direction :: int
  cli_sdr :: "('s, 'd) sdr_device"
  cli_modem :: 'm
  cli_output_file :: out_file
  cli_input_file :: "u8 list"
  input_temp :: "u8 list"
  input_temp_size :: nat

section \<open>Construction and destruction\<close>

text \<open>The settings of the modem: the member of the configuration that its type names, at the configured rate.\<close>

definition cli_modem_settings :: "app_config \<Rightarrow> sdr_modem_settings option" where
  "cli_modem_settings c =
    (if cfg_modem c = MODEM_TYPE_GFSK
     then Some \<lparr>modem_type = cfg_modem c, modem = Gfsk ((gfsk c)\<lparr>gfsk_sample_rate := cfg_sample_rate c\<rparr>)\<rparr>
     else if cfg_modem c \<in> {MODEM_TYPE_BPSK, MODEM_TYPE_DPSK, MODEM_TYPE_SDPSK}
     then Some \<lparr>modem_type = cfg_modem c, modem = Psk ((psk c)\<lparr>psk_sample_rate := cfg_sample_rate c\<rparr>)\<rparr>
     else if cfg_modem c = MODEM_TYPE_PSK_PM
     then Some \<lparr>modem_type = cfg_modem c, modem = Psk_pm ((psk_pm c)\<lparr>pm_sample_rate := cfg_sample_rate c\<rparr>)\<rparr>
     else None)"

definition cli_buffer_size :: "app_config \<Rightarrow> u32" where
  "cli_buffer_size c = (if direction c = DIRECTION_RX then cfg_sdr_buffer_len c else cfg_max_frame_size c)"

definition cli_channel_config :: "app_config \<Rightarrow> sdr_channel_config" where
  "cli_channel_config c = \<lparr>frequency = cfg_frequency c, sample_rate = cfg_sample_rate c,
     gain = (if direction c = DIRECTION_RX then cfg_gain c else power c)\<rparr>"

datatype cli_part = Cli_struct | Cli_pipe | Cli_modem | Cli_sdr | Cli_output | Cli_input | Cli_temp

text \<open>The thread of a device that pushes samples uses the modem and the output file until the device is destroyed.\<close>

fun cli_users :: "cli_part \<Rightarrow> cli_part set" where
  "cli_users Cli_struct = {Cli_pipe, Cli_modem, Cli_sdr, Cli_output, Cli_input, Cli_temp}"
| "cli_users Cli_modem = {Cli_sdr}"
| "cli_users Cli_output = {Cli_sdr}"
| "cli_users Cli_pipe = {Cli_sdr}"
| "cli_users _ = {}"

definition cli_destroy_order :: "cli_part list" where
  "cli_destroy_order = [Cli_sdr, Cli_output, Cli_input, Cli_modem, Cli_temp, Cli_pipe, Cli_struct]"

definition cli_destroy :: "cli_part set \<Rightarrow> cli_part set option" where
  "cli_destroy ps = release_all cli_users cli_destroy_order ps"

interpretation cli: component cli_users cli_destroy_order
proof
  show "ordered cli_users {} cli_destroy_order" by (simp add: cli_destroy_order_def)
  show "p \<in> set cli_destroy_order" for p by (cases p) (simp_all add: cli_destroy_order_def)
qed

text \<open>What the calls of the constructor answer.\<close>

record cli_env =
  cli_struct_ok :: bool
  cli_pipe_ok :: bool
  modem_code :: int
  freq_offset_debug_code :: int
  constellation_debug_code :: int
  baseband_debug_code :: int
  subcarrier_debug_code :: int
  sdr_code :: int
  parameters_code :: int
  cli_open_ok :: bool
  cli_temp_ok :: bool

definition cli_create_modem_steps :: "cli_env \<Rightarrow> app_config \<Rightarrow> cli_part step list" where
  "cli_create_modem_steps env c =
     [(cli_modem_settings c \<noteq> None, - 1, None), (modem_code env = 0, - 1, Some Cli_modem),
      (freq_offset_debug_code env = 0, - 1, None), (constellation_debug_code env = 0, - 1, None)] @
     (if direction c = DIRECTION_RX
      then [(baseband_debug_code env = 0, - 1, None), (subcarrier_debug_code env = 0, - 1, None)] else [])"

definition cli_create_steps :: "cli_env \<Rightarrow> app_config \<Rightarrow> cli_part step list" where
  "cli_create_steps env c =
     [(cli_pipe_ok env, - 1, Some Cli_pipe)] @ cli_create_modem_steps env c @
     [(sdr_code env = 0, - 1, Some Cli_sdr), (parameters_code env = 0, - 1, None)] @
     (if direction c = DIRECTION_RX then [(cli_open_ok env, - 1, Some Cli_output)]
      else [(cli_open_ok env, - 1, Some Cli_input), (cli_temp_ok env, - 1, Some Cli_temp)])"

definition cli_create :: "cli_env \<Rightarrow> app_config \<Rightarrow> (int \<times> cli_part set) option" where
  "cli_create env c =
    (if \<not> cli_struct_ok env then Some (- ENOMEM, {})
     else construct cli_users cli_destroy_order (cli_create_steps env c) {Cli_struct})"

definition cli_new :: "u8 \<Rightarrow> app_config \<Rightarrow> ('s, 'd) sdr_device \<Rightarrow> 'm \<Rightarrow> nat \<Rightarrow> u8 list \<Rightarrow> ('s, 'd, 'm) cli" where
  "cli_new junk c sdr m space input =
    \<lparr>cli_direction = direction c, cli_sdr = sdr, cli_modem = m, cli_output_file = \<lparr>contents = [], room = space\<rparr>,
     cli_input_file = input, input_temp = replicate (unat (cfg_max_frame_size c)) junk, input_temp_size = unat (cfg_max_frame_size c)\<rparr>"

section \<open>Receiving\<close>

text \<open>Demodulating a buffer into the output file; the flag says whether all of it was written.\<close>

definition cli_demodulate :: "('s, 'm) modem_ops \<Rightarrow> 's list \<Rightarrow> ('s, 'd, 'm) cli \<Rightarrow> bool \<times> ('s, 'd, 'm) cli" where
  "cli_demodulate ops input c = (case m_demodulate ops input (cli_modem c) of (bits, m) \<Rightarrow>
     let demod_output = (case bits of None \<Rightarrow> [] | Some b \<Rightarrow> b);
         (n, f) = fwrite demod_output (cli_output_file c)
     in (n = length demod_output, c\<lparr>cli_modem := m, cli_output_file := f\<rparr>))"

text \<open>Called by the thread of the device; the result says whether \<^verbatim>\<open>cli_stop\<close> was called.\<close>

definition cli_rx_callback :: "('s, 'm) modem_ops \<Rightarrow> bool \<Rightarrow> 's list \<Rightarrow> ('s, 'd, 'm) cli \<Rightarrow> bool \<times> ('s, 'd, 'm) cli" where
  "cli_rx_callback ops do_exit input c =
    (if do_exit then (False, c) else case cli_demodulate ops input c of (written, c1) \<Rightarrow> (\<not> written, c1))"

partial_function (option) cli_rx_loop :: "('s, 'm) modem_ops \<Rightarrow> (nat \<Rightarrow> bool) \<Rightarrow> ('s, 'd, 'm) cli \<Rightarrow> ('s, 'd, 'm) cli option" where
  "cli_rx_loop ops exits c =
    (if exits 0 then Some c
     else do {
       f \<leftarrow> sdr_process_rx (cli_sdr c);
       let (code, output, d) = f (plugin (cli_sdr c));
       let c1 = c\<lparr>cli_sdr := (cli_sdr c)\<lparr>plugin := d\<rparr>\<rparr>;
       (if code \<noteq> 0 then Some c1
        else let (written, c2) = cli_demodulate ops output c1 in
          if \<not> written then Some c2 else cli_rx_loop ops (\<lambda>k. exits (Suc k)) c2) })"

section \<open>Transmitting\<close>

definition cli_device_tx :: "'s list option \<Rightarrow> ('s, 'd, 'm) cli \<Rightarrow> (int \<times> ('s, 'd, 'm) cli) option" where
  "cli_device_tx output c = do {
     f \<leftarrow> sdr_process_tx (cli_sdr c);
     let (code, d) = f (case output of None \<Rightarrow> [] | Some xs \<Rightarrow> xs) (plugin (cli_sdr c));
     Some (code, c\<lparr>cli_sdr := (cli_sdr c)\<lparr>plugin := d\<rparr>\<rparr>) }"

text \<open>The flag of the result says that the device refused a frame.\<close>

partial_function (option) cli_tx_loop :: "('s, 'm) modem_ops \<Rightarrow> (nat \<Rightarrow> bool) \<Rightarrow> ('s, 'd, 'm) cli \<Rightarrow> (bool \<times> ('s, 'd, 'm) cli) option" where
  "cli_tx_loop ops exits c =
    (if exits 0 then Some (False, c)
     else do {
       let frame = take (input_temp_size c) (cli_input_file c);
       temp \<leftarrow> memcpy (input_temp c) 0 frame (length frame);
       let c1 = c\<lparr>input_temp := temp, cli_input_file := drop (input_temp_size c) (cli_input_file c)\<rparr>;
       (if length frame = 0 then Some (False, c1)
        else let (output, m) = m_modulate ops (take (length frame) temp) (cli_modem c1) in do {
          (code, c2) \<leftarrow> cli_device_tx output (c1\<lparr>cli_modem := m\<rparr>);
          (if code \<noteq> 0 then Some (True, c2) else cli_tx_loop ops (\<lambda>k. exits (Suc k)) c2) }) })"

definition cli_process_tx :: "('s, 'm) modem_ops \<Rightarrow> (nat \<Rightarrow> bool) \<Rightarrow> ('s, 'd, 'm) cli \<Rightarrow> (int \<times> ('s, 'd, 'm) cli) option" where
  "cli_process_tx ops exits c = do {
     (refused, c1) \<leftarrow> cli_tx_loop ops exits c;
     (if refused then Some (- 1, c1)
      else let (tail, m) = m_flush ops (cli_modem c1); c2 = c1\<lparr>cli_modem := m\<rparr> in do {
        (code, c3) \<leftarrow> (if tail = None then Some (0, c2) else cli_device_tx tail c2);
        (if code \<noteq> 0 then Some (- 1, c3)
         else Some (0, (case sdr_flush_tx (cli_sdr c3) of
           None \<Rightarrow> c3 | Some flush \<Rightarrow> c3\<lparr>cli_sdr := (cli_sdr c3)\<lparr>plugin := flush (plugin (cli_sdr c3))\<rparr>\<rparr>))) }) }"

text \<open>
  In the push mode the thread of the device calls \<^verbatim>\<open>cli_rx_callback\<close> for the buffers \<open>arrived\<close> that arrive until
  the main thread has seen the request to stop.
\<close>

fun cli_rx_push :: "('s, 'm) modem_ops \<Rightarrow> (nat \<Rightarrow> bool) \<Rightarrow> 's list list \<Rightarrow> ('s, 'd, 'm) cli \<Rightarrow> ('s, 'd, 'm) cli" where
  "cli_rx_push ops exits [] c = c"
| "cli_rx_push ops exits (b # bs) c = (case cli_rx_callback ops (exits 0) b c of (stop, c1) \<Rightarrow>
     cli_rx_push ops (\<lambda>k. stop \<or> exits (Suc k)) bs c1)"

definition with_plugin :: "('d \<Rightarrow> 'd) \<Rightarrow> ('s, 'd, 'm) cli \<Rightarrow> ('s, 'd, 'm) cli" where
  "with_plugin f c = c\<lparr>cli_sdr := (cli_sdr c)\<lparr>plugin := f (plugin (cli_sdr c))\<rparr>\<rparr>"

definition cli_process ::
  "('s, 'm) modem_ops \<Rightarrow> (nat \<Rightarrow> bool) \<Rightarrow> 's list list \<Rightarrow> ('s, 'd, 'm) cli \<Rightarrow> (int \<times> ('s, 'd, 'm) cli) option" where
  "cli_process ops exits arrived c =
    (if cli_direction c = DIRECTION_RX then
       (case sdr_set_rx_callback (cli_sdr c) of
          Some register \<Rightarrow>
            let c1 = with_plugin (start_rx (cli_sdr c)) (with_plugin register c);
                c2 = cli_rx_push ops exits arrived c1
            in Some (0, with_plugin (stop_rx (cli_sdr c)) c2)
        | None \<Rightarrow> do {
            c1 \<leftarrow> cli_rx_loop ops exits (with_plugin (start_rx (cli_sdr c)) c);
            Some (0, with_plugin (stop_rx (cli_sdr c)) c1) })
     else cli_process_tx ops exits c)"

section \<open>Stopping\<close>

text \<open>
  \<^verbatim>\<open>cli_wait_for_stop\<close> and \<^verbatim>\<open>cli_stop\<close> as steps of the main thread and of the handlers: a handler sets the flag and
  then writes a byte; it may run on the main thread and interrupt its \<^verbatim>\<open>read\<close>, which then answers
  \<^verbatim>\<open>EINTR\<close>. \<open>handlers\<close> counts the calls of \<^verbatim>\<open>cli_stop\<close> between the two. Both ends of the pipe are open until
  \<^verbatim>\<open>cli_destroy\<close>, so \<^verbatim>\<open>read\<close> answers neither 0 nor another error.
\<close>

datatype main_pc = Check | Read | Stopped_waiting

record wake_state =
  do_exit :: bool
  pipe_bytes :: nat
  handlers :: nat
  main_at :: main_pc

definition wake_init :: wake_state where
  "wake_init = \<lparr>do_exit = False, pipe_bytes = 0, handlers = 0, main_at = Check\<rparr>"

inductive main_step :: "wake_state \<Rightarrow> wake_state \<Rightarrow> bool" where
  leave: "main_at s = Check \<Longrightarrow> do_exit s \<Longrightarrow> main_step s (s\<lparr>main_at := Stopped_waiting\<rparr>)"
| enter: "main_at s = Check \<Longrightarrow> \<not> do_exit s \<Longrightarrow> main_step s (s\<lparr>main_at := Read\<rparr>)"
| got: "main_at s = Read \<Longrightarrow> pipe_bytes s = Suc n \<Longrightarrow> main_step s (s\<lparr>pipe_bytes := n, main_at := Check\<rparr>)"

inductive stop_step :: "wake_state \<Rightarrow> wake_state \<Rightarrow> bool" where
  flag: "stop_step s (s\<lparr>do_exit := True, handlers := Suc (handlers s)\<rparr>)"
| wake: "handlers s = Suc n \<Longrightarrow> stop_step s (s\<lparr>pipe_bytes := Suc (pipe_bytes s), handlers := n\<rparr>)"
| interrupted: "main_at s = Read \<Longrightarrow> do_exit s \<Longrightarrow> stop_step s (s\<lparr>main_at := Check\<rparr>)"

definition wake_step :: "wake_state \<Rightarrow> wake_state \<Rightarrow> bool" where
  "wake_step s s' \<longleftrightarrow> main_step s s' \<or> stop_step s s'"

inductive_cases main_stepE: "main_step s s'"

text \<open>A request to stop is on its way to the main thread as long as that has not seen it.\<close>

definition wake_inv :: "wake_state \<Rightarrow> bool" where
  "wake_inv s \<longleftrightarrow> (main_at s = Read \<and> do_exit s \<longrightarrow> 0 < pipe_bytes s + handlers s) \<and> (main_at s = Stopped_waiting \<longrightarrow> do_exit s)
     \<and> (\<not> do_exit s \<longrightarrow> pipe_bytes s = 0 \<and> handlers s = 0)"

lemma wake_inv_step: "wake_step s s' \<Longrightarrow> wake_inv s \<Longrightarrow> wake_inv s'"
  unfolding wake_step_def by (auto elim!: main_step.cases stop_step.cases simp: wake_inv_def)

lemma wake_inv_reachable: "wake_step\<^sup>*\<^sup>* wake_init s \<Longrightarrow> wake_inv s"
proof (induction rule: rtranclp_induct)
  case base
  then show ?case by (simp add: wake_inv_def wake_init_def)
qed (rule wake_inv_step)

text \<open>How many steps of its own the main thread is away from leaving the wait.\<close>

definition wake_rank :: "wake_state \<Rightarrow> nat" where
  "wake_rank s = (case main_at s of Stopped_waiting \<Rightarrow> 0 | Check \<Rightarrow> 1 | Read \<Rightarrow> 2)"

lemma cli_create_outcome:
  "\<exists>code ps. cli_create env c = Some (code, ps) \<and>
    (if code = 0 then ps = insert Cli_struct (parts_of (cli_create_steps env c)) \<and> cli_modem_settings c \<noteq> None
     else ps = {})"
proof (cases "cli_struct_ok env")
  case True
  have "list_all (\<lambda>st. fst st \<or> fst (snd st) \<noteq> 0) (cli_create_steps env c)"
    by (simp add: cli_create_steps_def cli_create_modem_steps_def)
  from cli.construct_outcome [OF this, of "{Cli_struct}"] obtain code ps where
    r: "construct cli_users cli_destroy_order (cli_create_steps env c) {Cli_struct} = Some (code, ps)"
      "if code = 0 then list_all fst (cli_create_steps env c) \<and> ps = {Cli_struct} \<union> parts_of (cli_create_steps env c) else ps = {}"
    by (auto split: if_splits)
  moreover have "cli_modem_settings c \<noteq> None" if "list_all fst (cli_create_steps env c)"
    using that by (simp add: cli_create_steps_def cli_create_modem_steps_def)
  ultimately show ?thesis using True by (simp add: cli_create_def)
qed (simp add: cli_create_def)

section \<open>Working on files of samples\<close>

text \<open>Consecutive pieces of \<open>n\<close> elements, the last one possibly shorter.\<close>

function chop :: "nat \<Rightarrow> 'a list \<Rightarrow> 'a list list" where
  "chop n xs = (if n = 0 \<or> xs = [] then [] else take n xs # chop n (drop n xs))"
  by pat_completeness auto
termination
  by (relation "measure (\<lambda>(n, xs). length xs)") auto

declare chop.simps [simp del]

lemma chop_Nil [simp]: "chop n [] = []"
  by (simp add: chop.simps)

lemma concat_chop: "0 < n \<Longrightarrow> concat (chop n xs) = xs"
proof (induction n xs rule: chop.induct)
  case (1 n xs)
  then show ?case by (cases "xs = []") (simp_all add: chop.simps [of n xs])
qed

fun demodulate_all :: "('s, 'm) modem_ops \<Rightarrow> 's list list \<Rightarrow> 'm \<Rightarrow> u8 list" where
  "demodulate_all ops [] m = []"
| "demodulate_all ops (b # bs) m = (case m_demodulate ops b m of (bits, m') \<Rightarrow>
     (case bits of None \<Rightarrow> [] | Some s \<Rightarrow> s) @ demodulate_all ops bs m')"

fun modulate_all :: "('s, 'm) modem_ops \<Rightarrow> u8 list list \<Rightarrow> 'm \<Rightarrow> 's list" where
  "modulate_all ops [] m = (case fst (m_flush ops m) of None \<Rightarrow> [] | Some s \<Rightarrow> s)"
| "modulate_all ops (f # fs) m = (case m_modulate ops f m of (output, m') \<Rightarrow>
     (case output of None \<Rightarrow> [] | Some s \<Rightarrow> s) @ modulate_all ops fs m')"

lemma samples_chop:
  assumes "0 < w" "0 < n"
  shows "chop n (map dec (groups w bs)) = (if groups w bs = [] then [] else
    map dec (groups w (take (w * n) bs)) # chop n (map dec (groups w (drop (w * n) bs))))"
proof (cases "w * n \<le> length bs")
  case True
  then have "length (groups w (take (w * n) bs)) = n" using assms by (simp add: groups_def min_def)
  then have "take n (map dec (groups w bs)) = map dec (groups w (take (w * n) bs))"
    "drop n (map dec (groups w bs)) = map dec (groups w (drop (w * n) bs))"
    by (subst groups_split [OF assms(1), of bs n], simp)+
  then show ?thesis using assms by (simp add: chop.simps [of n "map dec (groups w bs)"])
next
  case False
  then have g: "take (w * n) bs = bs" "groups w (drop (w * n) bs) = []" by (simp_all add: groups_def)
  have "length bs < n * w" using False by (simp add: mult.commute)
  then have "length bs div w < n" using assms by (simp add: div_less_iff_less_mult)
  then have "length (groups w bs) \<le> n" by (simp add: groups_def)
  with g assms show ?thesis by (simp add: chop.simps [of n "map dec (groups w bs)"])
qed

lemma cli_demodulate_room:
  assumes "m_demodulate ops b (cli_modem c) = (bits, m)" "out = (case bits of None \<Rightarrow> [] | Some s \<Rightarrow> s)"
    "length out \<le> room (cli_output_file c)"
  shows "cli_demodulate ops b c = (True, c\<lparr>cli_modem := m,
    cli_output_file := (cli_output_file c)\<lparr>contents := contents (cli_output_file c) @ out, room := room (cli_output_file c) - length out\<rparr>\<rparr>)"
  using assms by (simp add: cli_demodulate_def fwrite_def Let_def min_def)

lemma cli_rx_loop_file:
  fixes ops :: "(sample, 'm) modem_ops"
  assumes z: "zlib_ok z unread written" and fmt: "fmt = rx_format d0" "n = fd_buffer_len d0"
    and len: "8 * n < 2 ^ 31"
  defines "w \<equiv> bytes_per_sample fmt"
  shows "file_ok d \<Longrightarrow> same_setup d0 d \<Longrightarrow> unread_of unread d = Some bs \<Longrightarrow> w dvd length bs \<Longrightarrow>
    cli_sdr c = (sdr_file_device callback flush z load store d0)\<lparr>plugin := Some d\<rparr> \<Longrightarrow>
    length (demodulate_all ops (chop n (map (sample_of load fmt) (groups w bs))) (cli_modem c)) \<le> room (cli_output_file c) \<Longrightarrow>
    \<exists>c'. cli_rx_loop ops (\<lambda>_. False) c = Some c' \<and>
      contents (cli_output_file c') = contents (cli_output_file c) @
        demodulate_all ops (chop n (map (sample_of load fmt) (groups w bs))) (cli_modem c)"
proof (induction "length bs" arbitrary: bs d c rule: less_induct)
  case less
  let ?S = "\<lambda>bs. map (sample_of load fmt) (groups w bs)"
  have set: "rx_format d = fmt" "fd_buffer_len d = n" using less.prems(2) fmt by (simp_all add: same_setup_def)
  have pos: "0 < w" "0 < n" using bytes_per_sample_range(1) less.prems(1) set by (simp_all add: w_def file_ok_def)
  from sdr_file_process_rx_spec [OF less.prems(1) z _ less.prems(3), of load] len obtain code d1 where
    rx: "sdr_file_process_rx z load d = Some (code, ?S (take (w * n) bs), d1)" "file_ok d1" "same_setup d d1"
      "unread_of unread d1 = Some (drop (w * n) bs)" "bs = [] \<longrightarrow> code = - 1" "w \<le> length bs \<longrightarrow> code = 0"
    unfolding set w_def [symmetric] by auto
  let ?c1 = "c\<lparr>cli_sdr := (sdr_file_device callback flush z load store d0)\<lparr>plugin := Some d1\<rparr>\<rparr>"
  have loop: "cli_rx_loop ops (\<lambda>_. False) c = (if code \<noteq> 0 then Some ?c1
      else let (written, c2) = cli_demodulate ops (?S (take (w * n) bs)) ?c1 in
        if \<not> written then Some c2 else cli_rx_loop ops (\<lambda>_. False) c2)"
    using rx(1) by (simp add: cli_rx_loop.simps [of ops _ c] less.prems(5) sdr_file_device_def)
  show ?case
  proof (cases "bs = []")
    case True
    with loop rx(5) show ?thesis by (simp add: groups_def)
  next
    case False
    then have "w \<le> length bs" using less.prems(4) by (simp add: dvd_imp_le)
    then have code: "code = 0" and g: "groups w bs \<noteq> []" using rx(6) pos by (simp_all add: groups_def div_greater_zero_iff)
    obtain bits m where dm: "m_demodulate ops (?S (take (w * n) bs)) (cli_modem ?c1) = (bits, m)" by fastforce
    define out where "out = (case bits of None \<Rightarrow> [] | Some s \<Rightarrow> s)"
    have all: "demodulate_all ops (chop n (?S bs)) (cli_modem c) = out @ demodulate_all ops (chop n (?S (drop (w * n) bs))) m"
      using samples_chop [OF pos, of "sample_of load fmt" bs] g dm by (simp add: out_def)
    have "length out \<le> room (cli_output_file ?c1)" using less.prems(6) all by simp
    note dem = cli_demodulate_room [OF dm out_def this]
    let ?c2 = "?c1\<lparr>cli_modem := m, cli_output_file := (cli_output_file ?c1)\<lparr>contents := contents (cli_output_file ?c1) @ out,
      room := room (cli_output_file ?c1) - length out\<rparr>\<rparr>"
    have "length (drop (w * n) bs) < length bs" using False pos by simp
    moreover have "w dvd length (drop (w * n) bs)" using less.prems(4) by simp
    moreover have "same_setup d0 d1" using less.prems(2) rx(3) by (simp add: same_setup_def)
    moreover have "length (demodulate_all ops (chop n (?S (drop (w * n) bs))) (cli_modem ?c2)) \<le> room (cli_output_file ?c2)"
      using less.prems(6) all by simp
    ultimately obtain c' where "cli_rx_loop ops (\<lambda>_. False) ?c2 = Some c'"
      "contents (cli_output_file c') = contents (cli_output_file ?c2) @ demodulate_all ops (chop n (?S (drop (w * n) bs))) m"
      using less.hyps [of "drop (w * n) bs" d1 ?c2] rx(2,4) by auto
    with loop code dem all show ?thesis by simp
  qed
qed

lemma cli_device_tx_file:
  assumes sizes: "\<And>x. length (store x) = 8" and z: "zlib_ok z unread written"
    and d: "file_ok d" "same_setup d0 d" "8 * fd_buffer_len d0 < 2 ^ 31" "written_of written d = Some out"
    and c: "cli_sdr c = (sdr_file_device callback flush z load store d0)\<lparr>plugin := Some d\<rparr>"
  shows "\<exists>d'. cli_device_tx samples c = Some (0, c\<lparr>cli_sdr := (sdr_file_device callback flush z load store d0)\<lparr>plugin := Some d'\<rparr>\<rparr>) \<and>
    file_ok d' \<and> same_setup d0 d' \<and>
    written_of written d' = Some (out @ concat (map (bytes_of store (tx_format d0)) (case samples of None \<Rightarrow> [] | Some xs \<Rightarrow> xs)))"
proof -
  have set: "tx_format d = tx_format d0" "fd_buffer_len d = fd_buffer_len d0" using d(2) by (simp_all add: same_setup_def)
  from sdr_file_process_tx_spec [of store z unread written d out "case samples of None \<Rightarrow> [] | Some xs \<Rightarrow> xs", OF sizes z d(1) _ d(4)] d(3)
  obtain d' where tx: "sdr_file_process_tx z store (case samples of None \<Rightarrow> [] | Some xs \<Rightarrow> xs) d = Some (0, d')"
    and d': "file_ok d'" "same_setup d d'"
      "written_of written d' = Some (out @ concat (map (bytes_of store (tx_format d0)) (case samples of None \<Rightarrow> [] | Some xs \<Rightarrow> xs)))"
    unfolding set by auto
  have "same_setup d0 d'" using d(2) d'(2) by (simp add: same_setup_def)
  moreover have "cli_device_tx samples c = Some (0, c\<lparr>cli_sdr := (sdr_file_device callback flush z load store d0)\<lparr>plugin := Some d'\<rparr>\<rparr>)"
    unfolding cli_device_tx_def c using tx by (simp add: sdr_file_device_def)
  ultimately show ?thesis using d' by blast
qed

lemma cli_tx_loop_file:
  fixes ops :: "(sample, 'm) modem_ops"
  assumes sizes: "\<And>x. length (store x) = 8" and z: "zlib_ok z unread written" and len: "8 * fd_buffer_len d0 < 2 ^ 31" and k: "0 < k"
  defines "enc \<equiv> \<lambda>xs. concat (map (bytes_of store (tx_format d0)) xs)"
  shows "file_ok d \<Longrightarrow> same_setup d0 d \<Longrightarrow> written_of written d = Some out \<Longrightarrow>
    cli_sdr c = (sdr_file_device callback flush z load store d0)\<lparr>plugin := Some d\<rparr> \<Longrightarrow>
    input_temp_size c = k \<Longrightarrow> length (input_temp c) = k \<Longrightarrow>
    \<exists>c' d' out'. cli_tx_loop ops (\<lambda>_. False) c = Some (False, c') \<and> file_ok d' \<and> same_setup d0 d' \<and> written_of written d' = Some out' \<and>
      cli_sdr c' = (sdr_file_device callback flush z load store d0)\<lparr>plugin := Some d'\<rparr> \<and>
      out' @ enc (modulate_all ops [] (cli_modem c')) = out @ enc (modulate_all ops (chop k (cli_input_file c)) (cli_modem c))"
proof (induction "length (cli_input_file c)" arbitrary: c d out rule: less_induct)
  case less
  define frame temp where "frame = take k (cli_input_file c)" and "temp = frame @ drop (length frame) (input_temp c)"
  let ?c1 = "c\<lparr>input_temp := temp, cli_input_file := drop k (cli_input_file c)\<rparr>"
  have lf: "length frame \<le> k" by (simp add: frame_def)
  have cp: "memcpy (input_temp c) 0 frame (length frame) = Some temp" and temp: "length temp = k" "take (length frame) temp = frame"
    using less.prems(6) lf by (simp_all add: memcpy_def temp_def)
  obtain samples m where md: "m_modulate ops frame (cli_modem c) = (samples, m)" by fastforce
  have loop: "cli_tx_loop ops (\<lambda>_. False) c = (if length frame = 0 then Some (False, ?c1)
      else do {
        (code, c2) \<leftarrow> cli_device_tx samples (?c1\<lparr>cli_modem := m\<rparr>);
        (if code \<noteq> 0 then Some (True, c2) else cli_tx_loop ops (\<lambda>_. False) c2) })"
    using cp temp(2) md less.prems(5) by (simp add: cli_tx_loop.simps [of ops _ c] frame_def [symmetric] Let_def)
  show ?case
  proof (cases "cli_input_file c = []")
    case True
    then have "length frame = 0" by (simp add: frame_def)
    with True loop less.prems show ?thesis by (intro exI [of _ ?c1] exI [of _ d] exI [of _ out]) simp
  next
    case False
    then have fr: "length frame \<noteq> 0" using k by (simp add: frame_def)
    have "cli_sdr (?c1\<lparr>cli_modem := m\<rparr>) = (sdr_file_device callback flush z load store d0)\<lparr>plugin := Some d\<rparr>" using less.prems(4) by simp
    from cli_device_tx_file [of store z unread written d d0 out, OF sizes z less.prems(1,2) len less.prems(3) this, of samples] obtain d2 where
      tx: "cli_device_tx samples (?c1\<lparr>cli_modem := m\<rparr>) =
        Some (0, ?c1\<lparr>cli_modem := m, cli_sdr := (sdr_file_device callback flush z load store d0)\<lparr>plugin := Some d2\<rparr>\<rparr>)"
      and d2: "file_ok d2" "same_setup d0 d2" "written_of written d2 = Some (out @ enc (case samples of None \<Rightarrow> [] | Some xs \<Rightarrow> xs))"
      unfolding enc_def by blast
    let ?c2 = "?c1\<lparr>cli_modem := m, cli_sdr := (sdr_file_device callback flush z load store d0)\<lparr>plugin := Some d2\<rparr>\<rparr>"
    have shorter: "length (cli_input_file ?c2) < length (cli_input_file c)" using False k by simp
    from less.hyps [OF shorter d2] less.prems(5) temp(1) obtain c' d' out' where
      IH: "cli_tx_loop ops (\<lambda>_. False) ?c2 = Some (False, c')" "file_ok d'" "same_setup d0 d'" "written_of written d' = Some out'"
        "cli_sdr c' = (sdr_file_device callback flush z load store d0)\<lparr>plugin := Some d'\<rparr>"
        "out' @ enc (modulate_all ops [] (cli_modem c')) = (out @ enc (case samples of None \<Rightarrow> [] | Some xs \<Rightarrow> xs)) @
          enc (modulate_all ops (chop k (drop k (cli_input_file c))) m)" by auto
    have "modulate_all ops (chop k (cli_input_file c)) (cli_modem c) = (case samples of None \<Rightarrow> [] | Some xs \<Rightarrow> xs) @
        modulate_all ops (chop k (drop k (cli_input_file c))) m"
      using False k md by (simp add: chop.simps [of k "cli_input_file c"] frame_def)
    with IH fr tx loop show ?thesis by (intro exI [of _ c'] exI [of _ d'] exI [of _ out']) (simp add: enc_def)
  qed
qed

section \<open>Properties\<close>





text \<open>
  C27. A request to stop is never lost: in every interleaving of the main thread with any number of
  handlers, once a call of \<^verbatim>\<open>cli_stop\<close> has returned and no other is under way, the main thread is not blocked, every
  step it can take brings it closer to leaving \<^verbatim>\<open>cli_wait_for_stop\<close>, and it leaves after at most two steps.
\<close>

theorem cli_stop_never_lost:
  assumes "wake_step\<^sup>*\<^sup>* wake_init s" "do_exit s" "handlers s = 0" "main_at s \<noteq> Stopped_waiting"
  shows "(\<exists>s'. main_step s s') \<and>
    (\<forall>s'. main_step s s' \<longrightarrow> wake_rank s' < wake_rank s \<and> do_exit s' \<and> handlers s' = 0) \<and> wake_rank s \<le> 2"
proof -
  have inv: "wake_inv s" using assms(1) by (rule wake_inv_reachable)
  have "\<exists>s'. main_step s s'"
  proof (cases "main_at s")
    case Check
    then show ?thesis using assms(2) by (blast intro: main_step.leave)
  next
    case Read
    with inv assms(2,3) obtain n where "pipe_bytes s = Suc n" by (auto simp: wake_inv_def gr0_conv_Suc)
    with Read show ?thesis by (blast intro: main_step.got)
  qed (use assms(4) in simp)
  moreover have "wake_rank s' < wake_rank s \<and> do_exit s' \<and> handlers s' = 0" if "main_step s s'" for s'
    using that assms(2,3) by (auto elim!: main_stepE simp: wake_rank_def)
  moreover have "wake_rank s \<le> 2" by (simp add: wake_rank_def split: main_pc.split)
  ultimately show ?thesis by blast
qed

theorem cli_stop_never_lost_witness:
  "\<exists>s'. main_step \<lparr>do_exit = True, pipe_bytes = 1, handlers = 0, main_at = Read\<rparr> s'"
proof -
  let ?s = "\<lambda>e p h m. \<lparr>do_exit = e, pipe_bytes = p, handlers = h, main_at = m\<rparr>"
  have "wake_step wake_init (?s False 0 0 Read)" "wake_step (?s False 0 0 Read) (?s True 0 1 Read)" "wake_step (?s True 0 1 Read) (?s True 1 0 Read)"
    using main_step.enter [of wake_init] stop_step.flag [of "?s False 0 0 Read"] stop_step.wake [of "?s True 0 1 Read" 0]
    by (simp_all add: wake_step_def wake_init_def)
  then have "wake_step\<^sup>*\<^sup>* wake_init (?s True 1 0 Read)" by (meson rtranclp.rtrancl_refl rtranclp.rtrancl_into_rtrancl)
  from cli_stop_never_lost [OF this] show ?thesis by simp
qed

end
