(* ===== verification/Program.thy ===== *)
theory Program
  imports Cli TcpServer
begin

text \<open>
  The program: the choice of the device in \<^verbatim>\<open>src/sdr_utils.c\<close> and \<^verbatim>\<open>src/main.c\<close>, which either runs the command
  line mode or the server. What \<^verbatim>\<open>main\<close> calls is a list of events; the answers of the calls are arguments.
\<close>

section \<open>The device\<close>

text \<open>The answers of the three constructors: a return code and the device.\<close>

record 'x device_constructors =
  plutosdr_create :: "int \<times> 'x"
  airspy_create :: "int \<times> 'x"
  file_create :: "int \<times> 'x"

definition sdr_device_create :: "'x device_constructors \<Rightarrow> app_config \<Rightarrow> int \<times> 'x option" where
  "sdr_device_create k c = (let answer = (\<lambda>(code, device). if code \<noteq> 0 then (code, None) else (0, Some device)) in
     if sdr_type c = SDR_TYPE_PLUTOSDR then answer (plutosdr_create k)
     else if sdr_type c = SDR_TYPE_AIRSPY then answer (airspy_create k)
     else if sdr_type c = SDR_TYPE_FILE then answer (file_create k)
     else (- 1, None))"

datatype device_part = Device_struct | Device_plugin

fun device_users :: "device_part \<Rightarrow> device_part set" where
  "device_users Device_struct = {Device_plugin}"
| "device_users Device_plugin = {}"

definition sdr_device_destroy_order :: "device_part list" where
  "sdr_device_destroy_order = [Device_plugin, Device_struct]"

definition sdr_device_destroy :: "device_part set \<Rightarrow> device_part set option" where
  "sdr_device_destroy ps = release_all device_users sdr_device_destroy_order ps"

interpretation device: component device_users sdr_device_destroy_order
proof
  show "ordered device_users {} sdr_device_destroy_order" by (simp add: sdr_device_destroy_order_def)
  show "p \<in> set sdr_device_destroy_order" for p by (cases p) (simp_all add: sdr_device_destroy_order_def)
qed

lemma sdr_device_destroy_complete: "sdr_device_destroy ps = Some {}"
  unfolding sdr_device_destroy_def by (rule device.destroys)

section \<open>Signals\<close>

record globals =
  g_server :: "addr option"
  g_cli :: "addr option"

datatype main_event =
  Print_version | Config_create | Config_destroy | Install_handlers | Cli_create | Cli_process | Cli_destroy |
  Server_create | Server_join | Server_shutdown addr | Cli_stop addr

text \<open>\<^verbatim>\<open>tcp_server_shutdown\<close> and \<^verbatim>\<open>cli_stop\<close> do nothing on \<^verbatim>\<open>NULL\<close>; the server is shut down once.\<close>

definition sdrmodem_stop_async :: "globals \<Rightarrow> globals \<times> main_event list" where
  "sdrmodem_stop_async g = (g\<lparr>g_server := None\<rparr>, map Server_shutdown (opt_list (g_server g)) @ map Cli_stop (opt_list (g_cli g)))"

section \<open>The main function\<close>

record main_env =
  config_code :: int
  env_bind_address :: "addr option"
  cli_create_code :: int
  cli_process_code :: int
  server_code :: int

definition main_cli :: "main_env \<Rightarrow> int \<times> main_event list" where
  "main_cli e =
    (if cli_create_code e \<noteq> 0 then (1, [Cli_create, Config_destroy])
     else (cli_process_code e, [Cli_create, Cli_process, Cli_destroy]))"

definition main_server :: "main_env \<Rightarrow> int \<times> main_event list" where
  "main_server e =
    (if server_code e \<noteq> 0 then (1, [Server_create, Config_destroy])
     else (0, [Server_create, Server_join, Config_destroy]))"

definition main :: "main_env \<Rightarrow> string list \<Rightarrow> int \<times> main_event list" where
  "main e argv =
    (if ''--version'' \<in> set (tl argv) then (0, [Print_version])
     else if config_code e \<noteq> 0 then (1, [Config_create])
     else case (if env_bind_address e = None then main_cli e else main_server e) of
       (code, events) \<Rightarrow> (code, Config_create # Install_handlers # events))"

text \<open>
  Every run destroys the configuration it created exactly once, except the command line mode after
  its work is done: there the configuration is left to the end of the process.
\<close>

lemma main_config_destroyed:
  assumes "config_code e = 0" "''--version'' \<notin> set (tl argv)"
  shows "count_list (snd (main e argv)) Config_destroy =
    (if env_bind_address e = None \<and> cli_create_code e = 0 then 0 else 1)"
  using assms by (simp add: main_def main_cli_def main_server_def)

text \<open>Handlers may run any number of times: the server is shut down by the first one only.\<close>

fun signals :: "nat \<Rightarrow> globals \<Rightarrow> main_event list" where
  "signals 0 g = []"
| "signals (Suc n) g = (case sdrmodem_stop_async g of (g1, ev) \<Rightarrow> ev @ signals n g1)"

lemma server_shut_down_once:
  "filter (\<lambda>e. case e of Server_shutdown _ \<Rightarrow> True | _ \<Rightarrow> False) (signals n g) =
    (if n = 0 then [] else map Server_shutdown (opt_list (g_server g)))"
proof (induction n arbitrary: g)
  case (Suc n)
  then show ?case by (cases "g_server g"; cases "g_cli g") (simp_all add: sdrmodem_stop_async_def)
qed simp

end
