(* ===== verification/Halfband.thy ===== *)
theory Halfband
  imports Construction
begin

text \<open>
  Half-band decimation and interpolation, \<^verbatim>\<open>src/dsp/halfband_decim.c\<close> and
  \<^verbatim>\<open>src/dsp/halfband_interp.c\<close>. The multi-stage resampler of liquid-dsp is a parameter with its state
  \<open>'r\<close>: executing it maps one block of samples to one sample, or one sample to one block. Buffers
  are lists of the allocated size, every access is checked.
\<close>

section \<open>Decimator\<close>

record ('s, 'r) halfband_decim =
  d_resampler :: 'r
  decimation :: nat
  working_buffer :: "'s list"
  history_offset :: nat
  d_max_input_buffer_length :: nat
  d_output :: "'s list"
  d_output_len :: nat

text \<open>
  The buffers of a new decimator. \<^verbatim>\<open>max_input_buffer_length + decimation\<close> is computed in 32 bits;
  \<open>zero\<close> is the sample 0.
\<close>

definition halfband_decim_new :: "'s \<Rightarrow> nat \<Rightarrow> u32 \<Rightarrow> 'r \<Rightarrow> ('s, 'r) halfband_decim" where
  "halfband_decim_new zero num_stages max_len rs = (let dec = 2 ^ num_stages; out_len = unat max_len div dec + 1 in
     \<lparr>d_resampler = rs, decimation = dec, working_buffer = replicate (unat (max_len + of_nat dec)) zero, history_offset = 0,
      d_max_input_buffer_length = unat max_len, d_output = replicate out_len zero, d_output_len = out_len\<rparr>)"

text \<open>The loop over the blocks: block \<open>i\<close> of the working buffer becomes sample \<open>i\<close> of the output.\<close>

fun decim_loop :: "('s list \<Rightarrow> 'r \<Rightarrow> 's \<times> 'r) \<Rightarrow> nat \<Rightarrow> 's list \<Rightarrow> nat \<Rightarrow> nat \<Rightarrow> 's list \<Rightarrow> 'r \<Rightarrow> ('s list \<times> 'r) option" where
  "decim_loop exec dec wb i 0 out rs = Some (out, rs)"
| "decim_loop exec dec wb i (Suc n) out rs =
    (if (i + 1) * dec \<le> length wb then do {
       let (y, rs1) = exec (take dec (drop (i * dec) wb)) rs;
       out1 \<leftarrow> set_at out i y;
       decim_loop exec dec wb (Suc i) n out1 rs1 }
     else None)"

text \<open>Answers \<^verbatim>\<open>NULL\<close> when the input is too long, otherwise the first \<^verbatim>\<open>num_blocks\<close> samples of the output.\<close>

definition halfband_decim_process ::
  "('s list \<Rightarrow> 'r \<Rightarrow> 's \<times> 'r) \<Rightarrow> 's list \<Rightarrow> ('s, 'r) halfband_decim \<Rightarrow> ('s list option \<times> ('s, 'r) halfband_decim) option" where
  "halfband_decim_process exec input f =
    (if length input > d_max_input_buffer_length f then Some (None, f)
     else do {
       wb \<leftarrow> memcpy (working_buffer f) (history_offset f) input (length input);
       let working_len = history_offset f + length input;
       let num_blocks = min (working_len div decimation f) (d_output_len f);
       (out, rs) \<leftarrow> decim_loop exec (decimation f) wb 0 num_blocks (d_output f) (d_resampler f);
       let consumed = num_blocks * decimation f;
       let offset = working_len - consumed;
       wb1 \<leftarrow> (if consumed > 0 then memcpy wb 0 (drop consumed wb) offset else Some wb);
       Some (Some (take num_blocks out), f\<lparr>d_resampler := rs, working_buffer := wb1, history_offset := offset, d_output := out\<rparr>) })"

section \<open>Interpolator\<close>

record ('s, 'r) halfband_interp =
  i_resampler :: 'r
  interpolation :: nat
  i_max_input_buffer_length :: nat
  tail_length :: nat
  i_output :: "'s list"
  i_output_len :: nat

text \<open>\<open>tail\<close> is \<^verbatim>\<open>ceil(2 * msresamp2_crcf_get_delay(...)) + 1\<close>; the lengths are 64-bit numbers that do not wrap.\<close>

definition halfband_interp_new :: "'s \<Rightarrow> nat \<Rightarrow> nat \<Rightarrow> u32 \<Rightarrow> 'r \<Rightarrow> ('s, 'r) halfband_interp" where
  "halfband_interp_new zero tail num_stages max_len rs = (let ipl = 2 ^ num_stages; out_len = (unat max_len + tail) * ipl in
     \<lparr>i_resampler = rs, interpolation = ipl, i_max_input_buffer_length = unat max_len, tail_length = tail,
      i_output = replicate out_len zero, i_output_len = out_len\<rparr>)"

text \<open>\<open>exec\<close> answers the \<^verbatim>\<open>interpolation\<close> samples that are stored from index \<open>i * interpolation\<close> on.\<close>

fun interp_loop :: "('x \<Rightarrow> 'r \<Rightarrow> 's list \<times> 'r) \<Rightarrow> nat \<Rightarrow> nat \<Rightarrow> 'x list \<Rightarrow> 's list \<Rightarrow> 'r \<Rightarrow> ('s list \<times> 'r) option" where
  "interp_loop exec ipl i [] out rs = Some (out, rs)"
| "interp_loop exec ipl i (x # xs) out rs = do {
     let (ys, rs1) = exec x rs;
     out1 \<leftarrow> memcpy out (i * ipl) ys ipl;
     interp_loop exec ipl (Suc i) xs out1 rs1 }"

definition halfband_interp_process ::
  "('s \<Rightarrow> 'r \<Rightarrow> 's list \<times> 'r) \<Rightarrow> 's list \<Rightarrow> ('s, 'r) halfband_interp \<Rightarrow> ('s list option \<times> ('s, 'r) halfband_interp) option" where
  "halfband_interp_process exec input f =
    (if length input > i_max_input_buffer_length f then Some (None, f)
     else do {
       (out, rs) \<leftarrow> interp_loop exec (interpolation f) 0 input (i_output f) (i_resampler f);
       Some (Some (take (length input * interpolation f) out), f\<lparr>i_resampler := rs, i_output := out\<rparr>) })"

definition halfband_interp_process_flush ::
  "('s \<Rightarrow> 'r \<Rightarrow> 's list \<times> 'r) \<Rightarrow> 's \<Rightarrow> 's list \<Rightarrow> ('s, 'r) halfband_interp \<Rightarrow> ('s list option \<times> ('s, 'r) halfband_interp) option" where
  "halfband_interp_process_flush exec zero input f = do {
     (r, f1) \<leftarrow> halfband_interp_process exec input f;
     (if r = None then Some (None, f1)
      else do {
        (out, rs) \<leftarrow> interp_loop exec (interpolation f1) (length input) (replicate (tail_length f1) zero) (i_output f1) (i_resampler f1);
        Some (Some (take ((length input + tail_length f1) * interpolation f1) out), f1\<lparr>i_resampler := rs, i_output := out\<rparr>) }) }"

definition halfband_interp_reset :: "'r \<Rightarrow> ('s, 'r) halfband_interp \<Rightarrow> ('s, 'r) halfband_interp" where
  "halfband_interp_reset rs f = f\<lparr>i_resampler := rs\<rparr>"

definition halfband_interp_max_output_buffer_length :: "('s, 'r) halfband_interp \<Rightarrow> nat" where
  "halfband_interp_max_output_buffer_length f = i_output_len f"

section \<open>Construction and destruction\<close>

datatype decim_part = Decim_struct | Decim_resampler | Decim_output | Decim_working_buffer

fun decim_users :: "decim_part \<Rightarrow> decim_part set" where
  "decim_users Decim_struct = {Decim_resampler, Decim_output, Decim_working_buffer}"
| "decim_users _ = {}"

definition halfband_decim_destroy_order :: "decim_part list" where
  "halfband_decim_destroy_order = [Decim_resampler, Decim_output, Decim_working_buffer, Decim_struct]"

definition halfband_decim_destroy :: "decim_part set \<Rightarrow> decim_part set option" where
  "halfband_decim_destroy ps = release_all decim_users halfband_decim_destroy_order ps"

text \<open>The arguments say which of the calls in the constructor succeed, in their order.\<close>

definition halfband_decim_create :: "bool \<Rightarrow> bool \<Rightarrow> bool \<Rightarrow> bool \<Rightarrow> (int \<times> decim_part set) option" where
  "halfband_decim_create malloc_ok resampler_ok buffer_ok output_ok =
    (if \<not> malloc_ok then Some (- ENOMEM, {})
     else construct decim_users halfband_decim_destroy_order [
       (resampler_ok, - EINVAL, Some Decim_resampler), (buffer_ok, - ENOMEM, Some Decim_working_buffer),
       (output_ok, - ENOMEM, Some Decim_output)] {Decim_struct})"

datatype interp_part = Interp_struct | Interp_resampler | Interp_output

fun interp_users :: "interp_part \<Rightarrow> interp_part set" where
  "interp_users Interp_struct = {Interp_resampler, Interp_output}"
| "interp_users _ = {}"

definition halfband_interp_destroy_order :: "interp_part list" where
  "halfband_interp_destroy_order = [Interp_resampler, Interp_output, Interp_struct]"

definition halfband_interp_destroy :: "interp_part set \<Rightarrow> interp_part set option" where
  "halfband_interp_destroy ps = release_all interp_users halfband_interp_destroy_order ps"

definition halfband_interp_create :: "bool \<Rightarrow> bool \<Rightarrow> bool \<Rightarrow> (int \<times> interp_part set) option" where
  "halfband_interp_create malloc_ok resampler_ok output_ok =
    (if \<not> malloc_ok then Some (- ENOMEM, {})
     else construct interp_users halfband_interp_destroy_order [
       (resampler_ok, - EINVAL, Some Interp_resampler), (output_ok, - ENOMEM, Some Interp_output)] {Interp_struct})"

interpretation decim: component decim_users halfband_decim_destroy_order
proof
  show "ordered decim_users {} halfband_decim_destroy_order" by (simp add: halfband_decim_destroy_order_def)
  show "p \<in> set halfband_decim_destroy_order" for p by (cases p) (simp_all add: halfband_decim_destroy_order_def)
qed

interpretation interp: component interp_users halfband_interp_destroy_order
proof
  show "ordered interp_users {} halfband_interp_destroy_order" by (simp add: halfband_interp_destroy_order_def)
  show "p \<in> set halfband_interp_destroy_order" for p by (cases p) (simp_all add: halfband_interp_destroy_order_def)
qed

section \<open>What the filters compute\<close>

text \<open>
  The reference: the blocks of a stream go through the resampler one after the other; what is left
  at the end is shorter than a block.
\<close>

function decimate :: "('s list \<Rightarrow> 'r \<Rightarrow> 's \<times> 'r) \<Rightarrow> nat \<Rightarrow> 's list \<Rightarrow> 'r \<Rightarrow> 's list \<times> 'r" where
  "decimate exec dec xs rs =
    (if dec = 0 \<or> length xs < dec then ([], rs)
     else let (y, rs1) = exec (take dec xs) rs; (ys, rs2) = decimate exec dec (drop dec xs) rs1 in (y # ys, rs2))"
  by pat_completeness auto
termination
  by (relation "measure (\<lambda>(_, _, xs, _). length xs)") auto

declare decimate.simps [simp del]

fun interpolate :: "('x \<Rightarrow> 'r \<Rightarrow> 's list \<times> 'r) \<Rightarrow> 'x list \<Rightarrow> 'r \<Rightarrow> 's list \<times> 'r" where
  "interpolate exec [] rs = ([], rs)"
| "interpolate exec (x # xs) rs = (let (ys, rs1) = exec x rs; (zs, rs2) = interpolate exec xs rs1 in (ys @ zs, rs2))"

lemma decim_loop_decimate:
  assumes "0 < dec"
  shows "(i + n) * dec \<le> length wb \<Longrightarrow> i + n \<le> length out \<Longrightarrow> length xs < (n + 1) * dec \<Longrightarrow>
    take (n * dec) (drop (i * dec) wb) = take (n * dec) xs \<Longrightarrow> n * dec \<le> length xs \<Longrightarrow>
    \<exists>ys rs'. decimate exec dec xs rs = (ys, rs') \<and> length ys = n \<and>
      decim_loop exec dec wb i n out rs = Some (take i out @ ys @ drop (i + n) out, rs')"
proof (induction n arbitrary: i out xs rs)
  case 0
  then show ?case by (simp add: decimate.simps [of exec dec xs])
next
  case (Suc n)
  obtain y rs1 where e: "exec (take dec xs) rs = (y, rs1)" by fastforce
  have split: "take (Suc n * dec) zs = take dec zs @ take (n * dec) (drop dec zs)" for zs :: "'a list"
    by (simp add: take_add)
  have len: "dec \<le> length xs" "dec \<le> length (drop (i * dec) wb)" using Suc.prems by (simp_all add: algebra_simps)
  from Suc.prems(4) split [of "drop (i * dec) wb"] split [of xs] len
  have blk: "take dec (drop (i * dec) wb) = take dec xs" and rest: "take (n * dec) (drop (Suc i * dec) wb) = take (n * dec) (drop dec xs)"
    by (simp_all add: add.commute)
  let ?out = "out[i := y]"
  have pre: "(Suc i + n) * dec \<le> length wb" "Suc i + n \<le> length ?out" "length (drop dec xs) < (n + 1) * dec" "n * dec \<le> length (drop dec xs)"
    using Suc.prems by (simp_all add: algebra_simps)
  from Suc.IH [OF pre(1,2,3) rest pre(4), of rs1] obtain ys rs' where
    IH: "decimate exec dec (drop dec xs) rs1 = (ys, rs')" "length ys = n"
      "decim_loop exec dec wb (Suc i) n ?out rs1 = Some (take (Suc i) ?out @ ys @ drop (Suc i + n) ?out, rs')" by blast
  have i: "i < length out" using Suc.prems(2) by simp
  have "decimate exec dec xs rs = (y # ys, rs')" using e IH(1) len(1) assms by (simp add: decimate.simps [of exec dec xs])
  moreover have "(i + 1) * dec \<le> length wb" using Suc.prems(1) by (simp add: algebra_simps)
  then have "decim_loop exec dec wb i (Suc n) out rs = Some (take (Suc i) ?out @ ys @ drop (Suc i + n) ?out, rs')"
    using blk e IH(3) i by (simp add: set_at_def)
  moreover have "take (Suc i) ?out = take i out @ [y]" using i by (simp add: take_Suc_conv_app_nth)
  ultimately show ?case using IH(2) by simp
qed

lemma decimate_short: "length xs < dec \<Longrightarrow> decimate exec dec xs rs = ([], rs)"
  by (simp add: decimate.simps [of exec dec xs])

lemma decimate_length:
  "0 < dec \<Longrightarrow> length (fst (decimate exec dec xs rs)) = length xs div dec"
proof (induction exec dec xs rs rule: decimate.induct)
  case (1 exec dec xs rs)
  show ?case
  proof (cases "length xs < dec")
    case False
    obtain y rs1 where e: "exec (take dec xs) rs = (y, rs1)" by fastforce
    have "\<not> (dec = 0 \<or> length xs < dec)" using False "1.prems" by simp
    from "1.IH" [OF this refl e [symmetric] "1.prems"] have "length (fst (decimate exec dec (drop dec xs) rs1)) = (length xs - dec) div dec" by simp
    moreover obtain ys rs2 where "decimate exec dec (drop dec xs) rs1 = (ys, rs2)" by fastforce
    ultimately show ?thesis using e False "1.prems" by (simp add: decimate.simps [of exec dec xs] le_div_geq)
  qed (simp add: decimate_short)
qed

lemma decimate_append:
  "0 < dec \<Longrightarrow> decimate exec dec (xs @ ys) rs = (let (a, rs1) = decimate exec dec xs rs;
      (b, rs2) = decimate exec dec (drop (length a * dec) xs @ ys) rs1 in (a @ b, rs2))"
proof (induction exec dec xs rs rule: decimate.induct)
  case (1 exec dec xs rs)
  show ?case
  proof (cases "length xs < dec")
    case True
    then show ?thesis by (simp add: decimate_short)
  next
    case False
    obtain y rs1 where e: "exec (take dec xs) rs = (y, rs1)" by fastforce
    have "\<not> (dec = 0 \<or> length xs < dec)" using False "1.prems" by simp
    from "1.IH" [OF this refl e [symmetric] "1.prems"]
    have IH: "decimate exec dec (drop dec xs @ ys) rs1 = (let (a, rs1) = decimate exec dec (drop dec xs) rs1;
        (b, rs2) = decimate exec dec (drop (length a * dec) (drop dec xs) @ ys) rs1 in (a @ b, rs2))" by simp
    obtain a rs2 where a: "decimate exec dec (drop dec xs) rs1 = (a, rs2)" by fastforce
    have "decimate exec dec (xs @ ys) rs = (let (zs, r) = decimate exec dec (drop dec xs @ ys) rs1 in (y # zs, r))"
      using e False "1.prems" by (simp add: decimate.simps [of exec dec "xs @ ys"])
    moreover have "decimate exec dec xs rs = (y # a, rs2)"
      using e a False "1.prems" by (simp add: decimate.simps [of exec dec xs])
    ultimately show ?thesis using IH a by (simp add: add.commute split: prod.splits)
  qed
qed

definition decim_ok :: "('s, 'r) halfband_decim \<Rightarrow> bool" where
  "decim_ok f \<longleftrightarrow> 0 < decimation f \<and> history_offset f < decimation f \<and>
     length (working_buffer f) = d_max_input_buffer_length f + decimation f \<and>
     d_output_len f = d_max_input_buffer_length f div decimation f + 1 \<and> length (d_output f) = d_output_len f"

text \<open>The samples that wait for the rest of their block.\<close>

definition pending :: "('s, 'r) halfband_decim \<Rightarrow> 's list" where
  "pending f = take (history_offset f) (working_buffer f)"

lemma halfband_decim_step:
  assumes ok: "decim_ok f" and n: "length input \<le> d_max_input_buffer_length f"
    and ref: "decimate exec (decimation f) (pending f @ input) (d_resampler f) = (ys, rs')"
  shows "\<exists>f'. halfband_decim_process exec input f = Some (Some ys, f') \<and> decim_ok f' \<and> d_resampler f' = rs' \<and>
    decimation f' = decimation f \<and> d_max_input_buffer_length f' = d_max_input_buffer_length f \<and>
    pending f' = drop (length ys * decimation f) (pending f @ input)"
proof -
  let ?dec = "decimation f" and ?h = "history_offset f" and ?xs = "pending f @ input" and ?mx = "d_max_input_buffer_length f"
  have d: "0 < ?dec" "?h < ?dec" "length (working_buffer f) = ?mx + ?dec" "length (d_output f) = ?mx div ?dec + 1"
    "d_output_len f = ?mx div ?dec + 1" using ok by (simp_all add: decim_ok_def)
  have p: "length (pending f) = ?h" using d by (simp add: pending_def)
  define len nb wb where "len = ?h + length input" and "nb = len div ?dec"
    and "wb = take ?h (working_buffer f) @ input @ drop (?h + length input) (working_buffer f)"
  have xs: "length ?xs = len" by (simp add: p len_def)
  have m: "memcpy (working_buffer f) ?h input (length input) = Some wb" using d n by (simp add: memcpy_def wb_def)
  have wb: "length wb = ?mx + ?dec" "take len wb = ?xs" "len \<le> ?mx + ?dec"
    using d n p by (simp_all add: pending_def wb_def len_def)
  have "(?mx + ?dec) div ?dec = ?mx div ?dec + 1" using d(1) by (simp add: div_add_self2)
  moreover have "nb \<le> (?mx + ?dec) div ?dec" unfolding nb_def using wb(3) by (rule div_le_mono)
  ultimately have nb: "nb \<le> ?mx div ?dec + 1" by linarith
  have bnd: "nb * ?dec \<le> len" "len < (nb + 1) * ?dec"
    using d(1) dividend_less_div_times [of ?dec len] by (simp_all add: nb_def algebra_simps)
  have "take (nb * ?dec) wb = take (nb * ?dec) (take len wb)" by (simp only: take_take min_absorb1 [OF bnd(1)])
  then have blocks: "take (nb * ?dec) (drop (0 * ?dec) wb) = take (nb * ?dec) ?xs" by (simp add: wb(2))
  from decim_loop_decimate [OF d(1), of 0 nb wb "d_output f" ?xs exec "d_resampler f"] blocks bnd nb wb(1,3) d(4) ref
  have loop: "length ys = nb" "decim_loop exec ?dec wb 0 nb (d_output f) (d_resampler f) = Some (ys @ drop nb (d_output f), rs')"
    unfolding xs by auto
  define off where "off = len - nb * ?dec"
  define wb1 where "wb1 = (if nb * ?dec > 0 then take off (drop (nb * ?dec) wb) @ drop off wb else wb)"
  have off: "off < ?dec" "nb * ?dec + off = len" using bnd by (simp_all add: off_def)
  have room: "off \<le> ?mx + ?dec - nb * ?dec" "off \<le> ?mx + ?dec" using off wb(3) by linarith+
  have mv: "(if nb * ?dec > 0 then memcpy wb 0 (drop (nb * ?dec) wb) off else Some wb) = Some wb1"
    using room wb(1) by (simp add: memcpy_def wb1_def)
  have lwb1: "length wb1 = ?mx + ?dec" using room wb(1) by (auto simp: wb1_def)
  have "take off wb1 = take off (drop (nb * ?dec) wb)" using room wb(1) by (auto simp: wb1_def)
  also have "\<dots> = drop (nb * ?dec) ?xs" by (metis drop_take off_def wb(2))
  finally have pend: "take off wb1 = drop (nb * ?dec) ?xs" .
  let ?f' = "f\<lparr>d_resampler := rs', working_buffer := wb1, history_offset := off, d_output := ys @ drop nb (d_output f)\<rparr>"
  have "min (len div ?dec) (d_output_len f) = nb" using nb d(5) by (simp add: nb_def)
  then have "halfband_decim_process exec input f = Some (Some ys, ?f')"
    unfolding halfband_decim_process_def Let_def len_def [symmetric]
    using n m loop mv by (auto simp: not_less off_def [symmetric] split: if_splits)
  moreover have "decim_ok ?f'" using d off(1) loop(1) nb lwb1 by (simp add: decim_ok_def)
  moreover have "pending ?f' = drop (length ys * ?dec) ?xs" using pend loop(1) by (simp add: pending_def)
  ultimately show ?thesis by (intro exI [of _ ?f']) simp
qed

fun decim_process_all ::
  "('s list \<Rightarrow> 'r \<Rightarrow> 's \<times> 'r) \<Rightarrow> 's list list \<Rightarrow> ('s, 'r) halfband_decim \<Rightarrow> ('s list \<times> ('s, 'r) halfband_decim) option" where
  "decim_process_all exec [] f = Some ([], f)"
| "decim_process_all exec (c # cs) f = do {
     (r, f1) \<leftarrow> halfband_decim_process exec c f;
     ys \<leftarrow> r;
     (zs, f2) \<leftarrow> decim_process_all exec cs f1;
     Some (ys @ zs, f2) }"

lemma decim_process_all_spec:
  "decim_ok f \<Longrightarrow> \<forall>c \<in> set cs. length c \<le> d_max_input_buffer_length f \<Longrightarrow>
   \<exists>f'. decim_process_all exec cs f = Some (fst (decimate exec (decimation f) (pending f @ concat cs) (d_resampler f)), f')"
proof (induction cs arbitrary: f)
  case Nil
  then have "length (pending f) < decimation f" by (simp add: decim_ok_def pending_def)
  then show ?case by (simp add: decimate_short)
next
  case (Cons c cs)
  obtain ys rs where ref: "decimate exec (decimation f) (pending f @ c) (d_resampler f) = (ys, rs)" by fastforce
  have "length c \<le> d_max_input_buffer_length f" using Cons.prems by simp
  from halfband_decim_step [OF Cons.prems(1) this ref] obtain f1 where
    s: "halfband_decim_process exec c f = Some (Some ys, f1)" "decim_ok f1" "d_resampler f1 = rs" "decimation f1 = decimation f"
      "d_max_input_buffer_length f1 = d_max_input_buffer_length f" "pending f1 = drop (length ys * decimation f) (pending f @ c)" by blast
  from Cons.IH [OF s(2)] Cons.prems s(5) obtain f' where
    IH: "decim_process_all exec cs f1 = Some (fst (decimate exec (decimation f) (pending f1 @ concat cs) rs), f')"
    using s(3,4) by auto
  have pos: "0 < decimation f" using Cons.prems(1) by (simp add: decim_ok_def)
  have "fst (decimate exec (decimation f) (pending f @ concat (c # cs)) (d_resampler f)) =
      ys @ fst (decimate exec (decimation f) (pending f1 @ concat cs) rs)"
    using decimate_append [OF pos, of exec "pending f @ c" "concat cs" "d_resampler f"] ref s(6)
    by (simp split: prod.splits)
  with s IH show ?case by simp
qed

text \<open>The interpolator: what its loop stores, and a whole transmission of some buffers with a flush at the end.\<close>

lemma interp_loop_interpolate:
  assumes block: "\<And>x r. length (fst (exec x r)) = ipl"
  shows "(i + length xs) * ipl \<le> length out \<Longrightarrow> interpolate exec xs rs = (ys, rs') \<Longrightarrow>
    length ys = length xs * ipl \<and>
    interp_loop exec ipl i xs out rs = Some (take (i * ipl) out @ ys @ drop ((i + length xs) * ipl) out, rs')"
proof (induction xs arbitrary: i out rs ys)
  case (Cons x xs)
  obtain b rs1 where e: "exec x rs = (b, rs1)" by fastforce
  with block [of x rs] have b: "length b = ipl" by simp
  obtain zs where zs: "interpolate exec xs rs1 = (zs, rs')" "ys = b @ zs"
    using Cons.prems(2) e by (auto split: prod.splits)
  define n where "n = length xs * ipl"
  define out1 where "out1 = take (i * ipl) out @ b @ drop (i * ipl + ipl) out"
  have fits: "i * ipl + ipl + n \<le> length out" using Cons.prems(1) by (simp add: n_def algebra_simps)
  then have "memcpy out (i * ipl) b ipl = Some out1" using b by (simp add: memcpy_def out1_def)
  moreover have l1: "length out1 = length out" using fits b by (simp add: out1_def)
  then have "(Suc i + length xs) * ipl \<le> length out1" using Cons.prems(1) by simp
  from Cons.IH [OF this zs(1)] have IH: "length zs = n"
    "interp_loop exec ipl (Suc i) xs out1 rs1 = Some (take (i * ipl + ipl) out1 @ zs @ drop (i * ipl + ipl + n) out1, rs')"
    by (simp_all add: n_def algebra_simps)
  moreover have "take (i * ipl + ipl) out1 = take (i * ipl) out @ b" "drop (i * ipl + ipl + n) out1 = drop (i * ipl + ipl + n) out"
    using fits b by (simp_all add: out1_def add.commute)
  ultimately show ?case using e zs(2) b by (simp add: n_def algebra_simps)
qed simp

lemma interp_loop_length: "interp_loop exec ipl i xs out rs = Some (out', rs') \<Longrightarrow> length out' = length out"
  by (induction exec ipl i xs out rs rule: interp_loop.induct) (auto split: prod.splits bind_splits dest: memcpy_length)

definition interp_ok :: "('s, 'r) halfband_interp \<Rightarrow> bool" where
  "interp_ok f \<longleftrightarrow> length (i_output f) = (i_max_input_buffer_length f + tail_length f) * interpolation f"

lemma interpolate_append:
  "interpolate exec (xs @ ys) rs = (let (a, rs1) = interpolate exec xs rs; (b, rs2) = interpolate exec ys rs1 in (a @ b, rs2))"
  by (induction xs arbitrary: rs) (auto split: prod.splits)

lemma halfband_interp_step:
  assumes block: "\<And>x r. length (fst (exec x r)) = interpolation f" and ok: "interp_ok f"
    and n: "length input \<le> i_max_input_buffer_length f" and ref: "interpolate exec input (i_resampler f) = (ys, rs')"
  shows "\<exists>out. halfband_interp_process exec input f = Some (Some ys, f\<lparr>i_resampler := rs', i_output := out\<rparr>) \<and>
    length out = length (i_output f) \<and> take (length input * interpolation f) out = ys"
proof -
  have fits: "length input * interpolation f \<le> length (i_output f)"
    using ok n by (simp add: interp_ok_def)
  with interp_loop_interpolate [of exec "interpolation f", OF block, of 0 input "i_output f" "i_resampler f" ys rs'] ref
  have "length ys = length input * interpolation f"
    "interp_loop exec (interpolation f) 0 input (i_output f) (i_resampler f) =
      Some (ys @ drop (length input * interpolation f) (i_output f), rs')" by simp_all
  with n fits show ?thesis by (auto simp: halfband_interp_process_def)
qed

lemma halfband_interp_flush_step:
  assumes block: "\<And>x r. length (fst (exec x r)) = interpolation f" and ok: "interp_ok f"
    and n: "length input \<le> i_max_input_buffer_length f"
    and ref: "interpolate exec (input @ replicate (tail_length f) zero) (i_resampler f) = (ys, rs')"
  shows "\<exists>out. halfband_interp_process_flush exec zero input f = Some (Some ys, f\<lparr>i_resampler := rs', i_output := out\<rparr>) \<and>
    length out = length (i_output f)"
proof -
  obtain a rs1 where a: "interpolate exec input (i_resampler f) = (a, rs1)" by fastforce
  obtain b where b: "interpolate exec (replicate (tail_length f) zero) rs1 = (b, rs')" "ys = a @ b"
    using ref a by (auto simp: interpolate_append split: prod.splits)
  from halfband_interp_step [OF block ok n a] obtain out where
    s: "halfband_interp_process exec input f = Some (Some a, f\<lparr>i_resampler := rs1, i_output := out\<rparr>)"
      "length out = length (i_output f)" "take (length input * interpolation f) out = a" by blast
  have "(length input + tail_length f) * interpolation f \<le> length out" using s(2) ok n by (simp add: interp_ok_def)
  with interp_loop_interpolate [of exec "interpolation f", OF block, of "length input" "replicate (tail_length f) zero" out rs1 b rs'] b(1) s(3)
  have "interp_loop exec (interpolation f) (length input) (replicate (tail_length f) zero) out rs1 =
      Some (a @ b @ drop ((length input + tail_length f) * interpolation f) out, rs')"
    and "length b = tail_length f * interpolation f" by simp_all
  moreover have "length (a @ b @ drop ((length input + tail_length f) * interpolation f) out) = length (i_output f)"
    using interp_loop_length [OF calculation(1)] s(2) by simp
  moreover have "length a = length input * interpolation f"
    using interp_loop_interpolate [of exec "interpolation f", OF block, of 0 input "i_output f" "i_resampler f" a rs1] a ok n by (simp add: interp_ok_def)
  ultimately show ?thesis using s(1) b(2) by (auto simp: halfband_interp_process_flush_def algebra_simps)
qed

fun interp_transmission ::
  "('s \<Rightarrow> 'r \<Rightarrow> 's list \<times> 'r) \<Rightarrow> 's \<Rightarrow> 's list list \<Rightarrow> 's list \<Rightarrow> ('s, 'r) halfband_interp \<Rightarrow> 's list option" where
  "interp_transmission exec zero [] final f = do { (r, _) \<leftarrow> halfband_interp_process_flush exec zero final f; r }"
| "interp_transmission exec zero (c # cs) final f = do {
     (r, f1) \<leftarrow> halfband_interp_process exec c f;
     ys \<leftarrow> r;
     zs \<leftarrow> interp_transmission exec zero cs final f1;
     Some (ys @ zs) }"

lemma interp_transmission_spec:
  assumes "\<And>x r. length (fst (exec x r)) = interpolation f" "interp_ok f"
    "\<forall>c \<in> set (final # cs). length c \<le> i_max_input_buffer_length f"
  shows "interp_transmission exec zero cs final f =
    Some (fst (interpolate exec (concat cs @ final @ replicate (tail_length f) zero) (i_resampler f)))"
  using assms
proof (induction cs arbitrary: f)
  case Nil
  obtain ys rs' where ref: "interpolate exec (final @ replicate (tail_length f) zero) (i_resampler f) = (ys, rs')" by fastforce
  from halfband_interp_flush_step [OF Nil(1,2) _ ref] Nil(3) ref show ?case by auto
next
  case (Cons c cs)
  obtain ys rs' where ref: "interpolate exec c (i_resampler f) = (ys, rs')" by fastforce
  from halfband_interp_step [OF Cons.prems(1,2) _ ref] Cons.prems(3) obtain out where
    s: "halfband_interp_process exec c f = Some (Some ys, f\<lparr>i_resampler := rs', i_output := out\<rparr>)"
      "length out = length (i_output f)" by auto
  let ?f = "f\<lparr>i_resampler := rs', i_output := out\<rparr>"
  have "interp_ok ?f" using Cons.prems(2) s(2) by (simp add: interp_ok_def)
  with Cons.IH [of ?f] Cons.prems(1,3) have
    "interp_transmission exec zero cs final ?f = Some (fst (interpolate exec (concat cs @ final @ replicate (tail_length f) zero) rs'))"
    by simp
  with s(1) ref show ?case
    using interpolate_append [of exec c "concat cs @ final @ replicate (tail_length f) zero" "i_resampler f"]
    by (simp split: prod.splits)
qed

section \<open>Properties\<close>

text \<open>
  C24. Decimation does not depend on how the samples arrive: for every sequence of buffers, each within
  the maximum the filter was created for, the filter stays within its buffers and produces exactly
  what the resampler makes of the blocks of the concatenated stream, one sample per block, with
  incomplete blocks kept for the next call.
\<close>

theorem halfband_decim_chunk_independent:
  assumes "unat max_len + 2 ^ stages < 2 ^ 32" "\<forall>c \<in> set chunks. length c \<le> unat max_len"
  shows "\<exists>f'. decim_process_all exec chunks (halfband_decim_new zero stages max_len rs)
      = Some (fst (decimate exec (2 ^ stages) (concat chunks) rs), f') \<and>
    length (fst (decimate exec (2 ^ stages) (concat chunks) rs)) = length (concat chunks) div 2 ^ stages"
proof -
  let ?f = "halfband_decim_new zero stages max_len rs"
  have small: "(2 :: nat) ^ stages < 2 ^ 32" using assms(1) by simp
  then have "unat (of_nat (2 ^ stages) :: u32) = 2 ^ stages" by (simp add: unat_of_nat del: of_nat_power)
  then have "unat (max_len + of_nat (2 ^ stages)) = unat max_len + 2 ^ stages"
    using assms(1) by (simp add: unat_word_ariths del: of_nat_power)
  then have ok: "decim_ok ?f" by (simp add: decim_ok_def halfband_decim_new_def Let_def del: of_nat_power)
  have sel: "decimation ?f = 2 ^ stages" "pending ?f = []" "d_resampler ?f = rs" "d_max_input_buffer_length ?f = unat max_len"
    by (simp_all add: halfband_decim_new_def pending_def Let_def)
  from decim_process_all_spec [OF ok, of chunks exec] assms(2) show ?thesis
    unfolding sel by (simp add: decimate_length)
qed

theorem halfband_decim_chunk_independent_witness:
  "\<exists>f'. decim_process_all (\<lambda>b r. (sum_list b, ())) [[1], [2, 3, 4], [], [5, 6 :: nat]] (halfband_decim_new 0 1 4 ()) =
      Some (fst (decimate (\<lambda>b r. (sum_list b, ())) 2 [1, 2, 3, 4, 5, 6] ()), f')"
  using halfband_decim_chunk_independent [of 4 1 "[[1], [2, 3, 4], [], [5, 6 :: nat]]" "\<lambda>b r. (sum_list b, ())" 0 "()"] by auto

text \<open>
  A transmission through the interpolator is seamless: buffers within the declared maximum followed
  by a flush stay within the output buffer and give the resampled concatenation of the buffers and
  of the tail of zeroes that pushes the last samples out, independently of where the buffers are cut.
\<close>

theorem halfband_interp_transmission_seamless:
  assumes "\<And>x r. length (fst (exec x r)) = 2 ^ stages" "\<forall>c \<in> set (final # chunks). length c \<le> unat max_len"
  shows "interp_transmission exec zero chunks final (halfband_interp_new zero tail stages max_len rs) =
    Some (fst (interpolate exec (concat chunks @ final @ replicate tail zero) rs))"
proof -
  let ?f = "halfband_interp_new zero tail stages max_len rs"
  have sel: "interpolation ?f = 2 ^ stages" "tail_length ?f = tail" "i_resampler ?f = rs" "i_max_input_buffer_length ?f = unat max_len"
    "interp_ok ?f" by (simp_all add: halfband_interp_new_def interp_ok_def Let_def)
  from interp_transmission_spec [of exec ?f final chunks zero] assms sel show ?thesis by simp
qed

theorem halfband_interp_transmission_seamless_witness:
  "interp_transmission (\<lambda>x r. ([x, r], x)) 0 [[1], [2, 3]] [4] (halfband_interp_new 0 1 1 2 (0 :: nat)) =
    Some [1, 0, 2, 1, 3, 2, 4, 3, 0, 4]"
  using halfband_interp_transmission_seamless [of "\<lambda>x r. ([x, r], x)" 1 "[4]" "[[1], [2, 3]]" 2 0 1 "0 :: nat"] by simp

end
