(* ===== verification/SdrModem.thy ===== *)
theory SdrModem
  imports Binary32 Halfband SdrDevice
begin

text \<open>
  The modem the workers use, \<^verbatim>\<open>src/dsp/sdr_modem.c\<close>: it wraps one of the modems of the program in an optional
  chain of half-band filters and a frequency correction. The wrapped modem is a structure of function
  pointers, here a record of functions; the frequency correction is one more. The choice of the number
  of half-band stages is computed in single precision, as in the code.
\<close>

abbreviation (input) MODEM_HALFBAND_MAX_STAGES :: nat where "MODEM_HALFBAND_MAX_STAGES \<equiv> 6"

section \<open>The number of stages\<close>

definition required_rate :: "u32 \<Rightarrow> u64" where
  "required_rate bandwidth = of_int \<lceil>fl32 (2 * fl32 (of_nat (unat bandwidth)))\<rceil>"

function stages_loop :: "u64 \<Rightarrow> u64 \<Rightarrow> nat \<Rightarrow> nat" where
  "stages_loop rate required n =
    (if n < MODEM_HALFBAND_MAX_STAGES \<and> drop_bit (n + 1) rate \<ge> required then stages_loop rate required (n + 1) else n)"
  by pat_completeness auto
termination
  by (relation "measure (\<lambda>(_, _, n). 6 - n)") auto

declare stages_loop.simps [simp del]

definition sdr_modem_estimate_halfband_stages :: "u64 \<Rightarrow> u32 \<Rightarrow> nat" where
  "sdr_modem_estimate_halfband_stages rate bandwidth =
    (if bandwidth = 0 then 0 else stages_loop rate (required_rate bandwidth) 0)"

definition sdr_modem_halfband_cutoff :: "u32 \<Rightarrow> u64 \<Rightarrow> rat" where
  "sdr_modem_halfband_cutoff bandwidth decimated_rate =
    (let cutoff = fl32 (fl32 (fl32 (of_nat (unat bandwidth)) / 2) / fl32 (of_nat (unat decimated_rate))) in
     if cutoff < fl32 (5 / 100) then fl32 (5 / 100) else if cutoff > fl32 (45 / 100) then fl32 (45 / 100) else cutoff)"

text \<open>\<^verbatim>\<open>(uint32_t) ((1 + rrc_beta) * baud_rate)\<close>\<close>

definition rrc_bandwidth :: "f32 \<Rightarrow> u32 \<Rightarrow> u32 option" where
  "rrc_bandwidth beta baud = do {
     b \<leftarrow> f32_value beta;
     float_to_u32 (fl32 (fl32 (1 + b) * fl32 (of_nat (unat baud)))) }"

definition sdr_modem_get_bandwidth :: "sdr_modem_settings \<Rightarrow> (int \<times> u32) option" where
  "sdr_modem_get_bandwidth s =
    (if modem_type s = MODEM_TYPE_GFSK then do { g \<leftarrow> get_gfsk (modem s); Some (0, gfsk_bandwidth g) }
     else if modem_type s \<in> {MODEM_TYPE_BPSK, MODEM_TYPE_DPSK, MODEM_TYPE_SDPSK} then do {
       p \<leftarrow> get_psk (modem s);
       bw \<leftarrow> rrc_bandwidth (psk_rrc_beta p) (psk_baud_rate p);
       Some (0, bw) }
     else if modem_type s = MODEM_TYPE_PSK_PM then do {
       p \<leftarrow> get_psk_pm (modem s);
       bw \<leftarrow> rrc_bandwidth (pm_rrc_beta p) (pm_baud_rate p);
       Some (0, 2 * (pm_subcarrier_frequency p + bw)) }
     else Some (- 1, 0))"

definition sdr_modem_get_sample_date :: "sdr_modem_settings \<Rightarrow> (int \<times> u64) option" where
  "sdr_modem_get_sample_date s =
    (if modem_type s = MODEM_TYPE_GFSK then do { g \<leftarrow> get_gfsk (modem s); Some (0, gfsk_sample_rate g) }
     else if modem_type s \<in> {MODEM_TYPE_BPSK, MODEM_TYPE_DPSK, MODEM_TYPE_SDPSK} then do { p \<leftarrow> get_psk (modem s); Some (0, psk_sample_rate p) }
     else if modem_type s = MODEM_TYPE_PSK_PM then do { p \<leftarrow> get_psk_pm (modem s); Some (0, pm_sample_rate p) }
     else Some (- 1, 0))"

section \<open>State\<close>

record ('s, 'm, 'r, 'f) sdr_modem =
  wrapped :: 'm
  halfband :: "('s, 'r) halfband_decim option"
  halfband_tx :: "('s, 'r) halfband_interp option"
  freq_offset :: "'f option"
  debug_freq_offset :: "'s list option"
  debug_baseband :: "'s list option"
  sm_modem_type :: u8
  sm_tx_pending :: bool
  baseband_sample_rate :: u64

text \<open>The functions of the wrapped modem, of the frequency correction and of the resamplers.\<close>

record ('s, 'm, 'r, 'f) dsp =
  w_modulate :: "u8 list \<Rightarrow> 'm \<Rightarrow> 's list option \<times> 'm"
  w_modulate_flush :: "'m \<Rightarrow> 's list option \<times> 'm"
  w_demodulate :: "'s list \<Rightarrow> 'm \<Rightarrow> u8 list option \<times> 'm"
  w_max_modulation :: "'m \<Rightarrow> nat"
  freq_offset_process :: "'s list \<Rightarrow> 'f \<Rightarrow> 's list option \<times> 'f"
  decim_execute :: "'s list \<Rightarrow> 'r \<Rightarrow> 's \<times> 'r"
  interp_execute :: "'s \<Rightarrow> 'r \<Rightarrow> 's list \<times> 'r"
  resampler_reset :: "'r \<Rightarrow> 'r"
  sample_zero :: 's

section \<open>Operations\<close>

definition dump :: "'s list \<Rightarrow> 's list option \<Rightarrow> 's list option" where
  "dump xs file = map_option (\<lambda>f. f @ xs) file"

definition sdr_modem_tx_postprocess ::
  "('s, 'm, 'r, 'f) dsp \<Rightarrow> 's list option \<Rightarrow> ('s, 'm, 'r, 'f) sdr_modem \<Rightarrow> 's list option \<times> ('s, 'm, 'r, 'f) sdr_modem" where
  "sdr_modem_tx_postprocess k samples sm = (case samples of
     None \<Rightarrow> (None, sm)
   | Some xs \<Rightarrow>
       let sm1 = sm\<lparr>debug_freq_offset := dump xs (debug_freq_offset sm)\<rparr> in
       case freq_offset sm1 of
         None \<Rightarrow> (Some xs, sm1)
       | Some fo \<Rightarrow> (case freq_offset_process k xs fo of (r, fo') \<Rightarrow> (r, sm1\<lparr>freq_offset := Some fo'\<rparr>)))"

definition sdr_modem_modulate ::
  "('s, 'm, 'r, 'f) dsp \<Rightarrow> u8 list \<Rightarrow> ('s, 'm, 'r, 'f) sdr_modem \<Rightarrow> ('s list option \<times> ('s, 'm, 'r, 'f) sdr_modem) option" where
  "sdr_modem_modulate k input sm = (case w_modulate k input (wrapped sm) of (samples, m) \<Rightarrow>
     let sm1 = sm\<lparr>wrapped := m\<rparr> in
     case samples of
       None \<Rightarrow> Some (None, sm1)
     | Some xs \<Rightarrow>
         let sm2 = (if length input > 0 then sm1\<lparr>sm_tx_pending := True\<rparr> else sm1) in
         (case halfband_tx sm2 of
            None \<Rightarrow> Some (sdr_modem_tx_postprocess k (Some xs) sm2)
          | Some h \<Rightarrow> do {
              (r, h1) \<leftarrow> halfband_interp_process (interp_execute k) xs h;
              Some (sdr_modem_tx_postprocess k r (sm2\<lparr>halfband_tx := Some h1\<rparr>)) }))"

definition sdr_modem_modulate_flush ::
  "('s, 'm, 'r, 'f) dsp \<Rightarrow> ('s, 'm, 'r, 'f) sdr_modem \<Rightarrow> ('s list option \<times> ('s, 'm, 'r, 'f) sdr_modem) option" where
  "sdr_modem_modulate_flush k sm =
    (if \<not> sm_tx_pending sm then Some (None, sm)
     else case w_modulate_flush k (wrapped sm) of (samples, m) \<Rightarrow>
       let sm1 = sm\<lparr>wrapped := m\<rparr> in
       case samples of
         None \<Rightarrow> Some (None, sm1)
       | Some xs \<Rightarrow> do {
           (r, sm2) \<leftarrow> (case halfband_tx sm1 of
               None \<Rightarrow> Some (Some xs, sm1)
             | Some h \<Rightarrow> do {
                 (r, h1) \<leftarrow> halfband_interp_process_flush (interp_execute k) (sample_zero k) xs h;
                 Some (r, sm1\<lparr>halfband_tx := Some (halfband_interp_reset (resampler_reset k (i_resampler h1)) h1)\<rparr>) });
           (case sdr_modem_tx_postprocess k r sm2 of (r2, sm3) \<Rightarrow> Some (r2, sm3\<lparr>sm_tx_pending := False\<rparr>)) })"

text \<open>A step that answers \<^verbatim>\<open>NULL\<close> leaves a length of 0 to the next one.\<close>

definition or_empty :: "'a list option \<Rightarrow> 'a list" where
  "or_empty r = (case r of None \<Rightarrow> [] | Some xs \<Rightarrow> xs)"

definition sdr_modem_demodulate ::
  "('s, 'm, 'r, 'f) dsp \<Rightarrow> 's list \<Rightarrow> ('s, 'm, 'r, 'f) sdr_modem \<Rightarrow> (u8 list option \<times> ('s, 'm, 'r, 'f) sdr_modem) option" where
  "sdr_modem_demodulate k input sm = do {
     let (xs, sm1) = (case freq_offset sm of
         None \<Rightarrow> (input, sm)
       | Some fo \<Rightarrow> (case freq_offset_process k input fo of (r, fo') \<Rightarrow> (or_empty r, sm\<lparr>freq_offset := Some fo'\<rparr>)));
     let sm2 = sm1\<lparr>debug_freq_offset := dump xs (debug_freq_offset sm1)\<rparr>;
     (ys, sm3) \<leftarrow> (case halfband sm2 of
         None \<Rightarrow> Some (xs, sm2)
       | Some h \<Rightarrow> do {
           (r, h1) \<leftarrow> halfband_decim_process (decim_execute k) xs h;
           Some (or_empty r, sm2\<lparr>halfband := Some h1\<rparr>) });
     let sm4 = sm3\<lparr>debug_baseband := dump ys (debug_baseband sm3)\<rparr>;
     (case w_demodulate k ys (wrapped sm4) of (bits, m) \<Rightarrow> Some (bits, sm4\<lparr>wrapped := m\<rparr>)) }"

definition sdr_modem_max_modulation_buffer_length :: "('s, 'm, 'r, 'f) dsp \<Rightarrow> ('s, 'm, 'r, 'f) sdr_modem option \<Rightarrow> nat" where
  "sdr_modem_max_modulation_buffer_length k p = (case p of
     None \<Rightarrow> 0
   | Some sm \<Rightarrow> (case halfband_tx sm of
       Some h \<Rightarrow> halfband_interp_max_output_buffer_length h
     | None \<Rightarrow> w_max_modulation k (wrapped sm)))"

text \<open>The debug files: the old one is closed, a new one is opened when there is a path.\<close>

definition sdr_modem_reopen_debug_file :: "'s list option \<Rightarrow> string option \<Rightarrow> bool \<Rightarrow> int \<times> 's list option" where
  "sdr_modem_reopen_debug_file file path opened =
    (if path = None then (0, None) else if opened then (0, Some []) else (- 1, None))"

definition sdr_modem_set_debug_freq_offset_file ::
  "string option \<Rightarrow> bool \<Rightarrow> ('s, 'm, 'r, 'f) sdr_modem option \<Rightarrow> int \<times> ('s, 'm, 'r, 'f) sdr_modem option" where
  "sdr_modem_set_debug_freq_offset_file path opened p = (case p of
     None \<Rightarrow> (0, None)
   | Some sm \<Rightarrow> (case sdr_modem_reopen_debug_file (debug_freq_offset sm) path opened of (code, f) \<Rightarrow>
       (code, Some (sm\<lparr>debug_freq_offset := f\<rparr>))))"

definition sdr_modem_set_debug_baseband_file ::
  "string option \<Rightarrow> bool \<Rightarrow> ('s, 'm, 'r, 'f) sdr_modem option \<Rightarrow> int \<times> ('s, 'm, 'r, 'f) sdr_modem option" where
  "sdr_modem_set_debug_baseband_file path opened p = (case p of
     None \<Rightarrow> (0, None)
   | Some sm \<Rightarrow> (case sdr_modem_reopen_debug_file (debug_baseband sm) path opened of (code, f) \<Rightarrow>
       (code, Some (sm\<lparr>debug_baseband := f\<rparr>))))"

text \<open>The other two are passed on; \<open>setter\<close> is the function of the wrapped modem.\<close>

definition sdr_modem_set_debug_constellation_file ::
  "(string option \<Rightarrow> 'm \<Rightarrow> int \<times> 'm) \<Rightarrow> string option \<Rightarrow> ('s, 'm, 'r, 'f) sdr_modem option \<Rightarrow> int \<times> ('s, 'm, 'r, 'f) sdr_modem option" where
  "sdr_modem_set_debug_constellation_file setter path p = (case p of
     None \<Rightarrow> (0, None)
   | Some sm \<Rightarrow>
       if sm_modem_type sm \<in> {MODEM_TYPE_BPSK, MODEM_TYPE_DPSK, MODEM_TYPE_SDPSK, MODEM_TYPE_PSK_PM}
       then (case setter path (wrapped sm) of (code, m) \<Rightarrow> (code, Some (sm\<lparr>wrapped := m\<rparr>)))
       else (0, Some sm))"

definition sdr_modem_set_debug_subcarrier_file ::
  "(string option \<Rightarrow> 'm \<Rightarrow> int \<times> 'm) \<Rightarrow> string option \<Rightarrow> ('s, 'm, 'r, 'f) sdr_modem option \<Rightarrow> int \<times> ('s, 'm, 'r, 'f) sdr_modem option" where
  "sdr_modem_set_debug_subcarrier_file setter path p = (case p of
     None \<Rightarrow> (0, None)
   | Some sm \<Rightarrow>
       if sm_modem_type sm \<noteq> MODEM_TYPE_PSK_PM then (0, Some sm)
       else (case setter path (wrapped sm) of (code, m) \<Rightarrow> (code, Some (sm\<lparr>wrapped := m\<rparr>))))"

section \<open>Construction and destruction\<close>

datatype modem_part = Modem_struct | Modem_wrapped | Modem_halfband | Modem_halfband_tx | Modem_freq_offset | Modem_debug_freq_offset | Modem_debug_baseband

fun modem_users :: "modem_part \<Rightarrow> modem_part set" where
  "modem_users Modem_struct = {Modem_wrapped, Modem_halfband, Modem_halfband_tx, Modem_freq_offset, Modem_debug_freq_offset, Modem_debug_baseband}"
| "modem_users _ = {}"

definition sdr_modem_destroy_order :: "modem_part list" where
  "sdr_modem_destroy_order = [Modem_wrapped, Modem_halfband, Modem_halfband_tx, Modem_freq_offset, Modem_debug_freq_offset, Modem_debug_baseband, Modem_struct]"

definition sdr_modem_destroy :: "modem_part set \<Rightarrow> modem_part set option" where
  "sdr_modem_destroy ps = release_all modem_users sdr_modem_destroy_order ps"

interpretation sdr_modem: component modem_users sdr_modem_destroy_order
proof
  show "ordered modem_users {} sdr_modem_destroy_order" by (simp add: sdr_modem_destroy_order_def)
  show "p \<in> set sdr_modem_destroy_order" for p by (cases p) (simp_all add: sdr_modem_destroy_order_def)
qed

text \<open>The codes that the constructors of the parts answer.\<close>

record modem_env =
  modem_malloc :: bool
  decim_code :: int
  wrapped_code :: int
  interp_code :: int
  freq_offset_code :: int

text \<open>The number of stages, the rate after them and the largest buffer that arrives behind them.\<close>

definition sdr_modem_halfband_decim_create :: "int \<Rightarrow> u32 \<Rightarrow> u64 \<Rightarrow> u32 \<Rightarrow> modem_part step list \<times> u64 \<times> u32" where
  "sdr_modem_halfband_decim_create code bandwidth rate max_len =
    (let n = sdr_modem_estimate_halfband_stages rate bandwidth in
     if n = 0 then ([], rate, max_len)
     else ([(code = 0, code, Some Modem_halfband)], drop_bit n rate, max_len div (2 ^ n) + 1))"

definition sdr_modem_create_steps :: "modem_env \<Rightarrow> sdr_modem_settings \<Rightarrow> u32 \<Rightarrow> bool \<Rightarrow> (modem_part step list \<times> u64) option" where
  "sdr_modem_create_steps e s buffer_size has_freq_offset_file = do {
     (bw_code, bandwidth) \<leftarrow> sdr_modem_get_bandwidth s;
     (rate_code, rate) \<leftarrow> sdr_modem_get_sample_date s;
     let (decim, baseband_rate, _) = sdr_modem_halfband_decim_create (decim_code e) bandwidth rate buffer_size;
     Some ([(bw_code = 0, bw_code, None), (rate_code = 0, rate_code, None)] @ decim @
       [(wrapped_code e = 0, wrapped_code e, Some Modem_wrapped)] @
       (if decim = [] then [] else [(interp_code e = 0, interp_code e, Some Modem_halfband_tx)]) @
       (if has_freq_offset_file then [(freq_offset_code e = 0, freq_offset_code e, Some Modem_freq_offset)] else []), baseband_rate) }"

definition sdr_modem_create :: "modem_env \<Rightarrow> sdr_modem_settings \<Rightarrow> u32 \<Rightarrow> bool \<Rightarrow> (int \<times> modem_part set) option" where
  "sdr_modem_create e s buffer_size has_freq_offset_file =
    (if \<not> modem_malloc e then Some (- ENOMEM, {})
     else do {
       (steps, _) \<leftarrow> sdr_modem_create_steps e s buffer_size has_freq_offset_file;
       construct modem_users sdr_modem_destroy_order steps {Modem_struct} })"

section \<open>Stages\<close>

lemma fl32_near: "x - x / 16777216 \<le> fl32 x" if "0 \<le> x"
  using fl32_error [of x] that unfolding abs_le_iff by linarith

lemma fl32_nat: "n < 2 ^ 24 \<Longrightarrow> fl32 (of_nat n) = of_nat n"
  using fl32_exact [of "int n" 0] by simp

lemma fl32_double_nat: "n < 2 ^ 24 \<Longrightarrow> fl32 (2 * of_nat n) = 2 * of_nat n"
  using fl32_exact [of "int n" 1] by (simp add: mult.commute)

lemma fl32_upper: "fl32 x \<le> x + x / 16777216" if "0 \<le> x"
  using fl32_error [of x] that unfolding abs_le_iff by linarith

text \<open>The required rate, exactly for the bandwidths a \<^verbatim>\<open>float\<close> can hold and up to its rounding error for all others.\<close>

lemma required_rate_bounds:
  shows "of_nat (2 * unat bw) * (1 - 1 / 8388608) \<le> (of_nat (unat (required_rate bw)) :: rat)"
    "unat bw < 2 ^ 24 \<Longrightarrow> unat (required_rate bw) = 2 * unat bw"
proof -
  define b where "b = (of_nat (unat bw) :: rat)"
  define x where "x = fl32 (2 * fl32 b)"
  have "unat bw < 4294967296" using unsigned_less [of bw, where 'a = nat] by simp
  then have b: "0 \<le> b" "b < 4294967296" unfolding b_def by linarith+
  have f1: "b - b / 16777216 \<le> fl32 b" "fl32 b \<le> b + b / 16777216" using fl32_near fl32_upper b(1) by blast+
  have f0: "0 \<le> fl32 b" using f1(1) b(1) by linarith
  then have f2: "2 * fl32 b - 2 * fl32 b / 16777216 \<le> x" "x \<le> 2 * fl32 b + 2 * fl32 b / 16777216"
    using fl32_near [of "2 * fl32 b"] fl32_upper [of "2 * fl32 b"] by (simp_all add: x_def)
  have low: "2 * b * (1 - 1 / 8388608) \<le> x" using f1 f2 b by (simp add: field_simps)
  have high: "x < 2 ^ 34" using f1 f2 b by (simp add: field_simps)
  have r: "0 \<le> \<lceil>x\<rceil>" "\<lceil>x\<rceil> < 2 ^ 64"
  proof -
    have "0 \<le> x" using low b(1) by (simp add: field_simps)
    then show "0 \<le> \<lceil>x\<rceil>" by linarith
    have "\<lceil>x\<rceil> \<le> 2 ^ 34" using high by (simp add: ceiling_le_iff)
    then show "\<lceil>x\<rceil> < 2 ^ 64" by simp
  qed
  then have u: "int (unat (required_rate bw)) = \<lceil>x\<rceil>"
    by (simp add: required_rate_def x_def b_def unsigned_of_int take_bit_int_eq_self nat_less_iff)
  have "of_nat (unat (required_rate bw)) = (of_int \<lceil>x\<rceil> :: rat)" by (simp flip: u)
  moreover have "2 * b * (1 - 1 / 8388608) \<le> of_int \<lceil>x\<rceil>" using low le_of_int_ceiling [of x] by linarith
  ultimately show "of_nat (2 * unat bw) * (1 - 1 / 8388608) \<le> (of_nat (unat (required_rate bw)) :: rat)"
    by (simp add: b_def)
  assume "unat bw < 2 ^ 24"
  then have "x = 2 * b" using fl32_nat [of "unat bw"] fl32_double_nat [of "unat bw"] by (simp only: x_def b_def)
  then have "x = of_int (2 * int (unat bw))" by (simp add: b_def)
  then have "\<lceil>x\<rceil> = 2 * int (unat bw)" by (simp only: ceiling_of_int)
  with u show "unat (required_rate bw) = 2 * unat bw" by linarith
qed

lemma stages_loop_spec:
  "n \<le> 6 \<Longrightarrow> (0 < n \<Longrightarrow> required \<le> drop_bit n rate) \<Longrightarrow>
   stages_loop rate required n \<le> 6 \<and> (0 < stages_loop rate required n \<longrightarrow> required \<le> drop_bit (stages_loop rate required n) rate) \<and>
   (stages_loop rate required n < 6 \<longrightarrow> drop_bit (stages_loop rate required n + 1) rate < required)"
proof (induction rate required n rule: stages_loop.induct)
  case (1 rate required n)
  then show ?case
    by (cases "n < 6 \<and> drop_bit (n + 1) rate \<ge> required") (auto simp: stages_loop.simps [of rate required n])
qed

section \<open>A transmission\<close>

text \<open>The frames of a transmission and the flush at its end, through the modem and through the wrapped modem alone.\<close>

fun sdr_modem_transmit ::
  "('s, 'm, 'r, 'f) dsp \<Rightarrow> u8 list list \<Rightarrow> ('s, 'm, 'r, 'f) sdr_modem \<Rightarrow> ('s list \<times> ('s, 'm, 'r, 'f) sdr_modem) option" where
  "sdr_modem_transmit k [] sm = do { (r, sm1) \<leftarrow> sdr_modem_modulate_flush k sm; Some (or_empty r, sm1) }"
| "sdr_modem_transmit k (f # fs) sm = do {
     (r, sm1) \<leftarrow> sdr_modem_modulate k f sm;
     (xs, sm2) \<leftarrow> sdr_modem_transmit k fs sm1;
     Some (or_empty r @ xs, sm2) }"

fun wrapped_transmit :: "('s, 'm, 'r, 'f) dsp \<Rightarrow> u8 list list \<Rightarrow> 'm \<Rightarrow> ('s list list \<times> 'm) option" where
  "wrapped_transmit k [] m = (case w_modulate_flush k m of (None, _) \<Rightarrow> None | (Some xs, m') \<Rightarrow> Some ([xs], m'))"
| "wrapped_transmit k (f # fs) m = (case w_modulate k f m of
     (None, _) \<Rightarrow> None
   | (Some xs, m1) \<Rightarrow> do { (ys, m2) \<leftarrow> wrapped_transmit k fs m1; Some (xs # ys, m2) })"

text \<open>What goes on the air for the samples of the wrapped modem.\<close>

definition upsampled :: "('s, 'm, 'r, 'f) dsp \<Rightarrow> ('s, 'm, 'r, 'f) sdr_modem \<Rightarrow> 's list \<Rightarrow> 's list" where
  "upsampled k sm xs = (case halfband_tx sm of
     None \<Rightarrow> xs
   | Some h \<Rightarrow> fst (interpolate (interp_execute k) (xs @ replicate (tail_length h) (sample_zero k)) (i_resampler h)))"

definition tx_ready :: "('s, 'm, 'r, 'f) dsp \<Rightarrow> nat \<Rightarrow> ('s, 'm, 'r, 'f) sdr_modem \<Rightarrow> bool" where
  "tx_ready k n sm \<longleftrightarrow> freq_offset sm = None \<and> (case halfband_tx sm of
     None \<Rightarrow> True
   | Some h \<Rightarrow> interp_ok h \<and> (\<forall>x r. length (fst (interp_execute k x r)) = interpolation h) \<and> n \<le> i_max_input_buffer_length h)"

text \<open>What the operations leave alone, and the state of the resampler between two transmissions.\<close>

definition tx_setup :: "('s, 'm, 'r, 'f) sdr_modem \<Rightarrow> (nat \<times> nat \<times> nat) option" where
  "tx_setup sm = map_option (\<lambda>h. (interpolation h, i_max_input_buffer_length h, tail_length h)) (halfband_tx sm)"

definition tx_resampler :: "('s, 'm, 'r, 'f) sdr_modem \<Rightarrow> 'r option" where
  "tx_resampler sm = map_option i_resampler (halfband_tx sm)"

lemma postprocess_plain:
  "freq_offset sm = None \<Longrightarrow> sdr_modem_tx_postprocess k r sm = (r, (case r of None \<Rightarrow> sm | Some xs \<Rightarrow> sm\<lparr>debug_freq_offset := dump xs (debug_freq_offset sm)\<rparr>))"
  by (simp add: sdr_modem_tx_postprocess_def split: option.split)

lemma modulate_step:
  assumes ready: "tx_ready k n sm" and w: "w_modulate k f (wrapped sm) = (Some xs, m)" "length xs \<le> n"
  shows "\<exists>ys sm1. sdr_modem_modulate k f sm = Some (Some ys, sm1) \<and> wrapped sm1 = m \<and> tx_ready k n sm1 \<and>
    sm_tx_pending sm1 = (sm_tx_pending sm \<or> f \<noteq> []) \<and> tx_setup sm1 = tx_setup sm \<and> (\<forall>zs. upsampled k sm (xs @ zs) = ys @ upsampled k sm1 zs)"
proof (cases "halfband_tx sm")
  case None
  with ready w(1) show ?thesis
    by (auto simp: sdr_modem_modulate_def Let_def tx_ready_def postprocess_plain upsampled_def tx_setup_def)
next
  case (Some h)
  note block = ready [unfolded tx_ready_def Some option.case]
  obtain ys rs where ref: "interpolate (interp_execute k) xs (i_resampler h) = (ys, rs)" by fastforce
  have "length xs \<le> i_max_input_buffer_length h" using block w(2) by linarith
  with halfband_interp_step [of "interp_execute k" h xs ys rs] block ref obtain out where
    h: "halfband_interp_process (interp_execute k) xs h = Some (Some ys, h\<lparr>i_resampler := rs, i_output := out\<rparr>)"
      "length out = length (i_output h)" by blast
  define sm2 where "sm2 = (if length f > 0 then sm\<lparr>wrapped := m, sm_tx_pending := True\<rparr> else sm\<lparr>wrapped := m\<rparr>)"
  define sm1 where "sm1 = sm2\<lparr>halfband_tx := Some (h\<lparr>i_resampler := rs, i_output := out\<rparr>), debug_freq_offset := dump ys (debug_freq_offset sm)\<rparr>"
  have s2: "halfband_tx sm2 = Some h" "freq_offset sm2 = None" "debug_freq_offset sm2 = debug_freq_offset sm" "wrapped sm2 = m"
    "sm_tx_pending sm2 = (sm_tx_pending sm \<or> f \<noteq> [])" using Some block by (auto simp: sm2_def)
  have "sdr_modem_modulate k f sm = Some (Some ys, sm1)"
    using w(1) h(1) Some block by (cases f) (simp_all add: sdr_modem_modulate_def Let_def postprocess_plain sm1_def sm2_def)
  moreover have "tx_ready k n sm1" using block h(2) s2 by (simp add: tx_ready_def sm1_def interp_ok_def)
  moreover have "upsampled k sm (xs @ zs) = ys @ upsampled k sm1 zs" for zs
    using Some ref interpolate_append [of "interp_execute k" xs "zs @ replicate (tail_length h) (sample_zero k)" "i_resampler h"]
    by (simp add: upsampled_def sm1_def split: prod.splits)
  ultimately show ?thesis using s2 Some by (intro exI [of _ ys] exI [of _ sm1]) (simp add: sm1_def tx_setup_def)
qed

lemma flush_step:
  assumes ready: "tx_ready k n sm" and w: "w_modulate_flush k (wrapped sm) = (Some xs, m)" "length xs \<le> n" and pend: "sm_tx_pending sm"
  shows "\<exists>sm1. sdr_modem_modulate_flush k sm = Some (Some (upsampled k sm xs), sm1) \<and> wrapped sm1 = m \<and> \<not> sm_tx_pending sm1 \<and>
    tx_ready k n sm1 \<and> tx_setup sm1 = tx_setup sm \<and> (\<forall>r \<in> set_option (tx_resampler sm1). \<exists>r0. r = resampler_reset k r0)"
proof (cases "halfband_tx sm")
  case None
  with ready w(1) pend show ?thesis
    by (auto simp: sdr_modem_modulate_flush_def Let_def tx_ready_def postprocess_plain upsampled_def tx_setup_def tx_resampler_def)
next
  case (Some h)
  note block = ready [unfolded tx_ready_def Some option.case]
  obtain ys rs where ref: "interpolate (interp_execute k) (xs @ replicate (tail_length h) (sample_zero k)) (i_resampler h) = (ys, rs)" by fastforce
  have "length xs \<le> i_max_input_buffer_length h" using block w(2) by linarith
  with halfband_interp_flush_step [of "interp_execute k" h xs "sample_zero k" ys rs] block ref obtain out where
    "halfband_interp_process_flush (interp_execute k) (sample_zero k) xs h = Some (Some ys, h\<lparr>i_resampler := rs, i_output := out\<rparr>)"
    "length out = length (i_output h)" by blast
  with w(1) Some pend block ref show ?thesis
    by (auto simp: sdr_modem_modulate_flush_def Let_def postprocess_plain upsampled_def tx_ready_def tx_setup_def tx_resampler_def
        halfband_interp_reset_def interp_ok_def)
qed

lemma sdr_modem_transmit_spec:
  "tx_ready k n sm \<Longrightarrow> wrapped_transmit k fs (wrapped sm) = Some (outs, m) \<Longrightarrow> \<forall>xs \<in> set outs. length xs \<le> n \<Longrightarrow>
   sm_tx_pending sm \<or> (\<exists>f \<in> set fs. f \<noteq> []) \<Longrightarrow>
   \<exists>sm1. sdr_modem_transmit k fs sm = Some (upsampled k sm (concat outs), sm1) \<and> wrapped sm1 = m \<and> \<not> sm_tx_pending sm1 \<and>
     tx_ready k n sm1 \<and> tx_setup sm1 = tx_setup sm \<and> (\<forall>r \<in> set_option (tx_resampler sm1). \<exists>r0. r = resampler_reset k r0)"
proof (induction fs arbitrary: sm outs)
  case Nil
  then obtain xs where "w_modulate_flush k (wrapped sm) = (Some xs, m)" "outs = [xs]" by (auto split: prod.splits option.splits)
  with flush_step [OF Nil.prems(1), of xs m] Nil.prems show ?case by (auto simp: or_empty_def)
next
  case (Cons f fs)
  obtain xs m1 outs' where w: "w_modulate k f (wrapped sm) = (Some xs, m1)" "wrapped_transmit k fs m1 = Some (outs', m)" "outs = xs # outs'"
    using Cons.prems(2) by (auto split: prod.splits option.splits bind_splits)
  from modulate_step [OF Cons.prems(1) w(1)] Cons.prems(3) w(3) obtain ys sm1 where
    s: "sdr_modem_modulate k f sm = Some (Some ys, sm1)" "wrapped sm1 = m1" "tx_ready k n sm1"
      "sm_tx_pending sm1 = (sm_tx_pending sm \<or> f \<noteq> [])" "upsampled k sm (xs @ concat outs') = ys @ upsampled k sm1 (concat outs')"
      "tx_setup sm1 = tx_setup sm" by auto
  have "\<exists>sm2. sdr_modem_transmit k fs sm1 = Some (upsampled k sm1 (concat outs'), sm2) \<and> wrapped sm2 = m \<and> \<not> sm_tx_pending sm2 \<and>
     tx_ready k n sm2 \<and> tx_setup sm2 = tx_setup sm1 \<and> (\<forall>r \<in> set_option (tx_resampler sm2). \<exists>r0. r = resampler_reset k r0)"
    using Cons.prems s(2-4) w by (intro Cons.IH) auto
  with s(1,5,6) w(3) show ?case by (auto simp: or_empty_def)
qed

text \<open>The stages that are chosen, as an arithmetic fact.\<close>

lemma unat_drop_bit: "unat (drop_bit k w) = unat w div 2 ^ k"
  for w :: u64
  using unsigned_less [of w, where 'a = nat] by (simp only: unsigned_drop_bit_eq) (simp add: drop_bit_eq_div take_bit_nat_eq_self)

lemma estimate_stages:
  fixes rate :: u64
  assumes "bandwidth \<noteq> 0" and n: "n = sdr_modem_estimate_halfband_stages rate bandwidth"
  shows "n \<le> 6" "0 < n \<Longrightarrow> unat (required_rate bandwidth) \<le> unat rate div 2 ^ n"
    "n < 6 \<Longrightarrow> unat rate div 2 ^ (n + 1) < unat (required_rate bandwidth)"
proof -
  have loop: "n = stages_loop rate (required_rate bandwidth) 0" using assms by (simp add: sdr_modem_estimate_halfband_stages_def)
  note spec = stages_loop_spec [of 0 "required_rate bandwidth" rate, folded loop]
  show "n \<le> 6" "0 < n \<Longrightarrow> unat (required_rate bandwidth) \<le> unat rate div 2 ^ n"
    "n < 6 \<Longrightarrow> unat rate div 2 ^ (n + 1) < unat (required_rate bandwidth)"
    using spec unfolding word_le_nat_alt word_less_nat_alt unat_drop_bit by simp_all
qed

text \<open>Creation is all or nothing: a modem with the parts its settings ask for, or an error code and nothing left behind.\<close>

lemma sdr_modem_create_outcome:
  assumes "sdr_modem_create_steps e s n has_file = Some (steps, baseband_rate)"
  shows "\<exists>code ps. sdr_modem_create e s n has_file = Some (code, ps) \<and>
    (if code = 0 then modem_malloc e \<and> list_all fst steps \<and> ps = {Modem_struct} \<union> parts_of steps else ps = {})"
proof -
  have "list_all (\<lambda>st. fst st \<or> fst (snd st) \<noteq> 0) steps"
    using assms by (auto simp: sdr_modem_create_steps_def sdr_modem_halfband_decim_create_def Let_def split: bind_splits if_splits prod.splits)
  from sdr_modem.construct_outcome [OF this, of "{Modem_struct}"] obtain code ps where
    "construct modem_users sdr_modem_destroy_order steps {Modem_struct} = Some (code, ps)"
    "if code = 0 then list_all fst steps \<and> ps = {Modem_struct} \<union> parts_of steps else \<not> list_all fst steps \<and> ps = {}" by blast
  with assms show ?thesis by (cases "modem_malloc e") (auto simp: sdr_modem_create_def split: if_splits)
qed

section \<open>Properties\<close>


lemma estimate_example: "sdr_modem_estimate_halfband_stages 2400000 20000 = 5"
proof -
  have "unat (required_rate 20000) = unat (40000 :: u64)" using required_rate_bounds(2) [of 20000] by simp
  then have r: "required_rate 20000 = 40000" by (simp only: word_unat_eq_iff)
  show ?thesis
    by (simp add: sdr_modem_estimate_halfband_stages_def r stages_loop.simps [of _ _ 0] stages_loop.simps [of _ _ "Suc _"]
        word_le_nat_alt unat_drop_bit)
qed


text \<open>
  A transmission through the modem is seamless: when the frames of a transmission are modulated one
  after the other and flushed at the end, with no frequency correction, every buffer of the half-band
  interpolator suffices, and what goes to the device is the output of the wrapped modem for the same
  frames, resampled as one uninterrupted signal followed by the zeroes that push the tail of the filter
  out. The modem is idle afterwards.
\<close>

theorem sdr_modem_transmission_seamless:
  assumes "tx_ready k n sm" "wrapped_transmit k fs (wrapped sm) = Some (outs, m)" "\<forall>xs \<in> set outs. length xs \<le> n"
    "sm_tx_pending sm \<or> (\<exists>f \<in> set fs. f \<noteq> [])"
  shows "\<exists>sm1. sdr_modem_transmit k fs sm = Some (upsampled k sm (concat outs), sm1) \<and> wrapped sm1 = m \<and> \<not> sm_tx_pending sm1"
  using sdr_modem_transmit_spec [OF assms] by blast

definition example_dsp :: "(nat, unit, nat, unit) dsp" where
  "example_dsp = \<lparr>w_modulate = (\<lambda>f m. (Some (map unat f), m)), w_modulate_flush = (\<lambda>m. (Some [7], m)), w_demodulate = (\<lambda>xs m. (None, m)),
     w_max_modulation = (\<lambda>m. 4), freq_offset_process = (\<lambda>xs f. (Some xs, f)), decim_execute = (\<lambda>xs r. (sum_list xs, r)),
     interp_execute = (\<lambda>x r. ([x, r], x)), resampler_reset = (\<lambda>r. 0), sample_zero = 0\<rparr>"

definition example_modem :: "(nat, unit, nat, unit) sdr_modem" where
  "example_modem = \<lparr>wrapped = (), halfband = None, halfband_tx = Some (halfband_interp_new 0 1 1 4 0), freq_offset = None,
     debug_freq_offset = None, debug_baseband = None, sm_modem_type = MODEM_TYPE_GFSK, sm_tx_pending = False, baseband_sample_rate = 9600\<rparr>"

theorem sdr_modem_transmission_seamless_witness:
  "\<exists>sm1. sdr_modem_transmit example_dsp [[1, 2], [3]] example_modem = Some ([1, 0, 2, 1, 3, 2, 7, 3, 0, 7], sm1) \<and> \<not> sm_tx_pending sm1"
proof -
  have "tx_ready example_dsp 4 example_modem"
    by (simp add: tx_ready_def example_dsp_def example_modem_def halfband_interp_new_def interp_ok_def Let_def)
  moreover have "wrapped_transmit example_dsp [[1, 2], [3]] (wrapped example_modem) = Some ([[1, 2], [3], [7]], ())"
    by (simp add: example_dsp_def)
  ultimately show ?thesis
    using sdr_modem_transmission_seamless [of example_dsp 4 example_modem "[[1, 2], [3]]" "[[1, 2], [3], [7]]" "()"]
    by (auto simp: upsampled_def example_modem_def example_dsp_def halfband_interp_new_def Let_def)
qed

end
