(* ===== verification/Transmitter.thy ===== *)
theory Transmitter
  imports SdrModem
begin

text \<open>
  What the modems of the program share. The objects of liquid-dsp and the functions of the mathematical
  library they use are a parameter, a record of functions on the states \<open>'l\<close> of those objects. The
  locale states the contract of a modem that transmits: frames are modulated as a stream, a flush
  ends the transmission and leaves the modem as new. From it follows, once for all modems, that
  transmissions are complete and independent of each other, also through \<^verbatim>\<open>sdr_modem.c\<close>.
\<close>

section \<open>The libraries\<close>

record 'l liquid =
  msresamp_execute :: "sample list \<Rightarrow> 'l \<Rightarrow> sample list \<times> 'l"
  msresamp_reset :: "'l \<Rightarrow> 'l"
  firfilt_execute_block :: "sample list \<Rightarrow> 'l \<Rightarrow> sample list \<times> 'l"
  agc_execute_block :: "sample list \<Rightarrow> 'l \<Rightarrow> sample list \<times> 'l"
  symsync_execute :: "sample list \<Rightarrow> 'l \<Rightarrow> sample list \<times> 'l"
  nco_mix_down :: "sample \<Rightarrow> 'l \<Rightarrow> sample"
  nco_pll_step :: "rat \<Rightarrow> 'l \<Rightarrow> 'l"
  nco_step :: "'l \<Rightarrow> 'l"
  nco_cos :: "'l \<Rightarrow> rat"
  nco_set_phase :: "rat \<Rightarrow> 'l \<Rightarrow> 'l"
  modemcf_modulate :: "bool \<Rightarrow> 'l \<Rightarrow> sample \<times> 'l"
  modemcf_demodulate_soft :: "sample \<Rightarrow> 'l \<Rightarrow> u8 \<times> 'l"
  modemcf_reset :: "'l \<Rightarrow> 'l"
  firinterp_execute :: "sample \<Rightarrow> 'l \<Rightarrow> sample list \<times> 'l"
  firinterp_reset :: "'l \<Rightarrow> 'l"
  cpfskmod_modulate :: "bool \<Rightarrow> 'l \<Rightarrow> sample list \<times> 'l"
  cpfskmod_reset :: "'l \<Rightarrow> 'l"
  freqdem_demodulate_block :: "sample list \<Rightarrow> 'l \<Rightarrow> rat list \<times> 'l"
  firfilt_rrrf_execute_block :: "rat list \<Rightarrow> 'l \<Rightarrow> rat list \<times> 'l"
  symsync_rrrf_execute :: "rat \<Rightarrow> 'l \<Rightarrow> rat list \<times> 'l"
  symsync_rrrf_set_output_rate :: "'l \<Rightarrow> 'l"
  cargf :: "sample \<Rightarrow> rat"
  atan2f :: "rat \<Rightarrow> rat \<Rightarrow> rat"
  cosf :: "rat \<Rightarrow> rat"
  sinf :: "rat \<Rightarrow> rat"

text \<open>A library with trivial filters, for examples: its states count what was executed since the last reset.\<close>

definition example_liquid :: "nat liquid" where
  "example_liquid = \<lparr>msresamp_execute = (\<lambda>xs l. ([], l)), msresamp_reset = (\<lambda>l. 0), firfilt_execute_block = (\<lambda>xs l. (xs, l)),
     agc_execute_block = (\<lambda>xs l. (xs, l)), symsync_execute = (\<lambda>xs l. (xs, l)), nco_mix_down = (\<lambda>x l. x), nco_pll_step = (\<lambda>e l. l), nco_step = Suc,
     nco_cos = (\<lambda>l. 1), nco_set_phase = (\<lambda>p l. 0), modemcf_modulate = (\<lambda>b l. ((if b then - 1 else 1, 0), l)), modemcf_demodulate_soft = (\<lambda>x l. (0, l)),
     modemcf_reset = (\<lambda>l. 0), firinterp_execute = (\<lambda>x l. ([x, (of_nat l, 0)], Suc l)), firinterp_reset = (\<lambda>l. 0),
     cpfskmod_modulate = (\<lambda>b l. ([(if b then 1 else - 1, 0), (of_nat l, 0)], Suc l)), cpfskmod_reset = (\<lambda>l. 0),
     freqdem_demodulate_block = (\<lambda>xs l. (map fst xs, l)), firfilt_rrrf_execute_block = (\<lambda>xs l. (xs, l)),
     symsync_rrrf_execute = (\<lambda>x l. (if even l then [x] else [], Suc l)), symsync_rrrf_set_output_rate = id,
     cargf = fst, atan2f = (\<lambda>y x. y), cosf = (\<lambda>x. 1), sinf = id\<rparr>"

section \<open>Common parts of the modulators\<close>

text \<open>The bits of a frame, the highest one first.\<close>

definition bits_of :: "u8 list \<Rightarrow> bool list" where
  "bits_of input = concat (map (\<lambda>b. map (\<lambda>j. bit b (7 - j)) [0..<8]) input)"

lemma length_bits_of [simp]: "length (bits_of input) = 8 * length input"
  by (induction input) (simp_all add: bits_of_def)

text \<open>
  \<^verbatim>\<open>bpsk_modem_resample_tx\<close> and \<^verbatim>\<open>gfsk_modem_resample_tx\<close>: the first \<open>len\<close> samples of the buffer, through the
  resampler when there is one, which writes into a buffer of \<open>out_len\<close> samples. Its argument is a 32-bit length.
\<close>

definition resample_tx :: "'l liquid \<Rightarrow> nat \<Rightarrow> nat \<Rightarrow> sample list \<Rightarrow> 'l option \<Rightarrow> (sample list \<times> 'l option) option" where
  "resample_tx k out_len len buf r = (case r of
     None \<Rightarrow> Some (take len buf, None)
   | Some rs \<Rightarrow> (case msresamp_execute k (take (len mod 2 ^ 32) buf) rs of (ys, rs1) \<Rightarrow>
       if length ys \<le> out_len then Some (ys, Some rs1) else None))"

text \<open>The same on a list of samples, without buffers.\<close>

definition resampled :: "'l liquid \<Rightarrow> sample list \<Rightarrow> 'l option \<Rightarrow> sample list \<times> 'l option" where
  "resampled k xs r = (case r of None \<Rightarrow> (xs, None) | Some rs \<Rightarrow> (case msresamp_execute k xs rs of (ys, rs1) \<Rightarrow> (ys, Some rs1)))"

lemma resample_tx_resampled:
  assumes "len < 2 ^ 32" "resampled k (take len buf) r = (ys, r1)" "r \<noteq> None \<Longrightarrow> length ys \<le> out_len"
  shows "resample_tx k out_len len buf r = Some (ys, r1)" "r1 = None \<longleftrightarrow> r = None"
  using assms by (auto simp: resample_tx_def resampled_def split: option.splits prod.splits)

text \<open>
  One buffer of a modulator: blocks for some symbols, then some more samples, then the resampler. Within
  the sizes everything fits, and the result is what the functions on lists say.
\<close>

lemma modulated_buffer:
  assumes block: "\<And>x st. length (fst (exec x st)) = sps" and buf: "length buf = room" "room < 2 ^ 32" "length xs * sps + length zs \<le> room"
    and ys: "interpolate exec xs st = (ys, st1)" and r: "resampled k (ys @ zs) r = (out, r1)"
    and margin: "\<forall>xs l. length xs \<le> room \<longrightarrow> length (fst (msresamp_execute k xs l)) \<le> out_len"
  shows "\<exists>buf1 buf2. interp_loop exec sps 0 xs buf st = Some (buf1, st1) \<and> memcpy buf1 (length xs * sps) zs (length zs) = Some buf2 \<and> length buf2 = room \<and>
    resample_tx k out_len (length xs * sps + length zs) buf2 r = Some (out, r1) \<and> length out \<le> (if r = None then room else out_len) \<and> (r1 = None \<longleftrightarrow> r = None)"
proof -
  let ?n = "length xs * sps" and ?m = "length xs * sps + length zs"
  from interp_loop_interpolate [of exec sps, OF block, of 0 xs buf st ys st1] buf ys
  have l: "length ys = ?n" "interp_loop exec sps 0 xs buf st = Some (ys @ drop ?n buf, st1)" by simp_all
  let ?buf = "ys @ zs @ drop ?m buf"
  have "memcpy (ys @ drop ?n buf) ?n zs (length zs) = Some ?buf" using l(1) buf by (simp add: memcpy_def add.commute)
  moreover have "length ?buf = room" using l(1) buf by simp
  moreover have t: "take ?m ?buf = ys @ zs" using l(1) by simp
  moreover have len: "length (ys @ zs) \<le> room" using l(1) buf by simp
  have o: "length out \<le> out_len" if "r \<noteq> None"
    using that r margin [rule_format, OF len] by (auto simp: resampled_def split: prod.splits) (metis fst_conv)
  have "?m < 2 ^ 32" using buf by simp
  from resample_tx_resampled [OF this, of k ?buf r out r1 out_len] r t o
  have "resample_tx k out_len ?m ?buf r = Some (out, r1)" "r1 = None \<longleftrightarrow> r = None" by simp_all
  moreover have "length out \<le> (if r = None then room else out_len)" using o r len by (auto simp: resampled_def)
  ultimately show ?thesis using l(2) by (intro exI conjI) auto
qed

lemma memcpy_nothing [simp]: "n \<le> length buf \<Longrightarrow> memcpy buf n [] 0 = Some buf"
  by (simp add: memcpy_def)

lemma interpolate_reset:
  "\<forall>x l. reset (snd (exec x l)) = reset l \<Longrightarrow> interpolate exec xs l = (ys, l1) \<Longrightarrow> reset l1 = reset l"
  by (induction xs arbitrary: l ys) (auto split: prod.splits, metis snd_conv)

lemma resampled_reset:
  "\<forall>x l. msresamp_reset k (snd (msresamp_execute k x l)) = msresamp_reset k l \<Longrightarrow> resampled k xs r = (ys, r1) \<Longrightarrow>
   map_option (msresamp_reset k) r1 = map_option (msresamp_reset k) r"
  by (auto simp: resampled_def split: option.splits prod.splits) (metis snd_conv)

section \<open>The contract of a transmitting modem\<close>

text \<open>
  \<open>core\<close> is what later samples depend on; \<open>step\<close> says which samples a frame becomes and \<open>final\<close> which ones the flush adds.
\<close>

fun transmission :: "(u8 list \<Rightarrow> 'c \<Rightarrow> 's list \<times> 'c) \<Rightarrow> ('c \<Rightarrow> 's list) \<Rightarrow> u8 list list \<Rightarrow> 'c \<Rightarrow> 's list list" where
  "transmission step final [] c = [final c]"
| "transmission step final (f # fs) c = (case step f c of (xs, c1) \<Rightarrow> xs # transmission step final fs c1)"

text \<open>The function of the wrapped modem as a pointer; under the contract it is never undefined.\<close>

definition as_pointer :: "('m \<Rightarrow> ('o option \<times> 'm) option) \<Rightarrow> 'm \<Rightarrow> 'o option \<times> 'm" where
  "as_pointer f m = (case f m of None \<Rightarrow> (None, m) | Some r \<Rightarrow> r)"

text \<open>Several transmissions in a row, each a list of frames.\<close>

fun sdr_modem_transmissions ::
  "('s, 'm, 'r, 'f) dsp \<Rightarrow> u8 list list list \<Rightarrow> ('s, 'm, 'r, 'f) sdr_modem \<Rightarrow> ('s list list \<times> ('s, 'm, 'r, 'f) sdr_modem) option" where
  "sdr_modem_transmissions k [] sm = Some ([], sm)"
| "sdr_modem_transmissions k (t # ts) sm = do {
     (xs, sm1) \<leftarrow> sdr_modem_transmit k t sm;
     (ys, sm2) \<leftarrow> sdr_modem_transmissions k ts sm1;
     Some (xs # ys, sm2) }"

lemma upsampled_idle:
  assumes "tx_setup sm1 = tx_setup sm" "\<forall>r \<in> set_option (tx_resampler sm1). r = r0" "\<forall>r \<in> set_option (tx_resampler sm). r = r0"
  shows "upsampled k sm1 xs = upsampled k sm xs"
  using assms by (auto simp: upsampled_def tx_setup_def tx_resampler_def split: option.splits)

locale transmitter =
  fixes modulate :: "u8 list \<Rightarrow> 'm \<Rightarrow> ('s list option \<times> 'm) option"
    and flush :: "'m \<Rightarrow> ('s list option \<times> 'm) option"
    and ok :: "'m \<Rightarrow> bool"
    and core :: "'m \<Rightarrow> 'c"
    and step :: "u8 list \<Rightarrow> 'c \<Rightarrow> 's list \<times> 'c"
    and final :: "'c \<Rightarrow> 's list"
    and fresh :: 'c
    and max_frame :: nat
    and limit :: nat
  assumes modulate_step: "ok m \<Longrightarrow> length f \<le> max_frame \<Longrightarrow> step f (core m) = (xs, c) \<Longrightarrow>
      \<exists>m1. modulate f m = Some (Some xs, m1) \<and> ok m1 \<and> core m1 = c \<and> length xs \<le> limit"
    and modulate_oversize: "ok m \<Longrightarrow> max_frame < length f \<Longrightarrow> modulate f m = Some (None, m)"
    and flush_step: "ok m \<Longrightarrow> \<exists>m1. flush m = Some (Some (final (core m)), m1) \<and> ok m1 \<and> core m1 = fresh \<and> length (final (core m)) \<le> limit"
begin

lemma transmitted:
  assumes "w_modulate k = (\<lambda>f. as_pointer (modulate f))" "w_modulate_flush k = as_pointer flush"
  shows "ok m \<Longrightarrow> \<forall>f \<in> set fs. length f \<le> max_frame \<Longrightarrow>
    \<exists>m1. wrapped_transmit k fs m = Some (transmission step final fs (core m), m1) \<and> ok m1 \<and> core m1 = fresh \<and>
      (\<forall>xs \<in> set (transmission step final fs (core m)). length xs \<le> limit)"
proof (induction fs arbitrary: m)
  case Nil
  from flush_step [OF Nil.prems(1)] obtain m1 where
    "flush m = Some (Some (final (core m)), m1)" "ok m1" "core m1 = fresh" "length (final (core m)) \<le> limit" by blast
  with assms(2) show ?case by (simp add: as_pointer_def)
next
  case (Cons f fs)
  obtain xs c where st: "step f (core m) = (xs, c)" by fastforce
  with modulate_step [OF Cons.prems(1) _ st] Cons.prems(2) obtain m1 where
    m1: "modulate f m = Some (Some xs, m1)" "ok m1" "core m1 = c" "length xs \<le> limit" by auto
  from Cons.IH [OF m1(2)] Cons.prems(2) obtain m2 where
    "wrapped_transmit k fs m1 = Some (transmission step final fs (core m1), m2)" "ok m2" "core m2 = fresh"
    "\<forall>xs \<in> set (transmission step final fs (core m1)). length xs \<le> limit" by auto
  with assms(1) st m1 show ?case by (simp add: as_pointer_def)
qed

text \<open>
  Through \<^verbatim>\<open>sdr_modem.c\<close>: every transmission comes out complete and as if it were the first one, when
  the reset of the resampler leads to its initial state \<open>r0\<close>.
\<close>

lemma sdr_modem_transmissions_fresh:
  assumes k: "w_modulate k = (\<lambda>f. as_pointer (modulate f))" "w_modulate_flush k = as_pointer flush" and reset: "\<And>r. resampler_reset k r = r0"
  shows "ok (wrapped sm) \<Longrightarrow> core (wrapped sm) = fresh \<Longrightarrow> tx_ready k limit sm \<Longrightarrow> \<forall>r \<in> set_option (tx_resampler sm). r = r0 \<Longrightarrow>
    \<forall>t \<in> set ts. (\<forall>f \<in> set t. length f \<le> max_frame) \<and> (\<exists>f \<in> set t. f \<noteq> []) \<Longrightarrow>
    \<exists>sm1. sdr_modem_transmissions k ts sm = Some (map (\<lambda>t. upsampled k sm (concat (transmission step final t fresh))) ts, sm1) \<and>
      ok (wrapped sm1) \<and> core (wrapped sm1) = fresh"
proof (induction ts arbitrary: sm)
  case (Cons t ts)
  from transmitted [OF k, of "wrapped sm" t] Cons.prems(1,2,5) obtain m1 where
    m1: "wrapped_transmit k t (wrapped sm) = Some (transmission step final t fresh, m1)" "ok m1" "core m1 = fresh"
      "\<forall>xs \<in> set (transmission step final t fresh). length xs \<le> limit" by auto
  from sdr_modem_transmit_spec [OF Cons.prems(3) m1(1,4)] Cons.prems(5) obtain sm1 where
    sm1: "sdr_modem_transmit k t sm = Some (upsampled k sm (concat (transmission step final t fresh)), sm1)" "wrapped sm1 = m1"
      "tx_ready k limit sm1" "tx_setup sm1 = tx_setup sm" "\<forall>r \<in> set_option (tx_resampler sm1). r = r0"
    unfolding reset by auto
  from Cons.IH [of sm1] sm1 m1 Cons.prems(5) obtain sm2 where
    "sdr_modem_transmissions k ts sm1 = Some (map (\<lambda>t. upsampled k sm1 (concat (transmission step final t fresh))) ts, sm2)"
    "ok (wrapped sm2)" "core (wrapped sm2) = fresh" by auto
  moreover have "upsampled k sm1 xs = upsampled k sm xs" for xs
    using sm1(4,5) Cons.prems(4) by (rule upsampled_idle)
  ultimately show ?case using sm1(1) by simp
qed simp

end

end
