(* ===== verification/BpskModem.thy ===== *)
theory BpskModem
  imports Transmitter
begin

text \<open>
  The PSK modem, \<^verbatim>\<open>src/dsp/bpsk_modem.c\<close>: BPSK, DPSK and symmetric differential PSK. The filters, the
  synchronisation and the constellations of liquid-dsp are parameters; the program's own work is here:
  the choice of the internal rate, the chain of buffers, the differential symbols, the soft bits, the
  tail of a transmission. A buffer that a call fills before it reads it is represented by its
  length, what is written into it has to fit.
\<close>

abbreviation (input) BPSK_MODEM_TARGET_SPS :: nat where "BPSK_MODEM_TARGET_SPS \<equiv> 15"
abbreviation (input) BPSK_MODEM_RESAMPLER_OUTPUT_MARGIN :: nat where "BPSK_MODEM_RESAMPLER_OUTPUT_MARGIN \<equiv> 16"

section \<open>State\<close>

record 'l bpsk_modem =
  samples_per_symbol :: nat
  b_max_input_buffer_length :: nat
  b_resampler_rx :: "'l option"
  b_resampler_rx_output_len :: nat
  lowpass_filter :: "'l option"
  lowpass_output_len :: nat
  rx_agc :: 'l
  agc_output_len :: nat
  b_symbol_sync :: 'l
  symsync_output_len :: nat
  costas :: 'l
  b_type :: u8
  b_mod :: "'l option"
  bit_output_len :: nat
  b_max_modulation_input_bits :: nat
  b_max_modulation_buffer_length :: nat
  b_modulation_output :: "sample list"
  interp :: 'l
  b_resampler_tx :: "'l option"
  b_resampler_tx_output_len :: nat
  b_resampler_tx_flush_len :: nat
  tx_tail_symbols :: nat
  b_tx_pending :: bool
  tx_prev_symbol :: sample
  rx_prev_symbol :: sample
  debug_constellation_file :: "sample list option"
  debug_constellation_len :: "nat option"

section \<open>Receiving\<close>

text \<open>The phase error that drives the carrier recovery.\<close>

definition costas_error :: "'l liquid \<Rightarrow> u8 \<Rightarrow> sample \<Rightarrow> rat" where
  "costas_error k t mixed =
    (if t = SDPSK then let squared = c_mul mixed mixed; fourth = c_mul squared squared in fl32 (cargf k fourth / 4)
     else fl32 (cargf k (c_mul mixed mixed) / 2))"

text \<open>The soft bit of the symmetric differential detector, and the one of liquid-dsp moved to the signed range.\<close>

definition sdpsk_soft :: "sample \<Rightarrow> sample \<Rightarrow> u8" where
  "sdpsk_soft prev mixed = (let diff = c_mul mixed (c_conj prev); soft = fl32 (snd diff * 127) in
     of_int (trunc (if soft > 127 then 127 else if soft < - 127 then - 127 else soft)))"

definition centred :: "u8 \<Rightarrow> u8" where
  "centred soft_bit = of_int (int (unat soft_bit) - 128)"

text \<open>
  One recovered symbol: the carrier is removed, the loop corrected, the bit decided. The result is the
  soft bit and the point of the constellation.
\<close>

definition bpsk_demodulate_symbol :: "'l liquid \<Rightarrow> sample \<Rightarrow> 'l bpsk_modem \<Rightarrow> (u8 \<times> sample \<times> 'l bpsk_modem) option" where
  "bpsk_demodulate_symbol k x d = (
     let mixed = nco_mix_down k x (costas d);
         d1 = d\<lparr>costas := nco_step k (nco_pll_step k (costas_error k (b_type d) mixed) (costas d))\<rparr>
     in if b_type d = SDPSK then Some (sdpsk_soft (rx_prev_symbol d) mixed, mixed, d1\<lparr>rx_prev_symbol := mixed\<rparr>)
        else do {
          m \<leftarrow> b_mod d1;
          let (soft_bit, m1) = modemcf_demodulate_soft k mixed m;
          Some (centred soft_bit, mixed, d1\<lparr>b_mod := Some m1\<rparr>) })"

fun bpsk_demodulate_loop :: "'l liquid \<Rightarrow> nat \<Rightarrow> sample list \<Rightarrow> 'l bpsk_modem \<Rightarrow> (u8 list \<times> sample list \<times> 'l bpsk_modem) option" where
  "bpsk_demodulate_loop k i [] d = Some ([], [], d)"
| "bpsk_demodulate_loop k i (x # xs) d = do {
     (b, p, d1) \<leftarrow> bpsk_demodulate_symbol k x d;
     (if i < bit_output_len d \<and> (\<forall>n \<in> set_option (debug_constellation_len d). i < n) then do {
        (bs, ps, d2) \<leftarrow> bpsk_demodulate_loop k (Suc i) xs d1;
        Some (b # bs, p # ps, d2) }
      else None) }"

text \<open>A stage that writes its result into a buffer of the given length.\<close>

definition into :: "nat \<Rightarrow> 'a list \<Rightarrow> 'a list option" where
  "into n xs = (if length xs \<le> n then Some xs else None)"

definition bpsk_modem_demodulate :: "'l liquid \<Rightarrow> sample list \<Rightarrow> 'l bpsk_modem \<Rightarrow> (u8 list option \<times> 'l bpsk_modem) option" where
  "bpsk_modem_demodulate k input d =
    (if length input > b_max_input_buffer_length d then Some (None, d)
     else do {
       (xs, d1) \<leftarrow> (case b_resampler_rx d of
           None \<Rightarrow> Some (input, d)
         | Some r \<Rightarrow> (case msresamp_execute k input r of (ys, r1) \<Rightarrow> do {
             ys1 \<leftarrow> into (b_resampler_rx_output_len d) ys;
             Some (ys1, d\<lparr>b_resampler_rx := Some r1\<rparr>) }));
       (xs2, d2) \<leftarrow> (case lowpass_filter d1 of
           None \<Rightarrow> Some (xs, d1)
         | Some f \<Rightarrow> (case firfilt_execute_block k xs f of (ys, f1) \<Rightarrow> do {
             ys1 \<leftarrow> into (lowpass_output_len d1) ys;
             Some (ys1, d1\<lparr>lowpass_filter := Some f1\<rparr>) }));
       let (ys3, a) = agc_execute_block k xs2 (rx_agc d2);
       xs3 \<leftarrow> into (agc_output_len d2) ys3;
       let (ys4, s) = symsync_execute k xs3 (b_symbol_sync d2);
       symbols \<leftarrow> into (symsync_output_len d2) ys4;
       (bits, points, d3) \<leftarrow> bpsk_demodulate_loop k 0 symbols (d2\<lparr>rx_agc := a, b_symbol_sync := s\<rparr>);
       Some (Some bits, d3\<lparr>debug_constellation_file :=
         (if debug_constellation_len d3 = None then debug_constellation_file d3 else dump points (debug_constellation_file d3))\<rparr>) })"

section \<open>Transmitting\<close>

text \<open>What the loop over the bits changes: the constellation, the previous symbol, the pulse shaping filter and the debug file.\<close>

type_synonym 'l psk_tx = "'l option \<times> sample \<times> 'l \<times> sample list option"

definition bpsk_symbol :: "'l liquid \<Rightarrow> u8 \<Rightarrow> bool \<Rightarrow> 'l option \<Rightarrow> sample \<Rightarrow> sample \<times> 'l option \<times> sample" where
  "bpsk_symbol k t sb m prev =
    (if t = SDPSK then let symbol = c_mul prev (if sb then (0, 1) else (0, - 1)) in (symbol, m, symbol)
     else case m of
       None \<Rightarrow> ((0, 0), None, prev)
     | Some q \<Rightarrow> (case modemcf_modulate k sb q of (symbol, q1) \<Rightarrow> (symbol, Some q1, prev)))"

definition bpsk_modulate_bit :: "'l liquid \<Rightarrow> u8 \<Rightarrow> bool \<Rightarrow> 'l psk_tx \<Rightarrow> sample list \<times> 'l psk_tx" where
  "bpsk_modulate_bit k t sb st = (case st of (m, prev, i, file) \<Rightarrow>
     case bpsk_symbol k t sb m prev of (symbol, m1, prev1) \<Rightarrow>
     case firinterp_execute k symbol i of (ys, i1) \<Rightarrow> (ys, (m1, prev1, i1, dump [symbol] file)))"

definition bpsk_modem_resample_tx :: "'l liquid \<Rightarrow> nat \<Rightarrow> 'l bpsk_modem \<Rightarrow> (sample list option \<times> 'l bpsk_modem) option" where
  "bpsk_modem_resample_tx k len d = do {
     (ys, r) \<leftarrow> resample_tx k (b_resampler_tx_output_len d) len (b_modulation_output d) (b_resampler_tx d);
     Some (Some ys, d\<lparr>b_resampler_tx := r\<rparr>) }"

text \<open>Without a constellation, modulating anything but SDPSK would follow a \<^verbatim>\<open>NULL\<close> pointer.\<close>

definition bpsk_modem_modulate :: "'l liquid \<Rightarrow> u8 list \<Rightarrow> 'l bpsk_modem \<Rightarrow> (sample list option \<times> 'l bpsk_modem) option" where
  "bpsk_modem_modulate k input d =
    (if length input * 8 > b_max_modulation_input_bits d then Some (None, d)
     else if input \<noteq> [] \<and> b_type d \<noteq> SDPSK \<and> b_mod d = None then None
     else do {
       (out, m, prev, i, file) \<leftarrow> interp_loop (bpsk_modulate_bit k (b_type d)) (samples_per_symbol d) 0 (bits_of input)
         (b_modulation_output d) (b_mod d, tx_prev_symbol d, interp d, debug_constellation_file d);
       bpsk_modem_resample_tx k (length input * 8 * samples_per_symbol d) (d\<lparr>b_modulation_output := out, b_mod := m,
         tx_prev_symbol := prev, interp := i, debug_constellation_file := file, b_tx_pending := (b_tx_pending d \<or> length input > 0)\<rparr>) })"

definition bpsk_modem_modulate_flush :: "'l liquid \<Rightarrow> 'l bpsk_modem \<Rightarrow> (sample list option \<times> 'l bpsk_modem) option" where
  "bpsk_modem_modulate_flush k d =
    (if \<not> b_tx_pending d then Some (Some [], d)
     else do {
       (out, i) \<leftarrow> interp_loop (firinterp_execute k) (samples_per_symbol d) 0 (replicate (tx_tail_symbols d) (0, 0)) (b_modulation_output d) (interp d);
       let sample_index = tx_tail_symbols d * samples_per_symbol d;
       (out1, sample_index1) \<leftarrow> (if b_resampler_tx d = None then Some (out, sample_index)
         else do {
           out1 \<leftarrow> memcpy out sample_index (replicate (b_resampler_tx_flush_len d) (0, 0)) (b_resampler_tx_flush_len d);
           Some (out1, sample_index + b_resampler_tx_flush_len d) });
       (r, d1) \<leftarrow> bpsk_modem_resample_tx k sample_index1 (d\<lparr>b_modulation_output := out1, interp := i\<rparr>);
       Some (r, d1\<lparr>interp := firinterp_reset k (interp d1), b_resampler_tx := map_option (msresamp_reset k) (b_resampler_tx d1),
         b_mod := map_option (modemcf_reset k) (b_mod d1), tx_prev_symbol := (1, 0), b_tx_pending := False\<rparr>) })"

definition bpsk_modem_max_modulation_buffer_length :: "'l bpsk_modem \<Rightarrow> nat" where
  "bpsk_modem_max_modulation_buffer_length d =
    (if b_resampler_tx d \<noteq> None then b_resampler_tx_output_len d else b_max_modulation_buffer_length d)"

text \<open>The old debug file is closed and its buffer freed; the new one needs a buffer and an open file.\<close>

definition bpsk_modem_set_debug_constellation_file :: "string option \<Rightarrow> bool \<Rightarrow> bool \<Rightarrow> 'l bpsk_modem \<Rightarrow> int \<times> 'l bpsk_modem" where
  "bpsk_modem_set_debug_constellation_file path malloc_ok opened d = (
     let d1 = d\<lparr>debug_constellation_file := None, debug_constellation_len := None\<rparr> in
     if path = None then (0, d1)
     else if \<not> malloc_ok then (- ENOMEM, d1)
     else if \<not> opened then (- 1, d1)
     else (0, d1\<lparr>debug_constellation_file := Some [], debug_constellation_len := Some (symsync_output_len d)\<rparr>))"

section \<open>Construction and destruction\<close>

text \<open>The internal rate: whether resampling is needed, and the samples per symbol, a 32-bit number.\<close>

definition bpsk_rate :: "bpsk_modem_settings \<Rightarrow> bool \<times> u32" where
  "bpsk_rate s = (let baud = ucast (psk_baud_rate s) :: u64; input_sps = ucast (psk_sample_rate s div baud) in
     if input_sps > 15 then (True, 15) else (psk_sample_rate s mod baud \<noteq> 0, input_sps))"

definition internal_rate :: "bpsk_modem_settings \<Rightarrow> u64" where
  "internal_rate s = ucast (snd (bpsk_rate s)) * ucast (psk_baud_rate s)"

text \<open>New objects of liquid-dsp, and the delay of the resampler.\<close>

record 'l bpsk_objects =
  o_resampler_rx :: 'l
  o_lowpass :: 'l
  o_agc :: 'l
  o_symsync :: 'l
  o_costas :: 'l
  o_mod :: 'l
  o_interp :: 'l
  o_resampler_tx :: 'l
  o_delay :: rat

text \<open>\<^verbatim>\<open>(size_t) ceil((double) len * rate) + MARGIN\<close>\<close>

definition resampled_len :: "nat \<Rightarrow> u64 \<Rightarrow> u64 \<Rightarrow> nat" where
  "resampled_len len from to =
    nat \<lceil>fl64 (fl64 (of_nat len) * fl64 (fl64 (of_nat (unat to)) / fl64 (of_nat (unat from))))\<rceil> + BPSK_MODEM_RESAMPLER_OUTPUT_MARGIN"

definition bpsk_modem_new :: "sample \<Rightarrow> bpsk_modem_settings \<Rightarrow> u32 \<Rightarrow> 'l bpsk_objects \<Rightarrow> 'l bpsk_modem" where
  "bpsk_modem_new junk s max_len obj = (
     let (needs, sps) = bpsk_rate s;
         rx_out_len = resampled_len (unat max_len) (psk_sample_rate s) (internal_rate s);
         rx_len = (if needs then unat (of_nat rx_out_len :: u32) else unat max_len);
         bits = unat max_len * 8;
         tail = 2 * unat (psk_rrc_delay s);
         flush_len = nat \<lceil>2 * o_delay obj\<rceil> + 1;
         max_mod = (bits + tail) * unat sps + (if needs then flush_len else 0)
     in \<lparr>samples_per_symbol = unat sps, b_max_input_buffer_length = unat max_len,
         b_resampler_rx = (if needs then Some (o_resampler_rx obj) else None), b_resampler_rx_output_len = (if needs then rx_out_len else 0),
         lowpass_filter = (if psk_bandwidth s \<noteq> 0 then Some (o_lowpass obj) else None), lowpass_output_len = (if psk_bandwidth s \<noteq> 0 then rx_len else 0),
         rx_agc = o_agc obj, agc_output_len = rx_len, b_symbol_sync = o_symsync obj, symsync_output_len = rx_len, costas = o_costas obj,
         b_type = psk_type s, b_mod = (if psk_type s = SDPSK then None else Some (o_mod obj)), bit_output_len = rx_len,
         b_max_modulation_input_bits = bits, b_max_modulation_buffer_length = max_mod, b_modulation_output = replicate max_mod junk,
         interp = o_interp obj, b_resampler_tx = (if needs then Some (o_resampler_tx obj) else None),
         b_resampler_tx_output_len = (if needs then resampled_len max_mod (internal_rate s) (psk_sample_rate s) else 0),
         b_resampler_tx_flush_len = (if needs then flush_len else 0), tx_tail_symbols = tail, b_tx_pending = False,
         tx_prev_symbol = (1, 0), rx_prev_symbol = (1, 0), debug_constellation_file = None, debug_constellation_len = None\<rparr>)"

datatype psk_part = Psk_struct | Psk_lowpass | Psk_lowpass_output | Psk_agc | Psk_agc_output | Psk_symsync | Psk_costas | Psk_mod | Psk_interp |
  Psk_resampler_rx | Psk_resampler_rx_output | Psk_resampler_tx | Psk_resampler_tx_output | Psk_symsync_output | Psk_bit_output |
  Psk_modulation_output | Psk_debug_file | Psk_debug

definition psk_users :: "psk_part \<Rightarrow> psk_part set" where
  "psk_users p = (if p = Psk_struct then - {Psk_struct} else {})"

definition bpsk_modem_destroy_order :: "psk_part list" where
  "bpsk_modem_destroy_order = [Psk_lowpass, Psk_lowpass_output, Psk_agc, Psk_agc_output, Psk_symsync, Psk_costas, Psk_mod, Psk_interp,
     Psk_resampler_rx, Psk_resampler_rx_output, Psk_resampler_tx, Psk_resampler_tx_output, Psk_symsync_output, Psk_bit_output,
     Psk_modulation_output, Psk_debug_file, Psk_debug, Psk_struct]"

definition bpsk_modem_destroy :: "psk_part set \<Rightarrow> psk_part set option" where
  "bpsk_modem_destroy ps = release_all psk_users bpsk_modem_destroy_order ps"

lemma psk_parts: "insert Psk_struct (set (butlast bpsk_modem_destroy_order)) = UNIV"
proof -
  have "p \<in> insert Psk_struct (set (butlast bpsk_modem_destroy_order))" for p
    by (cases p) (simp_all add: bpsk_modem_destroy_order_def)
  then show ?thesis by blast
qed

interpretation bpsk_modem: component psk_users bpsk_modem_destroy_order
proof
  show "p \<in> set bpsk_modem_destroy_order" for p by (cases p) (simp_all add: bpsk_modem_destroy_order_def)
  show "ordered psk_users {} bpsk_modem_destroy_order"
    using psk_parts by (auto simp: bpsk_modem_destroy_order_def psk_users_def)
qed

text \<open>The cutoff of the optional filter, which liquid-dsp wants between 0 and one half.\<close>

definition lowpass_fc :: "bpsk_modem_settings \<Rightarrow> rat" where
  "lowpass_fc s = fl32 (fl32 (of_nat (unat (psk_bandwidth s))) / fl32 (of_nat (unat (internal_rate s))))"

text \<open>\<open>oks p\<close>: the call that creates the part \<open>p\<close> succeeds.\<close>

definition bpsk_modem_create_steps :: "(psk_part \<Rightarrow> bool) \<Rightarrow> bpsk_modem_settings \<Rightarrow> psk_part step list" where
  "bpsk_modem_create_steps oks s = (let part = (\<lambda>p err. (oks p, - err, Some p)); needs = fst (bpsk_rate s) in
     (if needs then [part Psk_resampler_rx EINVAL, part Psk_resampler_rx_output ENOMEM] else []) @
     (if psk_bandwidth s \<noteq> 0 then [(0 < lowpass_fc s \<and> lowpass_fc s < 1 / 2, - EINVAL, None), part Psk_lowpass EINVAL, part Psk_lowpass_output ENOMEM] else []) @
     [part Psk_agc_output ENOMEM, part Psk_agc EINVAL, part Psk_symsync EINVAL, part Psk_symsync_output ENOMEM, part Psk_costas EINVAL,
      (psk_type s \<in> {BPSK, DPSK, SDPSK}, - EINVAL, None)] @
     (if psk_type s = SDPSK then [] else [part Psk_mod EINVAL]) @
     [part Psk_bit_output ENOMEM, part Psk_interp EINVAL] @
     (if needs then [part Psk_resampler_tx ENOMEM, part Psk_resampler_tx_output ENOMEM] else []) @
     [part Psk_modulation_output ENOMEM])"

definition bpsk_modem_create :: "(psk_part \<Rightarrow> bool) \<Rightarrow> bpsk_modem_settings \<Rightarrow> (int \<times> psk_part set) option" where
  "bpsk_modem_create oks s =
    (if psk_baud_rate s = 0 then Some (- EINVAL, {})
     else if snd (bpsk_rate s) < 2 then Some (- EINVAL, {})
     else if \<not> oks Psk_struct then Some (- ENOMEM, {})
     else construct psk_users bpsk_modem_destroy_order (bpsk_modem_create_steps oks s) {Psk_struct})"

lemma bpsk_modem_create_outcome:
  "\<exists>code ps. bpsk_modem_create oks s = Some (code, ps) \<and>
    (if code = 0 then ps = {Psk_struct} \<union> parts_of (bpsk_modem_create_steps oks s) \<and> psk_type s \<in> {BPSK, DPSK, SDPSK} \<and>
       psk_baud_rate s \<noteq> 0 \<and> 2 \<le> snd (bpsk_rate s) else ps = {})"
proof -
  have steps: "list_all (\<lambda>st. fst st \<or> fst (snd st) \<noteq> 0) (bpsk_modem_create_steps oks s)"
    by (simp add: bpsk_modem_create_steps_def Let_def)
  have "psk_type s \<in> {BPSK, DPSK, SDPSK}" if "list_all fst (bpsk_modem_create_steps oks s)"
    using that by (simp add: bpsk_modem_create_steps_def Let_def)
  with bpsk_modem.construct_outcome [OF steps, of "{Psk_struct}"] show ?thesis
    by (auto simp: bpsk_modem_create_def not_less split: if_splits)
qed

section \<open>The stream of a transmission\<close>

text \<open>What is fixed for the lifetime of a modem, with the state in which a transmission starts.\<close>

type_synonym 'l psk_core = "'l option \<times> sample \<times> 'l \<times> 'l option \<times> bool"

record 'l psk_design =
  pd_type :: u8
  pd_sps :: nat
  pd_bits :: nat
  pd_tail :: nat
  pd_flush_len :: nat
  pd_out_len :: nat
  pd_fresh :: "'l psk_core"

definition psk_core :: "'l bpsk_modem \<Rightarrow> 'l psk_core" where
  "psk_core d = (b_mod d, tx_prev_symbol d, interp d, b_resampler_tx d, b_tx_pending d)"

definition psk_resampled :: "'l psk_design \<Rightarrow> bool" where
  "psk_resampled pd = (case pd_fresh pd of (_, _, _, r, _) \<Rightarrow> r \<noteq> None)"

definition psk_max :: "'l psk_design \<Rightarrow> nat" where
  "psk_max pd = (pd_bits pd + pd_tail pd) * pd_sps pd + (if psk_resampled pd then pd_flush_len pd else 0)"

text \<open>
  The behaviour of liquid-dsp that the modem relies on: the pulse shaping filter answers one block per
  symbol, the resampler stays within the margin the modem leaves and makes nothing of nothing, and a reset leads to the same state
  whatever was executed before.
\<close>

definition psk_lib_ok :: "'l liquid \<Rightarrow> 'l psk_design \<Rightarrow> bool" where
  "psk_lib_ok k pd \<longleftrightarrow>
    (\<forall>x l. length (fst (firinterp_execute k x l)) = pd_sps pd) \<and>
    (\<forall>xs l. length xs \<le> psk_max pd \<longrightarrow> length (fst (msresamp_execute k xs l)) \<le> pd_out_len pd) \<and>
    (\<forall>l. msresamp_execute k [] l = ([], l)) \<and>
    (\<forall>x l. firinterp_reset k (snd (firinterp_execute k x l)) = firinterp_reset k l) \<and>
    (\<forall>x l. msresamp_reset k (snd (msresamp_execute k x l)) = msresamp_reset k l) \<and>
    (\<forall>x l. modemcf_reset k (snd (modemcf_modulate k x l)) = modemcf_reset k l)"

definition psk_reset :: "'l liquid \<Rightarrow> 'l psk_core \<Rightarrow> 'l psk_core" where
  "psk_reset k c = (case c of (m, _, i, r, _) \<Rightarrow>
     (map_option (modemcf_reset k) m, (1, 0), firinterp_reset k i, map_option (msresamp_reset k) r, False))"

text \<open>The symbols of some bits.\<close>

fun psk_symbols :: "'l liquid \<Rightarrow> u8 \<Rightarrow> bool list \<Rightarrow> 'l option \<Rightarrow> sample \<Rightarrow> sample list \<times> 'l option \<times> sample" where
  "psk_symbols k t [] m prev = ([], m, prev)"
| "psk_symbols k t (b # bs) m prev = (case bpsk_symbol k t b m prev of (s, m1, prev1) \<Rightarrow>
     case psk_symbols k t bs m1 prev1 of (ss, m2, prev2) \<Rightarrow> (s # ss, m2, prev2))"

definition bpsk_step :: "'l liquid \<Rightarrow> 'l psk_design \<Rightarrow> u8 list \<Rightarrow> 'l psk_core \<Rightarrow> sample list \<times> 'l psk_core" where
  "bpsk_step k pd f c = (case c of (m, prev, i, r, pend) \<Rightarrow>
     case psk_symbols k (pd_type pd) (bits_of f) m prev of (ss, m1, prev1) \<Rightarrow>
     case interpolate (firinterp_execute k) ss i of (xs, i1) \<Rightarrow>
     case resampled k xs r of (ys, r1) \<Rightarrow> (ys, (m1, prev1, i1, r1, pend \<or> f \<noteq> [])))"

definition bpsk_final :: "'l liquid \<Rightarrow> 'l psk_design \<Rightarrow> 'l psk_core \<Rightarrow> sample list" where
  "bpsk_final k pd c = (case c of (m, prev, i, r, pend) \<Rightarrow>
     if \<not> pend then []
     else fst (resampled k (fst (interpolate (firinterp_execute k) (replicate (pd_tail pd) (0, 0)) i) @
       (if r = None then [] else replicate (pd_flush_len pd) (0, 0))) r))"

definition bpsk_limit :: "'l psk_design \<Rightarrow> nat" where
  "bpsk_limit pd = (if psk_resampled pd then pd_out_len pd else psk_max pd)"

definition bpsk_tx_ok :: "'l liquid \<Rightarrow> 'l psk_design \<Rightarrow> 'l bpsk_modem \<Rightarrow> bool" where
  "bpsk_tx_ok k pd d \<longleftrightarrow> psk_lib_ok k pd \<and> psk_max pd < 2 ^ 32 \<and> psk_reset k (pd_fresh pd) = pd_fresh pd \<and>
    b_type d = pd_type pd \<and> samples_per_symbol d = pd_sps pd \<and> b_max_modulation_input_bits d = pd_bits pd \<and> tx_tail_symbols d = pd_tail pd \<and>
    b_resampler_tx_flush_len d = pd_flush_len pd \<and> b_resampler_tx_output_len d = pd_out_len pd \<and>
    length (b_modulation_output d) = psk_max pd \<and> (b_type d \<noteq> SDPSK \<longrightarrow> b_mod d \<noteq> None) \<and>
    (b_resampler_tx d \<noteq> None \<longleftrightarrow> psk_resampled pd) \<and>
    psk_reset k (psk_core d) = pd_fresh pd \<and> (\<not> b_tx_pending d \<longrightarrow> psk_core d = pd_fresh pd)"

text \<open>The loop over the bits is the constellation, followed by the pulse shaping; the debug file gets the symbols.\<close>

lemma dump_simps [simp]: "dump [] dbg = dbg" "dump ys (dump xs dbg) = dump (xs @ ys) dbg" "dump xs None = None"
  by (cases dbg; simp add: dump_def)+

lemma modulate_bits:
  "interpolate (bpsk_modulate_bit k t) bs (m, prev, i, dbg) = (case psk_symbols k t bs m prev of (ss, m1, prev1) \<Rightarrow>
     case interpolate (firinterp_execute k) ss i of (xs, i1) \<Rightarrow> (xs, m1, prev1, i1, dump ss dbg))"
  by (induction bs arbitrary: m prev i dbg) (auto simp: bpsk_modulate_bit_def split: prod.splits)

lemma length_psk_symbols: "psk_symbols k t bs m prev = (ss, m1, prev1) \<Longrightarrow> length ss = length bs"
  by (induction bs arbitrary: m prev ss) (auto split: prod.splits)

lemma psk_symbols_mod: "psk_symbols k t bs m prev = (ss, m1, prev1) \<Longrightarrow> m1 = None \<longleftrightarrow> m = None"
  by (induction bs arbitrary: m prev ss) (fastforce simp: bpsk_symbol_def Let_def split: prod.splits option.splits if_splits)+

lemma psk_symbols_reset:
  assumes "\<forall>x l. modemcf_reset k (snd (modemcf_modulate k x l)) = modemcf_reset k l"
  shows "psk_symbols k t bs m prev = (ss, m1, prev1) \<Longrightarrow> map_option (modemcf_reset k) m1 = map_option (modemcf_reset k) m"
proof (induction bs arbitrary: m prev ss)
  case (Cons b bs)
  obtain s m2 prev2 where s: "bpsk_symbol k t b m prev = (s, m2, prev2)" by (metis prod_cases3)
  then have "map_option (modemcf_reset k) m2 = map_option (modemcf_reset k) m"
    using assms by (auto simp: bpsk_symbol_def Let_def split: if_splits option.splits prod.splits) (metis snd_conv)
  with Cons.IH Cons.prems s show ?case by (auto split: prod.splits)
qed simp

lemma psk_lib:
  assumes "psk_lib_ok k pd"
  shows "length (fst (firinterp_execute k x l)) = pd_sps pd"
    "\<forall>xs l. length xs \<le> psk_max pd \<longrightarrow> length (fst (msresamp_execute k xs l)) \<le> pd_out_len pd"
    "\<forall>x l. firinterp_reset k (snd (firinterp_execute k x l)) = firinterp_reset k l"
    "\<forall>x l. msresamp_reset k (snd (msresamp_execute k x l)) = msresamp_reset k l"
    "\<forall>x l. modemcf_reset k (snd (modemcf_modulate k x l)) = modemcf_reset k l"
    "msresamp_execute k [] l = ([], l)"
  using assms unfolding psk_lib_ok_def by blast+

lemma bpsk_block:
  assumes "psk_lib_ok k pd"
  shows "length (fst (bpsk_modulate_bit k t x st)) = pd_sps pd"
  using psk_lib(1) [OF assms] by (auto simp: bpsk_modulate_bit_def split: prod.splits) (metis fst_conv)

lemma bpsk_modulate_step:
  assumes ok: "bpsk_tx_ok k pd d" and f: "length f \<le> pd_bits pd div 8" and st: "bpsk_step k pd f (psk_core d) = (ys, c)"
  shows "\<exists>d1. bpsk_modem_modulate k f d = Some (Some ys, d1) \<and> bpsk_tx_ok k pd d1 \<and> psk_core d1 = c \<and> length ys \<le> bpsk_limit pd"
proof -
  note o = ok [unfolded bpsk_tx_ok_def]
  then have lib: "psk_lib_ok k pd" by simp
  obtain ss m1 prev1 where ss: "psk_symbols k (pd_type pd) (bits_of f) (b_mod d) (tx_prev_symbol d) = (ss, m1, prev1)" by (metis prod_cases3)
  obtain xs i1 where xs: "interpolate (firinterp_execute k) ss (interp d) = (xs, i1)" by fastforce
  obtain r1 where r: "resampled k (xs @ []) (b_resampler_tx d) = (ys, r1)" and c: "c = (m1, prev1, i1, r1, b_tx_pending d \<or> f \<noteq> [])"
    using st ss xs by (auto simp: bpsk_step_def psk_core_def split: prod.splits)
  let ?dbg = "dump ss (debug_constellation_file d)"
  have bits: "interpolate (bpsk_modulate_bit k (pd_type pd)) (bits_of f) (b_mod d, tx_prev_symbol d, interp d, debug_constellation_file d) =
      (xs, m1, prev1, i1, ?dbg)" using ss xs by (simp add: modulate_bits)
  have f8: "length f * 8 \<le> pd_bits pd" using f by linarith
  then have fit: "length (b_modulation_output d) = psk_max pd" "psk_max pd < 2 ^ 32"
    "length (bits_of f) * pd_sps pd + length ([] :: sample list) \<le> psk_max pd"
    using o unfolding psk_max_def by (simp_all add: add_mult_distrib trans_le_add1 mult.commute)
  from modulated_buffer [of "bpsk_modulate_bit k (pd_type pd)" "pd_sps pd", OF bpsk_block [OF lib] fit bits r psk_lib(2) [OF lib]] obtain out buf where
    l: "interp_loop (bpsk_modulate_bit k (pd_type pd)) (pd_sps pd) 0 (bits_of f) (b_modulation_output d)
        (b_mod d, tx_prev_symbol d, interp d, debug_constellation_file d) = Some (out, m1, prev1, i1, ?dbg)"
      "memcpy out (length (bits_of f) * pd_sps pd) [] (length ([] :: sample list)) = Some buf" "length buf = psk_max pd"
      "resample_tx k (pd_out_len pd) (length (bits_of f) * pd_sps pd + length ([] :: sample list)) buf (b_resampler_tx d) = Some (ys, r1)"
      "length ys \<le> (if b_resampler_tx d = None then psk_max pd else pd_out_len pd)" "r1 = None \<longleftrightarrow> b_resampler_tx d = None"
    by (elim exE conjE) (rule that)
  have buf: "buf = out" using l(2) by (simp add: memcpy_def split: if_splits)
  let ?d = "d\<lparr>b_modulation_output := buf, b_mod := m1, tx_prev_symbol := prev1, interp := i1, debug_constellation_file := ?dbg,
      b_tx_pending := (b_tx_pending d \<or> length f > 0), b_resampler_tx := r1\<rparr>"
  have guard: "\<not> (f \<noteq> [] \<and> b_type d \<noteq> SDPSK \<and> b_mod d = None)" using o by auto
  have m: "bpsk_modem_modulate k f d = Some (Some ys, ?d)"
    using f8 guard l(1,4) o buf by (simp add: bpsk_modem_modulate_def bpsk_modem_resample_tx_def mult.commute)
  have core: "psk_core ?d = c" using c by (simp add: psk_core_def)
  moreover have "psk_reset k c = psk_reset k (psk_core d)"
    using c psk_symbols_reset [OF psk_lib(5) [OF lib] ss] interpolate_reset [OF psk_lib(3) [OF lib] xs] resampled_reset [OF psk_lib(4) [OF lib] r]
    by (simp add: psk_core_def psk_reset_def)
  moreover have "c = psk_core d" if "\<not> b_tx_pending d" "f = []"
    using that c ss xs r psk_lib(6) [OF lib] by (auto simp: psk_core_def bits_of_def resampled_def split: option.splits)
  ultimately have "bpsk_tx_ok k pd ?d" using o l(3,6) psk_symbols_mod [OF ss] by (auto simp: bpsk_tx_ok_def)
  moreover have "length ys \<le> bpsk_limit pd" using l(5) o by (auto simp: bpsk_limit_def)
  ultimately show ?thesis using m core by blast
qed

lemma bpsk_flush_step:
  assumes ok: "bpsk_tx_ok k pd d"
  shows "\<exists>d1. bpsk_modem_modulate_flush k d = Some (Some (bpsk_final k pd (psk_core d)), d1) \<and> bpsk_tx_ok k pd d1 \<and> psk_core d1 = pd_fresh pd \<and>
    length (bpsk_final k pd (psk_core d)) \<le> bpsk_limit pd"
proof (cases "b_tx_pending d")
  case False
  then have "bpsk_final k pd (psk_core d) = []" by (simp add: bpsk_final_def psk_core_def)
  moreover have "psk_core d = pd_fresh pd" using ok False by (simp add: bpsk_tx_ok_def)
  ultimately show ?thesis using ok False by (simp add: bpsk_modem_modulate_flush_def)
next
  case True
  note o = ok [unfolded bpsk_tx_ok_def]
  then have lib: "psk_lib_ok k pd" by simp
  define zs :: "sample list" where "zs = (if b_resampler_tx d = None then [] else replicate (pd_flush_len pd) (0, 0))"
  let ?ss = "replicate (pd_tail pd) (0, 0) :: sample list"
  obtain xs i1 where xs: "interpolate (firinterp_execute k) ?ss (interp d) = (xs, i1)" by fastforce
  obtain ys r1 where r: "resampled k (xs @ zs) (b_resampler_tx d) = (ys, r1)" by fastforce
  have fit: "length (b_modulation_output d) = psk_max pd" "psk_max pd < 2 ^ 32" "length ?ss * pd_sps pd + length zs \<le> psk_max pd"
    using o by (simp_all add: psk_max_def zs_def algebra_simps)
  from modulated_buffer [of "firinterp_execute k" "pd_sps pd", OF psk_lib(1) [OF lib] fit xs r psk_lib(2) [OF lib]] obtain out buf where
    b: "interp_loop (firinterp_execute k) (pd_sps pd) 0 ?ss (b_modulation_output d) (interp d) = Some (out, i1)"
      "memcpy out (length ?ss * pd_sps pd) zs (length zs) = Some buf" "length buf = psk_max pd"
      "resample_tx k (pd_out_len pd) (length ?ss * pd_sps pd + length zs) buf (b_resampler_tx d) = Some (ys, r1)"
      "length ys \<le> (if b_resampler_tx d = None then psk_max pd else pd_out_len pd)" "r1 = None \<longleftrightarrow> b_resampler_tx d = None"
    by (elim exE conjE) (rule that)
  let ?d = "d\<lparr>b_modulation_output := buf, interp := firinterp_reset k i1, b_resampler_tx := map_option (msresamp_reset k) r1,
      b_mod := map_option (modemcf_reset k) (b_mod d), tx_prev_symbol := (1, 0), b_tx_pending := False\<rparr>"
  have y: "bpsk_final k pd (psk_core d) = ys" using True xs r by (simp add: bpsk_final_def psk_core_def zs_def)
  have "bpsk_modem_modulate_flush k d = Some (Some ys, ?d)"
  proof (cases "b_resampler_tx d")
    case None
    then have "buf = out" "zs = []" using b(2) by (auto simp: zs_def memcpy_def split: if_splits)
    then show ?thesis using True b(1,4) o None by (simp add: bpsk_modem_modulate_flush_def bpsk_modem_resample_tx_def)
  next
    case (Some rs)
    then have "memcpy out (pd_tail pd * pd_sps pd) (replicate (pd_flush_len pd) (0, 0)) (pd_flush_len pd) = Some buf" "length zs = pd_flush_len pd"
      using b(2) by (simp_all add: zs_def)
    then show ?thesis using True b(1,4) o Some by (simp add: bpsk_modem_modulate_flush_def bpsk_modem_resample_tx_def)
  qed
  moreover have "psk_core ?d = psk_reset k (psk_core d)"
    using interpolate_reset [OF psk_lib(3) [OF lib] xs] resampled_reset [OF psk_lib(4) [OF lib] r] by (simp add: psk_core_def psk_reset_def)
  then have c: "psk_core ?d = pd_fresh pd" using o by simp
  moreover have "bpsk_tx_ok k pd ?d" using o b(3,6) c by (simp add: bpsk_tx_ok_def)
  ultimately show ?thesis using y b(5) o by (auto simp: bpsk_limit_def)
qed

text \<open>The debug file of the transmitter holds the symbols.\<close>

lemma bpsk_modulate_debug:
  assumes ok: "bpsk_tx_ok k pd d" and m: "bpsk_modem_modulate k f d = Some (Some ys, d1)"
  shows "debug_constellation_file d1 = dump (fst (psk_symbols k (b_type d) (bits_of f) (b_mod d) (tx_prev_symbol d))) (debug_constellation_file d)"
proof -
  have lib: "psk_lib_ok k pd" and len: "length f * 8 * pd_sps pd \<le> length (b_modulation_output d)" and d: "samples_per_symbol d = pd_sps pd"
    using ok m by (auto simp: bpsk_tx_ok_def psk_max_def bpsk_modem_modulate_def add_mult_distrib trans_le_add1 split: if_splits)
  obtain xs st where i: "interpolate (bpsk_modulate_bit k (b_type d)) (bits_of f) (b_mod d, tx_prev_symbol d, interp d, debug_constellation_file d) = (xs, st)" by (metis surj_pair)
  from interp_loop_interpolate [of "bpsk_modulate_bit k (b_type d)" "pd_sps pd", OF bpsk_block [OF lib], of 0 "bits_of f" "b_modulation_output d", OF _ i] len
  have "interp_loop (bpsk_modulate_bit k (b_type d)) (pd_sps pd) 0 (bits_of f) (b_modulation_output d)
      (b_mod d, tx_prev_symbol d, interp d, debug_constellation_file d) = Some (xs @ drop (8 * length f * pd_sps pd) (b_modulation_output d), st)"
    by (simp add: mult.commute)
  moreover have "snd (snd (snd st)) = dump (fst (psk_symbols k (b_type d) (bits_of f) (b_mod d) (tx_prev_symbol d))) (debug_constellation_file d)"
    using i by (auto simp: modulate_bits split: prod.splits)
  ultimately show ?thesis using m d
    by (auto simp: bpsk_modem_modulate_def bpsk_modem_resample_tx_def split: if_splits bind_splits prod.splits)
qed

lemma bpsk_modulate_oversize: "bpsk_tx_ok k pd d \<Longrightarrow> pd_bits pd div 8 < length f \<Longrightarrow> bpsk_modem_modulate k f d = Some (None, d)"
  by (simp add: bpsk_tx_ok_def bpsk_modem_modulate_def div_less_iff_less_mult)

interpretation bpsk: transmitter "bpsk_modem_modulate k" "bpsk_modem_modulate_flush k" "bpsk_tx_ok k pd" psk_core "bpsk_step k pd" "bpsk_final k pd"
  "pd_fresh pd" "pd_bits pd div 8" "bpsk_limit pd" for k :: "'l liquid" and pd
proof
  fix m :: "'l bpsk_modem" and f xs c
  show "bpsk_tx_ok k pd m \<Longrightarrow> length f \<le> pd_bits pd div 8 \<Longrightarrow> bpsk_step k pd f (psk_core m) = (xs, c) \<Longrightarrow>
    \<exists>m1. bpsk_modem_modulate k f m = Some (Some xs, m1) \<and> bpsk_tx_ok k pd m1 \<and> psk_core m1 = c \<and> length xs \<le> bpsk_limit pd"
    by (rule bpsk_modulate_step)
  show "bpsk_tx_ok k pd m \<Longrightarrow> pd_bits pd div 8 < length f \<Longrightarrow> bpsk_modem_modulate k f m = Some (None, m)"
    by (rule bpsk_modulate_oversize)
  show "bpsk_tx_ok k pd m \<Longrightarrow> \<exists>m1. bpsk_modem_modulate_flush k m = Some (Some (bpsk_final k pd (psk_core m)), m1) \<and> bpsk_tx_ok k pd m1 \<and>
    psk_core m1 = pd_fresh pd \<and> length (bpsk_final k pd (psk_core m)) \<le> bpsk_limit pd"
    by (rule bpsk_flush_step)
qed

section \<open>A new modem\<close>

definition bpsk_design :: "bpsk_modem_settings \<Rightarrow> u32 \<Rightarrow> 'l bpsk_objects \<Rightarrow> 'l psk_design" where
  "bpsk_design s max_len obj = (let d = bpsk_modem_new (0, 0) s max_len obj in
     \<lparr>pd_type = b_type d, pd_sps = samples_per_symbol d, pd_bits = b_max_modulation_input_bits d, pd_tail = tx_tail_symbols d,
      pd_flush_len = b_resampler_tx_flush_len d, pd_out_len = b_resampler_tx_output_len d, pd_fresh = psk_core d\<rparr>)"

lemma bpsk_modem_new_ok:
  assumes "psk_lib_ok k (bpsk_design s max_len obj)" "psk_max (bpsk_design s max_len obj) < 2 ^ 32"
    and reset: "firinterp_reset k (o_interp obj) = o_interp obj" "msresamp_reset k (o_resampler_tx obj) = o_resampler_tx obj" "modemcf_reset k (o_mod obj) = o_mod obj"
  shows "bpsk_tx_ok k (bpsk_design s max_len obj) (bpsk_modem_new junk s max_len obj)"
    "psk_core (bpsk_modem_new junk s max_len obj) = pd_fresh (bpsk_design s max_len obj)"
    "bpsk_modem_max_modulation_buffer_length (bpsk_modem_new junk s max_len obj) = bpsk_limit (bpsk_design s max_len obj)"
proof -
  obtain needs sps where r: "bpsk_rate s = (needs, sps)" by fastforce
  show "bpsk_tx_ok k (bpsk_design s max_len obj) (bpsk_modem_new junk s max_len obj)"
    using assms by (simp add: bpsk_tx_ok_def bpsk_design_def bpsk_modem_new_def Let_def r psk_core_def psk_reset_def psk_resampled_def psk_max_def)
  show "psk_core (bpsk_modem_new junk s max_len obj) = pd_fresh (bpsk_design s max_len obj)"
    by (simp add: bpsk_design_def bpsk_modem_new_def Let_def r psk_core_def)
  show "bpsk_modem_max_modulation_buffer_length (bpsk_modem_new junk s max_len obj) = bpsk_limit (bpsk_design s max_len obj)"
    by (simp add: bpsk_design_def bpsk_modem_new_def Let_def r psk_core_def bpsk_limit_def psk_resampled_def psk_max_def
        bpsk_modem_max_modulation_buffer_length_def)
qed

section \<open>Differential symbols\<close>

text \<open>The four points of the constellation and the soft bits of a differential receiver.\<close>

definition quarter_turns :: "sample set" where
  "quarter_turns = {(1, 0), (0, 1), (- 1, 0), (0, - 1)}"

fun sdpsk_bits :: "sample \<Rightarrow> sample list \<Rightarrow> u8 list" where
  "sdpsk_bits prev [] = []"
| "sdpsk_bits prev (p # ps) = sdpsk_soft prev p # sdpsk_bits p ps"

lemma demodulate_loop_sdpsk:
  "bpsk_demodulate_loop k i xs d = Some (bits, points, d1) \<Longrightarrow> b_type d = SDPSK \<Longrightarrow> bits = sdpsk_bits (rx_prev_symbol d) points"
  by (induction xs arbitrary: i d bits points) (fastforce simp: bpsk_demodulate_symbol_def Let_def split: if_splits bind_splits)+

lemma fl32_127: "fl32 127 = 127" "fl32 (- 127) = - 127"
  using fl_exact [of 127 24 0] fl_exact [of "- 127" 24 0] by simp_all

lemma quarter_turn_bit:
  assumes "rot \<in> quarter_turns" "prev \<in> quarter_turns"
  shows "c_mul prev (if b then (0, 1) else (0, - 1)) \<in> quarter_turns"
    "sdpsk_soft (c_mul rot prev) (c_mul rot (c_mul prev (if b then (0, 1) else (0, - 1)))) = (if b then 127 else - 127)"
  using assms by (cases b; auto simp: quarter_turns_def c_mul_def c_conj_def sdpsk_soft_def Let_def fl32_127 trunc_def)+

lemma sdpsk_bits_rotated:
  assumes "rot \<in> quarter_turns"
  shows "prev \<in> quarter_turns \<Longrightarrow> psk_symbols k SDPSK bs m prev = (ss, m1, prev1) \<Longrightarrow>
    sdpsk_bits (c_mul rot prev) (map (c_mul rot) ss) = map (\<lambda>b. if b then 127 else - 127) bs"
proof (induction bs arbitrary: prev ss m)
  case (Cons b bs)
  let ?p = "c_mul prev (if b then (0, 1) else (0, - 1))"
  obtain ss' where ss': "psk_symbols k SDPSK bs m ?p = (ss', m1, prev1)" "ss = ?p # ss'"
    using Cons.prems(2) by (auto simp: bpsk_symbol_def Let_def split: prod.splits)
  from Cons.IH [OF quarter_turn_bit(1) [OF assms Cons.prems(1)] ss'(1)] show ?case
    using quarter_turn_bit(2) [OF assms Cons.prems(1), of b] ss'(2) by simp
qed simp

section \<open>The receiving chain\<close>

text \<open>
  The behaviour of liquid-dsp the chain of buffers relies on: filters keep the number of samples, the
  symbol synchronisation answers at most one symbol per sample, the resampler stays within its margin.
\<close>

definition bpsk_rx_ok :: "'l liquid \<Rightarrow> 'l bpsk_modem \<Rightarrow> bool" where
  "bpsk_rx_ok k d \<longleftrightarrow>
    (\<forall>xs l. length (fst (firfilt_execute_block k xs l)) = length xs) \<and> (\<forall>xs l. length (fst (agc_execute_block k xs l)) = length xs) \<and>
    (\<forall>xs l. length (fst (symsync_execute k xs l)) \<le> length xs) \<and>
    (if b_resampler_rx d = None then b_max_input_buffer_length d \<le> agc_output_len d
     else b_resampler_rx_output_len d \<le> agc_output_len d \<and>
       (\<forall>xs l. length xs \<le> b_max_input_buffer_length d \<longrightarrow> length (fst (msresamp_execute k xs l)) \<le> b_resampler_rx_output_len d)) \<and>
    (lowpass_filter d \<noteq> None \<longrightarrow> lowpass_output_len d = agc_output_len d) \<and> symsync_output_len d = agc_output_len d \<and> bit_output_len d = agc_output_len d \<and>
    debug_constellation_len d \<in> {None, Some (agc_output_len d)} \<and> (b_type d \<noteq> SDPSK \<longrightarrow> b_mod d \<noteq> None)"

lemma demodulate_symbol_total:
  assumes "b_type d \<noteq> SDPSK \<longrightarrow> b_mod d \<noteq> None"
  shows "\<exists>b p c prev m. bpsk_demodulate_symbol k x d = Some (b, p, d\<lparr>costas := c, rx_prev_symbol := prev, b_mod := m\<rparr>) \<and> (m = None \<longleftrightarrow> b_mod d = None)"
proof (cases "b_type d = SDPSK")
  case True
  then have "bpsk_demodulate_symbol k x d = Some (sdpsk_soft (rx_prev_symbol d) (nco_mix_down k x (costas d)), nco_mix_down k x (costas d),
      d\<lparr>costas := nco_step k (nco_pll_step k (costas_error k SDPSK (nco_mix_down k x (costas d))) (costas d)),
        rx_prev_symbol := nco_mix_down k x (costas d), b_mod := b_mod d\<rparr>)"
    by (simp add: bpsk_demodulate_symbol_def Let_def)
  then show ?thesis by (intro exI conjI) (assumption, simp)
next
  case False
  with assms obtain q where q: "b_mod d = Some q" by auto
  obtain b q1 where "modemcf_demodulate_soft k (nco_mix_down k x (costas d)) q = (b, q1)" by fastforce
  with False q have "bpsk_demodulate_symbol k x d = Some (centred b, nco_mix_down k x (costas d),
      d\<lparr>costas := nco_step k (nco_pll_step k (costas_error k (b_type d) (nco_mix_down k x (costas d))) (costas d)),
        rx_prev_symbol := rx_prev_symbol d, b_mod := Some q1\<rparr>)"
    by (simp add: bpsk_demodulate_symbol_def Let_def)
  then show ?thesis using q by (intro exI conjI) (assumption, simp)
qed

lemma demodulate_loop_total:
  "b_type d \<noteq> SDPSK \<longrightarrow> b_mod d \<noteq> None \<Longrightarrow> i + length xs \<le> bit_output_len d \<Longrightarrow> \<forall>n \<in> set_option (debug_constellation_len d). i + length xs \<le> n \<Longrightarrow>
   \<exists>bits ps c prev m. bpsk_demodulate_loop k i xs d = Some (bits, ps, d\<lparr>costas := c, rx_prev_symbol := prev, b_mod := m\<rparr>) \<and>
     length bits = length xs \<and> (m = None \<longleftrightarrow> b_mod d = None)"
proof (induction xs arbitrary: i d)
  case Nil
  have "d = d\<lparr>costas := costas d, rx_prev_symbol := rx_prev_symbol d, b_mod := b_mod d\<rparr>" by simp
  then show ?case by (metis (no_types) bpsk_demodulate_loop.simps(1) list.size(3))
next
  case (Cons x xs)
  from demodulate_symbol_total [OF Cons.prems(1), of k x] obtain b p c prev m where
    s: "bpsk_demodulate_symbol k x d = Some (b, p, d\<lparr>costas := c, rx_prev_symbol := prev, b_mod := m\<rparr>)" "m = None \<longleftrightarrow> b_mod d = None"
    by (elim exE conjE) (rule that)
  let ?d = "d\<lparr>costas := c, rx_prev_symbol := prev, b_mod := m\<rparr>"
  have "i < bit_output_len d" "\<forall>n \<in> set_option (debug_constellation_len d). i < n" using Cons.prems(2,3) by auto
  moreover have "b_type ?d \<noteq> SDPSK \<longrightarrow> b_mod ?d \<noteq> None" "Suc i + length xs \<le> bit_output_len ?d"
    "\<forall>n \<in> set_option (debug_constellation_len ?d). Suc i + length xs \<le> n" using Cons.prems s(2) by simp_all
  from Cons.IH [OF this] obtain bits ps c' prev' m' where
    l: "bpsk_demodulate_loop k (Suc i) xs ?d = Some (bits, ps, ?d\<lparr>costas := c', rx_prev_symbol := prev', b_mod := m'\<rparr>)"
      "length bits = length xs" "m' = None \<longleftrightarrow> b_mod ?d = None" by (elim exE conjE) (rule that)
  ultimately have "bpsk_demodulate_loop k i (x # xs) d = Some (b # bits, p # ps, d\<lparr>costas := c', rx_prev_symbol := prev', b_mod := m'\<rparr>)"
    using s(1) by simp
  moreover have "length (b # bits) = length (x # xs)" "m' = None \<longleftrightarrow> b_mod d = None" using l(2,3) s(2) by simp_all
  ultimately show ?case by (intro exI conjI)
qed

lemma bpsk_front_end:
  assumes ok: "bpsk_rx_ok k d" and n: "length input \<le> b_max_input_buffer_length d"
  shows "\<exists>xs r. (case b_resampler_rx d of
      None \<Rightarrow> Some (input, d)
    | Some r \<Rightarrow> (case msresamp_execute k input r of (ys, r1) \<Rightarrow> do {
        ys1 \<leftarrow> into (b_resampler_rx_output_len d) ys;
        Some (ys1, d\<lparr>b_resampler_rx := Some r1\<rparr>) })) = Some (xs, d\<lparr>b_resampler_rx := r\<rparr>) \<and> length xs \<le> agc_output_len d \<and>
    (r = None \<longleftrightarrow> b_resampler_rx d = None)"
proof (cases "b_resampler_rx d")
  case None
  then have "d = d\<lparr>b_resampler_rx := None\<rparr>" by simp
  with None ok n show ?thesis by (auto simp: bpsk_rx_ok_def)
next
  case (Some r)
  obtain ys r1 where "msresamp_execute k input r = (ys, r1)" by fastforce
  moreover from this have "length ys \<le> b_resampler_rx_output_len d" "b_resampler_rx_output_len d \<le> agc_output_len d"
    using ok n Some unfolding bpsk_rx_ok_def by (metis fst_conv option.distinct(1))+
  ultimately show ?thesis using Some by (auto simp: into_def)
qed

text \<open>The stage behind the resampler keeps the number of samples.\<close>

lemma bpsk_lowpass:
  assumes ok: "bpsk_rx_ok k d" and n: "length xs \<le> agc_output_len d"
  shows "\<exists>ys f. (case lowpass_filter d of
      None \<Rightarrow> Some (xs, d)
    | Some f \<Rightarrow> (case firfilt_execute_block k xs f of (ys, f1) \<Rightarrow> do {
        ys1 \<leftarrow> into (lowpass_output_len d) ys;
        Some (ys1, d\<lparr>lowpass_filter := Some f1\<rparr>) })) = Some (ys, d\<lparr>lowpass_filter := f\<rparr>) \<and> length ys = length xs \<and>
    (f = None \<longleftrightarrow> lowpass_filter d = None)"
proof (cases "lowpass_filter d")
  case None
  then have "d = d\<lparr>lowpass_filter := None\<rparr>" by simp
  with None show ?thesis by auto
next
  case (Some f)
  obtain ys f1 where f: "firfilt_execute_block k xs f = (ys, f1)" by fastforce
  have "length (fst (firfilt_execute_block k xs f)) = length xs" "lowpass_output_len d = agc_output_len d"
    using ok Some unfolding bpsk_rx_ok_def by blast+
  with f Some n show ?thesis by (auto simp: into_def)
qed

lemma bpsk_rx_ok_update:
  "bpsk_rx_ok k d \<Longrightarrow> (r = None \<longleftrightarrow> b_resampler_rx d = None) \<Longrightarrow> bpsk_rx_ok k (d\<lparr>b_resampler_rx := r\<rparr>)"
  "bpsk_rx_ok k d \<Longrightarrow> (f = None \<longleftrightarrow> lowpass_filter d = None) \<Longrightarrow> bpsk_rx_ok k (d\<lparr>lowpass_filter := f\<rparr>)"
  "bpsk_rx_ok k d \<Longrightarrow> bpsk_rx_ok k (d\<lparr>rx_agc := a, b_symbol_sync := s\<rparr>)"
  "bpsk_rx_ok k d \<Longrightarrow> (m = None \<longleftrightarrow> b_mod d = None) \<Longrightarrow> bpsk_rx_ok k (d\<lparr>costas := c, rx_prev_symbol := prev, b_mod := m\<rparr>)"
  "bpsk_rx_ok k (d\<lparr>debug_constellation_file := dbg\<rparr>) = bpsk_rx_ok k d"
  unfolding bpsk_rx_ok_def by simp_all

lemma bpsk_demodulate_total:
  assumes ok: "bpsk_rx_ok k d" and n: "length input \<le> b_max_input_buffer_length d"
  shows "\<exists>bits d1. bpsk_modem_demodulate k input d = Some (Some bits, d1) \<and> bpsk_rx_ok k d1 \<and> length bits \<le> bit_output_len d"
proof -
  from bpsk_front_end [OF assms] obtain xs r where
    x: "(case b_resampler_rx d of None \<Rightarrow> Some (input, d) | Some r \<Rightarrow> (case msresamp_execute k input r of (ys, r1) \<Rightarrow> do {
        ys1 \<leftarrow> into (b_resampler_rx_output_len d) ys; Some (ys1, d\<lparr>b_resampler_rx := Some r1\<rparr>) })) = Some (xs, d\<lparr>b_resampler_rx := r\<rparr>)"
      "length xs \<le> agc_output_len d" "r = None \<longleftrightarrow> b_resampler_rx d = None" by (elim exE conjE) (rule that)
  define e where "e = d\<lparr>b_resampler_rx := r\<rparr>"
  have e: "bpsk_rx_ok k e" "agc_output_len e = agc_output_len d" using bpsk_rx_ok_update(1) [OF ok x(3)] by (simp_all add: e_def)
  from bpsk_lowpass [OF e(1), of xs] x(2) e(2) obtain ys f where
    y: "(case lowpass_filter e of None \<Rightarrow> Some (xs, e) | Some f \<Rightarrow> (case firfilt_execute_block k xs f of (ys, f1) \<Rightarrow> do {
        ys1 \<leftarrow> into (lowpass_output_len e) ys; Some (ys1, e\<lparr>lowpass_filter := Some f1\<rparr>) })) = Some (ys, e\<lparr>lowpass_filter := f\<rparr>)"
      "length ys = length xs" "f = None \<longleftrightarrow> lowpass_filter e = None" by force
  define g where "g = e\<lparr>lowpass_filter := f\<rparr>"
  have g: "bpsk_rx_ok k g" "agc_output_len g = agc_output_len d" using bpsk_rx_ok_update(2) [OF e(1) y(3)] e(2) by (simp_all add: g_def)
  obtain as a where as: "agc_execute_block k ys (rx_agc g) = (as, a)" by fastforce
  obtain ss s where ss: "symsync_execute k as (b_symbol_sync g) = (ss, s)" by fastforce
  have len: "length as = length ys" "length ss \<le> length as"
    using g(1) as ss unfolding bpsk_rx_ok_def by (metis fst_conv)+
  define h where "h = g\<lparr>rx_agc := a, b_symbol_sync := s\<rparr>"
  have h: "bpsk_rx_ok k h" "agc_output_len h = agc_output_len d" using bpsk_rx_ok_update(3) [OF g(1)] g(2) by (simp_all add: h_def)
  note ho = h(1) [unfolded bpsk_rx_ok_def]
  have "b_type h \<noteq> SDPSK \<longrightarrow> b_mod h \<noteq> None" "0 + length ss \<le> bit_output_len h" "\<forall>n \<in> set_option (debug_constellation_len h). 0 + length ss \<le> n"
    using ho h(2) len x(2) y(2) by auto
  from demodulate_loop_total [OF this, of k] obtain bits ps c prev m where
    l: "bpsk_demodulate_loop k 0 ss h = Some (bits, ps, h\<lparr>costas := c, rx_prev_symbol := prev, b_mod := m\<rparr>)"
      "length bits = length ss" "m = None \<longleftrightarrow> b_mod h = None" by (elim exE conjE) (rule that)
  define q where "q = h\<lparr>costas := c, rx_prev_symbol := prev, b_mod := m\<rparr>"
  have q: "bpsk_rx_ok k q" using bpsk_rx_ok_update(4) [OF h(1) l(3)] by (simp add: q_def)
  have gl: "agc_output_len g = agc_output_len d" "symsync_output_len g = agc_output_len d" "bit_output_len d = agc_output_len d"
    using g ok unfolding bpsk_rx_ok_def by simp_all
  have "bpsk_modem_demodulate k input d = Some (Some bits, q\<lparr>debug_constellation_file :=
      (if debug_constellation_len q = None then debug_constellation_file q else dump ps (debug_constellation_file q))\<rparr>)"
    unfolding bpsk_modem_demodulate_def x(1) y(1) [folded e_def] using n as ss len x(2) y l(1) gl
    by (simp add: into_def flip: e_def g_def h_def q_def)
  moreover have "length bits \<le> bit_output_len d" using l(2) len y(2) x(2) gl(3) by simp
  ultimately show ?thesis using q by (intro exI conjI) (assumption, simp only: bpsk_rx_ok_update(5), assumption)
qed

section \<open>Properties\<close>


text \<open>An example: a modem with two samples per symbol.\<close>

definition example_psk :: bpsk_modem_settings where
  "example_psk = \<lparr>psk_sample_rate = 9600, psk_baud_rate = 4800, psk_bandwidth = 0, psk_rrc_beta = 0, psk_rrc_delay = 1,
     psk_costas_bandwidth = 0, psk_symsync_filter_bank_size = 16, psk_type = SDPSK\<rparr>"

definition example_objects :: "nat bpsk_objects" where
  "example_objects = \<lparr>o_resampler_rx = 0, o_lowpass = 0, o_agc = 0, o_symsync = 0, o_costas = 0, o_mod = 0, o_interp = 0, o_resampler_tx = 0, o_delay = 0\<rparr>"

definition example_psk_dsp :: "(sample, nat bpsk_modem, unit, unit) dsp" where
  "example_psk_dsp = \<lparr>w_modulate = (\<lambda>f. as_pointer (bpsk_modem_modulate example_liquid f)), w_modulate_flush = as_pointer (bpsk_modem_modulate_flush example_liquid),
     w_demodulate = (\<lambda>xs. as_pointer (bpsk_modem_demodulate example_liquid xs)), w_max_modulation = bpsk_modem_max_modulation_buffer_length,
     freq_offset_process = (\<lambda>xs f. (Some xs, f)), decim_execute = (\<lambda>xs r. (hd xs, r)), interp_execute = (\<lambda>x r. ([x, x], r)),
     resampler_reset = (\<lambda>r. ()), sample_zero = (0, 0)\<rparr>"

definition example_psk_modem :: "(sample, nat bpsk_modem, unit, unit) sdr_modem" where
  "example_psk_modem = \<lparr>wrapped = bpsk_modem_new (0, 0) example_psk 1 example_objects, halfband = None,
     halfband_tx = Some (halfband_interp_new (0, 0) 3 1 20 ()), freq_offset = None, debug_freq_offset = None, debug_baseband = None,
     sm_modem_type = MODEM_TYPE_SDPSK, sm_tx_pending = False, baseband_sample_rate = 9600\<rparr>"

lemma example_rate: "bpsk_rate example_psk = (False, 2)"
  by code_simp

lemma example_design:
  "bpsk_design example_psk 1 example_objects =
    \<lparr>pd_type = SDPSK, pd_sps = 2, pd_bits = 8, pd_tail = 2, pd_flush_len = 0, pd_out_len = 0, pd_fresh = (None, (1, 0), 0, None, False)\<rparr>"
  by (simp add: bpsk_design_def bpsk_modem_new_def example_rate Let_def psk_core_def) (simp add: example_psk_def example_objects_def)

lemma example_design_ok:
  "psk_lib_ok example_liquid (bpsk_design example_psk 1 example_objects)" "psk_max (bpsk_design example_psk 1 example_objects) = 20"
  unfolding example_design by (simp_all add: psk_lib_ok_def example_liquid_def psk_max_def psk_resampled_def)


text \<open>
  C16. Symmetric differential PSK decodes what it encodes, whatever quarter turn the carrier recovery locks
  on: when the points the receiver recovers are the symbols the transmitter made of a frame, all turned
  by the same multiple of 90 degrees, the soft bits are 127 for every 1 and -127 for every 0 of the
  frame, the highest bit of each byte first.
\<close>

theorem sdpsk_round_trip:
  assumes types: "b_type tx = SDPSK" "b_type rx = SDPSK"
    and tx: "bpsk_tx_ok lib pd tx" "bpsk_modem_modulate lib frame tx = Some (Some xs, tx1)" "debug_constellation_file tx = Some []"
      "debug_constellation_file tx1 = Some symbols" "tx_prev_symbol tx \<in> quarter_turns"
    and rx: "rot \<in> quarter_turns" "rx_prev_symbol rx = c_mul rot (tx_prev_symbol tx)"
      "bpsk_demodulate_loop lib2 0 ys rx = Some (bits, map (c_mul rot) symbols, rx1)"
  shows "bits = map (\<lambda>b. if b then 127 else - 127) (bits_of frame)"
proof -
  obtain ss m1 prev1 where ss: "psk_symbols lib SDPSK (bits_of frame) (b_mod tx) (tx_prev_symbol tx) = (ss, m1, prev1)" by (metis prod_cases3)
  have "symbols = ss" using bpsk_modulate_debug [OF tx(1,2)] types(1) ss tx(3,4) by (simp add: dump_def)
  with demodulate_loop_sdpsk [OF rx(3) types(2)] rx(2) sdpsk_bits_rotated [OF rx(1) tx(5) ss] show ?thesis by simp
qed

lemma example_fields: "psk_type example_psk = SDPSK" "psk_bandwidth example_psk = 0" "psk_rrc_delay example_psk = 1"
  by (simp_all add: example_psk_def)

lemma demodulate_points:
  "\<forall>x l. nco_mix_down k x l = x \<Longrightarrow> bpsk_demodulate_loop k i xs d = Some (bits, points, d1) \<Longrightarrow> points = xs"
  by (induction xs arbitrary: i d bits points)
    (auto simp: bpsk_demodulate_symbol_def Let_def split: if_splits bind_splits prod.splits)

theorem sdpsk_round_trip_witness:
  "\<exists>symbols rx1 xs tx1.
    bpsk_modem_modulate example_liquid [165] ((bpsk_modem_new (0, 0) example_psk 8 example_objects)\<lparr>debug_constellation_file := Some []\<rparr>) = Some (Some xs, tx1) \<and>
    debug_constellation_file tx1 = Some symbols \<and>
    bpsk_demodulate_loop example_liquid 0 (map (c_mul (0, 1)) symbols) ((bpsk_modem_new (0, 0) example_psk 8 example_objects)\<lparr>rx_prev_symbol := (0, 1)\<rparr>) =
      Some ([127, - 127, 127, - 127, - 127, 127, - 127, 127], map (c_mul (0, 1)) symbols, rx1)"
proof -
  define pd where "pd = bpsk_design example_psk 8 example_objects"
  define d where "d = bpsk_modem_new (0, 0) example_psk 8 example_objects"
  define tx where "tx = d\<lparr>debug_constellation_file := Some []\<rparr>"
  define rx where "rx = d\<lparr>rx_prev_symbol := (0, 1)\<rparr>"
  have pd: "pd_sps pd = 2" "pd_bits pd = 64" "pd_out_len pd = 0" "psk_max pd = 132"
    by (simp_all add: pd_def psk_max_def psk_resampled_def bpsk_design_def bpsk_modem_new_def example_rate Let_def psk_core_def example_fields)
  then have "psk_lib_ok example_liquid pd" by (simp add: psk_lib_ok_def example_liquid_def)
  with bpsk_modem_new_ok(1) [of example_liquid example_psk 8 example_objects "(0, 0)", folded pd_def d_def] pd(4)
  have "bpsk_tx_ok example_liquid pd d" by (simp add: example_liquid_def example_objects_def)
  then have ok: "bpsk_tx_ok example_liquid pd tx" by (simp add: tx_def bpsk_tx_ok_def psk_core_def)
  have f: "b_type d = SDPSK" "tx_prev_symbol d = (1, 0)" "bit_output_len d = 8" "debug_constellation_len d = None"
    by (simp_all add: d_def bpsk_modem_new_def example_rate Let_def example_fields)
  obtain xs c where "bpsk_step example_liquid pd [165] (psk_core tx) = (xs, c)" by (metis surj_pair)
  from bpsk_modulate_step [OF ok _ this] pd(2) obtain tx1 where m: "bpsk_modem_modulate example_liquid [165] tx = Some (Some xs, tx1)" by auto
  obtain symbols where s: "debug_constellation_file tx1 = Some symbols" "length symbols = 8"
    using bpsk_modulate_debug [OF ok m] length_psk_symbols [of example_liquid SDPSK "bits_of [165]" "b_mod d" "(1, 0)"] f
    by (cases "psk_symbols example_liquid SDPSK (bits_of [165]) (b_mod d) (1, 0)") (auto simp: tx_def dump_def)
  from demodulate_loop_total [of rx 0 "map (c_mul (0, 1)) symbols" example_liquid] f s(2) obtain bits ps rx1 where
    l: "bpsk_demodulate_loop example_liquid 0 (map (c_mul (0, 1)) symbols) rx = Some (bits, ps, rx1)" by (auto simp: rx_def)
  moreover have ps: "ps = map (c_mul (0, 1)) symbols" using demodulate_points [OF _ l] by (simp add: example_liquid_def)
  moreover have "bits = map (\<lambda>b. if b then 127 else - 127) (bits_of [165])"
    using sdpsk_round_trip [of tx rx example_liquid pd "[165]" xs tx1 symbols "(0, 1)" example_liquid "map (c_mul (0, 1)) symbols" bits rx1] f ok m s(1) l ps
    by (simp add: tx_def rx_def quarter_turns_def c_mul_def)
  ultimately show ?thesis using m s(1) by (auto simp: bits_of_def upt_rec tx_def rx_def d_def)
qed

end
