(* ===== verification/PskPmModem.thy ===== *)
theory PskPmModem
  imports BpskModem
begin

text \<open>
  PCM/PSK/PM, \<^verbatim>\<open>src/dsp/psk_pm_modem.c\<close>: the signal of an inner PSK modem is put on a subcarrier that modulates
  the phase of the carrier. The inner modem is the model of \<^verbatim>\<open>bpsk_modem.c\<close>, oscillators and the
  functions of the mathematical library are parameters.
\<close>

section \<open>State\<close>

record 'l psk_pm_modem =
  modulation_index :: rat
  p_max_input_buffer_length :: nat
  carrier_pll :: 'l
  subcarrier_nco :: 'l
  subcarrier_output_len :: nat
  subcarrier_modem :: "'l bpsk_modem"
  p_max_modulation_buffer_length :: nat
  p_debug_subcarrier_file :: "sample list option"

section \<open>Operations\<close>

definition psk_pm_modem_max_modulation_buffer_length :: "'l psk_pm_modem \<Rightarrow> nat" where
  "psk_pm_modem_max_modulation_buffer_length d = p_max_modulation_buffer_length d"

fun pm_demodulate_loop :: "'l liquid \<Rightarrow> nat \<Rightarrow> sample list \<Rightarrow> 'l psk_pm_modem \<Rightarrow> (sample list \<times> 'l psk_pm_modem) option" where
  "pm_demodulate_loop k i [] d = Some ([], d)"
| "pm_demodulate_loop k i (x # xs) d =
    (if i < subcarrier_output_len d then do {
       let derotated = nco_mix_down k x (carrier_pll d);
       let discriminator = atan2f k (snd derotated) (fst derotated);
       let baseband = nco_mix_down k (discriminator, 0) (subcarrier_nco d);
       (ys, d1) \<leftarrow> pm_demodulate_loop k (Suc i) xs (d\<lparr>carrier_pll := nco_step k (nco_pll_step k discriminator (carrier_pll d)),
         subcarrier_nco := nco_step k (subcarrier_nco d)\<rparr>);
       Some (baseband # ys, d1) }
     else None)"

definition psk_pm_modem_demodulate :: "'l liquid \<Rightarrow> sample list \<Rightarrow> 'l psk_pm_modem \<Rightarrow> (u8 list option \<times> 'l psk_pm_modem) option" where
  "psk_pm_modem_demodulate k input d =
    (if length input > p_max_input_buffer_length d then Some (None, d)
     else do {
       (xs, d1) \<leftarrow> pm_demodulate_loop k 0 input d;
       let d2 = d1\<lparr>p_debug_subcarrier_file := dump xs (p_debug_subcarrier_file d1)\<rparr>;
       (bits, m) \<leftarrow> bpsk_modem_demodulate k xs (subcarrier_modem d2);
       Some (bits, d2\<lparr>subcarrier_modem := m\<rparr>) })"

fun pm_loop :: "'l liquid \<Rightarrow> rat \<Rightarrow> nat \<Rightarrow> nat \<Rightarrow> sample list \<Rightarrow> 'l \<Rightarrow> (sample list \<times> 'l) option" where
  "pm_loop k h room i [] nco = Some ([], nco)"
| "pm_loop k h room i (x # xs) nco =
    (if i < room then do {
       let subcarrier_sample = fl32 (fst x * nco_cos k nco);
       let phase = fl32 (h * subcarrier_sample);
       (ys, nco1) \<leftarrow> pm_loop k h room (Suc i) xs (nco_step k nco);
       Some ((cosf k phase, sinf k phase) # ys, nco1) }
     else None)"

definition psk_pm_modem_phase_modulate :: "'l liquid \<Rightarrow> sample list \<Rightarrow> 'l psk_pm_modem \<Rightarrow> (sample list option \<times> 'l psk_pm_modem) option" where
  "psk_pm_modem_phase_modulate k xs d = do {
     (ys, nco) \<leftarrow> pm_loop k (modulation_index d) (p_max_modulation_buffer_length d) 0 xs (subcarrier_nco d);
     Some (Some ys, d\<lparr>subcarrier_nco := nco\<rparr>) }"

definition psk_pm_modem_modulate :: "'l liquid \<Rightarrow> u8 list \<Rightarrow> 'l psk_pm_modem \<Rightarrow> (sample list option \<times> 'l psk_pm_modem) option" where
  "psk_pm_modem_modulate k input d = do {
     (r, m) \<leftarrow> bpsk_modem_modulate k input (subcarrier_modem d);
     let d1 = d\<lparr>subcarrier_modem := m\<rparr>;
     (case r of None \<Rightarrow> Some (None, d1) | Some xs \<Rightarrow> psk_pm_modem_phase_modulate k xs d1) }"

definition psk_pm_modem_modulate_flush :: "'l liquid \<Rightarrow> 'l psk_pm_modem \<Rightarrow> (sample list option \<times> 'l psk_pm_modem) option" where
  "psk_pm_modem_modulate_flush k d = do {
     (r, m) \<leftarrow> bpsk_modem_modulate_flush k (subcarrier_modem d);
     let d1 = d\<lparr>subcarrier_modem := m\<rparr>;
     (case r of
        None \<Rightarrow> Some (None, d1)
      | Some xs \<Rightarrow> do {
          (r1, d2) \<leftarrow> psk_pm_modem_phase_modulate k xs d1;
          Some (r1, d2\<lparr>subcarrier_nco := nco_set_phase k 0 (subcarrier_nco d2)\<rparr>) }) }"

definition psk_pm_modem_set_debug_subcarrier_file :: "string option \<Rightarrow> bool \<Rightarrow> 'l psk_pm_modem \<Rightarrow> int \<times> 'l psk_pm_modem" where
  "psk_pm_modem_set_debug_subcarrier_file path opened d =
    (if path = None then (0, d\<lparr>p_debug_subcarrier_file := None\<rparr>)
     else if \<not> opened then (- 1, d\<lparr>p_debug_subcarrier_file := None\<rparr>)
     else (0, d\<lparr>p_debug_subcarrier_file := Some []\<rparr>))"

definition psk_pm_modem_set_debug_constellation_file :: "string option \<Rightarrow> bool \<Rightarrow> bool \<Rightarrow> 'l psk_pm_modem \<Rightarrow> int \<times> 'l psk_pm_modem" where
  "psk_pm_modem_set_debug_constellation_file path malloc_ok opened d =
    (case bpsk_modem_set_debug_constellation_file path malloc_ok opened (subcarrier_modem d) of (code, m) \<Rightarrow> (code, d\<lparr>subcarrier_modem := m\<rparr>))"

section \<open>Construction and destruction\<close>

text \<open>\<^verbatim>\<open>x <= 0.0f\<close> on a bit pattern: negative infinity is, not-a-number is not.\<close>

definition f32_le_zero :: "f32 \<Rightarrow> bool" where
  "f32_le_zero w = (case f32_value w of Some x \<Rightarrow> x \<le> 0 | None \<Rightarrow> bit w 31 \<and> w AND 8388607 = 0)"

definition psk_pm_modem_validate_settings :: "psk_pm_modem_settings \<Rightarrow> int" where
  "psk_pm_modem_validate_settings s =
    (if pm_subcarrier_frequency s = 0 then - EINVAL
     else if (ucast (pm_subcarrier_frequency s) :: u64) * 2 \<ge> pm_sample_rate s then - EINVAL
     else if f32_le_zero (pm_modulation_index s) then - EINVAL
     else if f32_le_zero (pm_carrier_pll_bandwidth s) then - EINVAL
     else 0)"

definition subcarrier_settings :: "psk_pm_modem_settings \<Rightarrow> bpsk_modem_settings" where
  "subcarrier_settings s = \<lparr>psk_sample_rate = pm_sample_rate s, psk_baud_rate = pm_baud_rate s, psk_bandwidth = pm_subcarrier_bandwidth s,
     psk_rrc_beta = pm_rrc_beta s, psk_rrc_delay = pm_rrc_delay s, psk_costas_bandwidth = pm_costas_bandwidth s,
     psk_symsync_filter_bank_size = pm_symsync_filter_bank_size s, psk_type = BPSK\<rparr>"

text \<open>\<open>pll\<close> and \<open>nco\<close> are the new oscillators, \<open>h\<close> the modulation index.\<close>

definition psk_pm_modem_new :: "sample \<Rightarrow> psk_pm_modem_settings \<Rightarrow> u32 \<Rightarrow> 'l bpsk_objects \<Rightarrow> 'l \<Rightarrow> 'l \<Rightarrow> rat \<Rightarrow> 'l psk_pm_modem" where
  "psk_pm_modem_new junk s max_len obj pll nco h = (let m = bpsk_modem_new junk (subcarrier_settings s) max_len obj in
     \<lparr>modulation_index = h, p_max_input_buffer_length = unat max_len, carrier_pll = pll, subcarrier_nco = nco, subcarrier_output_len = unat max_len,
      subcarrier_modem = m, p_max_modulation_buffer_length = bpsk_modem_max_modulation_buffer_length m, p_debug_subcarrier_file = None\<rparr>)"

datatype pm_part = Pm_struct | Pm_modem | Pm_pll | Pm_nco | Pm_subcarrier_output | Pm_modulation_output | Pm_debug_file

fun pm_users :: "pm_part \<Rightarrow> pm_part set" where
  "pm_users Pm_struct = {Pm_modem, Pm_pll, Pm_nco, Pm_subcarrier_output, Pm_modulation_output, Pm_debug_file}"
| "pm_users _ = {}"

definition psk_pm_modem_destroy_order :: "pm_part list" where
  "psk_pm_modem_destroy_order = [Pm_modem, Pm_pll, Pm_nco, Pm_subcarrier_output, Pm_modulation_output, Pm_debug_file, Pm_struct]"

definition psk_pm_modem_destroy :: "pm_part set \<Rightarrow> pm_part set option" where
  "psk_pm_modem_destroy ps = release_all pm_users psk_pm_modem_destroy_order ps"

interpretation psk_pm_modem: component pm_users psk_pm_modem_destroy_order
proof
  show "ordered pm_users {} psk_pm_modem_destroy_order" by (simp add: psk_pm_modem_destroy_order_def)
  show "p \<in> set psk_pm_modem_destroy_order" for p by (cases p) (simp_all add: psk_pm_modem_destroy_order_def)
qed

definition psk_pm_modem_create :: "(pm_part \<Rightarrow> bool) \<Rightarrow> (psk_part \<Rightarrow> bool) \<Rightarrow> psk_pm_modem_settings \<Rightarrow> (int \<times> pm_part set) option" where
  "psk_pm_modem_create oks psk_oks s =
    (if psk_pm_modem_validate_settings s \<noteq> 0 then Some (psk_pm_modem_validate_settings s, {})
     else if \<not> oks Pm_struct then Some (- ENOMEM, {})
     else do {
       (code, _) \<leftarrow> bpsk_modem_create psk_oks (subcarrier_settings s);
       construct pm_users psk_pm_modem_destroy_order [(code = 0, code, Some Pm_modem), (oks Pm_pll, - EINVAL, Some Pm_pll), (oks Pm_nco, - EINVAL, Some Pm_nco),
         (oks Pm_subcarrier_output, - ENOMEM, Some Pm_subcarrier_output), (oks Pm_modulation_output, - ENOMEM, Some Pm_modulation_output)] {Pm_struct} })"

text \<open>Creation is all or nothing, including the inner modem; an accepted subcarrier lies below half of the sample rate.\<close>

lemma psk_pm_modem_create_outcome:
  "\<exists>code ps. psk_pm_modem_create oks psk_oks s = Some (code, ps) \<and>
    (if code = 0 then ps = - {Pm_debug_file} \<and> 2 * unat (pm_subcarrier_frequency s) < unat (pm_sample_rate s) else ps = {})"
proof -
  from bpsk_modem_create_outcome [of psk_oks "subcarrier_settings s"] obtain c q where c: "bpsk_modem_create psk_oks (subcarrier_settings s) = Some (c, q)" by blast
  let ?steps = "[(c = 0, c, Some Pm_modem), (oks Pm_pll, - EINVAL, Some Pm_pll), (oks Pm_nco, - EINVAL, Some Pm_nco),
    (oks Pm_subcarrier_output, - ENOMEM, Some Pm_subcarrier_output), (oks Pm_modulation_output, - ENOMEM, Some Pm_modulation_output)]"
  have "list_all (\<lambda>st. fst st \<or> fst (snd st) \<noteq> 0) ?steps" by simp
  note o = psk_pm_modem.construct_outcome [OF this, of "{Pm_struct}"]
  have parts: "{Pm_struct} \<union> parts_of ?steps = - {Pm_debug_file}"
  proof -
    have "p \<in> {Pm_struct} \<union> parts_of ?steps \<longleftrightarrow> p \<in> - {Pm_debug_file}" for p by (cases p) (simp_all add: parts_of_def)
    then show ?thesis by blast
  qed
  have "2 * unat (pm_subcarrier_frequency s) < unat (pm_sample_rate s)" if "psk_pm_modem_validate_settings s = 0"
  proof -
    have "unat (pm_subcarrier_frequency s) < 2 ^ 32" using unsigned_less [of "pm_subcarrier_frequency s", where 'a = nat] by simp
    then have "unat ((ucast (pm_subcarrier_frequency s) :: u64) * 2) = 2 * unat (pm_subcarrier_frequency s)"
      by (simp add: unat_word_ariths unsigned_ucast_eq take_bit_nat_eq_self)
    with that show ?thesis by (auto simp: psk_pm_modem_validate_settings_def word_le_nat_alt split: if_splits)
  qed
  with o c parts show ?thesis by (auto simp: psk_pm_modem_create_def split: if_splits)
qed

section \<open>The stream of a transmission\<close>

fun pm_signal :: "'l liquid \<Rightarrow> rat \<Rightarrow> sample list \<Rightarrow> 'l \<Rightarrow> sample list \<times> 'l" where
  "pm_signal k h [] nco = ([], nco)"
| "pm_signal k h (x # xs) nco = (let phase = fl32 (h * fl32 (fst x * nco_cos k nco)) in
     case pm_signal k h xs (nco_step k nco) of (ys, nco1) \<Rightarrow> ((cosf k phase, sinf k phase) # ys, nco1))"

lemma pm_loop_signal: "i + length xs \<le> room \<Longrightarrow> pm_loop k h room i xs nco = Some (pm_signal k h xs nco)"
  by (induction xs arbitrary: i nco) (auto simp: Let_def split: prod.split)

lemma length_pm_signal: "length (fst (pm_signal k h xs nco)) = length xs"
  by (induction xs arbitrary: nco) (auto simp: Let_def split: prod.split, metis fst_conv)

lemma pm_signal_reset:
  "\<forall>l. nco_set_phase k 0 (nco_step k l) = nco_set_phase k 0 l \<Longrightarrow> nco_set_phase k 0 (snd (pm_signal k h xs nco)) = nco_set_phase k 0 nco"
  by (induction xs arbitrary: nco) (auto simp: Let_def split: prod.split, metis snd_conv)

type_synonym 'l pm_core = "'l psk_core \<times> 'l"

definition pm_core :: "'l psk_pm_modem \<Rightarrow> 'l pm_core" where
  "pm_core d = (psk_core (subcarrier_modem d), subcarrier_nco d)"

definition pm_step :: "'l liquid \<Rightarrow> 'l psk_design \<Rightarrow> rat \<Rightarrow> u8 list \<Rightarrow> 'l pm_core \<Rightarrow> sample list \<times> 'l pm_core" where
  "pm_step k pd h f c = (case c of (p, nco) \<Rightarrow> case bpsk_step k pd f p of (xs, p1) \<Rightarrow> case pm_signal k h xs nco of (ys, nco1) \<Rightarrow> (ys, (p1, nco1)))"

definition pm_final :: "'l liquid \<Rightarrow> 'l psk_design \<Rightarrow> rat \<Rightarrow> 'l pm_core \<Rightarrow> sample list" where
  "pm_final k pd h c = (case c of (p, nco) \<Rightarrow> fst (pm_signal k h (bpsk_final k pd p) nco))"

text \<open>\<open>nco0\<close> is the subcarrier at phase 0; setting the phase forgets the samples in between.\<close>

definition pm_tx_ok :: "'l liquid \<Rightarrow> 'l psk_design \<Rightarrow> 'l \<Rightarrow> rat \<Rightarrow> 'l psk_pm_modem \<Rightarrow> bool" where
  "pm_tx_ok k pd nco0 h d \<longleftrightarrow> bpsk_tx_ok k pd (subcarrier_modem d) \<and> p_max_modulation_buffer_length d = bpsk_limit pd \<and> modulation_index d = h \<and>
    (\<forall>l. nco_set_phase k 0 (nco_step k l) = nco_set_phase k 0 l) \<and> nco_set_phase k 0 (subcarrier_nco d) = nco0 \<and>
    nco_set_phase k 0 nco0 = nco0"

lemma pm_modulated:
  assumes "length xs \<le> p_max_modulation_buffer_length d" "pm_signal k (modulation_index d) xs (subcarrier_nco d) = (ys, nco)"
  shows "psk_pm_modem_phase_modulate k xs d = Some (Some ys, d\<lparr>subcarrier_nco := nco\<rparr>)" "length ys = length xs"
  using assms pm_loop_signal [of 0 xs "p_max_modulation_buffer_length d" k "modulation_index d" "subcarrier_nco d"]
    length_pm_signal [of k "modulation_index d" xs "subcarrier_nco d"] by (simp_all add: psk_pm_modem_phase_modulate_def)

interpretation psk_pm: transmitter "psk_pm_modem_modulate k" "psk_pm_modem_modulate_flush k" "pm_tx_ok k pd start h" pm_core "pm_step k pd h" "pm_final k pd h"
  "(pd_fresh pd, start)" "pd_bits pd div 8" "bpsk_limit pd" for k :: "'l liquid" and pd start h
proof
  fix m :: "'l psk_pm_modem" and f xs c
  assume ok: "pm_tx_ok k pd start h m"
  then have sub: "bpsk_tx_ok k pd (subcarrier_modem m)" and m: "p_max_modulation_buffer_length m = bpsk_limit pd" "modulation_index m = h"
    "nco_set_phase k 0 (subcarrier_nco m) = start" "nco_set_phase k 0 start = start" and reset: "\<forall>l. nco_set_phase k 0 (nco_step k l) = nco_set_phase k 0 l"
    by (auto simp: pm_tx_ok_def)
  show "psk_pm_modem_modulate k f m = Some (None, m)" if "pd_bits pd div 8 < length f"
    using bpsk_modulate_oversize [OF sub that] by (simp add: psk_pm_modem_modulate_def)
  show "\<exists>m1. psk_pm_modem_modulate k f m = Some (Some xs, m1) \<and> pm_tx_ok k pd start h m1 \<and> pm_core m1 = c \<and> length xs \<le> bpsk_limit pd"
    if f: "length f \<le> pd_bits pd div 8" and st: "pm_step k pd h f (pm_core m) = (xs, c)"
  proof -
    obtain ys p where y: "bpsk_step k pd f (psk_core (subcarrier_modem m)) = (ys, p)" by (metis surj_pair)
    obtain nco where n: "pm_signal k h ys (subcarrier_nco m) = (xs, nco)" "c = (p, nco)"
      using st y by (auto simp: pm_step_def pm_core_def split: prod.splits)
    from bpsk_modulate_step [OF sub f y] obtain s where
      s: "bpsk_modem_modulate k f (subcarrier_modem m) = Some (Some ys, s)" "bpsk_tx_ok k pd s" "psk_core s = p" "length ys \<le> bpsk_limit pd" by blast
    from pm_modulated [of ys "m\<lparr>subcarrier_modem := s\<rparr>" k xs nco] s(4) m n(1)
    have "psk_pm_modem_modulate k f m = Some (Some xs, m\<lparr>subcarrier_modem := s, subcarrier_nco := nco\<rparr>)" "length xs = length ys"
      using s(1) by (simp_all add: psk_pm_modem_modulate_def)
    moreover have "nco_set_phase k 0 nco = start" using pm_signal_reset [OF reset, of h ys "subcarrier_nco m"] n(1) m(3) by simp
    ultimately show ?thesis using s n(2) m reset by (auto simp: pm_tx_ok_def pm_core_def)
  qed
  show "\<exists>m1. psk_pm_modem_modulate_flush k m = Some (Some (pm_final k pd h (pm_core m)), m1) \<and> pm_tx_ok k pd start h m1 \<and>
    pm_core m1 = (pd_fresh pd, start) \<and> length (pm_final k pd h (pm_core m)) \<le> bpsk_limit pd"
  proof -
    let ?ys = "bpsk_final k pd (psk_core (subcarrier_modem m))"
    obtain zs nco where n: "pm_signal k h ?ys (subcarrier_nco m) = (zs, nco)" by fastforce
    from bpsk_flush_step [OF sub] obtain s where
      s: "bpsk_modem_modulate_flush k (subcarrier_modem m) = Some (Some ?ys, s)" "bpsk_tx_ok k pd s" "psk_core s = pd_fresh pd" "length ?ys \<le> bpsk_limit pd" by blast
    have fin: "pm_final k pd h (pm_core m) = zs" using n by (simp add: pm_final_def pm_core_def)
    have nc: "nco_set_phase k 0 nco = start" using pm_signal_reset [OF reset, of h ?ys "subcarrier_nco m"] n m(3) by simp
    from pm_modulated [of ?ys "m\<lparr>subcarrier_modem := s\<rparr>" k zs nco] s(4) m n
    have "psk_pm_modem_modulate_flush k m = Some (Some zs, m\<lparr>subcarrier_modem := s, subcarrier_nco := start\<rparr>)" "length zs = length ?ys"
      using s(1) nc by (simp_all add: psk_pm_modem_modulate_flush_def)
    then show ?thesis using s fin m reset by (auto simp: pm_tx_ok_def pm_core_def)
  qed
qed

text \<open>Receiving stays within its buffers when the inner modem does.\<close>

lemma pm_demodulate_loop_total:
  "i + length xs \<le> subcarrier_output_len d \<Longrightarrow>
   \<exists>ys pll nco. pm_demodulate_loop k i xs d = Some (ys, d\<lparr>carrier_pll := pll, subcarrier_nco := nco\<rparr>) \<and> length ys = length xs"
proof (induction xs arbitrary: i d)
  case Nil
  have "d = d\<lparr>carrier_pll := carrier_pll d, subcarrier_nco := subcarrier_nco d\<rparr>" by simp
  then show ?case by (metis list.size(3) pm_demodulate_loop.simps(1))
next
  case (Cons x xs)
  let ?disc = "atan2f k (snd (nco_mix_down k x (carrier_pll d))) (fst (nco_mix_down k x (carrier_pll d)))"
  let ?d = "d\<lparr>carrier_pll := nco_step k (nco_pll_step k ?disc (carrier_pll d)), subcarrier_nco := nco_step k (subcarrier_nco d)\<rparr>"
  have "Suc i + length xs \<le> subcarrier_output_len ?d" using Cons.prems by simp
  from Cons.IH [OF this] obtain ys pll nco where
    "pm_demodulate_loop k (Suc i) xs ?d = Some (ys, ?d\<lparr>carrier_pll := pll, subcarrier_nco := nco\<rparr>)" "length ys = length xs" by (elim exE conjE) (rule that)
  with Cons.prems show ?case by (simp add: Let_def) blast
qed

lemma psk_pm_demodulate_total:
  assumes "bpsk_rx_ok k (subcarrier_modem d)" "b_max_input_buffer_length (subcarrier_modem d) = p_max_input_buffer_length d"
    "p_max_input_buffer_length d \<le> subcarrier_output_len d" "length input \<le> p_max_input_buffer_length d"
  shows "\<exists>bits d1. psk_pm_modem_demodulate k input d = Some (Some bits, d1) \<and> bpsk_rx_ok k (subcarrier_modem d1)"
proof -
  have "0 + length input \<le> subcarrier_output_len d" using assms(3,4) by simp
  from pm_demodulate_loop_total [OF this, of k] obtain ys pll nco where
    l: "pm_demodulate_loop k 0 input d = Some (ys, d\<lparr>carrier_pll := pll, subcarrier_nco := nco\<rparr>)" "length ys = length input" by (elim exE conjE) (rule that)
  with bpsk_demodulate_total [OF assms(1), of ys] assms(2,4) obtain bits m where
    "bpsk_modem_demodulate k ys (subcarrier_modem d) = Some (Some bits, m)" "bpsk_rx_ok k m" by auto
  with l(1) assms(4) show ?thesis by (simp add: psk_pm_modem_demodulate_def)
qed

section \<open>Properties\<close>


definition example_pm :: psk_pm_modem_settings where
  "example_pm = \<lparr>pm_sample_rate = 9600, pm_subcarrier_frequency = 100, pm_carrier_pll_bandwidth = 0, pm_baud_rate = 4800, pm_subcarrier_bandwidth = 0,
     pm_rrc_beta = 0, pm_rrc_delay = 1, pm_costas_bandwidth = 0, pm_symsync_filter_bank_size = 16, pm_modulation_index = 0\<rparr>"

definition example_pm_dsp :: "(sample, nat psk_pm_modem, unit, unit) dsp" where
  "example_pm_dsp = \<lparr>w_modulate = (\<lambda>f. as_pointer (psk_pm_modem_modulate example_liquid f)), w_modulate_flush = as_pointer (psk_pm_modem_modulate_flush example_liquid),
     w_demodulate = (\<lambda>xs. as_pointer (psk_pm_modem_demodulate example_liquid xs)), w_max_modulation = psk_pm_modem_max_modulation_buffer_length,
     freq_offset_process = (\<lambda>xs f. (Some xs, f)), decim_execute = (\<lambda>xs r. (hd xs, r)), interp_execute = (\<lambda>x r. ([x, x], r)),
     resampler_reset = (\<lambda>r. ()), sample_zero = (0, 0)\<rparr>"

definition example_pm_modem :: "(sample, nat psk_pm_modem, unit, unit) sdr_modem" where
  "example_pm_modem = \<lparr>wrapped = psk_pm_modem_new (0, 0) example_pm 1 example_objects 0 0 1, halfband = None,
     halfband_tx = Some (halfband_interp_new (0, 0) 3 1 20 ()), freq_offset = None, debug_freq_offset = None, debug_baseband = None,
     sm_modem_type = MODEM_TYPE_PSK_PM, sm_tx_pending = False, baseband_sample_rate = 9600\<rparr>"

lemma example_pm_design:
  "bpsk_design (subcarrier_settings example_pm) 1 example_objects =
    \<lparr>pd_type = BPSK, pd_sps = 2, pd_bits = 8, pd_tail = 2, pd_flush_len = 0, pd_out_len = 0, pd_fresh = (Some 0, (1, 0), 0, None, False)\<rparr>"
proof -
  have r: "bpsk_rate (subcarrier_settings example_pm) = (False, 2)" by code_simp
  show ?thesis by (simp add: bpsk_design_def bpsk_modem_new_def r Let_def psk_core_def) (simp add: subcarrier_settings_def example_pm_def example_objects_def)
qed


end
