(* ===== verification/GfskCorrelator.thy ===== *)
theory GfskCorrelator
  imports Binary32 Construction
begin

text \<open>
  The search for the sync word, \<^verbatim>\<open>src/dsp/gfsk_correlator.c\<close>. Samples arrive in buffers behind a history; a
  correlation peak starts the sampler at the first symbol of the sync word, some samples behind the
  correlator. Every index is checked. The dot product of liquid-dsp, its pulse design and the square
  root are parameters; the arithmetic of the code is rounded as in C, a division by zero (a
  template without energy) is not followed.
\<close>

abbreviation (input) GFSK_CORRELATOR_PEAK_SEARCH_SYMBOLS :: nat where "GFSK_CORRELATOR_PEAK_SEARCH_SYMBOLS \<equiv> 8"

section \<open>State\<close>

record gfsk_correlator =
  c_sps :: nat
  threshold :: rat
  c_max_input_buffer_length :: nat
  burst_len :: nat
  template_len :: nat
  peak_search_len :: nat
  sampler_lag :: nat
  history_len :: nat
  c_samples :: "rat list"
  template_mean :: rat
  template_energy :: rat
  correlator_index :: nat
  holdoff_index :: nat
  peak_search :: bool
  peak_index :: nat
  peak_value :: rat
  burst_peak :: rat
  burst_end_index :: nat
  sample_position :: rat
  c_dc :: rat
  c_gain :: rat
  c_output_len :: nat

text \<open>The functions of the libraries.\<close>

record correlator_lib =
  dotprod_execute :: "rat list \<Rightarrow> rat"
  sqrtf :: "rat \<Rightarrow> rat"

section \<open>The template\<close>

fun each :: "('a \<Rightarrow> 'b \<Rightarrow> 'b option) \<Rightarrow> 'a list \<Rightarrow> 'b \<Rightarrow> 'b option" where
  "each f [] s = Some s"
| "each f (x # xs) s = do { s1 \<leftarrow> f x s; each f xs s1 }"

definition sum_f :: "rat list \<Rightarrow> rat" where
  "sum_f xs = foldl (\<lambda>s x. fl32 (s + x)) 0 xs"

text \<open>\<^verbatim>\<open>buf[i] += v\<close>\<close>

definition add_at :: "nat \<Rightarrow> rat \<Rightarrow> rat list \<Rightarrow> rat list option" where
  "add_at i v buf = do { x \<leftarrow> get_at buf i; set_at buf i (fl32 (x + v)) }"

definition scaled_pulse :: "nat \<Rightarrow> rat list \<Rightarrow> rat list" where
  "scaled_pulse sps tx = map (\<lambda>x. fl32 (x * fl32 (fl32 (of_nat sps) / sum_f tx))) tx"

definition convolved :: "rat list \<Rightarrow> rat list \<Rightarrow> rat list option" where
  "convolved tx rx = each (\<lambda>(i, j). add_at (i + j) (fl32 (tx ! i * rx ! j)))
     [(i, j). i \<leftarrow> [0..<length tx], j \<leftarrow> [0..<length rx]] (replicate (length tx + length rx - 1) 0)"

text \<open>Symbol \<open>i\<close> of the sync word adds the pulse, centred at the middle of the symbol.\<close>

definition template_of :: "nat \<Rightarrow> nat \<Rightarrow> rat list \<Rightarrow> u64 \<Rightarrow> nat \<Rightarrow> rat list option" where
  "template_of sps len pulse syncword bits =
     each (\<lambda>(i, j) t.
       let symbol = (if bit syncword (bits - i - 1) then 1 else - 1);
           pulse_index = int j - int (i * sps + sps div 2) + int (length pulse div 2)
       in if 0 \<le> pulse_index \<and> pulse_index < int (length pulse) then add_at j (symbol * pulse ! nat pulse_index) t else Some t)
     [(i, j). i \<leftarrow> [0..<bits], j \<leftarrow> [0..<len]] (replicate len 0)"

text \<open>The result is the zero mean template, its mean and its energy; \<open>tx\<close> is the pulse of liquid-dsp.\<close>

definition gfsk_correlator_create_template :: "nat \<Rightarrow> rat list \<Rightarrow> rat list \<Rightarrow> u64 \<Rightarrow> nat \<Rightarrow> (rat list \<times> rat \<times> rat) option" where
  "gfsk_correlator_create_template sps tx rx syncword bits = do {
     pulse \<leftarrow> convolved (scaled_pulse sps tx) rx;
     template \<leftarrow> template_of sps (bits * sps) pulse syncword bits;
     let mean = fl32 (sum_f template / fl32 (of_nat (bits * sps)));
     let zero_mean = map (\<lambda>x. fl32 (x - mean)) template;
     Some (zero_mean, mean, foldl (\<lambda>e x. fl32 (e + fl32 (x * x))) 0 zero_mean) }"

definition gfsk_correlator_new :: "nat \<Rightarrow> nat \<Rightarrow> rat \<Rightarrow> nat \<Rightarrow> nat \<Rightarrow> rat \<Rightarrow> rat \<Rightarrow> gfsk_correlator" where
  "gfsk_correlator_new sps bits thr burst_symbols max_len mean energy = (
     let tl = bits * sps; psl = GFSK_CORRELATOR_PEAK_SEARCH_SYMBOLS * sps; lag = tl + psl + sps; hl = lag + 2 * sps in
     \<lparr>c_sps = sps, threshold = thr, c_max_input_buffer_length = max_len, burst_len = burst_symbols * sps, template_len = tl, peak_search_len = psl,
      sampler_lag = lag, history_len = hl, c_samples = replicate (hl + max_len) 0, template_mean = mean, template_energy = energy,
      correlator_index = hl, holdoff_index = 0, peak_search = False, peak_index = 0, peak_value = 0, burst_peak = 0, burst_end_index = 0,
      sample_position = fl64 (of_nat hl), c_dc = 0, c_gain = 1, c_output_len = max_len div sps + 4\<rparr>)"

section \<open>Correlation\<close>

text \<open>The normalised correlation of the window that ends at \<open>e\<close>, the raw dot product and the mean.\<close>

definition gfsk_correlator_correlate :: "correlator_lib \<Rightarrow> gfsk_correlator \<Rightarrow> nat \<Rightarrow> (rat \<times> rat \<times> rat) option" where
  "gfsk_correlator_correlate k c e =
    (if template_len c \<le> e + 1 \<and> e < length (c_samples c) then
       let window = take (template_len c) (drop (e + 1 - template_len c) (c_samples c));
           n = fl32 (of_nat (template_len c));
           s = sum_f window;
           sum_squares = foldl (\<lambda>q x. fl32 (q + fl32 (x * x))) 0 window;
           dot = dotprod_execute k window;
           variance = fl32 (sum_squares - fl32 (fl32 (s * s) / n))
       in Some (if variance \<le> fl32 (1 / 10 ^ 9) then 0 else fl32 (dot / sqrtf k (fl32 (variance * template_energy c))), dot, fl32 (s / n))
     else None)"

text \<open>The fractional position of the peak, at most half a sample away.\<close>

definition peak_fraction :: "rat \<Rightarrow> rat \<Rightarrow> rat \<Rightarrow> rat" where
  "peak_fraction before peak after = (let denominator = fl32 (fl32 (before - fl32 (2 * peak)) + after) in
     if denominator < 0 then let fraction = fl32 (fl32 (1 / 2 * fl32 (before - after)) / denominator) in
       (if fraction > 1 / 2 then 1 / 2 else if fraction < - 1 / 2 then - 1 / 2 else fraction)
     else 0)"

definition gfsk_correlator_sync :: "correlator_lib \<Rightarrow> gfsk_correlator \<Rightarrow> gfsk_correlator option" where
  "gfsk_correlator_sync k c = do {
     (peak, correlation, mean) \<leftarrow> gfsk_correlator_correlate k c (peak_index c);
     (if peak_index c = 0 then None else Some ());
     (before, _, _) \<leftarrow> gfsk_correlator_correlate k c (peak_index c - 1);
     (after, _, _) \<leftarrow> gfsk_correlator_correlate k c (peak_index c + 1);
     let fraction = peak_fraction \<bar>before\<bar> \<bar>peak\<bar> \<bar>after\<bar>;
     let amplitude = fl32 (correlation / template_energy c);
     Some (c\<lparr>c_dc := fl32 (mean - fl32 (amplitude * template_mean c)),
       c_gain := (if \<bar>amplitude\<bar> > fl32 (1 / 1000) then fl32 (1 / \<bar>amplitude\<bar>) else c_gain c),
       sample_position := fl64 (fl64 (fl64 (of_nat (peak_index c) + fraction) - of_nat (template_len c - 1)) + of_nat (c_sps c div 2)),
       holdoff_index := peak_index c + template_len c, peak_search := False, burst_peak := peak_value c,
       burst_end_index := peak_index c + burst_len c\<rparr>) }"

section \<open>Sampling\<close>

text \<open>\<^verbatim>\<open>rintf\<close> rounds to even; the result is stored as a signed byte.\<close>

definition soft_symbol :: "rat \<Rightarrow> u8" where
  "soft_symbol r = of_int (round_even (if r > 127 then 127 else if r < - 128 then - 128 else r))"

definition gfsk_correlator_output_symbol :: "nat \<Rightarrow> gfsk_correlator \<Rightarrow> (u8 \<times> gfsk_correlator) option" where
  "gfsk_correlator_output_symbol num_symbols c =
    (if sample_position c > - 1 then do {
       let index = nat (trunc (sample_position c));
       let mu = fl32 (fl64 (sample_position c - of_nat index));
       x \<leftarrow> get_at (c_samples c) index;
       y \<leftarrow> get_at (c_samples c) (index + 1);
       let value = fl32 (fl32 (x * fl32 (1 - mu)) + fl32 (y * mu));
       let r = fl32 (fl32 (fl32 (value - c_dc c) * c_gain c) * 127);
       (if num_symbols < c_output_len c
        then Some (soft_symbol r, c\<lparr>sample_position := fl64 (sample_position c + of_nat (c_sps c))\<rparr>) else None) }
     else None)"

partial_function (option) sampler_loop :: "nat \<Rightarrow> nat \<Rightarrow> gfsk_correlator \<Rightarrow> (u8 list \<times> gfsk_correlator) option" where
  "sampler_loop index n c =
    (if fl64 (sample_position c + of_nat (sampler_lag c)) \<le> of_nat index then do {
       (b, c1) \<leftarrow> gfsk_correlator_output_symbol n c;
       (bs, c2) \<leftarrow> sampler_loop index (Suc n) c1;
       Some (b # bs, c2) }
     else Some ([], c))"

section \<open>Processing\<close>

text \<open>One position of the correlator: a new or better peak, the end of a peak search, the symbols that are due.\<close>

definition correlator_peak :: "correlator_lib \<Rightarrow> nat \<Rightarrow> gfsk_correlator \<Rightarrow> gfsk_correlator option" where
  "correlator_peak k index c =
    (if index \<ge> holdoff_index c then do {
       (v, _, _) \<leftarrow> gfsk_correlator_correlate k c index;
       let value = \<bar>v\<bar>;
       let min_value = (if index < burst_end_index c then burst_peak c else 0);
       Some (if value \<ge> threshold c \<and> value > min_value \<and> (\<not> peak_search c \<or> value > peak_value c)
         then c\<lparr>peak_search := True, peak_index := index, peak_value := value\<rparr> else c) }
     else Some c)"

fun correlator_loop :: "correlator_lib \<Rightarrow> nat \<Rightarrow> nat \<Rightarrow> gfsk_correlator \<Rightarrow> (u8 list \<times> gfsk_correlator) option" where
  "correlator_loop k 0 n c = Some ([], c)"
| "correlator_loop k (Suc todo) n c = do {
     let index = correlator_index c;
     c1 \<leftarrow> correlator_peak k index c;
     c2 \<leftarrow> (if peak_search c1 \<and> index - peak_index c1 \<ge> peak_search_len c1 then gfsk_correlator_sync k c1 else Some c1);
     (bs, c3) \<leftarrow> sampler_loop index n c2;
     (bs2, c4) \<leftarrow> correlator_loop k todo (n + length bs) (c3\<lparr>correlator_index := index + 1\<rparr>);
     Some (bs @ bs2, c4) }"

definition gfsk_correlator_process :: "correlator_lib \<Rightarrow> rat list \<Rightarrow> gfsk_correlator \<Rightarrow> (u8 list option \<times> gfsk_correlator) option" where
  "gfsk_correlator_process k input c =
    (if length input > c_max_input_buffer_length c then Some (None, c)
     else do {
       samples \<leftarrow> memcpy (c_samples c) (history_len c) input (length input);
       let samples_len = history_len c + length input;
       (bits, c1) \<leftarrow> correlator_loop k (samples_len - correlator_index c) 0 (c\<lparr>c_samples := samples\<rparr>);
       let shift = samples_len - history_len c;
       samples1 \<leftarrow> memcpy (c_samples c1) 0 (drop shift (c_samples c1)) (history_len c);
       Some (Some bits, c1\<lparr>c_samples := samples1, correlator_index := correlator_index c1 - shift,
         sample_position := fl64 (sample_position c1 - of_nat shift),
         holdoff_index := (if holdoff_index c1 > shift then holdoff_index c1 - shift else 0),
         burst_end_index := (if burst_end_index c1 > shift then burst_end_index c1 - shift else 0),
         peak_index := (if peak_search c1 then peak_index c1 - shift else peak_index c1)\<rparr>) })"

section \<open>Construction and destruction\<close>

datatype correlator_part = Corr_struct | Corr_dotprod | Corr_samples | Corr_output

fun corr_users :: "correlator_part \<Rightarrow> correlator_part set" where
  "corr_users Corr_struct = {Corr_dotprod, Corr_samples, Corr_output}"
| "corr_users _ = {}"

definition gfsk_correlator_destroy_order :: "correlator_part list" where
  "gfsk_correlator_destroy_order = [Corr_dotprod, Corr_samples, Corr_output, Corr_struct]"

definition gfsk_correlator_destroy :: "correlator_part set \<Rightarrow> correlator_part set option" where
  "gfsk_correlator_destroy ps = release_all corr_users gfsk_correlator_destroy_order ps"

interpretation gfsk_correlator: component corr_users gfsk_correlator_destroy_order
proof
  show "ordered corr_users {} gfsk_correlator_destroy_order" by (simp add: gfsk_correlator_destroy_order_def)
  show "p \<in> set gfsk_correlator_destroy_order" for p by (cases p) (simp_all add: gfsk_correlator_destroy_order_def)
qed

text \<open>\<open>template_code\<close> is what the construction of the template answers, -ENOMEM or -EINVAL when it fails.\<close>

definition gfsk_correlator_create :: "(correlator_part \<Rightarrow> bool) \<Rightarrow> int \<Rightarrow> nat \<Rightarrow> nat \<Rightarrow> (int \<times> correlator_part set) option" where
  "gfsk_correlator_create oks template_code sps bits =
    (if sps < 2 \<or> sps mod 2 \<noteq> 0 then Some (- EINVAL, {})
     else if bits = 0 then Some (- EINVAL, {})
     else if \<not> oks Corr_struct then Some (- ENOMEM, {})
     else construct corr_users gfsk_correlator_destroy_order [(template_code = 0, template_code, Some Corr_dotprod),
       (oks Corr_samples, - ENOMEM, Some Corr_samples), (oks Corr_output, - ENOMEM, Some Corr_output)] {Corr_struct})"

section \<open>Index safety\<close>

text \<open>What stays fixed, and the sizes: below \<open>2 ^ 52\<close> every index is a \<^verbatim>\<open>double\<close>.\<close>

definition corr_setup :: "gfsk_correlator \<Rightarrow> bool" where
  "corr_setup c \<longleftrightarrow> 2 \<le> c_sps c \<and> even (c_sps c) \<and> 0 < template_len c \<and> peak_search_len c = 8 * c_sps c \<and>
    sampler_lag c = template_len c + 9 * c_sps c \<and> history_len c = sampler_lag c + 2 * c_sps c \<and>
    length (c_samples c) = history_len c + c_max_input_buffer_length c \<and> c_output_len c = c_max_input_buffer_length c div c_sps c + 4 \<and>
    length (c_samples c) < 2 ^ 50"

text \<open>The position of the sampler in whole samples, with its lag.\<close>

definition sampler_at :: "gfsk_correlator \<Rightarrow> int" where
  "sampler_at c = \<lfloor>sample_position c\<rfloor> + int (sampler_lag c)"

text \<open>
  Before position \<open>i\<close> of the correlator, with \<open>n\<close> symbols so far in this call: the sampler is at most one
  sample behind, a peak is not older than the search, and the symbols fit into the samples that passed.
\<close>

definition corr_inv :: "nat \<Rightarrow> nat \<Rightarrow> gfsk_correlator \<Rightarrow> bool" where
  "corr_inv i n c \<longleftrightarrow> corr_setup c \<and> history_len c \<le> i \<and> int i - 1 \<le> sampler_at c \<and> sample_position c \<le> of_nat (length (c_samples c)) \<and>
    int (n * c_sps c) \<le> sampler_at c - (int (history_len c) - 1) \<and>
    (peak_search c \<longrightarrow> peak_index c < i \<and> i \<le> peak_index c + peak_search_len c) \<and>
    (n = 0 \<or> sampler_at c \<le> int (i + c_sps c) + 1 \<or> sampler_at c \<le> int ((if peak_search c then peak_index c else i) + 2 * c_sps c) + 1)"

lemma position_rounded:
  assumes "\<bar>x\<bar> < 2 ^ 53"
  shows "\<lfloor>x\<rfloor> \<le> \<lfloor>fl64 x\<rfloor>" "\<lfloor>fl64 x\<rfloor> \<le> \<lfloor>x\<rfloor> + 1" "x \<le> of_int n \<Longrightarrow> fl64 x \<le> of_int n" "of_int n \<le> x \<Longrightarrow> of_int n \<le> fl64 x"
proof -
  note b = fl_integer_bounds [OF assms]
  show "x \<le> of_int n \<Longrightarrow> fl64 x \<le> of_int n" "of_int n \<le> x \<Longrightarrow> of_int n \<le> fl64 x" by (fact b)+
  have "of_int \<lfloor>x\<rfloor> \<le> x" "x \<le> of_int (\<lfloor>x\<rfloor> + 1)" by linarith+
  then have "of_int \<lfloor>x\<rfloor> \<le> fl64 x" "fl64 x \<le> of_int (\<lfloor>x\<rfloor> + 1)" using b by blast+
  then show "\<lfloor>x\<rfloor> \<le> \<lfloor>fl64 x\<rfloor>" "\<lfloor>fl64 x\<rfloor> \<le> \<lfloor>x\<rfloor> + 1" by linarith+
qed

lemma correlate_total:
  "template_len c \<le> e + 1 \<Longrightarrow> e < length (c_samples c) \<Longrightarrow> \<exists>v d m. gfsk_correlator_correlate k c e = Some (v, d, m)"
  by (simp add: gfsk_correlator_correlate_def Let_def)

lemma peak_fraction_bounds: "\<bar>peak_fraction before peak after\<bar> \<le> 1 / 2"
  by (auto simp: peak_fraction_def Let_def abs_le_iff)

lemma correlator_peak_safe:
  assumes inv: "corr_inv i n c" and i: "i < length (c_samples c)"
  shows "\<exists>c1. correlator_peak k i c = Some c1 \<and> corr_setup c1 \<and> history_len c1 = history_len c \<and> c_sps c1 = c_sps c \<and> c_samples c1 = c_samples c \<and>
    sample_position c1 = sample_position c \<and> sampler_lag c1 = sampler_lag c \<and> correlator_index c1 = correlator_index c \<and>
    c_max_input_buffer_length c1 = c_max_input_buffer_length c \<and>
    (peak_search c1 \<longrightarrow> peak_index c1 \<le> i \<and> i \<le> peak_index c1 + peak_search_len c) \<and>
    (n = 0 \<or> sampler_at c \<le> int (i + c_sps c) + 1 \<or> sampler_at c \<le> int ((if peak_search c1 then peak_index c1 else i) + 2 * c_sps c) + 1)"
proof -
  have "template_len c \<le> i + 1" using inv by (auto simp: corr_inv_def corr_setup_def)
  from correlate_total [OF this i, of k] obtain v d m where "gfsk_correlator_correlate k c i = Some (v, d, m)" by blast
  with inv show ?thesis by (auto simp: correlator_peak_def corr_inv_def corr_setup_def Let_def split: if_splits)
qed

text \<open>The new position of the sampler: ahead of the correlator by one and a half symbols.\<close>

lemma sync_position:
  fixes f :: rat
  assumes "\<bar>f\<bar> \<le> 1 / 2" "p < 2 ^ 50" "w < 2 ^ 50" "s < 2 ^ 50" "0 < w"
  defines "x \<equiv> fl64 (fl64 (fl64 (of_nat p + f) - of_nat (w - 1)) + of_nat s)"
  shows "int p - int w + int s \<le> \<lfloor>x\<rfloor>" "x \<le> of_int (int p - int w + int s + 2)"
proof -
  have nums: "(of_nat p :: rat) < 1125899906842624" "(of_nat w :: rat) < 1125899906842624" "(of_nat s :: rat) < 1125899906842624"
    using assms(2-4) by simp_all
  have t1: "(of_nat (w - 1) :: rat) = of_nat w - 1" using assms(5) by (simp add: of_nat_diff)
  have nn: "0 \<le> (of_nat p :: rat)" "0 \<le> (of_nat w :: rat)" "0 \<le> (of_nat s :: rat)" by simp_all
  have f: "- (1 / 2) \<le> f" "f \<le> 1 / 2" using assms(1) by (simp_all add: abs_le_iff)
  define a where "a = fl64 (of_nat p + f)"
  have "\<bar>of_nat p + f\<bar> < 2 ^ 53" using f nums nn unfolding abs_less_iff by simp
  note A = position_rounded(3,4) [OF this]
  have a: "of_nat p - 1 \<le> a" "a \<le> of_nat p + 1"
    using A(2) [of "int p - 1"] A(1) [of "int p + 1"] f by (simp_all add: a_def)
  define b where "b = fl64 (a - (of_nat w - 1))"
  have "\<bar>a - (of_nat w - 1)\<bar> < 2 ^ 53" using a nums nn unfolding abs_less_iff by simp
  note B = position_rounded(3,4) [OF this]
  have b: "of_nat p - of_nat w \<le> b" "b \<le> of_nat p - of_nat w + 2"
    using B(2) [of "int p - int w"] B(1) [of "int p - int w + 2"] a by (simp_all add: b_def)
  have "\<bar>b + of_nat s\<bar> < 2 ^ 53" using b nums nn unfolding abs_less_iff by simp
  note C = position_rounded(3,4) [OF this]
  have x: "x = fl64 (b + of_nat s)" by (simp only: x_def a_def b_def t1)
  have "of_int (int p - int w + int s) \<le> x" using C(2) [of "int p - int w + int s"] b unfolding x by simp
  then show "int p - int w + int s \<le> \<lfloor>x\<rfloor>" by (simp add: le_floor_iff)
  show "x \<le> of_int (int p - int w + int s + 2)" using C(1) [of "int p - int w + int s + 2"] b unfolding x by simp
qed

lemma gfsk_correlator_sync_safe:
  assumes s: "corr_setup c" and p: "peak_index c + peak_search_len c = i" "history_len c \<le> i" "i < length (c_samples c)"
  shows "\<exists>c1. gfsk_correlator_sync k c = Some c1 \<and> corr_setup c1 \<and> history_len c1 = history_len c \<and> c_sps c1 = c_sps c \<and> c_samples c1 = c_samples c \<and>
    sampler_lag c1 = sampler_lag c \<and> correlator_index c1 = correlator_index c \<and> c_max_input_buffer_length c1 = c_max_input_buffer_length c \<and>
    \<not> peak_search c1 \<and> int (i + c_sps c + c_sps c div 2) \<le> sampler_at c1 \<and> sampler_at c1 \<le> int (i + 2 * c_sps c) + 1 \<and>
    sample_position c1 \<le> of_nat (length (c_samples c))"
proof -
  note S = s [unfolded corr_setup_def]
  have pk: "template_len c \<le> peak_index c" "0 < peak_index c" "peak_index c + 1 < length (c_samples c)" using S p by auto
  from correlate_total [of c "peak_index c" k] pk obtain v d m where 1: "gfsk_correlator_correlate k c (peak_index c) = Some (v, d, m)" by auto
  have "template_len c \<le> peak_index c - 1 + 1" "peak_index c - 1 < length (c_samples c)" using pk by simp_all
  from correlate_total [OF this, of k] obtain v1 d1 m1 where 2: "gfsk_correlator_correlate k c (peak_index c - 1) = Some (v1, d1, m1)" by blast
  from correlate_total [of c "peak_index c + 1" k] pk obtain v2 d2 m2 where 3: "gfsk_correlator_correlate k c (peak_index c + 1) = Some (v2, d2, m2)" by auto
  define x where "x = fl64 (fl64 (fl64 (of_nat (peak_index c) + peak_fraction \<bar>v1\<bar> \<bar>v\<bar> \<bar>v2\<bar>) - of_nat (template_len c - 1)) + of_nat (c_sps c div 2))"
  have "peak_index c < 2 ^ 50" "template_len c < 2 ^ 50" "c_sps c div 2 < 2 ^ 50" "0 < template_len c" using S pk by auto
  from sync_position [OF peak_fraction_bounds this, of "\<bar>v1\<bar>" "\<bar>v\<bar>" "\<bar>v2\<bar>", folded x_def]
  have x: "int (peak_index c) - int (template_len c) + int (c_sps c div 2) \<le> \<lfloor>x\<rfloor>"
    "x \<le> of_int (int (peak_index c) - int (template_len c) + int (c_sps c div 2) + 2)" .
  then have fl: "\<lfloor>x\<rfloor> \<le> int (peak_index c) - int (template_len c) + int (c_sps c div 2) + 2" by linarith
  have half: "2 * (c_sps c div 2) = c_sps c" using S by simp
  have lag: "sampler_lag c = template_len c + 9 * c_sps c" "i = peak_index c + 8 * c_sps c" "2 \<le> c_sps c" using S p(1) by simp_all
  have "int (i + c_sps c + c_sps c div 2) \<le> \<lfloor>x\<rfloor> + int (sampler_lag c)" using x(1) lag by simp
  moreover have "\<lfloor>x\<rfloor> + int (sampler_lag c) \<le> int (i + 2 * c_sps c) + 1" using fl lag half by linarith
  moreover have "x \<le> of_nat (length (c_samples c))"
  proof -
    have "int (peak_index c) - int (template_len c) + int (c_sps c div 2) + 2 \<le> int (length (c_samples c))" using lag half p(3) S by linarith
    then have "(of_int (int (peak_index c) - int (template_len c) + int (c_sps c div 2) + 2) :: rat) \<le> of_int (int (length (c_samples c)))" by (simp only: of_int_le_iff)
    with x(2) show ?thesis by simp
  qed
  moreover have "gfsk_correlator_sync k c = Some (c\<lparr>c_dc := fl32 (m - fl32 (fl32 (d / template_energy c) * template_mean c)),
      c_gain := (if \<bar>fl32 (d / template_energy c)\<bar> > fl32 (1 / 1000) then fl32 (1 / \<bar>fl32 (d / template_energy c)\<bar>) else c_gain c),
      sample_position := x, holdoff_index := peak_index c + template_len c, peak_search := False, burst_peak := peak_value c,
      burst_end_index := peak_index c + burst_len c\<rparr>)" (is "_ = Some ?c1")
    using 1 2 3 pk(2) by (simp add: gfsk_correlator_sync_def x_def Let_def)
  moreover have "corr_setup ?c1" using s by (simp add: corr_setup_def)
  ultimately show ?thesis by (intro exI [of _ ?c1]) (simp add: sampler_at_def)
qed

text \<open>The test of the loop in whole samples.\<close>

lemma sampler_due:
  assumes s: "corr_setup c" "sample_position c \<le> of_nat (length (c_samples c))" and q: "int i - 1 \<le> sampler_at c" "history_len c \<le> i"
  shows "\<bar>sample_position c + of_nat (sampler_lag c)\<bar> < 2 ^ 53" "0 \<le> \<lfloor>sample_position c\<rfloor>"
    "fl64 (sample_position c + of_nat (sampler_lag c)) \<le> of_nat i \<Longrightarrow> sampler_at c \<le> int i"
    "\<not> fl64 (sample_position c + of_nat (sampler_lag c)) \<le> of_nat i \<Longrightarrow> int i \<le> sampler_at c"
proof -
  note S = s(1) [unfolded corr_setup_def]
  let ?p = "sample_position c" and ?l = "sampler_lag c"
  have "sampler_at c = \<lfloor>?p\<rfloor> + int ?l" "?l + 4 \<le> history_len c" using S by (simp_all add: sampler_at_def)
  then show f: "0 \<le> \<lfloor>?p\<rfloor>" using q by linarith
  then have p0: "0 \<le> ?p" by simp
  have "(of_nat (length (c_samples c)) :: rat) < of_nat (2 ^ 50)" "(of_nat ?l :: rat) < of_nat (2 ^ 50)" using S unfolding of_nat_less_iff by auto
  then have "?p < 1125899906842624" "(of_nat ?l :: rat) < 1125899906842624" using s(2) by simp_all
  moreover have "0 \<le> (of_nat ?l :: rat)" by simp
  ultimately show b: "\<bar>?p + of_nat ?l\<bar> < 2 ^ 53" using p0 unfolding abs_less_iff by simp
  note R = position_rounded(3,4) [OF b]
  have fl: "of_int \<lfloor>?p\<rfloor> \<le> ?p" "?p < of_int \<lfloor>?p\<rfloor> + 1" by linarith+
  show "sampler_at c \<le> int i" if "fl64 (?p + of_nat ?l) \<le> of_nat i"
  proof (rule ccontr)
    assume "\<not> sampler_at c \<le> int i"
    then have "int i + 1 - int ?l \<le> \<lfloor>?p\<rfloor>" by (simp add: sampler_at_def)
    then have "of_int (int i + 1 - int ?l) \<le> ?p" by (simp only: le_floor_iff)
    then have "of_int (int i + 1) \<le> fl64 (?p + of_nat ?l)" by (intro R(2)) simp
    with that show False by simp
  qed
  show "int i \<le> sampler_at c" if "\<not> fl64 (?p + of_nat ?l) \<le> of_nat i"
  proof (rule ccontr)
    assume "\<not> int i \<le> sampler_at c"
    then have "\<lfloor>?p\<rfloor> \<le> int i - int ?l - 1" by (simp add: sampler_at_def)
    then have "(of_int \<lfloor>?p\<rfloor> :: rat) \<le> of_int (int i - int ?l - 1)" by (simp only: of_int_le_iff)
    then have "?p + of_nat ?l \<le> of_int (int i)" using fl by simp
    then have "fl64 (?p + of_nat ?l) \<le> of_int (int i)" by (rule R(1))
    with that show False by simp
  qed
qed

lemma output_symbol_safe:
  assumes s: "corr_setup c" and q: "int i - 1 \<le> sampler_at c" "sampler_at c \<le> int i" "history_len c \<le> i" "i < length (c_samples c)"
    and pos: "sample_position c \<le> of_nat (length (c_samples c))" and n: "n < c_output_len c"
  shows "\<exists>b x. gfsk_correlator_output_symbol n c = Some (b, c\<lparr>sample_position := x\<rparr>) \<and> x \<le> of_nat (length (c_samples c)) \<and>
    sampler_at c + int (c_sps c) \<le> \<lfloor>x\<rfloor> + int (sampler_lag c) \<and> \<lfloor>x\<rfloor> + int (sampler_lag c) \<le> sampler_at c + int (c_sps c) + 1"
proof -
  note S = s [unfolded corr_setup_def]
  note D = sampler_due(1,2) [OF s pos q(1,3)]
  let ?p = "sample_position c"
  have p0: "0 \<le> ?p" using D(2) by simp
  have lag: "sampler_lag c = template_len c + 9 * c_sps c" "2 \<le> c_sps c" "c_sps c \<le> sampler_lag c" using S by simp_all
  have idx: "\<lfloor>?p\<rfloor> \<le> int i - int (sampler_lag c)" using q(2) by (simp add: sampler_at_def)
  moreover have "int (nat (trunc ?p)) = \<lfloor>?p\<rfloor>" using p0 D(2) by (simp add: trunc_def)
  ultimately have "nat (trunc ?p) < length (c_samples c)" "nat (trunc ?p) + 1 < length (c_samples c)"
    using lag q(4) by linarith+
  then obtain x y where g: "get_at (c_samples c) (nat (trunc ?p)) = Some x" "get_at (c_samples c) (nat (trunc ?p) + 1) = Some y"
    by (simp add: get_at_def)
  define z where "z = fl64 (?p + of_nat (c_sps c))"
  have "\<bar>?p + of_nat (c_sps c)\<bar> < 2 ^ 53"
  proof -
    have "(of_nat (c_sps c) :: rat) \<le> of_nat (sampler_lag c)" using lag(3) by (simp only: of_nat_le_iff)
    with D(1) p0 show ?thesis unfolding abs_less_iff by simp
  qed
  note R = position_rounded [OF this]
  have "\<lfloor>?p + of_nat (c_sps c)\<rfloor> = \<lfloor>?p\<rfloor> + int (c_sps c)" using floor_add_int [of ?p "int (c_sps c)"] by simp
  then have fl: "\<lfloor>?p\<rfloor> + int (c_sps c) \<le> \<lfloor>z\<rfloor>" "\<lfloor>z\<rfloor> \<le> \<lfloor>?p\<rfloor> + int (c_sps c) + 1" using R(1,2) by (simp_all add: z_def)
  moreover have "z \<le> of_nat (length (c_samples c))"
  proof -
    have "?p < of_int (\<lfloor>?p\<rfloor> + 1)" by linarith
    also have "\<dots> \<le> of_int (int i - int (sampler_lag c) + 1)" using idx by (simp only: of_int_le_iff)
    finally have "?p + of_nat (c_sps c) \<le> of_int (int i - int (sampler_lag c) + 1 + int (c_sps c))" by simp
    then have "z \<le> of_int (int i - int (sampler_lag c) + 1 + int (c_sps c))" unfolding z_def by (rule R(3))
    also have "\<dots> \<le> of_int (int (length (c_samples c)))" using lag q(4) by (simp only: of_int_le_iff)
    finally show ?thesis by simp
  qed
  moreover obtain b where "gfsk_correlator_output_symbol n c = Some (b, c\<lparr>sample_position := z\<rparr>)"
    using g n p0 by (auto simp: gfsk_correlator_output_symbol_def Let_def z_def)
  ultimately show ?thesis by (intro exI [of _ b] exI [of _ z]) (simp add: sampler_at_def)
qed

lemma sampler_loop_safe:
  assumes s: "corr_setup c" and q: "int i - 1 \<le> sampler_at c" "history_len c \<le> i" "i < length (c_samples c)"
    and pos: "sample_position c \<le> of_nat (length (c_samples c))" and n: "sampler_at c \<le> int i \<Longrightarrow> n < c_output_len c"
  shows "\<exists>bs x. sampler_loop i n c = Some (bs, c\<lparr>sample_position := x\<rparr>) \<and> x \<le> of_nat (length (c_samples c)) \<and> int i \<le> \<lfloor>x\<rfloor> + int (sampler_lag c) \<and>
    (if bs = [] then x = sample_position c
     else length bs = 1 \<and> sampler_at c + int (c_sps c) \<le> \<lfloor>x\<rfloor> + int (sampler_lag c) \<and> \<lfloor>x\<rfloor> + int (sampler_lag c) \<le> int (i + c_sps c) + 1)"
proof (cases "fl64 (sample_position c + of_nat (sampler_lag c)) \<le> of_nat i")
  case False
  then have "sampler_loop i n c = Some ([], c)" by (simp add: sampler_loop.simps [of i n c])
  moreover have "int i \<le> sampler_at c" using sampler_due(4) [OF s pos q(1,2) False] .
  ultimately show ?thesis using pos by (intro exI [of _ "[]"] exI [of _ "sample_position c"]) (simp add: sampler_at_def)
next
  case True
  have le: "sampler_at c \<le> int i" using sampler_due(3) [OF s pos q(1,2) True] .
  from output_symbol_safe [OF s q(1) le q(2,3) pos n [OF le]] obtain b x where
    o: "gfsk_correlator_output_symbol n c = Some (b, c\<lparr>sample_position := x\<rparr>)" "x \<le> of_nat (length (c_samples c))"
      "sampler_at c + int (c_sps c) \<le> \<lfloor>x\<rfloor> + int (sampler_lag c)" "\<lfloor>x\<rfloor> + int (sampler_lag c) \<le> sampler_at c + int (c_sps c) + 1" by blast
  let ?c = "c\<lparr>sample_position := x\<rparr>"
  have s1: "corr_setup ?c" using s by (simp add: corr_setup_def)
  have q1: "int i < sampler_at ?c" using o(3) q(1) s by (simp add: sampler_at_def corr_setup_def)
  then have "\<not> fl64 (sample_position ?c + of_nat (sampler_lag ?c)) \<le> of_nat i"
    using sampler_due(3) [OF s1, of i] o(2) q(2) by auto
  then have "sampler_loop i (Suc n) ?c = Some ([], ?c)" by (simp add: sampler_loop.simps [of i "Suc n" ?c])
  then have "sampler_loop i n c = Some ([b], ?c)" using True o(1) by (simp add: sampler_loop.simps [of i n c])
  with o le q1 show ?thesis by (intro exI [of _ "[b]"] exI [of _ x]) (simp add: sampler_at_def)
qed

text \<open>The invariant behind the peak search, and what a position leaves alone.\<close>

definition corr_mid :: "nat \<Rightarrow> nat \<Rightarrow> gfsk_correlator \<Rightarrow> bool" where
  "corr_mid i n c \<longleftrightarrow> corr_setup c \<and> history_len c \<le> i \<and> int i - 1 \<le> sampler_at c \<and> sample_position c \<le> of_nat (length (c_samples c)) \<and>
    int (n * c_sps c) \<le> sampler_at c - (int (history_len c) - 1) \<and>
    (peak_search c \<longrightarrow> peak_index c \<le> i \<and> i < peak_index c + 8 * c_sps c) \<and>
    (n = 0 \<or> sampler_at c \<le> int (i + c_sps c) + 1 \<or> sampler_at c \<le> int ((if peak_search c then peak_index c else i) + 2 * c_sps c) + 1)"

definition corr_same :: "gfsk_correlator \<Rightarrow> gfsk_correlator \<Rightarrow> bool" where
  "corr_same c d \<longleftrightarrow> history_len d = history_len c \<and> c_sps d = c_sps c \<and> c_samples d = c_samples c \<and>
    c_max_input_buffer_length d = c_max_input_buffer_length c \<and> correlator_index d = correlator_index c"

lemma sync_keeps_symbols:
  assumes I: "int (n * c_sps c) \<le> sampler_at c - (int (history_len c) - 1)" "history_len c \<le> i" "2 \<le> c_sps c"
    and old: "n = 0 \<or> sampler_at c \<le> int (i + c_sps c) + 1 \<or> sampler_at c \<le> int (p + 2 * c_sps c) + 1" "p + 8 * c_sps c = i"
    and new: "int (i + c_sps c + c_sps c div 2) \<le> q"
  shows "int (n * c_sps c) \<le> q - (int (history_len c) - 1)"
proof (cases "n = 0")
  case True
  have "int (history_len c) \<le> int i" using I by simp
  then show ?thesis using True new by simp
next
  case False
  have half: "1 \<le> c_sps c div 2" using I(3) by simp
  from False old I(3) have "sampler_at c \<le> int (i + c_sps c) + 1" by auto
  also have "\<dots> \<le> q" using new half by linarith
  finally show ?thesis using I by linarith
qed

lemma peak_sync_safe:
  assumes inv: "corr_inv i n c" and il: "i < length (c_samples c)"
  shows "\<exists>c1 c2. correlator_peak k i c = Some c1 \<and>
    (if peak_search c1 \<and> i - peak_index c1 \<ge> peak_search_len c1 then gfsk_correlator_sync k c1 else Some c1) = Some c2 \<and>
    corr_mid i n c2 \<and> corr_same c c2"
proof -
  note I = inv [unfolded corr_inv_def] and S = inv [unfolded corr_inv_def corr_setup_def]
  from correlator_peak_safe [OF inv il, of k] obtain c1 where
    c1: "correlator_peak k i c = Some c1" "corr_setup c1" "history_len c1 = history_len c" "c_sps c1 = c_sps c" "c_samples c1 = c_samples c"
      "sample_position c1 = sample_position c" "sampler_lag c1 = sampler_lag c" "c_max_input_buffer_length c1 = c_max_input_buffer_length c"
      "peak_search c1 \<Longrightarrow> peak_index c1 \<le> i \<and> i \<le> peak_index c1 + peak_search_len c" "correlator_index c1 = correlator_index c"
      "n = 0 \<or> sampler_at c \<le> int (i + c_sps c) + 1 \<or> sampler_at c \<le> int ((if peak_search c1 then peak_index c1 else i) + 2 * c_sps c) + 1" by blast
  have at1: "sampler_at c1 = sampler_at c" using c1(6,7) by (simp add: sampler_at_def)
  have psl: "peak_search_len c1 = 8 * c_sps c" "peak_search_len c = 8 * c_sps c" "2 \<le> c_sps c" using c1(2,4) S by (simp_all add: corr_setup_def)
  define full where "full \<longleftrightarrow> peak_search c1 \<and> i - peak_index c1 \<ge> peak_search_len c1"
  have "\<exists>c2. (if full then gfsk_correlator_sync k c1 else Some c1) = Some c2 \<and> corr_mid i n c2 \<and> corr_same c c2"
  proof (cases full)
    case False
    have "i < peak_index c1 + 8 * c_sps c" if "peak_search c1" using False c1(9) [OF that] psl that unfolding full_def by linarith
    then show ?thesis using False c1 at1 I by (simp add: corr_mid_def corr_same_def)
  next
    case True
    then have pk: "peak_index c1 + peak_search_len c1 = i" "peak_search c1" using c1(9) psl unfolding full_def by auto
    have "history_len c1 \<le> i" "i < length (c_samples c1)" using c1(3,5) I il by simp_all
    from gfsk_correlator_sync_safe [OF c1(2) pk(1) this, of k] obtain c2 where
      c2: "gfsk_correlator_sync k c1 = Some c2" "corr_setup c2" "history_len c2 = history_len c" "c_sps c2 = c_sps c" "c_samples c2 = c_samples c"
        "c_max_input_buffer_length c2 = c_max_input_buffer_length c" "correlator_index c2 = correlator_index c" "\<not> peak_search c2"
        "int (i + c_sps c + c_sps c div 2) \<le> sampler_at c2" "sampler_at c2 \<le> int (i + 2 * c_sps c) + 1"
        "sample_position c2 \<le> of_nat (length (c_samples c))" unfolding c1(3-8,10) by blast
    have cnt: "int (n * c_sps c) \<le> sampler_at c - (int (history_len c) - 1)" "history_len c \<le> i" using I by blast+
    have "n = 0 \<or> sampler_at c \<le> int (i + c_sps c) + 1 \<or> sampler_at c \<le> int (peak_index c1 + 2 * c_sps c) + 1" "peak_index c1 + 8 * c_sps c = i"
      using c1(11) pk psl(1) by simp_all
    from sync_keeps_symbols [OF cnt psl(3) this c2(9)] have "int (n * c_sps c) \<le> sampler_at c2 - (int (history_len c) - 1)" .
    moreover have "history_len c \<le> i" "int i - 1 \<le> sampler_at c2" using I c2(9) by linarith+
    ultimately have "corr_mid i n c2" "corr_same c c2" using c2(2-11) by (simp_all add: corr_mid_def corr_same_def)
    then show ?thesis using True c2(1) by simp
  qed
  then show ?thesis using c1(1) unfolding full_def by simp
qed

lemma sampler_step_safe:
  assumes mid: "corr_mid i n c" and i: "i < history_len c + len" "len \<le> c_max_input_buffer_length c"
  shows "\<exists>bs x. sampler_loop i n c = Some (bs, c\<lparr>sample_position := x\<rparr>) \<and> corr_inv (Suc i) (n + length bs) (c\<lparr>sample_position := x, correlator_index := i + 1\<rparr>)"
proof -
  note M = mid [unfolded corr_mid_def]
  then have S: "corr_setup c" "2 \<le> c_sps c" "length (c_samples c) = history_len c + c_max_input_buffer_length c" "peak_search_len c = 8 * c_sps c"
    "c_output_len c = c_max_input_buffer_length c div c_sps c + 4" by (simp_all add: corr_setup_def)
  have n: "n < c_output_len c" if "sampler_at c \<le> int i"
  proof -
    have "int (n * c_sps c) \<le> int (c_max_input_buffer_length c)" using that M i by linarith
    then have "n * c_sps c \<le> c_max_input_buffer_length c" by (simp only: of_nat_le_iff)
    then have "n \<le> c_max_input_buffer_length c div c_sps c" using S(2) by (simp add: less_eq_div_iff_mult_less_eq)
    then show ?thesis using S(5) by simp
  qed
  have "i < length (c_samples c)" using i S(3) by simp
  from sampler_loop_safe [OF S(1) _ _ this _ n] M obtain bs x where
    l: "sampler_loop i n c = Some (bs, c\<lparr>sample_position := x\<rparr>)" "x \<le> of_nat (length (c_samples c))" "int i \<le> \<lfloor>x\<rfloor> + int (sampler_lag c)"
      "if bs = [] then x = sample_position c
       else length bs = 1 \<and> sampler_at c + int (c_sps c) \<le> \<lfloor>x\<rfloor> + int (sampler_lag c) \<and> \<lfloor>x\<rfloor> + int (sampler_lag c) \<le> int (i + c_sps c) + 1" by auto
  let ?c = "c\<lparr>sample_position := x, correlator_index := i + 1\<rparr>"
  have at: "sampler_at ?c = \<lfloor>x\<rfloor> + int (sampler_lag c)" by (simp add: sampler_at_def)
  have "corr_setup ?c" using S(1) by (simp add: corr_setup_def)
  moreover have "int ((n + length bs) * c_sps c) \<le> sampler_at ?c - (int (history_len c) - 1)"
    using l(4) M at by (cases "bs = []") (simp_all add: sampler_at_def)
  moreover have "n + length bs = 0 \<or> sampler_at ?c \<le> int (Suc i + c_sps c) + 1 \<or> sampler_at ?c \<le> int ((if peak_search c then peak_index c else Suc i) + 2 * c_sps c) + 1"
    using l(4) M at by (cases "bs = []") (auto simp: sampler_at_def split: if_splits)
  ultimately have "corr_inv (Suc i) (n + length bs) ?c"
    using M l(2,3) at S(4) by (auto simp: corr_inv_def)
  with l(1) show ?thesis by blast
qed

lemma correlator_loop_safe:
  "corr_inv i n c \<Longrightarrow> correlator_index c = i \<Longrightarrow> i + todo = history_len c + len \<Longrightarrow> len \<le> c_max_input_buffer_length c \<Longrightarrow>
   \<exists>bs c1. correlator_loop k todo n c = Some (bs, c1) \<and> corr_inv (i + todo) (n + length bs) c1 \<and> correlator_index c1 = i + todo \<and>
     history_len c1 = history_len c \<and> c_sps c1 = c_sps c \<and> c_max_input_buffer_length c1 = c_max_input_buffer_length c \<and> c_samples c1 = c_samples c"
proof (induction todo arbitrary: i n c)
  case (Suc todo)
  have "i < length (c_samples c)" using Suc.prems by (auto simp: corr_inv_def corr_setup_def)
  from peak_sync_safe [OF Suc.prems(1) this, of k] obtain c1 c2 where
    c2: "correlator_peak k i c = Some c1"
      "(if peak_search c1 \<and> i - peak_index c1 \<ge> peak_search_len c1 then gfsk_correlator_sync k c1 else Some c1) = Some c2"
      "corr_mid i n c2" "corr_same c c2" by (elim exE conjE) (rule that)
  note same = c2(4) [unfolded corr_same_def]
  have "i < history_len c2 + len" "len \<le> c_max_input_buffer_length c2" using Suc.prems(3,4) same by simp_all
  from sampler_step_safe [OF c2(3) this] obtain bs x where
    s: "sampler_loop i n c2 = Some (bs, c2\<lparr>sample_position := x\<rparr>)" "corr_inv (Suc i) (n + length bs) (c2\<lparr>sample_position := x, correlator_index := i + 1\<rparr>)" by blast
  let ?c = "c2\<lparr>sample_position := x, correlator_index := i + 1\<rparr>"
  from Suc.IH [OF s(2)] Suc.prems(3,4) same obtain bs2 c3 where
    "correlator_loop k todo (n + length bs) ?c = Some (bs2, c3)" "corr_inv (Suc i + todo) (n + length bs + length bs2) c3"
    "correlator_index c3 = Suc i + todo" "history_len c3 = history_len c" "c_sps c3 = c_sps c" "c_max_input_buffer_length c3 = c_max_input_buffer_length c"
    "c_samples c3 = c_samples c" by auto
  with c2(1,2) s(1) Suc.prems(2) show ?case by (simp add: add.assoc)
qed auto

text \<open>Between two calls.\<close>

definition corr_ok :: "gfsk_correlator \<Rightarrow> bool" where
  "corr_ok c \<longleftrightarrow> corr_inv (history_len c) 0 c \<and> correlator_index c = history_len c"

lemma gfsk_correlator_new_ok:
  assumes "2 \<le> sps" "even sps" "0 < bits" "bits * sps + 11 * sps + max_len < 2 ^ 50"
  shows "corr_ok (gfsk_correlator_new sps bits thr burst_symbols max_len mean energy)"
proof -
  let ?h = "bits * sps + 8 * sps + sps + 2 * sps"
  have "?h < 2 ^ 53" using assms(4) by simp
  then have "fl64 (of_nat ?h) = of_nat ?h" using fl_exact [of "int ?h" 53 0] by (simp del: of_nat_add of_nat_mult)
  then show ?thesis using assms
    by (simp add: corr_ok_def corr_inv_def corr_setup_def gfsk_correlator_new_def sampler_at_def Let_def del: of_nat_add of_nat_mult)
qed

lemma shifted_position:
  assumes "corr_inv i m c" "n < 2 ^ 50"
  shows "sampler_at c - int n \<le> \<lfloor>fl64 (sample_position c - of_nat n)\<rfloor> + int (sampler_lag c)"
    "fl64 (sample_position c - of_nat n) \<le> of_nat (length (c_samples c))"
proof -
  note I = assms(1) [unfolded corr_inv_def]
  let ?p = "sample_position c" and ?s = "length (c_samples c)"
  have "corr_setup c" "?p \<le> of_nat ?s" "int i - 1 \<le> sampler_at c" "history_len c \<le> i" using I by blast+
  from sampler_due(2) [OF this] have "0 \<le> ?p" by simp
  moreover have "?p < 2 ^ 50" "(of_nat n :: rat) < 2 ^ 50"
  proof -
    have "(of_nat ?s :: rat) < of_nat (2 ^ 50)" "(of_nat n :: rat) < of_nat (2 ^ 50)" using assms I unfolding of_nat_less_iff corr_setup_def by blast+
    then show "?p < 2 ^ 50" "(of_nat n :: rat) < 2 ^ 50" using \<open>?p \<le> of_nat ?s\<close> by simp_all
  qed
  moreover have "0 \<le> (of_nat n :: rat)" by simp
  ultimately have "\<bar>?p - of_nat n\<bar> < 2 ^ 53" unfolding abs_less_iff by simp
  note R = position_rounded [OF this]
  have "\<lfloor>?p - of_nat n\<rfloor> = \<lfloor>?p\<rfloor> - int n" using floor_diff_of_int [of ?p "int n"] by simp
  with R(1) show "sampler_at c - int n \<le> \<lfloor>fl64 (?p - of_nat n)\<rfloor> + int (sampler_lag c)" by (simp add: sampler_at_def)
  have "?p - of_nat n \<le> of_int (int ?s)" using \<open>?p \<le> of_nat ?s\<close> \<open>0 \<le> (of_nat n :: rat)\<close> by simp
  then have "fl64 (?p - of_nat n) \<le> of_int (int ?s)" by (rule R(3))
  then show "fl64 (?p - of_nat n) \<le> of_nat ?s" by simp
qed

lemma gfsk_correlator_process_safe:
  assumes ok: "corr_ok c" and n: "length input \<le> c_max_input_buffer_length c"
  shows "\<exists>bits c1. gfsk_correlator_process k input c = Some (Some bits, c1) \<and> corr_ok c1 \<and> length bits \<le> length input div c_sps c + 4 \<and>
    c_max_input_buffer_length c1 = c_max_input_buffer_length c \<and> c_sps c1 = c_sps c"
proof -
  note I = ok [unfolded corr_ok_def corr_inv_def] and S = ok [unfolded corr_ok_def corr_inv_def corr_setup_def]
  define h where "h = history_len c"
  have len: "length (c_samples c) = h + c_max_input_buffer_length c" using S by (simp add: h_def)
  define smp where "smp = take h (c_samples c) @ input @ drop (h + length input) (c_samples c)"
  have m: "memcpy (c_samples c) h input (length input) = Some smp" "length smp = length (c_samples c)"
    using len n by (simp_all add: memcpy_def smp_def)
  let ?c = "c\<lparr>c_samples := smp\<rparr>"
  have inv: "corr_inv h 0 ?c" using I m(2) by (auto simp: corr_inv_def corr_setup_def sampler_at_def h_def)
  have "correlator_index ?c = h" "h + length input = history_len ?c + length input" "length input \<le> c_max_input_buffer_length ?c"
    using ok n by (simp_all add: corr_ok_def h_def)
  from correlator_loop_safe [OF inv this, of k] obtain bits c1 where
    l: "correlator_loop k (length input) 0 ?c = Some (bits, c1)" "corr_inv (h + length input) (length bits) c1" "correlator_index c1 = h + length input"
      "history_len c1 = h" "c_sps c1 = c_sps c" "c_max_input_buffer_length c1 = c_max_input_buffer_length c" "c_samples c1 = smp" by (auto simp: h_def)
  let ?n = "length input"
  note J = l(2) [unfolded corr_inv_def, simplified l] and T = l(2) [unfolded corr_inv_def corr_setup_def, simplified l]
  have sps: "2 \<le> c_sps c" "peak_search_len c1 = 8 * c_sps c" "peak_search_len c1 \<le> h" using T by simp_all
  define x where "x = fl64 (sample_position c1 - of_nat ?n)"
  have x: "sampler_at c1 - int ?n \<le> \<lfloor>x\<rfloor> + int (sampler_lag c1)" "x \<le> of_nat (length smp)"
    using shifted_position [OF l(2), of ?n] S n l(7) by (simp_all add: x_def)
  have copy: "memcpy smp 0 (drop ?n smp) h = Some (take h (drop ?n smp) @ drop h smp)"
    using m(2) len n by (simp add: memcpy_def)
  let ?c1 = "c1\<lparr>c_samples := take h (drop ?n smp) @ drop h smp, correlator_index := h, sample_position := x,
    holdoff_index := (if holdoff_index c1 > ?n then holdoff_index c1 - ?n else 0),
    burst_end_index := (if burst_end_index c1 > ?n then burst_end_index c1 - ?n else 0),
    peak_index := (if peak_search c1 then peak_index c1 - ?n else peak_index c1)\<rparr>"
  have "gfsk_correlator_process k input c = Some (Some bits, ?c1)"
    using n m(1) l copy ok by (simp add: gfsk_correlator_process_def corr_ok_def h_def x_def Let_def)
  moreover have "corr_ok ?c1"
  proof -
    have "corr_setup ?c1" using J m(2) len n l by (simp add: corr_setup_def)
    moreover have "int h - 1 \<le> sampler_at ?c1" using x(1) J by (simp add: sampler_at_def)
    moreover have "length (c_samples ?c1) = length smp" using m(2) len n by simp
    moreover have "peak_index c1 - ?n < h \<and> h \<le> peak_index c1 - ?n + peak_search_len c1" if "peak_search c1"
      using that J sps(3) by auto
    ultimately show ?thesis using x(2) l(4) by (auto simp: corr_ok_def corr_inv_def)
  qed
  moreover have "length bits \<le> ?n div c_sps c + 4"
  proof -
    have "length bits = 0 \<or> int (length bits * c_sps c) \<le> int (?n + 3 * c_sps c)" using J sps(1) by (auto split: if_splits)
    then have "length bits * c_sps c \<le> ?n + 3 * c_sps c" by (elim disjE) (simp, simp only: of_nat_le_iff)
    moreover have "0 < c_sps c" using sps(1) by simp
    ultimately have "length bits \<le> (?n + 3 * c_sps c) div c_sps c" by (simp only: less_eq_div_iff_mult_less_eq)
    also have "\<dots> = ?n div c_sps c + 3" using sps(1) by simp
    finally show ?thesis by simp
  qed
  ultimately show ?thesis using l by (intro exI conjI) (assumption | simp)+
qed

text \<open>The buffers of a stream, one after the other.\<close>

fun gfsk_correlator_stream :: "correlator_lib \<Rightarrow> rat list list \<Rightarrow> gfsk_correlator \<Rightarrow> (u8 list option list \<times> gfsk_correlator) option" where
  "gfsk_correlator_stream k [] c = Some ([], c)"
| "gfsk_correlator_stream k (x # xs) c = do {
     (r, c1) \<leftarrow> gfsk_correlator_process k x c;
     (rs, c2) \<leftarrow> gfsk_correlator_stream k xs c1;
     Some (r # rs, c2) }"

lemma gfsk_correlator_stream_safe:
  "corr_ok c \<Longrightarrow> \<forall>x \<in> set inputs. length x \<le> c_max_input_buffer_length c \<Longrightarrow>
   \<exists>outs c1. gfsk_correlator_stream k inputs c = Some (map Some outs, c1) \<and> list_all2 (\<lambda>x bits. length bits \<le> length x div c_sps c + 4) inputs outs"
proof (induction inputs arbitrary: c)
  case (Cons x xs)
  from gfsk_correlator_process_safe [OF Cons.prems(1), of x k] Cons.prems(2) obtain bits c1 where
    p: "gfsk_correlator_process k x c = Some (Some bits, c1)" "corr_ok c1" "length bits \<le> length x div c_sps c + 4"
      "c_max_input_buffer_length c1 = c_max_input_buffer_length c" "c_sps c1 = c_sps c" by auto
  from Cons.IH [OF p(2)] Cons.prems(2) p(4,5) obtain outs c2 where
    "gfsk_correlator_stream k xs c1 = Some (map Some outs, c2)" "list_all2 (\<lambda>x bits. length bits \<le> length x div c_sps c + 4) xs outs" by auto
  with p show ?case by (intro exI [of _ "bits # outs"] exI [of _ c2]) simp
qed simp

text \<open>The template is built within its buffers.\<close>

lemma each_total:
  assumes "\<And>x s. x \<in> set xs \<Longrightarrow> length s = n \<Longrightarrow> \<exists>s1. f x s = Some s1 \<and> length s1 = n"
  shows "length s = n \<Longrightarrow> \<exists>s1. each f xs s = Some s1 \<and> length s1 = n"
  using assms
proof (induction xs arbitrary: s)
  case (Cons x xs)
  from Cons.prems obtain s1 where "f x s = Some s1" "length s1 = n" by fastforce
  with Cons.IH [of s1] Cons.prems(2) show ?case by auto
qed simp

lemma add_at_total: "i < n \<Longrightarrow> length s = n \<Longrightarrow> \<exists>s1. add_at i v s = Some s1 \<and> length s1 = n"
  by (simp add: add_at_def get_at_def set_at_def)

lemma create_template_total:
  assumes "tx \<noteq> []" "rx \<noteq> []"
  shows "\<exists>t mean energy. gfsk_correlator_create_template sps tx rx syncword bits = Some (t, mean, energy) \<and> length t = bits * sps"
proof -
  let ?tx = "scaled_pulse sps tx" and ?n = "length tx + length rx - 1"
  have "\<exists>p. convolved ?tx rx = Some p \<and> length p = ?n"
    unfolding convolved_def by (rule each_total) (use assms in \<open>auto simp: scaled_pulse_def intro!: add_at_total\<close>)
  then obtain p where p: "convolved ?tx rx = Some p" by blast
  have "\<exists>t. template_of sps (bits * sps) p syncword bits = Some t \<and> length t = bits * sps"
    unfolding template_of_def by (rule each_total) (auto simp: Let_def intro!: add_at_total)
  with p show ?thesis by (auto simp: gfsk_correlator_create_template_def Let_def)
qed

section \<open>Properties\<close>

text \<open>
  C15. The sync word search never leaves its buffers: for every stream of samples in buffers within the
  maximum, whatever the correlation finds in it, every window, every interpolated sample and every
  output symbol lies inside its buffer, the loops terminate, and a buffer of \<open>n\<close> samples gives at most
  \<open>n div sps + 4\<close> symbols. This holds across restarts of the sampler in the middle of a burst and with the
  rounding of the positions to \<^verbatim>\<open>double\<close>.
\<close>

theorem gfsk_correlator_safe:
  assumes "2 \<le> sps" "even sps" "0 < bits" "bits * sps + 11 * sps + max_len < 2 ^ 50" "\<forall>x \<in> set inputs. length x \<le> max_len"
  shows "\<exists>outs c. gfsk_correlator_stream k inputs (gfsk_correlator_new sps bits thr burst_symbols max_len mean energy) = Some (map Some outs, c) \<and>
    list_all2 (\<lambda>x syms. length syms \<le> length x div sps + 4) inputs outs"
  using gfsk_correlator_stream_safe [OF gfsk_correlator_new_ok [OF assms(1-4), of thr burst_symbols mean energy], of inputs k] assms(5)
  by (simp add: gfsk_correlator_new_def Let_def)

theorem gfsk_correlator_safe_witness:
  "\<exists>outs c. gfsk_correlator_stream \<lparr>dotprod_execute = sum_list, sqrtf = id\<rparr> [[1, - 1, 1], [], [1 / 2]] (gfsk_correlator_new 2 4 (7 / 10) 2048 3 0 1) =
      Some (map Some outs, c) \<and> length outs = 3"
  using gfsk_correlator_safe [of 2 4 3 "[[1, - 1, 1], [], [1 / 2]]" "\<lparr>dotprod_execute = sum_list, sqrtf = id\<rparr>" "7 / 10" 2048 0 1]
  by (auto simp: list_all2_Cons1)

end
