(* ===== verification/DcBlocker.thy ===== *)
theory DcBlocker
  imports Binary32 Construction
begin

text \<open>
  The removal of a constant offset, \<^verbatim>\<open>src/dsp/dc_blocker.c\<close>: four moving averages in a row, subtracted from
  the input delayed by their group delay. Averages and delay are ring buffers; the sums run along and
  are rounded to single precision.
\<close>

abbreviation (input) DC_BLOCKER_STAGES :: nat where "DC_BLOCKER_STAGES \<equiv> 4"

section \<open>State and operations\<close>

record boxcar =
  bx_samples :: "rat list"
  bx_index :: nat
  bx_sum :: rat

record dc_blocker =
  dc_length :: nat
  stages :: "boxcar list"
  delayed :: "rat list"
  delayed_index :: nat

definition boxcar_process :: "rat \<Rightarrow> nat \<Rightarrow> boxcar \<Rightarrow> (rat \<times> boxcar) option" where
  "boxcar_process x n b = do {
     old \<leftarrow> get_at (bx_samples b) (bx_index b);
     let total = fl32 (bx_sum b + fl32 (x - old));
     samples \<leftarrow> set_at (bx_samples b) (bx_index b) x;
     let i = bx_index b + 1;
     Some (fl32 (total / fl32 (of_nat n)), b\<lparr>bx_samples := samples, bx_index := (if i = n then 0 else i), bx_sum := total\<rparr>) }"

fun stages_process :: "rat \<Rightarrow> nat \<Rightarrow> boxcar list \<Rightarrow> (rat \<times> boxcar list) option" where
  "stages_process x n [] = Some (x, [])"
| "stages_process x n (b # bs) = do {
     (y, b1) \<leftarrow> boxcar_process x n b;
     (z, bs1) \<leftarrow> stages_process y n bs;
     Some (z, b1 # bs1) }"

text \<open>One sample; the loop writes the result over the input.\<close>

definition dc_blocker_sample :: "rat \<Rightarrow> dc_blocker \<Rightarrow> (rat \<times> dc_blocker) option" where
  "dc_blocker_sample x d = do {
     (dc, bs) \<leftarrow> stages_process x (dc_length d) (stages d);
     old \<leftarrow> get_at (delayed d) (delayed_index d);
     del \<leftarrow> set_at (delayed d) (delayed_index d) x;
     let i = delayed_index d + 1;
     Some (fl32 (old - dc), d\<lparr>stages := bs, delayed := del, delayed_index := (if i = length (delayed d) then 0 else i)\<rparr>) }"

fun dc_blocker_process :: "rat list \<Rightarrow> dc_blocker \<Rightarrow> (rat list \<times> dc_blocker) option" where
  "dc_blocker_process [] d = Some ([], d)"
| "dc_blocker_process (x # xs) d = do {
     (y, d1) \<leftarrow> dc_blocker_sample x d;
     (ys, d2) \<leftarrow> dc_blocker_process xs d1;
     Some (y # ys, d2) }"

definition dc_blocker_new :: "nat \<Rightarrow> dc_blocker" where
  "dc_blocker_new n = \<lparr>dc_length = n, stages = replicate DC_BLOCKER_STAGES \<lparr>bx_samples = replicate n 0, bx_index = 0, bx_sum = 0\<rparr>,
     delayed = replicate (DC_BLOCKER_STAGES * (n - 1) div 2) 0, delayed_index = 0\<rparr>"

section \<open>Construction and destruction\<close>

datatype dc_part = Dc_struct | Dc_stage_0 | Dc_stage_1 | Dc_stage_2 | Dc_stage_3 | Dc_delayed

fun dc_users :: "dc_part \<Rightarrow> dc_part set" where
  "dc_users Dc_struct = {Dc_stage_0, Dc_stage_1, Dc_stage_2, Dc_stage_3, Dc_delayed}"
| "dc_users _ = {}"

definition dc_blocker_destroy_order :: "dc_part list" where
  "dc_blocker_destroy_order = [Dc_stage_0, Dc_stage_1, Dc_stage_2, Dc_stage_3, Dc_delayed, Dc_struct]"

definition dc_blocker_destroy :: "dc_part set \<Rightarrow> dc_part set option" where
  "dc_blocker_destroy ps = release_all dc_users dc_blocker_destroy_order ps"

interpretation dc_blocker: component dc_users dc_blocker_destroy_order
proof
  show "ordered dc_users {} dc_blocker_destroy_order" by (simp add: dc_blocker_destroy_order_def)
  show "p \<in> set dc_blocker_destroy_order" for p by (cases p) (simp_all add: dc_blocker_destroy_order_def)
qed

definition dc_blocker_create :: "(dc_part \<Rightarrow> bool) \<Rightarrow> int \<Rightarrow> (int \<times> dc_part set) option" where
  "dc_blocker_create oks len =
    (if len < 2 then Some (- EINVAL, {})
     else if \<not> oks Dc_struct then Some (- ENOMEM, {})
     else construct dc_users dc_blocker_destroy_order
       (map (\<lambda>p. (oks p, - ENOMEM, Some p)) [Dc_stage_0, Dc_stage_1, Dc_stage_2, Dc_stage_3, Dc_delayed]) {Dc_struct})"

section \<open>Ring buffers\<close>

text \<open>The content of a ring buffer from the oldest value on; storing drops the oldest and appends the new one.\<close>

definition ring :: "'a list \<Rightarrow> nat \<Rightarrow> 'a list" where
  "ring xs i = drop i xs @ take i xs"

lemma ring_step:
  assumes "i < length xs"
  shows "ring (xs[i := x]) (if i + 1 = length xs then 0 else i + 1) = tl (ring xs i) @ [x]" "hd (ring xs i) = xs ! i"
proof -
  from assms have "drop i xs = xs ! i # drop (Suc i) xs" by (simp add: Cons_nth_drop_Suc)
  moreover have "take (Suc i) (xs[i := x]) = take i xs @ [x]" using assms by (simp add: take_Suc_conv_app_nth)
  moreover have "xs[i := x] = take i xs @ [x]" if "Suc i = length xs"
    using that assms by (simp add: upd_conv_take_nth_drop)
  ultimately show "ring (xs[i := x]) (if i + 1 = length xs then 0 else i + 1) = tl (ring xs i) @ [x]" "hd (ring xs i) = xs ! i"
    using assms by (auto simp: ring_def)
qed

text \<open>A moving average holds the last inputs; its running sum is their sum as long as rounding does not show.\<close>

definition boxcar_ok :: "nat \<Rightarrow> boxcar \<Rightarrow> bool" where
  "boxcar_ok n b \<longleftrightarrow> length (bx_samples b) = n \<and> bx_index b < n"

lemma boxcar_step:
  assumes "boxcar_ok n b"
  shows "\<exists>y b1. boxcar_process x n b = Some (y, b1) \<and> boxcar_ok n b1 \<and> ring (bx_samples b1) (bx_index b1) = tl (ring (bx_samples b) (bx_index b)) @ [x] \<and>
    bx_sum b1 = fl32 (bx_sum b + fl32 (x - hd (ring (bx_samples b) (bx_index b)))) \<and> y = fl32 (bx_sum b1 / fl32 (of_nat n))"
  using assms ring_step(1) [of "bx_index b" "bx_samples b" x] ring_step(2) [of "bx_index b" "bx_samples b"]
  by (auto simp: boxcar_process_def boxcar_ok_def get_at_def set_at_def Let_def)

lemma stages_total: "list_all (boxcar_ok n) bs \<Longrightarrow> \<exists>y bs1. stages_process x n bs = Some (y, bs1) \<and> list_all (boxcar_ok n) bs1"
proof (induction bs arbitrary: x)
  case (Cons b bs)
  from boxcar_step [of n b x] Cons.prems obtain y b1 where "boxcar_process x n b = Some (y, b1)" "boxcar_ok n b1" by auto
  with Cons.IH [of y] Cons.prems show ?case by auto
qed simp

text \<open>The delay line and the four averages stay inside of their buffers; the answer has the length of the input.\<close>

definition dc_ok :: "dc_blocker \<Rightarrow> bool" where
  "dc_ok d \<longleftrightarrow> list_all (boxcar_ok (dc_length d)) (stages d) \<and> delayed_index d < length (delayed d)"

lemma dc_blocker_new_ok: "2 \<le> n \<Longrightarrow> dc_ok (dc_blocker_new n)"
  by (simp add: dc_ok_def dc_blocker_new_def boxcar_ok_def list_all_iff)

lemma dc_blocker_sample_step:
  assumes "dc_ok d"
  shows "\<exists>dc d1. dc_blocker_sample x d = Some (fl32 (hd (ring (delayed d) (delayed_index d)) - dc), d1) \<and> dc_ok d1 \<and>
    ring (delayed d1) (delayed_index d1) = tl (ring (delayed d) (delayed_index d)) @ [x]"
proof -
  have i: "delayed_index d < length (delayed d)" using assms by (simp add: dc_ok_def)
  from stages_total [of "dc_length d" "stages d" x] assms obtain dc bs where
    s: "stages_process x (dc_length d) (stages d) = Some (dc, bs)" "list_all (boxcar_ok (dc_length d)) bs" by (auto simp: dc_ok_def)
  let ?d = "d\<lparr>stages := bs, delayed := (delayed d)[delayed_index d := x],
    delayed_index := (if delayed_index d + 1 = length (delayed d) then 0 else delayed_index d + 1)\<rparr>"
  have "dc_blocker_sample x d = Some (fl32 (hd (ring (delayed d) (delayed_index d)) - dc), ?d)"
    using s(1) i ring_step(2) [OF i] by (simp add: dc_blocker_sample_def get_at_def set_at_def Let_def)
  moreover have "dc_ok ?d" using s(2) i by (auto simp: dc_ok_def)
  moreover have "ring (delayed ?d) (delayed_index ?d) = tl (ring (delayed d) (delayed_index d)) @ [x]" using ring_step(1) [OF i, of x] by simp
  ultimately show ?thesis by blast
qed

lemma dc_blocker_total: "dc_ok d \<Longrightarrow> \<exists>ys d1. dc_blocker_process xs d = Some (ys, d1) \<and> dc_ok d1 \<and> length ys = length xs"
proof (induction xs arbitrary: d)
  case (Cons x xs)
  from dc_blocker_sample_step [OF Cons.prems, of x] obtain y d1 where "dc_blocker_sample x d = Some (y, d1)" "dc_ok d1" by blast
  with Cons.IH [of d1] show ?case by auto
qed simp

text \<open>The signal passes with the delay of the cascade: sample \<open>i\<close> of the answer is input \<open>i - delay\<close> minus the estimate of the offset.\<close>

lemma dc_blocker_delay:
  "dc_ok d \<Longrightarrow> dc_blocker_process xs d = Some (ys, d1) \<Longrightarrow> i < length xs \<Longrightarrow>
   \<exists>dc. ys ! i = fl32 ((ring (delayed d) (delayed_index d) @ xs) ! i - dc)"
proof (induction xs arbitrary: d ys i)
  case (Cons x xs)
  from dc_blocker_sample_step [OF Cons.prems(1), of x] obtain dc d2 where
    s: "dc_blocker_sample x d = Some (fl32 (hd (ring (delayed d) (delayed_index d)) - dc), d2)" "dc_ok d2"
      "ring (delayed d2) (delayed_index d2) = tl (ring (delayed d) (delayed_index d)) @ [x]" by blast
  obtain zs where z: "dc_blocker_process xs d2 = Some (zs, d1)" "ys = fl32 (hd (ring (delayed d) (delayed_index d)) - dc) # zs"
    using Cons.prems(2) s(1) by (auto split: bind_splits)
  have ne: "ring (delayed d) (delayed_index d) \<noteq> []" using Cons.prems(1) by (auto simp: dc_ok_def ring_def)
  show ?case
  proof (cases i)
    case 0
    then show ?thesis using z(2) ne by (auto simp: hd_conv_nth nth_append)
  next
    case (Suc j)
    have "(ring (delayed d2) (delayed_index d2) @ xs) ! j = (ring (delayed d) (delayed_index d) @ x # xs) ! Suc j"
      unfolding s(3) using ne by (cases "ring (delayed d) (delayed_index d)") simp_all
    then show ?thesis using Cons.IH [OF s(2) z(1), of j] Suc Cons.prems(3) z(2) by simp
  qed
qed simp

end
