(* ===== verification/GfskModem.thy ===== *)
theory GfskModem
  imports Transmitter GfskCorrelator DcBlocker
begin

text \<open>
  The GFSK modem, \<^verbatim>\<open>src/dsp/gfsk_modem.c\<close>. The receiver ends in the sync word search of
  \<^verbatim>\<open>gfsk_correlator.c\<close> or, without a sync word, in an optional \<^verbatim>\<open>dc_blocker.c\<close> and the symbol timing of
  liquid-dsp; the transmitter is the modulator of liquid-dsp with a tail that repeats the last bit.
  A buffer that a call fills before it reads it is represented by its length.
\<close>

abbreviation (input) GFSK_MODEM_SPS :: nat where "GFSK_MODEM_SPS \<equiv> 2"
abbreviation (input) GFSK_MODEM_TX_TAIL_SYMBOLS :: nat where "GFSK_MODEM_TX_TAIL_SYMBOLS \<equiv> 6"
abbreviation (input) GFSK_MODEM_BURST_SYMBOLS :: nat where "GFSK_MODEM_BURST_SYMBOLS \<equiv> 2048"
abbreviation (input) GFSK_MODEM_DC_BLOCK_SYMBOLS :: nat where "GFSK_MODEM_DC_BLOCK_SYMBOLS \<equiv> 32"
abbreviation (input) GFSK_MODEM_RESAMPLER_OUTPUT_MARGIN :: nat where "GFSK_MODEM_RESAMPLER_OUTPUT_MARGIN \<equiv> 16"

section \<open>State\<close>

record 'l gfsk_modem =
  g_max_input_buffer_length :: nat
  g_resampler_rx :: "'l option"
  g_resampler_rx_output_len :: nat
  g_lowpass :: "'l option"
  discriminator :: 'l
  g_rx_len :: nat
  matched_filter :: 'l
  g_correlator :: "gfsk_correlator option"
  g_dc :: "dc_blocker option"
  g_symbol_sync :: 'l
  g_max_symbols :: nat
  g_max_modulation_input_bits :: nat
  g_max_modulation_buffer_length :: nat
  g_modulation_output :: "sample list"
  g_resampler_tx_flush_len :: nat
  tx_last_bit :: bool
  g_tx_pending :: bool
  g_mod :: 'l
  g_resampler_tx :: "'l option"
  g_resampler_tx_output_len :: nat

section \<open>Receiving\<close>

definition fits :: "nat \<Rightarrow> 'a list \<Rightarrow> 'a list option" where
  "fits n xs = (if length xs \<le> n then Some xs else None)"

text \<open>The symbol timing, one sample at a time; its rate is set back to the nominal one after each.\<close>

fun symsync_loop :: "'l liquid \<Rightarrow> nat \<Rightarrow> nat \<Rightarrow> rat list \<Rightarrow> 'l \<Rightarrow> (rat list \<times> 'l) option" where
  "symsync_loop k room n [] l = Some ([], l)"
| "symsync_loop k room n (x # xs) l = (case symsync_rrrf_execute k x l of (ys, l1) \<Rightarrow>
     if n + length ys \<le> room then do {
       (zs, l2) \<leftarrow> symsync_loop k room (n + length ys) xs (symsync_rrrf_set_output_rate k l1);
       Some (ys @ zs, l2) }
     else None)"

definition gfsk_soft :: "rat \<Rightarrow> u8" where
  "gfsk_soft x = (let r = fl32 (x * 127) in of_int (round_even (if r > 127 then 127 else if r < - 127 then - 127 else r)))"

definition gfsk_symbol_timing :: "'l liquid \<Rightarrow> rat list \<Rightarrow> 'l gfsk_modem \<Rightarrow> (u8 list option \<times> 'l gfsk_modem) option" where
  "gfsk_symbol_timing k xs d = do {
     (ys, d1) \<leftarrow> (case g_dc d of
         None \<Rightarrow> Some (xs, d)
       | Some b \<Rightarrow> do { (ys, b1) \<leftarrow> dc_blocker_process xs b; Some (ys, d\<lparr>g_dc := Some b1\<rparr>) });
     (symbols, l) \<leftarrow> symsync_loop k (g_max_symbols d1) 0 ys (g_symbol_sync d1);
     Some (Some (map gfsk_soft symbols), d1\<lparr>g_symbol_sync := l\<rparr>) }"

definition gfsk_modem_demodulate :: "'l liquid \<Rightarrow> correlator_lib \<Rightarrow> sample list \<Rightarrow> 'l gfsk_modem \<Rightarrow> (u8 list option \<times> 'l gfsk_modem) option" where
  "gfsk_modem_demodulate k ck input d =
    (if length input > g_max_input_buffer_length d then Some (None, d)
     else do {
       (xs, d1) \<leftarrow> (case g_resampler_rx d of
           None \<Rightarrow> Some (input, d)
         | Some r \<Rightarrow> (case msresamp_execute k input r of (ys, r1) \<Rightarrow> do {
             ys1 \<leftarrow> fits (g_resampler_rx_output_len d) ys;
             Some (ys1, d\<lparr>g_resampler_rx := Some r1\<rparr>) }));
       (xs2, d2) \<leftarrow> (case g_lowpass d1 of
           None \<Rightarrow> Some (xs, d1)
         | Some f \<Rightarrow> (case firfilt_execute_block k xs f of (ys, f1) \<Rightarrow> do {
             ys1 \<leftarrow> fits (g_rx_len d1) ys;
             Some (ys1, d1\<lparr>g_lowpass := Some f1\<rparr>) }));
       let (fs, q) = freqdem_demodulate_block k xs2 (discriminator d2);
       fs1 \<leftarrow> fits (g_rx_len d2) fs;
       let d3 = d2\<lparr>discriminator := q\<rparr>;
       (case g_correlator d3 of
          Some c \<Rightarrow> do {
            let (ms, mf) = firfilt_rrrf_execute_block k fs1 (matched_filter d3);
            ms1 \<leftarrow> fits (g_rx_len d3) ms;
            (bits, c1) \<leftarrow> gfsk_correlator_process ck ms1 c;
            Some (bits, d3\<lparr>matched_filter := mf, g_correlator := Some c1\<rparr>) }
        | None \<Rightarrow> gfsk_symbol_timing k fs1 d3) })"

section \<open>Transmitting\<close>

definition gfsk_modulate_bit :: "'l liquid \<Rightarrow> bool \<Rightarrow> 'l \<times> bool \<Rightarrow> sample list \<times> ('l \<times> bool)" where
  "gfsk_modulate_bit k b st = (case cpfskmod_modulate k b (fst st) of (ys, m) \<Rightarrow> (ys, (m, b)))"

definition gfsk_modem_resample_tx :: "'l liquid \<Rightarrow> nat \<Rightarrow> 'l gfsk_modem \<Rightarrow> (sample list option \<times> 'l gfsk_modem) option" where
  "gfsk_modem_resample_tx k len d = do {
     (ys, r) \<leftarrow> resample_tx k (g_resampler_tx_output_len d) len (g_modulation_output d) (g_resampler_tx d);
     Some (Some ys, d\<lparr>g_resampler_tx := r\<rparr>) }"

definition gfsk_modem_modulate :: "'l liquid \<Rightarrow> u8 list \<Rightarrow> 'l gfsk_modem \<Rightarrow> (sample list option \<times> 'l gfsk_modem) option" where
  "gfsk_modem_modulate k input d =
    (if length input * 8 > g_max_modulation_input_bits d then Some (None, d)
     else do {
       (out, m, last_bit) \<leftarrow> interp_loop (gfsk_modulate_bit k) GFSK_MODEM_SPS 0 (bits_of input) (g_modulation_output d) (g_mod d, tx_last_bit d);
       gfsk_modem_resample_tx k (length input * 8 * GFSK_MODEM_SPS) (d\<lparr>g_modulation_output := out, g_mod := m, tx_last_bit := last_bit,
         g_tx_pending := (g_tx_pending d \<or> length input > 0)\<rparr>) })"

definition gfsk_modem_modulate_flush :: "'l liquid \<Rightarrow> 'l gfsk_modem \<Rightarrow> (sample list option \<times> 'l gfsk_modem) option" where
  "gfsk_modem_modulate_flush k d =
    (if \<not> g_tx_pending d then Some (Some [], d)
     else do {
       (out, m) \<leftarrow> interp_loop (cpfskmod_modulate k) GFSK_MODEM_SPS 0 (replicate GFSK_MODEM_TX_TAIL_SYMBOLS (tx_last_bit d)) (g_modulation_output d) (g_mod d);
       let sample_index = GFSK_MODEM_TX_TAIL_SYMBOLS * GFSK_MODEM_SPS;
       (out1, sample_index1) \<leftarrow> (if g_resampler_tx d = None then Some (out, sample_index)
         else do {
           out1 \<leftarrow> memcpy out sample_index (replicate (g_resampler_tx_flush_len d) (0, 0)) (g_resampler_tx_flush_len d);
           Some (out1, sample_index + g_resampler_tx_flush_len d) });
       (r, d1) \<leftarrow> gfsk_modem_resample_tx k sample_index1 (d\<lparr>g_modulation_output := out1, g_mod := m\<rparr>);
       Some (r, d1\<lparr>g_mod := cpfskmod_reset k (g_mod d1), g_resampler_tx := map_option (msresamp_reset k) (g_resampler_tx d1),
         tx_last_bit := False, g_tx_pending := False\<rparr>) })"

definition gfsk_modem_max_modulation_buffer_length :: "'l gfsk_modem \<Rightarrow> nat" where
  "gfsk_modem_max_modulation_buffer_length d =
    (if g_resampler_tx d \<noteq> None then g_resampler_tx_output_len d else g_max_modulation_buffer_length d)"

section \<open>Construction and destruction\<close>

text \<open>The filter taps of the receiver, scaled to a gain of 1 at frequency 0; \<open>taps\<close> is the prototype of liquid-dsp.\<close>

definition gfsk_modem_create_rx_filter :: "rat list \<Rightarrow> rat list" where
  "gfsk_modem_create_rx_filter taps = map (\<lambda>x. fl32 (x / sum_f taps)) taps"

definition gfsk_modem_create_symbol_sync :: "rat list \<Rightarrow> rat list" where
  "gfsk_modem_create_symbol_sync taps = map (\<lambda>x. fl32 (x * fl32 (64 / sum_f taps))) taps"

text \<open>\<^verbatim>\<open>bt <= 0.0f || bt > 1.0f\<close> on a bit pattern; comparisons with not-a-number are false.\<close>

definition bt_invalid :: "f32 \<Rightarrow> bool" where
  "bt_invalid w = (case f32_value w of Some x \<Rightarrow> x \<le> 0 \<or> x > 1 | None \<Rightarrow> w AND 8388607 = 0)"

definition gfsk_internal_rate :: "gfsk_modem_settings \<Rightarrow> u64" where
  "gfsk_internal_rate s = 2 * ucast (gfsk_baud_rate s)"

definition gfsk_validate :: "gfsk_modem_settings \<Rightarrow> bool" where
  "gfsk_validate s \<longleftrightarrow> gfsk_baud_rate s \<noteq> 0 \<and> gfsk_deviation s \<noteq> 0 \<and> \<not> bt_invalid (gfsk_bt s) \<and> gfsk_syncword_bits s \<le> 64 \<and>
    2 \<le> fl64 (fl64 (of_nat (unat (gfsk_sample_rate s))) / fl64 (of_nat (unat (gfsk_baud_rate s))))"

text \<open>The cutoff of the channel filter; at one half or above there is no filter.\<close>

definition gfsk_lowpass_fc :: "gfsk_modem_settings \<Rightarrow> rat" where
  "gfsk_lowpass_fc s = fl32 (fl32 (fl32 (of_nat (unat (gfsk_bandwidth s))) / 2) / fl32 (of_nat (unat (gfsk_internal_rate s))))"

definition gfsk_resampled_len :: "nat \<Rightarrow> u64 \<Rightarrow> u64 \<Rightarrow> nat" where
  "gfsk_resampled_len len from to =
    nat \<lceil>fl64 (fl64 (of_nat len) * fl64 (fl64 (of_nat (unat to)) / fl64 (of_nat (unat from))))\<rceil> + GFSK_MODEM_RESAMPLER_OUTPUT_MARGIN"

record 'l gfsk_objects =
  go_resampler_rx :: 'l
  go_lowpass :: 'l
  go_discriminator :: 'l
  go_matched_filter :: 'l
  go_template_mean :: rat
  go_template_energy :: rat
  go_symbol_sync :: 'l
  go_mod :: 'l
  go_resampler_tx :: 'l
  go_delay :: rat

definition gfsk_modem_new :: "sample \<Rightarrow> gfsk_modem_settings \<Rightarrow> u32 \<Rightarrow> 'l gfsk_objects \<Rightarrow> 'l gfsk_modem" where
  "gfsk_modem_new junk s max_len obj = (
     let rate = gfsk_sample_rate s; internal = gfsk_internal_rate s; needs = (rate \<noteq> internal);
         rx_out_len = gfsk_resampled_len (unat max_len) rate internal;
         rx_len = (if needs then rx_out_len else unat max_len);
         bits = unat max_len * 8;
         flush_len = nat \<lceil>2 * go_delay obj\<rceil> + 1;
         max_mod = (bits + GFSK_MODEM_TX_TAIL_SYMBOLS) * GFSK_MODEM_SPS + (if needs then flush_len else 0)
     in \<lparr>g_max_input_buffer_length = unat max_len, g_resampler_rx = (if needs then Some (go_resampler_rx obj) else None),
         g_resampler_rx_output_len = (if needs then rx_out_len else 0),
         g_lowpass = (if gfsk_bandwidth s \<noteq> 0 \<and> gfsk_lowpass_fc s < 1 / 2 then Some (go_lowpass obj) else None),
         discriminator = go_discriminator obj, g_rx_len = rx_len, matched_filter = go_matched_filter obj,
         g_correlator = (if gfsk_syncword_bits s \<noteq> 0
           then Some (gfsk_correlator_new GFSK_MODEM_SPS (unat (gfsk_syncword_bits s)) (fl32 (7 / 10)) GFSK_MODEM_BURST_SYMBOLS rx_len
             (go_template_mean obj) (go_template_energy obj)) else None),
         g_dc = (if gfsk_syncword_bits s = 0 \<and> gfsk_use_dc_block s \<noteq> 0 then Some (dc_blocker_new (GFSK_MODEM_SPS * GFSK_MODEM_DC_BLOCK_SYMBOLS)) else None),
         g_symbol_sync = go_symbol_sync obj, g_max_symbols = (if gfsk_syncword_bits s = 0 then rx_len div GFSK_MODEM_SPS + 4 else 0),
         g_max_modulation_input_bits = bits, g_max_modulation_buffer_length = max_mod, g_modulation_output = replicate max_mod junk,
         g_resampler_tx_flush_len = (if needs then flush_len else 0), tx_last_bit = False, g_tx_pending = False, g_mod = go_mod obj,
         g_resampler_tx = (if needs then Some (go_resampler_tx obj) else None),
         g_resampler_tx_output_len = (if needs then gfsk_resampled_len max_mod internal rate else 0)\<rparr>)"

datatype gfsk_part = Gfsk_struct | Gfsk_resampler_rx | Gfsk_resampler_rx_output | Gfsk_lowpass | Gfsk_lowpass_output | Gfsk_discriminator |
  Gfsk_discriminator_output | Gfsk_matched_filter | Gfsk_matched_filter_output | Gfsk_correlator | Gfsk_dc | Gfsk_symbol_sync | Gfsk_symbol_sync_output |
  Gfsk_output | Gfsk_mod | Gfsk_modulation_output | Gfsk_resampler_tx | Gfsk_resampler_tx_output

definition gfsk_users :: "gfsk_part \<Rightarrow> gfsk_part set" where
  "gfsk_users p = (if p = Gfsk_struct then - {Gfsk_struct} else {})"

definition gfsk_modem_destroy_order :: "gfsk_part list" where
  "gfsk_modem_destroy_order = [Gfsk_resampler_rx, Gfsk_resampler_rx_output, Gfsk_lowpass, Gfsk_lowpass_output, Gfsk_discriminator, Gfsk_discriminator_output,
     Gfsk_matched_filter, Gfsk_matched_filter_output, Gfsk_correlator, Gfsk_dc, Gfsk_symbol_sync, Gfsk_symbol_sync_output, Gfsk_output, Gfsk_mod,
     Gfsk_modulation_output, Gfsk_resampler_tx, Gfsk_resampler_tx_output, Gfsk_struct]"

definition gfsk_modem_destroy :: "gfsk_part set \<Rightarrow> gfsk_part set option" where
  "gfsk_modem_destroy ps = release_all gfsk_users gfsk_modem_destroy_order ps"

lemma gfsk_parts: "insert Gfsk_struct (set (butlast gfsk_modem_destroy_order)) = UNIV"
proof -
  have "p \<in> insert Gfsk_struct (set (butlast gfsk_modem_destroy_order))" for p
    by (cases p) (simp_all add: gfsk_modem_destroy_order_def)
  then show ?thesis by blast
qed

interpretation gfsk_modem: component gfsk_users gfsk_modem_destroy_order
proof
  show "p \<in> set gfsk_modem_destroy_order" for p by (cases p) (simp_all add: gfsk_modem_destroy_order_def)
  show "ordered gfsk_users {} gfsk_modem_destroy_order"
    using gfsk_parts by (auto simp: gfsk_modem_destroy_order_def gfsk_users_def)
qed

text \<open>
  The part with a sync word and the part without one. \<open>filter_ok\<close>: the temporary filter taps are allocated; they are freed on every way
  out. The correlator is created before the matched filter is looked at. \<open>ccode\<close> and \<open>dcode\<close> are the answers of the two constructors.
\<close>

definition gfsk_modem_create_correlator :: "(gfsk_part \<Rightarrow> bool) \<Rightarrow> bool \<Rightarrow> int \<Rightarrow> gfsk_part step list" where
  "gfsk_modem_create_correlator oks filter_ok ccode =
     [(filter_ok, - ENOMEM, None), (True, 0, if oks Gfsk_matched_filter then Some Gfsk_matched_filter else None),
      (True, 0, if ccode = 0 then Some Gfsk_correlator else None), (oks Gfsk_matched_filter, - EINVAL, None), (ccode = 0, ccode, None),
      (oks Gfsk_matched_filter_output, - ENOMEM, Some Gfsk_matched_filter_output)]"

definition gfsk_modem_create_symbol_timing :: "(gfsk_part \<Rightarrow> bool) \<Rightarrow> int \<Rightarrow> gfsk_modem_settings \<Rightarrow> gfsk_part step list" where
  "gfsk_modem_create_symbol_timing oks dcode s =
     (if gfsk_use_dc_block s \<noteq> 0 then [(dcode = 0, dcode, Some Gfsk_dc)] else []) @
     [(oks Gfsk_symbol_sync, - EINVAL, Some Gfsk_symbol_sync), (oks Gfsk_symbol_sync_output, - ENOMEM, Some Gfsk_symbol_sync_output),
      (oks Gfsk_output, - ENOMEM, Some Gfsk_output)]"

definition gfsk_modem_create_steps :: "(gfsk_part \<Rightarrow> bool) \<Rightarrow> bool \<Rightarrow> int \<Rightarrow> int \<Rightarrow> gfsk_modem_settings \<Rightarrow> gfsk_part step list" where
  "gfsk_modem_create_steps oks filter_ok ccode dcode s = (let part = (\<lambda>p err. (oks p, - err, Some p)); needs = (gfsk_sample_rate s \<noteq> gfsk_internal_rate s) in
     (if needs then [part Gfsk_resampler_rx EINVAL, part Gfsk_resampler_rx_output ENOMEM] else []) @
     (if gfsk_bandwidth s \<noteq> 0 \<and> gfsk_lowpass_fc s < 1 / 2 then [part Gfsk_lowpass EINVAL, part Gfsk_lowpass_output ENOMEM] else []) @
     [part Gfsk_discriminator EINVAL, part Gfsk_discriminator_output ENOMEM] @
     (if gfsk_syncword_bits s \<noteq> 0 then gfsk_modem_create_correlator oks filter_ok ccode else gfsk_modem_create_symbol_timing oks dcode s) @
     [part Gfsk_mod EINVAL] @
     (if needs then [part Gfsk_resampler_tx EINVAL, part Gfsk_resampler_tx_output ENOMEM] else []) @
     [part Gfsk_modulation_output ENOMEM])"

definition gfsk_modem_create :: "(gfsk_part \<Rightarrow> bool) \<Rightarrow> bool \<Rightarrow> int \<Rightarrow> int \<Rightarrow> gfsk_modem_settings \<Rightarrow> (int \<times> gfsk_part set) option" where
  "gfsk_modem_create oks filter_ok ccode dcode s =
    (if \<not> gfsk_validate s then Some (- EINVAL, {})
     else if \<not> oks Gfsk_struct then Some (- ENOMEM, {})
     else construct gfsk_users gfsk_modem_destroy_order (gfsk_modem_create_steps oks filter_ok ccode dcode s) {Gfsk_struct})"

lemma gfsk_modem_create_outcome:
  "\<exists>code ps. gfsk_modem_create oks filter_ok ccode dcode s = Some (code, ps) \<and>
    (if code = 0 then ps = {Gfsk_struct} \<union> parts_of (gfsk_modem_create_steps oks filter_ok ccode dcode s) \<and> gfsk_validate s else ps = {})"
proof -
  have "list_all (\<lambda>st. fst st \<or> fst (snd st) \<noteq> 0) (gfsk_modem_create_steps oks filter_ok ccode dcode s)"
    by (simp add: gfsk_modem_create_steps_def gfsk_modem_create_correlator_def gfsk_modem_create_symbol_timing_def Let_def)
  from gfsk_modem.construct_outcome [OF this, of "{Gfsk_struct}"] show ?thesis
    by (auto simp: gfsk_modem_create_def split: if_splits)
qed

section \<open>The stream of a transmission\<close>

type_synonym 'l gfsk_core = "'l \<times> bool \<times> 'l option \<times> bool"

record 'l gfsk_design =
  gd_bits :: nat
  gd_flush_len :: nat
  gd_out_len :: nat
  gd_fresh :: "'l gfsk_core"

definition gfsk_core :: "'l gfsk_modem \<Rightarrow> 'l gfsk_core" where
  "gfsk_core d = (g_mod d, tx_last_bit d, g_resampler_tx d, g_tx_pending d)"

definition gfsk_resampled :: "'l gfsk_design \<Rightarrow> bool" where
  "gfsk_resampled gd = (case gd_fresh gd of (_, _, r, _) \<Rightarrow> r \<noteq> None)"

definition gfsk_max :: "'l gfsk_design \<Rightarrow> nat" where
  "gfsk_max gd = (gd_bits gd + 6) * 2 + (if gfsk_resampled gd then gd_flush_len gd else 0)"

definition gfsk_limit :: "'l gfsk_design \<Rightarrow> nat" where
  "gfsk_limit gd = (if gfsk_resampled gd then gd_out_len gd else gfsk_max gd)"

text \<open>What the modem relies on: two samples per bit, the margin of the resampler, and resets that forget what was modulated.\<close>

definition gfsk_lib_ok :: "'l liquid \<Rightarrow> 'l gfsk_design \<Rightarrow> bool" where
  "gfsk_lib_ok k gd \<longleftrightarrow>
    (\<forall>b l. length (fst (cpfskmod_modulate k b l)) = 2) \<and>
    (\<forall>xs l. length xs \<le> gfsk_max gd \<longrightarrow> length (fst (msresamp_execute k xs l)) \<le> gd_out_len gd) \<and>
    (\<forall>l. msresamp_execute k [] l = ([], l)) \<and>
    (\<forall>b l. cpfskmod_reset k (snd (cpfskmod_modulate k b l)) = cpfskmod_reset k l) \<and>
    (\<forall>x l. msresamp_reset k (snd (msresamp_execute k x l)) = msresamp_reset k l)"

definition gfsk_reset :: "'l liquid \<Rightarrow> 'l gfsk_core \<Rightarrow> 'l gfsk_core" where
  "gfsk_reset k c = (case c of (m, _, r, _) \<Rightarrow> (cpfskmod_reset k m, False, map_option (msresamp_reset k) r, False))"

definition gfsk_step :: "'l liquid \<Rightarrow> u8 list \<Rightarrow> 'l gfsk_core \<Rightarrow> sample list \<times> 'l gfsk_core" where
  "gfsk_step k f c = (case c of (m, b, r, pend) \<Rightarrow>
     case interpolate (gfsk_modulate_bit k) (bits_of f) (m, b) of (xs, m1, b1) \<Rightarrow>
     case resampled k xs r of (ys, r1) \<Rightarrow> (ys, (m1, b1, r1, pend \<or> f \<noteq> [])))"

definition gfsk_final :: "'l liquid \<Rightarrow> 'l gfsk_design \<Rightarrow> 'l gfsk_core \<Rightarrow> sample list" where
  "gfsk_final k gd c = (case c of (m, b, r, pend) \<Rightarrow>
     if \<not> pend then []
     else fst (resampled k (fst (interpolate (cpfskmod_modulate k) (replicate 6 b) m) @ (if r = None then [] else replicate (gd_flush_len gd) (0, 0))) r))"

definition gfsk_tx_ok :: "'l liquid \<Rightarrow> 'l gfsk_design \<Rightarrow> 'l gfsk_modem \<Rightarrow> bool" where
  "gfsk_tx_ok k gd d \<longleftrightarrow> gfsk_lib_ok k gd \<and> gfsk_max gd < 2 ^ 32 \<and> gfsk_reset k (gd_fresh gd) = gd_fresh gd \<and>
    g_max_modulation_input_bits d = gd_bits gd \<and> g_resampler_tx_flush_len d = gd_flush_len gd \<and> g_resampler_tx_output_len d = gd_out_len gd \<and>
    length (g_modulation_output d) = gfsk_max gd \<and> (g_resampler_tx d \<noteq> None \<longleftrightarrow> gfsk_resampled gd) \<and>
    gfsk_reset k (gfsk_core d) = gd_fresh gd \<and> (\<not> g_tx_pending d \<longrightarrow> gfsk_core d = gd_fresh gd)"

lemma gfsk_lib:
  assumes "gfsk_lib_ok k gd"
  shows "length (fst (cpfskmod_modulate k b l)) = 2" "\<forall>xs l. length xs \<le> gfsk_max gd \<longrightarrow> length (fst (msresamp_execute k xs l)) \<le> gd_out_len gd"
    "msresamp_execute k [] l = ([], l)" "\<forall>b l. cpfskmod_reset k (snd (cpfskmod_modulate k b l)) = cpfskmod_reset k l"
    "\<forall>x l. msresamp_reset k (snd (msresamp_execute k x l)) = msresamp_reset k l"
  using assms unfolding gfsk_lib_ok_def by blast+

lemma modulate_bit_reset:
  assumes "\<forall>b l. cpfskmod_reset k (snd (cpfskmod_modulate k b l)) = cpfskmod_reset k l"
  shows "\<forall>b st. cpfskmod_reset k (fst (snd (gfsk_modulate_bit k b st))) = cpfskmod_reset k (fst st)"
  using assms by (auto simp: gfsk_modulate_bit_def split: prod.split) (metis snd_conv)

lemma gfsk_modulate_step:
  assumes ok: "gfsk_tx_ok k gd d" and f: "length f \<le> gd_bits gd div 8" and st: "gfsk_step k f (gfsk_core d) = (ys, c)"
  shows "\<exists>d1. gfsk_modem_modulate k f d = Some (Some ys, d1) \<and> gfsk_tx_ok k gd d1 \<and> gfsk_core d1 = c \<and> length ys \<le> gfsk_limit gd"
proof -
  note o = ok [unfolded gfsk_tx_ok_def]
  then have lib: "gfsk_lib_ok k gd" by simp
  obtain xs m1 b1 where xs: "interpolate (gfsk_modulate_bit k) (bits_of f) (g_mod d, tx_last_bit d) = (xs, m1, b1)" by (metis surj_pair)
  obtain r1 where r: "resampled k (xs @ []) (g_resampler_tx d) = (ys, r1)" and c: "c = (m1, b1, r1, g_tx_pending d \<or> f \<noteq> [])"
    using st xs by (auto simp: gfsk_step_def gfsk_core_def split: prod.splits)
  have f8: "length f * 8 \<le> gd_bits gd" using f by linarith
  have block: "length (fst (gfsk_modulate_bit k x st)) = 2" for x st
    using gfsk_lib(1) [OF lib] by (auto simp: gfsk_modulate_bit_def split: prod.split) (metis fst_conv)
  have fit: "length (g_modulation_output d) = gfsk_max gd" "gfsk_max gd < 2 ^ 32" "length (bits_of f) * 2 + length ([] :: sample list) \<le> gfsk_max gd"
    using o f8 by (simp_all add: gfsk_max_def)
  from modulated_buffer [of "gfsk_modulate_bit k" 2, OF block fit xs r gfsk_lib(2) [OF lib]] obtain out buf where
    l: "interp_loop (gfsk_modulate_bit k) 2 0 (bits_of f) (g_modulation_output d) (g_mod d, tx_last_bit d) = Some (out, m1, b1)"
      "memcpy out (length (bits_of f) * 2) [] (length ([] :: sample list)) = Some buf" "length buf = gfsk_max gd"
      "resample_tx k (gd_out_len gd) (length (bits_of f) * 2 + length ([] :: sample list)) buf (g_resampler_tx d) = Some (ys, r1)"
      "length ys \<le> (if g_resampler_tx d = None then gfsk_max gd else gd_out_len gd)" "r1 = None \<longleftrightarrow> g_resampler_tx d = None"
    by (elim exE conjE) (rule that)
  have "buf = out" using l(2) by (simp add: memcpy_def split: if_splits)
  with l have b: "interp_loop (gfsk_modulate_bit k) 2 0 (bits_of f) (g_modulation_output d) (g_mod d, tx_last_bit d) = Some (buf, m1, b1)"
      "length buf = gfsk_max gd" "resample_tx k (gd_out_len gd) (length f * 8 * 2) buf (g_resampler_tx d) = Some (ys, r1)"
      "length ys \<le> (if g_resampler_tx d = None then gfsk_max gd else gd_out_len gd)" "r1 = None \<longleftrightarrow> g_resampler_tx d = None"
    by (simp_all add: mult.commute)
  let ?d = "d\<lparr>g_modulation_output := buf, g_mod := m1, tx_last_bit := b1, g_tx_pending := (g_tx_pending d \<or> length f > 0), g_resampler_tx := r1\<rparr>"
  have "gfsk_modem_modulate k f d = Some (Some ys, ?d)"
    using f8 b(1,3) o by (simp add: gfsk_modem_modulate_def gfsk_modem_resample_tx_def)
  moreover have core: "gfsk_core ?d = c" using c by (simp add: gfsk_core_def)
  moreover have "gfsk_reset k c = gfsk_reset k (gfsk_core d)"
    using c interpolate_reset [of "\<lambda>st. cpfskmod_reset k (fst st)", OF modulate_bit_reset [OF gfsk_lib(4) [OF lib]] xs] resampled_reset [OF gfsk_lib(5) [OF lib] r]
    by (simp add: gfsk_core_def gfsk_reset_def)
  moreover have "c = gfsk_core d" if "\<not> g_tx_pending d" "f = []"
    using that c xs r gfsk_lib(3) [OF lib] by (auto simp: gfsk_core_def bits_of_def resampled_def split: option.splits)
  ultimately have "gfsk_tx_ok k gd ?d" using o b(2,5) by (auto simp: gfsk_tx_ok_def)
  with core \<open>gfsk_modem_modulate k f d = _\<close> b(4) o show ?thesis by (auto simp: gfsk_limit_def)
qed

lemma gfsk_flush_step:
  assumes ok: "gfsk_tx_ok k gd d"
  shows "\<exists>d1. gfsk_modem_modulate_flush k d = Some (Some (gfsk_final k gd (gfsk_core d)), d1) \<and> gfsk_tx_ok k gd d1 \<and> gfsk_core d1 = gd_fresh gd \<and>
    length (gfsk_final k gd (gfsk_core d)) \<le> gfsk_limit gd"
proof (cases "g_tx_pending d")
  case False
  then have "gfsk_final k gd (gfsk_core d) = []" by (simp add: gfsk_final_def gfsk_core_def)
  moreover have "gfsk_core d = gd_fresh gd" using ok False by (simp add: gfsk_tx_ok_def)
  ultimately show ?thesis using ok False by (simp add: gfsk_modem_modulate_flush_def)
next
  case True
  note o = ok [unfolded gfsk_tx_ok_def]
  then have lib: "gfsk_lib_ok k gd" by simp
  define zs :: "sample list" where "zs = (if g_resampler_tx d = None then [] else replicate (gd_flush_len gd) (0, 0))"
  let ?bs = "replicate 6 (tx_last_bit d)"
  obtain xs m1 where xs: "interpolate (cpfskmod_modulate k) ?bs (g_mod d) = (xs, m1)" by fastforce
  obtain ys r1 where r: "resampled k (xs @ zs) (g_resampler_tx d) = (ys, r1)" by fastforce
  have fit: "length (g_modulation_output d) = gfsk_max gd" "gfsk_max gd < 2 ^ 32" "length ?bs * 2 + length zs \<le> gfsk_max gd"
    using o by (simp_all add: gfsk_max_def zs_def)
  from modulated_buffer [of "cpfskmod_modulate k" 2, OF gfsk_lib(1) [OF lib] fit xs r gfsk_lib(2) [OF lib]] obtain out buf where
    b: "interp_loop (cpfskmod_modulate k) 2 0 ?bs (g_modulation_output d) (g_mod d) = Some (out, m1)" "memcpy out 12 zs (length zs) = Some buf"
      "length buf = gfsk_max gd" "resample_tx k (gd_out_len gd) (12 + length zs) buf (g_resampler_tx d) = Some (ys, r1)"
      "length ys \<le> (if g_resampler_tx d = None then gfsk_max gd else gd_out_len gd)" "r1 = None \<longleftrightarrow> g_resampler_tx d = None" by auto
  let ?d = "d\<lparr>g_modulation_output := buf, g_mod := cpfskmod_reset k m1, g_resampler_tx := map_option (msresamp_reset k) r1,
    tx_last_bit := False, g_tx_pending := False\<rparr>"
  have y: "gfsk_final k gd (gfsk_core d) = ys" using True xs r by (simp add: gfsk_final_def gfsk_core_def zs_def)
  have "gfsk_modem_modulate_flush k d = Some (Some ys, ?d)"
  proof (cases "g_resampler_tx d")
    case None
    then have "buf = out" "zs = []" using b(2) by (auto simp: zs_def memcpy_def split: if_splits)
    then show ?thesis using True b(1,4) o None by (simp add: gfsk_modem_modulate_flush_def gfsk_modem_resample_tx_def)
  next
    case (Some rs)
    then have "memcpy out 12 (replicate (gd_flush_len gd) (0, 0)) (gd_flush_len gd) = Some buf" "length zs = gd_flush_len gd" using b(2) by (simp_all add: zs_def)
    then show ?thesis using True b(1,4) o Some by (simp add: gfsk_modem_modulate_flush_def gfsk_modem_resample_tx_def)
  qed
  moreover have "gfsk_core ?d = gfsk_reset k (gfsk_core d)"
    using interpolate_reset [OF gfsk_lib(4) [OF lib] xs] resampled_reset [OF gfsk_lib(5) [OF lib] r] by (simp add: gfsk_core_def gfsk_reset_def)
  then have c: "gfsk_core ?d = gd_fresh gd" using o by simp
  moreover have "gfsk_tx_ok k gd ?d" using o b(3,6) c by (simp add: gfsk_tx_ok_def)
  ultimately show ?thesis using y b(5) o by (auto simp: gfsk_limit_def)
qed

lemma gfsk_modulate_oversize: "gfsk_tx_ok k gd d \<Longrightarrow> gd_bits gd div 8 < length f \<Longrightarrow> gfsk_modem_modulate k f d = Some (None, d)"
  by (simp add: gfsk_tx_ok_def gfsk_modem_modulate_def div_less_iff_less_mult)

interpretation gfsk: transmitter "gfsk_modem_modulate k" "gfsk_modem_modulate_flush k" "gfsk_tx_ok k gd" gfsk_core "gfsk_step k" "gfsk_final k gd"
  "gd_fresh gd" "gd_bits gd div 8" "gfsk_limit gd" for k :: "'l liquid" and gd
proof
  fix m :: "'l gfsk_modem" and f xs c
  show "gfsk_tx_ok k gd m \<Longrightarrow> length f \<le> gd_bits gd div 8 \<Longrightarrow> gfsk_step k f (gfsk_core m) = (xs, c) \<Longrightarrow>
    \<exists>m1. gfsk_modem_modulate k f m = Some (Some xs, m1) \<and> gfsk_tx_ok k gd m1 \<and> gfsk_core m1 = c \<and> length xs \<le> gfsk_limit gd"
    by (rule gfsk_modulate_step)
  show "gfsk_tx_ok k gd m \<Longrightarrow> gd_bits gd div 8 < length f \<Longrightarrow> gfsk_modem_modulate k f m = Some (None, m)"
    by (rule gfsk_modulate_oversize)
  show "gfsk_tx_ok k gd m \<Longrightarrow> \<exists>m1. gfsk_modem_modulate_flush k m = Some (Some (gfsk_final k gd (gfsk_core m)), m1) \<and> gfsk_tx_ok k gd m1 \<and>
    gfsk_core m1 = gd_fresh gd \<and> length (gfsk_final k gd (gfsk_core m)) \<le> gfsk_limit gd"
    by (rule gfsk_flush_step)
qed

section \<open>A new modem\<close>

definition gfsk_design :: "gfsk_modem_settings \<Rightarrow> u32 \<Rightarrow> 'l gfsk_objects \<Rightarrow> 'l gfsk_design" where
  "gfsk_design s max_len obj = (let d = gfsk_modem_new (0, 0) s max_len obj in
     \<lparr>gd_bits = g_max_modulation_input_bits d, gd_flush_len = g_resampler_tx_flush_len d, gd_out_len = g_resampler_tx_output_len d, gd_fresh = gfsk_core d\<rparr>)"

lemma gfsk_modem_new_ok:
  assumes "gfsk_lib_ok k (gfsk_design s max_len obj)" "gfsk_max (gfsk_design s max_len obj) < 2 ^ 32"
    and reset: "cpfskmod_reset k (go_mod obj) = go_mod obj" "msresamp_reset k (go_resampler_tx obj) = go_resampler_tx obj"
  shows "gfsk_tx_ok k (gfsk_design s max_len obj) (gfsk_modem_new junk s max_len obj)"
    "gfsk_core (gfsk_modem_new junk s max_len obj) = gd_fresh (gfsk_design s max_len obj)"
    "gfsk_modem_max_modulation_buffer_length (gfsk_modem_new junk s max_len obj) = gfsk_limit (gfsk_design s max_len obj)"
proof -
  show "gfsk_tx_ok k (gfsk_design s max_len obj) (gfsk_modem_new junk s max_len obj)"
    using assms by (simp add: gfsk_tx_ok_def gfsk_design_def gfsk_modem_new_def Let_def gfsk_core_def gfsk_reset_def gfsk_resampled_def gfsk_max_def)
  show "gfsk_core (gfsk_modem_new junk s max_len obj) = gd_fresh (gfsk_design s max_len obj)"
    by (simp add: gfsk_design_def gfsk_modem_new_def Let_def gfsk_core_def)
  show "gfsk_modem_max_modulation_buffer_length (gfsk_modem_new junk s max_len obj) = gfsk_limit (gfsk_design s max_len obj)"
    by (simp add: gfsk_design_def gfsk_modem_new_def Let_def gfsk_core_def gfsk_limit_def gfsk_resampled_def gfsk_max_def
        gfsk_modem_max_modulation_buffer_length_def)
qed

section \<open>The receiving chain\<close>

text \<open>
  What the chain of buffers relies on: filters and the discriminator keep the number of samples, the resampler stays within its
  margin, and the sync word search works on buffers of the length of the receiver's.
\<close>

definition gfsk_rx_ok :: "'l liquid \<Rightarrow> 'l gfsk_modem \<Rightarrow> bool" where
  "gfsk_rx_ok k d \<longleftrightarrow>
    (\<forall>xs l. length (fst (firfilt_execute_block k xs l)) = length xs) \<and> (\<forall>xs l. length (fst (freqdem_demodulate_block k xs l)) = length xs) \<and>
    (\<forall>xs l. length (fst (firfilt_rrrf_execute_block k xs l)) = length xs) \<and>
    (if g_resampler_rx d = None then g_max_input_buffer_length d = g_rx_len d
     else g_resampler_rx_output_len d = g_rx_len d \<and>
       (\<forall>xs l. length xs \<le> g_max_input_buffer_length d \<longrightarrow> length (fst (msresamp_execute k xs l)) \<le> g_rx_len d)) \<and>
    (\<exists>c. g_correlator d = Some c \<and> corr_ok c \<and> c_max_input_buffer_length c = g_rx_len d \<and> c_sps c = 2)"

lemma gfsk_front_end:
  assumes ok: "gfsk_rx_ok k d" and n: "length input \<le> g_max_input_buffer_length d"
  shows "\<exists>xs r. (case g_resampler_rx d of
      None \<Rightarrow> Some (input, d)
    | Some r \<Rightarrow> (case msresamp_execute k input r of (ys, r1) \<Rightarrow> do {
        ys1 \<leftarrow> fits (g_resampler_rx_output_len d) ys;
        Some (ys1, d\<lparr>g_resampler_rx := Some r1\<rparr>) })) = Some (xs, d\<lparr>g_resampler_rx := r\<rparr>) \<and> length xs \<le> g_rx_len d \<and>
    (r = None \<longleftrightarrow> g_resampler_rx d = None)"
proof (cases "g_resampler_rx d")
  case None
  then have "d = d\<lparr>g_resampler_rx := None\<rparr>" by simp
  with None ok n show ?thesis by (auto simp: gfsk_rx_ok_def)
next
  case (Some r)
  obtain ys r1 where "msresamp_execute k input r = (ys, r1)" by fastforce
  moreover from this have "length ys \<le> g_rx_len d" "g_resampler_rx_output_len d = g_rx_len d"
    using ok n Some unfolding gfsk_rx_ok_def by (metis fst_conv option.distinct(1))+
  ultimately show ?thesis using Some by (auto simp: fits_def)
qed

lemma gfsk_channel_filter:
  assumes ok: "gfsk_rx_ok k d" and n: "length xs \<le> g_rx_len d"
  shows "\<exists>ys f. (case g_lowpass d of
      None \<Rightarrow> Some (xs, d)
    | Some f \<Rightarrow> (case firfilt_execute_block k xs f of (ys, f1) \<Rightarrow> do {
        ys1 \<leftarrow> fits (g_rx_len d) ys;
        Some (ys1, d\<lparr>g_lowpass := Some f1\<rparr>) })) = Some (ys, d\<lparr>g_lowpass := f\<rparr>) \<and> length ys = length xs"
proof (cases "g_lowpass d")
  case None
  then have "d\<lparr>g_lowpass := None\<rparr> = d" by simp
  with None show ?thesis by (auto intro!: exI [of _ None])
next
  case (Some f)
  obtain ys f1 where f: "firfilt_execute_block k xs f = (ys, f1)" by fastforce
  have "length (fst (firfilt_execute_block k xs f)) = length xs" using ok unfolding gfsk_rx_ok_def by blast
  with f Some n show ?thesis by (auto simp: fits_def)
qed

lemma gfsk_rx_ok_update:
  "gfsk_rx_ok k d \<Longrightarrow> (r = None \<longleftrightarrow> g_resampler_rx d = None) \<Longrightarrow> gfsk_rx_ok k (d\<lparr>g_resampler_rx := r\<rparr>)"
  "gfsk_rx_ok k (d\<lparr>g_lowpass := f\<rparr>) = gfsk_rx_ok k d"
  "gfsk_rx_ok k d \<Longrightarrow> corr_ok c \<Longrightarrow> c_max_input_buffer_length c = g_rx_len d \<Longrightarrow> c_sps c = 2 \<Longrightarrow>
   gfsk_rx_ok k (d\<lparr>discriminator := q, matched_filter := m, g_correlator := Some c\<rparr>)"
  unfolding gfsk_rx_ok_def by simp_all

lemma gfsk_demodulate_total:
  assumes ok: "gfsk_rx_ok k d" and n: "length input \<le> g_max_input_buffer_length d"
  shows "\<exists>bits d1. gfsk_modem_demodulate k ck input d = Some (Some bits, d1) \<and> gfsk_rx_ok k d1 \<and> length bits \<le> g_rx_len d div 2 + 4 \<and>
    g_max_input_buffer_length d1 = g_max_input_buffer_length d \<and> g_rx_len d1 = g_rx_len d"
proof -
  from gfsk_front_end [OF assms] obtain xs r where
    x: "(case g_resampler_rx d of None \<Rightarrow> Some (input, d) | Some r \<Rightarrow> (case msresamp_execute k input r of (ys, r1) \<Rightarrow> do {
        ys1 \<leftarrow> fits (g_resampler_rx_output_len d) ys; Some (ys1, d\<lparr>g_resampler_rx := Some r1\<rparr>) })) = Some (xs, d\<lparr>g_resampler_rx := r\<rparr>)"
      "length xs \<le> g_rx_len d" "r = None \<longleftrightarrow> g_resampler_rx d = None" by (elim exE conjE) (rule that)
  define e where "e = d\<lparr>g_resampler_rx := r\<rparr>"
  have e: "gfsk_rx_ok k e" "g_rx_len e = g_rx_len d" "g_max_input_buffer_length e = g_max_input_buffer_length d"
    using gfsk_rx_ok_update(1) [OF ok x(3)] by (simp_all add: e_def)
  from gfsk_channel_filter [OF e(1), of xs] x(2) e(2) obtain ys f where
    y: "(case g_lowpass e of None \<Rightarrow> Some (xs, e) | Some f \<Rightarrow> (case firfilt_execute_block k xs f of (ys, f1) \<Rightarrow> do {
        ys1 \<leftarrow> fits (g_rx_len e) ys; Some (ys1, e\<lparr>g_lowpass := Some f1\<rparr>) })) = Some (ys, e\<lparr>g_lowpass := f\<rparr>)"
      "length ys = length xs" by (auto simp: ex_simps)
  define g where "g = e\<lparr>g_lowpass := f\<rparr>"
  have g: "gfsk_rx_ok k g" "g_rx_len g = g_rx_len d" "g_max_input_buffer_length g = g_max_input_buffer_length d"
    using e gfsk_rx_ok_update(2) [of k f e] by (simp_all add: g_def)
  obtain fs q where q: "freqdem_demodulate_block k ys (discriminator g) = (fs, q)" by fastforce
  obtain ms m where m: "firfilt_rrrf_execute_block k fs (matched_filter g) = (ms, m)" by fastforce
  have "length (fst (freqdem_demodulate_block k ys (discriminator g))) = length ys" "length (fst (firfilt_rrrf_execute_block k fs (matched_filter g))) = length fs"
    using g(1) unfolding gfsk_rx_ok_def by blast+
  then have len: "length fs \<le> g_rx_len d" "length ms \<le> g_rx_len d" using q m x(2) y(2) by simp_all
  obtain c where c: "g_correlator g = Some c" "corr_ok c" "c_max_input_buffer_length c = g_rx_len d" "c_sps c = 2"
    using g unfolding gfsk_rx_ok_def by auto
  from gfsk_correlator_process_safe [OF c(2), of ms ck] len(2) c(3,4) obtain bits c1 where
    p: "gfsk_correlator_process ck ms c = Some (Some bits, c1)" "corr_ok c1" "length bits \<le> length ms div 2 + 4"
      "c_max_input_buffer_length c1 = g_rx_len d" "c_sps c1 = 2" by auto
  let ?d = "g\<lparr>discriminator := q, matched_filter := m, g_correlator := Some c1\<rparr>"
  have "gfsk_modem_demodulate k ck input d = Some (Some bits, ?d)"
    using n x(1) [folded e_def] y(1) [folded g_def] q m c(1) len p(1) g(2)
    by (simp add: gfsk_modem_demodulate_def fits_def)
  moreover have "gfsk_rx_ok k ?d" using gfsk_rx_ok_update(3) [OF g(1) p(2)] p(4,5) g(2) by simp
  moreover have "length bits \<le> g_rx_len d div 2 + 4" using p(3) len(2) div_le_mono [of "length ms" "g_rx_len d" 2] by linarith
  ultimately show ?thesis using g(2,3) by (intro exI conjI) (assumption, simp_all)
qed

text \<open>Some buffers one after the other.\<close>

fun gfsk_modem_stream :: "'l liquid \<Rightarrow> correlator_lib \<Rightarrow> sample list list \<Rightarrow> 'l gfsk_modem \<Rightarrow> (u8 list option list \<times> 'l gfsk_modem) option" where
  "gfsk_modem_stream k ck [] d = Some ([], d)"
| "gfsk_modem_stream k ck (x # xs) d = do {
     (y, d1) \<leftarrow> gfsk_modem_demodulate k ck x d;
     (ys, d2) \<leftarrow> gfsk_modem_stream k ck xs d1;
     Some (y # ys, d2) }"

lemma gfsk_stream_total:
  "gfsk_rx_ok k d \<Longrightarrow> \<forall>x \<in> set xs. length x \<le> g_max_input_buffer_length d \<Longrightarrow>
   \<exists>outs d1. gfsk_modem_stream k ck xs d = Some (map Some outs, d1) \<and> length outs = length xs \<and> (\<forall>bits \<in> set outs. length bits \<le> g_rx_len d div 2 + 4)"
proof (induction xs arbitrary: d)
  case (Cons x xs)
  from gfsk_demodulate_total [OF Cons.prems(1), of x ck] Cons.prems(2) obtain bits d1 where
    d: "gfsk_modem_demodulate k ck x d = Some (Some bits, d1)" "gfsk_rx_ok k d1" "length bits \<le> g_rx_len d div 2 + 4"
      "g_max_input_buffer_length d1 = g_max_input_buffer_length d" "g_rx_len d1 = g_rx_len d" by auto
  from Cons.IH [OF d(2)] Cons.prems(2) d(4,5) obtain outs d2 where
    "gfsk_modem_stream k ck xs d1 = Some (map Some outs, d2)" "length outs = length xs" "\<forall>bits \<in> set outs. length bits \<le> g_rx_len d div 2 + 4" by auto
  with d(1,3) show ?case by (intro exI [of _ "bits # outs"] exI [of _ d2]) simp
qed simp

text \<open>The behaviour of liquid-dsp the receiver relies on, and that a new modem has what the chain needs.\<close>

definition gfsk_rx_lib_ok :: "'l liquid \<Rightarrow> gfsk_modem_settings \<Rightarrow> u32 \<Rightarrow> bool" where
  "gfsk_rx_lib_ok k s max_len \<longleftrightarrow>
    (\<forall>xs l. length (fst (firfilt_execute_block k xs l)) = length xs) \<and> (\<forall>xs l. length (fst (freqdem_demodulate_block k xs l)) = length xs) \<and>
    (\<forall>xs l. length (fst (firfilt_rrrf_execute_block k xs l)) = length xs) \<and>
    (\<forall>xs l. length xs \<le> unat max_len \<longrightarrow>
      length (fst (msresamp_execute k xs l)) \<le> gfsk_resampled_len (unat max_len) (gfsk_sample_rate s) (gfsk_internal_rate s))"

lemma fl64_upper:
  assumes "0 \<le> x"
  shows "fl64 x \<le> x * (9 / 8)" "x * (7 / 8) \<le> fl64 x" "0 \<le> fl64 x"
proof -
  have "\<bar>x\<bar> / 2 ^ 53 \<le> x / 8" using assms by (intro frac_le) simp_all
  with fl_error [of 53 x] have e: "\<bar>fl64 x - x\<bar> \<le> x / 8" by (rule order_trans)
  show "fl64 x \<le> x * (9 / 8)" using e assms by linarith
  show l: "x * (7 / 8) \<le> fl64 x" using e assms by linarith
  show "0 \<le> fl64 x" using l assms by linarith
qed

lemma gfsk_rx_len_bound:
  fixes max_len :: u32
  assumes "gfsk_validate s"
  shows "gfsk_resampled_len (unat max_len) (gfsk_sample_rate s) (gfsk_internal_rate s) < 2 ^ 35"
proof -
  define r b where "r = fl64 (of_nat (unat (gfsk_sample_rate s)))" and "b = (of_nat (unat (gfsk_baud_rate s)) :: rat)"
  have v: "2 \<le> fl64 (r / fl64 b)" "gfsk_baud_rate s \<noteq> 0" using assms by (simp_all add: gfsk_validate_def r_def b_def)
  have "0 < unat (gfsk_baud_rate s)" using v(2) by (simp add: unat_gt_0)
  then have "0 < b" by (simp add: b_def del: of_nat_unat)
  have pos: "0 < fl64 b" "0 \<le> r" using fl64_upper(2) [of b] fl64_upper(3) [of "of_nat (unat (gfsk_sample_rate s))"] \<open>0 < b\<close>
    by (simp_all add: r_def del: of_nat_unat)
  have "2 \<le> r / fl64 b * (9 / 8)" using v(1) fl64_upper(1) [of "r / fl64 b"] pos by simp
  then have "16 * fl64 b \<le> 9 * r" using pos(1) by (simp add: field_simps)
  then have rb: "b \<le> r" using fl64_upper(2) [of b] \<open>0 < b\<close> by linarith
  have "unat (2 * ucast (gfsk_baud_rate s) :: u64) = 2 * unat (gfsk_baud_rate s)"
    using unsigned_less [of "gfsk_baud_rate s", where 'a = nat] by (simp add: unat_word_ariths unsigned_ucast_eq take_bit_eq_mod)
  then have "fl64 (of_nat (unat (gfsk_internal_rate s))) = fl64 (2 * b)" by (simp add: gfsk_internal_rate_def b_def)
  moreover have "fl64 (2 * b) \<le> 3 * r" using fl64_upper(1) [of "2 * b"] rb \<open>0 < b\<close> by linarith
  moreover have "0 \<le> fl64 (2 * b)" using fl64_upper(2) [of "2 * b"] \<open>0 < b\<close> by linarith
  ultimately have q: "0 \<le> fl64 (of_nat (unat (gfsk_internal_rate s))) / r" "fl64 (of_nat (unat (gfsk_internal_rate s))) / r \<le> 3"
    using rb \<open>0 < b\<close> by (simp_all add: divide_simps)
  define g where "g = fl64 (of_nat (unat (gfsk_internal_rate s))) / r"
  note q = q [folded g_def]
  define w where "w = fl64 g"
  have w: "0 \<le> w" using fl64_upper(3) [OF q(1)] by (simp add: w_def)
  have w4: "w \<le> 4" using fl64_upper(1) [OF q(1)] q(2) unfolding w_def by linarith
  define m where "m = fl64 (of_nat (unat max_len))"
  have "unat max_len \<le> 4294967296" using unsigned_less [of max_len, where 'a = nat] by simp
  then have "(of_nat (unat max_len) :: rat) \<le> of_nat 4294967296" by (simp only: of_nat_le_iff)
  then have m: "0 \<le> m" "m \<le> 5000000000" using fl64_upper [of "of_nat (unat max_len)"] unfolding m_def by (simp_all del: of_nat_unat)
  have "m * w \<le> 5000000000 * 4" using m w w4 by (intro mult_mono) simp_all
  then have "fl64 (m * w) \<le> 30000000000" using fl64_upper(1) [of "m * w"] m w by simp
  then have "\<lceil>fl64 (m * w)\<rceil> \<le> 30000000000" by (simp add: ceiling_le_iff)
  then have "nat \<lceil>fl64 (m * w)\<rceil> < 34359738352" by linarith
  then show ?thesis by (simp add: gfsk_resampled_len_def m_def w_def g_def r_def)
qed

lemma gfsk_modem_new_rx_ok:
  assumes lib: "gfsk_rx_lib_ok k s max_len" and s: "gfsk_validate s" "gfsk_syncword_bits s \<noteq> 0"
  shows "gfsk_rx_ok k (gfsk_modem_new junk s max_len obj)"
proof -
  let ?n = "if gfsk_sample_rate s \<noteq> gfsk_internal_rate s then gfsk_resampled_len (unat max_len) (gfsk_sample_rate s) (gfsk_internal_rate s) else unat max_len"
  let ?b = "unat (gfsk_syncword_bits s)"
  have "?b \<le> 64" using s(1) by (simp add: gfsk_validate_def word_le_nat_alt)
  moreover have "0 < ?b" using s(2) by (simp add: unat_gt_0)
  moreover have "?n < 2 ^ 35" using gfsk_rx_len_bound [OF s(1), of max_len] unsigned_less [of max_len, where 'a = nat] by simp
  ultimately have "?b * 2 + 11 * 2 + ?n < 2 ^ 50" "0 < ?b" by simp_all
  from gfsk_correlator_new_ok [of 2, OF _ _ this(2,1)]
  have "corr_ok (gfsk_correlator_new 2 ?b (fl32 (7 / 10)) 2048 ?n (go_template_mean obj) (go_template_energy obj))" by simp
  then show ?thesis using lib s(2)
    by (auto simp: gfsk_rx_ok_def gfsk_modem_new_def Let_def gfsk_rx_lib_ok_def gfsk_correlator_new_def)
qed

section \<open>Properties\<close>


text \<open>An example: 4800 baud with a sync word of 8 bits, from twice the internal rate.\<close>

definition example_gfsk :: gfsk_modem_settings where
  "example_gfsk = \<lparr>gfsk_sample_rate = 19200, gfsk_baud_rate = 4800, gfsk_deviation = 5000, gfsk_bandwidth = 0, gfsk_bt = 1056964608, gfsk_use_dc_block = 0,
     gfsk_syncword = 45, gfsk_syncword_bits = 8\<rparr>"

definition example_gfsk_objects :: "nat gfsk_objects" where
  "example_gfsk_objects = \<lparr>go_resampler_rx = 0, go_lowpass = 0, go_discriminator = 0, go_matched_filter = 0, go_template_mean = 0, go_template_energy = 1,
     go_symbol_sync = 0, go_mod = 0, go_resampler_tx = 0, go_delay = 3\<rparr>"

definition example_gfsk_dsp :: "(sample, nat gfsk_modem, unit, unit) dsp" where
  "example_gfsk_dsp = \<lparr>w_modulate = (\<lambda>f. as_pointer (gfsk_modem_modulate example_liquid f)), w_modulate_flush = as_pointer (gfsk_modem_modulate_flush example_liquid),
     w_demodulate = (\<lambda>xs. as_pointer (gfsk_modem_demodulate example_liquid \<lparr>dotprod_execute = sum_list, sqrtf = id\<rparr> xs)),
     w_max_modulation = gfsk_modem_max_modulation_buffer_length,
     freq_offset_process = (\<lambda>xs f. (Some xs, f)), decim_execute = (\<lambda>xs r. (hd xs, r)), interp_execute = (\<lambda>x r. ([x, x], r)),
     resampler_reset = (\<lambda>r. ()), sample_zero = (0, 0)\<rparr>"

definition example_gfsk_modem :: "(sample, nat gfsk_modem, unit, unit) sdr_modem" where
  "example_gfsk_modem = \<lparr>wrapped = gfsk_modem_new (0, 0) example_gfsk 1 example_gfsk_objects, halfband = None,
     halfband_tx = Some (halfband_interp_new (0, 0) 3 1 86 ()), freq_offset = None, debug_freq_offset = None, debug_baseband = None,
     sm_modem_type = MODEM_TYPE_GFSK, sm_tx_pending = False, baseband_sample_rate = 19200\<rparr>"

lemma example_gfsk_rates: "fl64 (fl64 35 * fl64 (fl64 19200 / fl64 9600)) = 70" "fl64 (fl64 19200 / fl64 4800) = 4" "\<not> bt_invalid 1056964608"
  by code_simp+

lemma example_gfsk_len: "gfsk_resampled_len 35 9600 19200 = 86" "gfsk_validate example_gfsk" "gfsk_internal_rate example_gfsk = 9600"
  using example_gfsk_rates by (simp_all add: gfsk_resampled_len_def gfsk_validate_def gfsk_internal_rate_def example_gfsk_def)

lemma example_gfsk_fields: "gfsk_sample_rate example_gfsk = 19200" "gfsk_syncword_bits example_gfsk = 8"
  by (simp_all add: example_gfsk_def)

lemma example_gfsk_design:
  "gfsk_design example_gfsk 1 example_gfsk_objects = \<lparr>gd_bits = 8, gd_flush_len = 7, gd_out_len = 86, gd_fresh = (0, False, Some 0, False)\<rparr>"
  by (simp add: gfsk_design_def gfsk_modem_new_def example_gfsk_len example_gfsk_fields Let_def gfsk_core_def example_gfsk_objects_def)

lemma example_gfsk_ok:
  "gfsk_lib_ok example_liquid (gfsk_design example_gfsk 1 example_gfsk_objects)" "gfsk_max (gfsk_design example_gfsk 1 example_gfsk_objects) = 35"
  "gfsk_limit (gfsk_design example_gfsk 1 example_gfsk_objects) = 86"
  unfolding example_gfsk_design by (simp_all add: gfsk_lib_ok_def example_liquid_def gfsk_max_def gfsk_resampled_def gfsk_limit_def)




end
