(* ===== verification/FreqOffset.thy ===== *)
theory FreqOffset
  imports Binary32 Construction
begin

text \<open>
  The correction of a frequency that changes over time, \<^verbatim>\<open>src/dsp/freq_offset.c\<close>: a table of times and
  offsets is read from a file, a clock driven by the processed samples selects the interval, and
  the samples are mixed with the interpolated offset in chunks. The oscillator of liquid-dsp and
  the numbers \<^verbatim>\<open>fscanf\<close> reads are parameters. A division by zero and an access outside of a buffer are \<open>None\<close>.
\<close>

section \<open>State\<close>

type_synonym freq_offset_entry = "rat \<times> rat"

record 'n freq_offset_state =
  fo_entries :: "freq_offset_entry list"
  current_index :: nat
  virtual_time :: rat
  fo_sample_rate :: u64
  max_batch_samples :: nat
  fo_nco :: 'n
  fo_output :: "sample list"

record 'n nco_lib =
  nco_set_frequency :: "rat \<Rightarrow> 'n \<Rightarrow> 'n"
  nco_mix_block_up :: "sample list \<Rightarrow> 'n \<Rightarrow> sample list \<times> 'n"
  nco_mix_block_down :: "sample list \<Rightarrow> 'n \<Rightarrow> sample list \<times> 'n"

definition fo_output_len :: "'n freq_offset_state \<Rightarrow> nat" where
  "fo_output_len fo = length (fo_output fo)"

section \<open>The file\<close>

text \<open>
  \<open>lines\<close> are the pairs \<^verbatim>\<open>fscanf\<close> converts, \<open>grown n\<close> whether the memory for \<open>n\<close> entries is granted. The
  array of \<open>capacity\<close> entries holds \<open>res\<close>.
\<close>

fun load_loop :: "(nat \<Rightarrow> bool) \<Rightarrow> freq_offset_entry list \<Rightarrow> nat \<Rightarrow> freq_offset_entry list \<Rightarrow> (int \<times> freq_offset_entry list) option" where
  "load_loop grown [] capacity res = Some (if res = [] then - EINVAL else 0, res)"
| "load_loop grown (e # lines) capacity res = (
     let full = (length res = capacity); capacity1 = (if full then capacity * 2 else capacity) in
     if full \<and> \<not> grown capacity1 then Some (- ENOMEM, [])
     else if length res < capacity1 then load_loop grown lines capacity1 (res @ [e])
     else None)"

definition freq_offset_load_file :: "bool \<Rightarrow> (nat \<Rightarrow> bool) \<Rightarrow> freq_offset_entry list \<Rightarrow> (int \<times> freq_offset_entry list) option" where
  "freq_offset_load_file opened grown lines =
    (if \<not> opened then Some (- 1, [])
     else if \<not> grown 16 then Some (- ENOMEM, [])
     else load_loop grown lines 16 [])"

section \<open>Selecting the interval\<close>

text \<open>The loop of \<^verbatim>\<open>freq_offset_advance\<close>; \<^verbatim>\<open>freq_offset_create\<close> starts the same one at index 0.\<close>

function advance_index :: "freq_offset_entry list \<Rightarrow> rat \<Rightarrow> nat \<Rightarrow> nat" where
  "advance_index es t idx = (if idx + 1 < length es \<and> fst (es ! (idx + 1)) \<le> t then advance_index es t (idx + 1) else idx)"
  by pat_completeness auto
termination by (relation "measure (\<lambda>(es, t, idx). length es - idx)") auto

declare advance_index.simps [simp del]

definition freq_offset_advance :: "'n freq_offset_state \<Rightarrow> 'n freq_offset_state" where
  "freq_offset_advance fo = fo\<lparr>current_index := advance_index (fo_entries fo) (virtual_time fo) (current_index fo)\<rparr>"

text \<open>The smallest distance of two neighbours, -1 when there is none yet; a negative distance counts as 0.\<close>

fun min_dt :: "rat \<Rightarrow> freq_offset_entry list \<Rightarrow> rat" where
  "min_dt m (e1 # e2 # es) = (
     let dt0 = fl64 (fst e2 - fst e1); dt = (if dt0 < 0 then 0 else dt0) in
     min_dt (if m < 0 \<or> dt < m then dt else m) (e2 # es))"
| "min_dt m _ = m"

text \<open>The conversion to \<^verbatim>\<open>size_t\<close> is undefined beyond its range.\<close>

definition freq_offset_batch :: "freq_offset_entry list \<Rightarrow> u64 \<Rightarrow> nat option" where
  "freq_offset_batch es rate =
    (if length es > 1 then
       let x = fl64 (min_dt (- 1) es * fl64 (of_nat (unat rate))) in
       if x < 2 ^ 64 then Some (if trunc x = 0 then 1 else nat (trunc x)) else None
     else Some (2 ^ 64 - 1))"

definition freq_offset_now :: "nat \<Rightarrow> nat \<Rightarrow> rat" where
  "freq_offset_now tv_sec tv_usec = fl64 (fl64 (of_nat tv_sec) + fl64 (fl64 (of_nat tv_usec) / 1000000))"

text \<open>The index and the clock at creation; \<open>now\<close> is the wall clock.\<close>

definition freq_offset_start :: "freq_offset_entry list \<Rightarrow> rat \<Rightarrow> (nat \<times> rat) option" where
  "freq_offset_start es now =
    (if fst (es ! 0) = 0 then Some (0, 0)
     else let idx = advance_index es now 0 in
       if idx = length es - 1 \<and> fst (es ! idx) < now then None else Some (idx, now))"

section \<open>Mixing\<close>

definition M_PI :: rat where "M_PI = fl64 (314159265358979323846 / 10 ^ 20)"

definition freq_offset_interpolate :: "'n freq_offset_state \<Rightarrow> rat option" where
  "freq_offset_interpolate fo = (
     let es = fo_entries fo; i = current_index fo; t = virtual_time fo in
     if t \<le> fst (es ! 0) then Some (snd (es ! 0))
     else if i \<ge> length es - 1 then Some (snd (es ! (length es - 1)))
     else let dt = fl64 (fst (es ! (i + 1)) - fst (es ! i)) in
       if dt = 0 then None
       else let fraction = fl64 (fl64 (t - fst (es ! i)) / dt) in
         Some (fl64 (snd (es ! i) + fl64 (fraction * fl64 (snd (es ! (i + 1)) - snd (es ! i))))))"

definition freq_offset_dtheta :: "rat \<Rightarrow> u64 \<Rightarrow> rat" where
  "freq_offset_dtheta offset_hz rate = fl32 (fl64 (fl64 (fl64 (2 * M_PI) * \<bar>offset_hz\<bar>) / fl64 (of_nat (unat rate))))"

text \<open>One chunk: its samples are mixed with one frequency, then the clock advances.\<close>

definition freq_offset_mix :: "'n nco_lib \<Rightarrow> rat \<Rightarrow> sample list \<Rightarrow> 'n freq_offset_state \<Rightarrow> sample list \<times> 'n" where
  "freq_offset_mix k offset_hz xs fo = (
     let nco = nco_set_frequency k (freq_offset_dtheta offset_hz (fo_sample_rate fo)) (fo_nco fo) in
     if offset_hz \<ge> 0 then nco_mix_block_up k xs nco else nco_mix_block_down k xs nco)"

definition freq_offset_tick :: "nat \<Rightarrow> 'n freq_offset_state \<Rightarrow> 'n freq_offset_state" where
  "freq_offset_tick n fo = freq_offset_advance (fo\<lparr>virtual_time := fl64 (virtual_time fo + fl64 (fl64 (of_nat n) / fl64 (of_nat (unat (fo_sample_rate fo)))))\<rparr>)"

partial_function (option) process_loop :: "'n nco_lib \<Rightarrow> sample list \<Rightarrow> nat \<Rightarrow> 'n freq_offset_state \<Rightarrow> 'n freq_offset_state option" where
  "process_loop k input processed fo =
    (if processed < length input then do {
       let chunk_len = min (length input - processed) (max_batch_samples fo);
       offset_hz \<leftarrow> freq_offset_interpolate fo;
       let (ys, nco) = freq_offset_mix k offset_hz (take (chunk_len mod 2 ^ 32) (drop processed input)) fo;
       out \<leftarrow> memcpy (fo_output fo) processed ys (chunk_len mod 2 ^ 32);
       process_loop k input (processed + chunk_len) (freq_offset_tick chunk_len (fo\<lparr>fo_nco := nco, fo_output := out\<rparr>)) }
     else Some fo)"

definition freq_offset_process_block :: "'n nco_lib \<Rightarrow> sample list \<Rightarrow> 'n freq_offset_state \<Rightarrow> (sample list option \<times> 'n freq_offset_state) option" where
  "freq_offset_process_block k input fo =
    (if length input > fo_output_len fo then Some (None, fo)
     else do {
       fo1 \<leftarrow> process_loop k input 0 fo;
       Some (Some (take (length input) (fo_output fo1)), fo1) })"

section \<open>Construction and destruction\<close>

datatype freq_offset_part = Fo_struct | Fo_entries | Fo_nco | Fo_output

fun freq_offset_users :: "freq_offset_part \<Rightarrow> freq_offset_part set" where
  "freq_offset_users Fo_struct = {Fo_entries, Fo_nco, Fo_output}"
| "freq_offset_users _ = {}"

definition freq_offset_destroy_order :: "freq_offset_part list" where
  "freq_offset_destroy_order = [Fo_entries, Fo_nco, Fo_output, Fo_struct]"

definition freq_offset_destroy :: "freq_offset_part set \<Rightarrow> freq_offset_part set option" where
  "freq_offset_destroy ps = release_all freq_offset_users freq_offset_destroy_order ps"

interpretation freq_offset: component freq_offset_users freq_offset_destroy_order
proof
  show "ordered freq_offset_users {} freq_offset_destroy_order" by (simp add: freq_offset_destroy_order_def)
  show "p \<in> set freq_offset_destroy_order" for p by (cases p) (simp_all add: freq_offset_destroy_order_def)
qed

definition freq_offset_new :: "sample \<Rightarrow> freq_offset_entry list \<Rightarrow> nat \<times> rat \<Rightarrow> u64 \<Rightarrow> nat \<Rightarrow> nat \<Rightarrow> 'n \<Rightarrow> 'n freq_offset_state" where
  "freq_offset_new junk es start rate batch max_len nco =
     \<lparr>fo_entries = es, current_index = fst start, virtual_time = snd start, fo_sample_rate = rate, max_batch_samples = batch, fo_nco = nco,
      fo_output = replicate max_len junk\<rparr>"

text \<open>
  \<open>oks\<close>: which allocations succeed. The result is the code and, on success, the new state; the last component are the
  parts that exist afterwards.
\<close>

definition freq_offset_create ::
  "(freq_offset_part \<Rightarrow> bool) \<Rightarrow> bool \<Rightarrow> (nat \<Rightarrow> bool) \<Rightarrow> freq_offset_entry list \<Rightarrow> rat \<Rightarrow> sample \<Rightarrow> u64 \<Rightarrow> nat \<Rightarrow> 'n \<Rightarrow>
    (int \<times> 'n freq_offset_state option \<times> freq_offset_part set) option" where
  "freq_offset_create oks opened grown lines now junk rate max_len nco =
    (if \<not> oks Fo_struct then Some (- ENOMEM, None, {})
     else do {
       (code, es) \<leftarrow> freq_offset_load_file opened grown lines;
       (if code \<noteq> 0 then do { (c, ps) \<leftarrow> construct freq_offset_users freq_offset_destroy_order [(False, code, None)] {Fo_struct}; Some (c, None, ps) }
        else (case freq_offset_start es now of
            None \<Rightarrow> do { (c, ps) \<leftarrow> construct freq_offset_users freq_offset_destroy_order [(False, - EINVAL, None)] {Fo_struct, Fo_entries}; Some (c, None, ps) }
          | Some start \<Rightarrow> do {
              batch \<leftarrow> freq_offset_batch es rate;
              (c, ps) \<leftarrow> construct freq_offset_users freq_offset_destroy_order
                [(oks Fo_nco, - EINVAL, Some Fo_nco), (oks Fo_output, - ENOMEM, Some Fo_output)] {Fo_struct, Fo_entries};
              Some (c, if c = 0 then Some (freq_offset_new junk es start rate batch max_len nco) else None, ps) })) })"

section \<open>The table\<close>

lemma load_loop_total:
  "length res \<le> capacity \<Longrightarrow> 0 < capacity \<Longrightarrow> \<exists>code es. load_loop grown lines capacity res = Some (code, es) \<and>
    (code = 0 \<longrightarrow> es = res @ lines \<and> es \<noteq> [])"
proof (induction lines arbitrary: capacity res)
  case (Cons e lines)
  let ?c = "if length res = capacity then capacity * 2 else capacity"
  have "length (res @ [e]) \<le> ?c" "0 < ?c" "length res < ?c" using Cons.prems by auto
  with Cons.IH [of "res @ [e]" ?c] show ?case by (auto simp: Let_def)
qed simp

text \<open>The reference: the interval of a time by a search from the beginning of the table.\<close>

definition locate :: "freq_offset_entry list \<Rightarrow> rat \<Rightarrow> nat" where
  "locate es t = length (takeWhile (\<lambda>e. fst e \<le> t) (drop 1 es))"

lemma advance_index_takeWhile: "advance_index es t i = i + length (takeWhile (\<lambda>e. fst e \<le> t) (drop (i + 1) es))"
proof (induction es t i rule: advance_index.induct)
  case (1 es t i)
  show ?case
  proof (cases "i + 1 < length es")
    case True
    then have "drop (i + 1) es = es ! (i + 1) # drop (i + 2) es" by (simp add: Cons_nth_drop_Suc)
    then show ?thesis using 1 True by (simp add: advance_index.simps [of es t i])
  qed (simp add: advance_index.simps [of es t i])
qed

lemma advance_index_bounds:
  shows "i \<le> advance_index es t i" "i < length es \<Longrightarrow> advance_index es t i < length es"
    "advance_index es t i + 1 < length es \<Longrightarrow> t < fst (es ! (advance_index es t i + 1))"
    "advance_index es t i = i \<or> fst (es ! advance_index es t i) \<le> t"
proof -
  show "i \<le> advance_index es t i" by (simp add: advance_index_takeWhile)
  show "advance_index es t i < length es" if "i < length es"
    using that by (induction es t i rule: advance_index.induct) (subst advance_index.simps, simp)
  show "t < fst (es ! (advance_index es t i + 1))" if "advance_index es t i + 1 < length es"
    using that by (induction es t i rule: advance_index.induct) (metis advance_index.simps not_le)
  show "advance_index es t i = i \<or> fst (es ! advance_index es t i) \<le> t"
    by (induction es t i rule: advance_index.induct) (metis advance_index.simps)
qed

lemma advance_index_locate:
  assumes s: "sorted (map fst es)" and i: "i < length es" "i = 0 \<or> fst (es ! i) \<le> t"
  shows "advance_index es t i = locate es t"
proof -
  have "fst e \<le> t" if "e \<in> set (take i (drop 1 es))" for e
  proof -
    from that obtain j where j: "j < i" "e = es ! (j + 1)" using i(1) by (auto simp: in_set_conv_nth)
    then have "fst e \<le> fst (es ! i)" using sorted_nth_mono [OF s, of "j + 1" i] i(1) by simp
    with i(2) j show ?thesis by auto
  qed
  then have "takeWhile (\<lambda>e. fst e \<le> t) (take i (drop 1 es) @ drop i (drop 1 es)) =
      take i (drop 1 es) @ takeWhile (\<lambda>e. fst e \<le> t) (drop i (drop 1 es))" by (intro takeWhile_append2) blast
  then have "takeWhile (\<lambda>e. fst e \<le> t) (drop 1 es) = take i (drop 1 es) @ takeWhile (\<lambda>e. fst e \<le> t) (drop i (drop 1 es))"
    unfolding append_take_drop_id .
  then show ?thesis using i(1) by (simp add: locate_def advance_index_takeWhile)
qed

section \<open>The clock\<close>

text \<open>The interval never lies in the future, and once the table has begun it contains the time.\<close>

definition fo_inv :: "'n freq_offset_state \<Rightarrow> bool" where
  "fo_inv fo \<longleftrightarrow> current_index fo < length (fo_entries fo) \<and> 0 < max_batch_samples fo \<and> 0 \<le> virtual_time fo \<and> fl64 (virtual_time fo) = virtual_time fo \<and>
    (current_index fo = 0 \<or> fst (fo_entries fo ! current_index fo) \<le> virtual_time fo) \<and>
    (virtual_time fo \<le> fst (fo_entries fo ! 0) \<or>
      (current_index fo + 1 < length (fo_entries fo) \<longrightarrow> virtual_time fo < fst (fo_entries fo ! (current_index fo + 1))))"

lemma fl64_zero_iff: "fl64 x = 0 \<Longrightarrow> x = 0"
  using fl_error [of 53 x] by (auto simp: abs_le_iff)

lemma fo_tick_inv:
  assumes "fo_inv fo"
  shows "fo_inv (freq_offset_tick n fo)"
proof -
  let ?d = "fl64 (fl64 (of_nat n) / fl64 (of_nat (unat (fo_sample_rate fo))))" and ?es = "fo_entries fo"
  let ?t = "fl64 (virtual_time fo + ?d)"
  have d: "0 \<le> ?d" by (intro fl_nonneg divide_nonneg_nonneg) (simp_all del: of_nat_unat)
  have t: "virtual_time fo \<le> ?t" using fl_mono [of "virtual_time fo" "virtual_time fo + ?d" 53] assms d by (simp add: fo_inv_def)
  have i: "current_index fo = 0 \<or> fst (?es ! current_index fo) \<le> ?t" "current_index fo < length ?es" using assms t by (auto simp: fo_inv_def)
  note b = advance_index_bounds [where i = "current_index fo" and es = ?es and t = ?t]
  let ?j = "advance_index ?es ?t (current_index fo)"
  have "?j = 0 \<or> fst (?es ! ?j) \<le> ?t" using b(4) i(1) by auto
  moreover have "fl64 ?t = ?t" "0 \<le> ?t" using t assms d by (auto simp: fo_inv_def intro!: fl_idem fl_nonneg)
  ultimately show ?thesis using b(2,3) i(2) assms by (simp add: freq_offset_tick_def freq_offset_advance_def fo_inv_def)
qed

section \<open>Interpolation\<close>

text \<open>The offset at a time, as the table defines it.\<close>

definition offset_at :: "freq_offset_entry list \<Rightarrow> rat \<Rightarrow> rat" where
  "offset_at es t = (let i = locate es t in
     if t \<le> fst (es ! 0) then snd (es ! 0)
     else if i \<ge> length es - 1 then snd (es ! (length es - 1))
     else fl64 (snd (es ! i) + fl64 (fl64 (fl64 (t - fst (es ! i)) / fl64 (fst (es ! (i + 1)) - fst (es ! i))) * fl64 (snd (es ! (i + 1)) - snd (es ! i)))))"

lemma interpolate_total:
  assumes "fo_inv fo"
  shows "\<exists>x. freq_offset_interpolate fo = Some x"
proof -
  let ?es = "fo_entries fo" and ?i = "current_index fo" and ?t = "virtual_time fo"
  show ?thesis
  proof (cases "?t \<le> fst (?es ! 0) \<or> ?i \<ge> length ?es - 1")
    case False
    then have "fst (?es ! ?i) \<le> ?t" "?t < fst (?es ! (?i + 1))" using assms by (auto simp: fo_inv_def)
    then have "fl64 (fst (?es ! (?i + 1)) - fst (?es ! ?i)) \<noteq> 0" using fl64_zero_iff by fastforce
    with False show ?thesis by (simp add: freq_offset_interpolate_def Let_def)
  qed (auto simp: freq_offset_interpolate_def Let_def)
qed

lemma interpolate_offset_at:
  assumes inv: "fo_inv fo" and s: "sorted (map fst (fo_entries fo))"
  shows "freq_offset_interpolate fo = Some (offset_at (fo_entries fo) (virtual_time fo))"
proof (cases "virtual_time fo \<le> fst (fo_entries fo ! 0)")
  case False
  then have "advance_index (fo_entries fo) (virtual_time fo) (current_index fo) = current_index fo"
    using inv by (auto simp: fo_inv_def advance_index.simps [of "fo_entries fo" "virtual_time fo" "current_index fo"])
  with advance_index_locate [OF s, of "current_index fo" "virtual_time fo"] inv
  have "locate (fo_entries fo) (virtual_time fo) = current_index fo" by (simp add: fo_inv_def)
  with interpolate_total [OF inv] False show ?thesis
    by (auto simp: freq_offset_interpolate_def offset_at_def Let_def split: if_splits)
qed (simp add: freq_offset_interpolate_def offset_at_def)

text \<open>The fraction of the interval that has passed is between 0 and 1, also after rounding.\<close>

lemma interpolate_fraction:
  assumes "a \<le> t" "t < b"
  shows "0 \<le> fl64 (fl64 (t - a) / fl64 (b - a))" "fl64 (fl64 (t - a) / fl64 (b - a)) \<le> 1"
proof -
  have p: "0 \<le> fl64 (t - a)" "fl64 (t - a) \<le> fl64 (b - a)" using assms by (auto intro: fl_nonneg fl_mono)
  then have q: "0 \<le> fl64 (t - a) / fl64 (b - a)" "fl64 (t - a) / fl64 (b - a) \<le> 1" by (auto simp: divide_le_eq_1)
  show "0 \<le> fl64 (fl64 (t - a) / fl64 (b - a))" using q(1) by (rule fl_nonneg) simp
  show "fl64 (fl64 (t - a) / fl64 (b - a)) \<le> 1" using fl_mono [OF q, of 53] by simp
qed

section \<open>Processing\<close>

text \<open>The reference on lists: the clock and the oscillator are the only state, the offset comes from the table.\<close>

function corrected :: "'n nco_lib \<Rightarrow> freq_offset_entry list \<Rightarrow> u64 \<Rightarrow> nat \<Rightarrow> sample list \<Rightarrow> rat \<times> 'n \<Rightarrow> sample list \<times> rat \<times> 'n" where
  "corrected k es rate batch xs (t, nco) =
    (if xs = [] \<or> batch = 0 then ([], t, nco)
     else let x = offset_at es t; nco1 = nco_set_frequency k (freq_offset_dtheta x rate) nco; chunk = take batch xs in
       case (if x \<ge> 0 then nco_mix_block_up k chunk nco1 else nco_mix_block_down k chunk nco1) of (ys, nco2) \<Rightarrow>
       case corrected k es rate batch (drop batch xs) (fl64 (t + fl64 (fl64 (of_nat (length chunk)) / fl64 (of_nat (unat rate)))), nco2) of (zs, st) \<Rightarrow>
       (ys @ zs, st))"
  by pat_completeness auto
termination by (relation "measure (\<lambda>(k, es, rate, batch, xs, st). length xs)") auto

declare corrected.simps [simp del]

definition nco_lib_ok :: "'n nco_lib \<Rightarrow> bool" where
  "nco_lib_ok k \<longleftrightarrow> (\<forall>xs l. length (fst (nco_mix_block_up k xs l)) = length xs) \<and> (\<forall>xs l. length (fst (nco_mix_block_down k xs l)) = length xs)"

definition fo_setup :: "'n freq_offset_state \<Rightarrow> freq_offset_entry list \<times> u64 \<times> nat \<times> nat" where
  "fo_setup fo = (fo_entries fo, fo_sample_rate fo, max_batch_samples fo, length (fo_output fo))"

lemma tick_fields [simp]:
  "fo_entries (freq_offset_tick n fo) = fo_entries fo" "fo_sample_rate (freq_offset_tick n fo) = fo_sample_rate fo"
  "max_batch_samples (freq_offset_tick n fo) = max_batch_samples fo" "fo_nco (freq_offset_tick n fo) = fo_nco fo" "fo_output (freq_offset_tick n fo) = fo_output fo"
  "virtual_time (freq_offset_tick n fo) = fl64 (virtual_time fo + fl64 (fl64 (of_nat n) / fl64 (of_nat (unat (fo_sample_rate fo)))))"
  by (simp_all add: freq_offset_tick_def freq_offset_advance_def)

lemma mix_length: "nco_lib_ok k \<Longrightarrow> freq_offset_mix k x xs fo = (ys, nco) \<Longrightarrow> length ys = length xs"
  by (auto simp: nco_lib_ok_def freq_offset_mix_def Let_def split: if_splits) (metis fst_conv)+

lemma process_loop_corrected:
  assumes lib: "nco_lib_ok k" and small: "length input < 2 ^ 32"
  shows "processed + length xs = length input \<Longrightarrow> xs = drop processed input \<Longrightarrow> length input \<le> length (fo_output fo) \<Longrightarrow> fo_inv fo \<Longrightarrow>
    sorted (map fst (fo_entries fo)) \<Longrightarrow>
    corrected k (fo_entries fo) (fo_sample_rate fo) (max_batch_samples fo) xs (virtual_time fo, fo_nco fo) = (ys, t, nco) \<Longrightarrow>
    \<exists>fo1. process_loop k input processed fo = Some fo1 \<and> fo_inv fo1 \<and> fo_setup fo1 = fo_setup fo \<and> virtual_time fo1 = t \<and> fo_nco fo1 = nco \<and>
      length ys = length xs \<and> take (length input) (fo_output fo1) = take processed (fo_output fo) @ ys"
proof (induction "length xs" arbitrary: xs processed fo ys rule: less_induct)
  case less
  show ?case
  proof (cases "xs = []")
    case True
    with less.prems show ?thesis by (simp add: corrected.simps [of k "fo_entries fo" "fo_sample_rate fo" "max_batch_samples fo" "[]"] process_loop.simps [of k input "length input" fo])
  next
    case False
    let ?n = "min (length xs) (max_batch_samples fo)"
    have pos: "0 < ?n" using False less.prems(4) by (simp add: fo_inv_def)
    obtain y nco1 where m: "freq_offset_mix k (offset_at (fo_entries fo) (virtual_time fo)) (take ?n xs) fo = (y, nco1)" by fastforce
    have y: "length y = ?n" using mix_length [OF lib m] by simp
    let ?out = "take processed (fo_output fo) @ y @ drop (processed + ?n) (fo_output fo)"
    have cp: "memcpy (fo_output fo) processed y ?n = Some ?out" using y less.prems(1,3) by (simp add: memcpy_def)
    define fo2 where "fo2 = freq_offset_tick ?n (fo\<lparr>fo_nco := nco1, fo_output := ?out\<rparr>)"
    have inv: "fo_inv fo2" unfolding fo2_def by (rule fo_tick_inv) (use less.prems(4) in \<open>simp add: fo_inv_def\<close>)
    have set2: "fo_setup fo2 = fo_setup fo" using less.prems(1,3) y by (simp add: fo2_def fo_setup_def)
    obtain zs where z: "corrected k (fo_entries fo2) (fo_sample_rate fo2) (max_batch_samples fo2) (drop ?n xs) (virtual_time fo2, fo_nco fo2) = (zs, t, nco)"
      "ys = y @ zs"
      using less.prems(6) False pos m set2
      by (auto simp: corrected.simps [of k "fo_entries fo" "fo_sample_rate fo" "max_batch_samples fo" xs] freq_offset_mix_def Let_def fo2_def fo_setup_def
          min_def split: prod.splits if_splits)
    have "length (drop ?n xs) < length xs" "processed + ?n + length (drop ?n xs) = length input" "drop ?n xs = drop (processed + ?n) input"
      "length input \<le> length (fo_output fo2)" "sorted (map fst (fo_entries fo2))"
      using less.prems(1,2,3,5) pos set2 by (auto simp: fo_setup_def add.commute)
    from less.hyps [OF this(1-4) inv this(5) z(1)] obtain fo1 where
      f: "process_loop k input (processed + ?n) fo2 = Some fo1" "fo_inv fo1" "fo_setup fo1 = fo_setup fo" "virtual_time fo1 = t" "fo_nco fo1 = nco"
        "length zs = length xs - ?n" "take (length input) (fo_output fo1) = take (processed + ?n) (fo_output fo2) @ zs" using set2 by auto
    have "0 < length xs" using False by simp
    then have len: "processed < length input" "length input - processed = length xs" "?n < 2 ^ 32" using less.prems(1) small by linarith+
    then have "?n mod 2 ^ 32 = ?n" by (simp only: mod_less)
    note len = len(1,2) this
    have "process_loop k input processed fo = Some fo1"
      using len interpolate_offset_at [OF less.prems(4,5)] m cp f(1) less.prems(2)
      by (simp add: process_loop.simps [of k input processed fo] fo2_def)
    moreover have "take (processed + ?n) (fo_output fo2) = take processed (fo_output fo) @ y"
      using y less.prems(1,3) by (simp add: fo2_def)
    ultimately show ?thesis using f z(2) y by (auto simp: min_def)
  qed
qed

section \<open>Properties\<close>

text \<open>Several buffers in a row, and the reference for them.\<close>

fun freq_offset_stream :: "'n nco_lib \<Rightarrow> sample list list \<Rightarrow> 'n freq_offset_state \<Rightarrow> (sample list option list \<times> 'n freq_offset_state) option" where
  "freq_offset_stream k [] fo = Some ([], fo)"
| "freq_offset_stream k (x # xs) fo = do {
     (y, fo1) \<leftarrow> freq_offset_process_block k x fo;
     (ys, fo2) \<leftarrow> freq_offset_stream k xs fo1;
     Some (y # ys, fo2) }"

fun corrected_stream :: "'n nco_lib \<Rightarrow> freq_offset_entry list \<Rightarrow> u64 \<Rightarrow> nat \<Rightarrow> sample list list \<Rightarrow> rat \<times> 'n \<Rightarrow> sample list list" where
  "corrected_stream k es rate batch [] st = []"
| "corrected_stream k es rate batch (x # xs) st = (case corrected k es rate batch x st of (y, st1) \<Rightarrow> y # corrected_stream k es rate batch xs st1)"

lemma freq_offset_stream_corrected:
  assumes lib: "nco_lib_ok k" and small: "max_len < 2 ^ 32"
  shows "fo_inv fo \<Longrightarrow> fo_setup fo = (es, rate, batch, max_len) \<Longrightarrow> sorted (map fst es) \<Longrightarrow> \<forall>x \<in> set inputs. length x \<le> max_len \<Longrightarrow>
    \<exists>fo1. freq_offset_stream k inputs fo = Some (map Some (corrected_stream k es rate batch inputs (virtual_time fo, fo_nco fo)), fo1) \<and>
      map length (corrected_stream k es rate batch inputs (virtual_time fo, fo_nco fo)) = map length inputs"
proof (induction inputs arbitrary: fo)
  case (Cons x xs)
  obtain ys t nco where c: "corrected k es rate batch x (virtual_time fo, fo_nco fo) = (ys, t, nco)" by (metis prod_cases3)
  have f: "fo_entries fo = es" "fo_sample_rate fo = rate" "max_batch_samples fo = batch" "length (fo_output fo) = max_len"
    using Cons.prems(2) by (simp_all add: fo_setup_def)
  have x: "length x \<le> max_len" "length x < 2 ^ 32" using Cons.prems(4) small by auto
  from process_loop_corrected [OF lib x(2), of 0 x fo ys t nco] Cons.prems(1,3) c f x(1) obtain fo1 where
    p: "process_loop k x 0 fo = Some fo1" "fo_inv fo1" "fo_setup fo1 = (es, rate, batch, max_len)" "virtual_time fo1 = t" "fo_nco fo1 = nco"
      "length ys = length x" "take (length x) (fo_output fo1) = ys" using Cons.prems(2) by auto
  have "freq_offset_process_block k x fo = Some (Some ys, fo1)"
    using p(1,7) x(1) f(4) by (simp add: freq_offset_process_block_def fo_output_len_def)
  moreover from Cons.IH [OF p(2,3) Cons.prems(3)] Cons.prems(4) p(4,5) obtain fo2 where
    "freq_offset_stream k xs fo1 = Some (map Some (corrected_stream k es rate batch xs (t, nco)), fo2)"
    "map length (corrected_stream k es rate batch xs (t, nco)) = map length xs" by auto
  ultimately show ?case using c p(6) by simp
qed simp

lemma freq_offset_batch_pos: "freq_offset_batch es rate = Some b \<Longrightarrow> 0 < b"
proof -
  assume b: "freq_offset_batch es rate = Some b"
  have "0 \<le> min_dt m xs" if "0 \<le> m" for m xs
    using that by (induction m xs rule: min_dt.induct) (auto simp: Let_def)
  then have ge: "0 \<le> min_dt m es" if "1 < length es" for m
    using that by (cases "(m, es)" rule: min_dt.cases) (auto simp: Let_def)
  show ?thesis
  proof (cases "1 < length es")
    case True
    then have "0 \<le> fl64 (min_dt (- 1) es * fl64 (of_nat (unat rate)))"
      using ge [of "- 1"] by (intro fl_nonneg mult_nonneg_nonneg) (simp_all del: of_nat_unat)
    then have "0 \<le> trunc (fl64 (min_dt (- 1) es * fl64 (of_nat (unat rate))))" by (simp add: trunc_def)
    with b True show ?thesis by (auto simp: freq_offset_batch_def Let_def split: if_splits)
  qed (use b in \<open>simp add: freq_offset_batch_def\<close>)
qed

lemma freq_offset_start_inv:
  assumes s: "freq_offset_start es now = Some start" and es: "es \<noteq> []" and t: "0 \<le> now" "fl64 now = now" and b: "0 < batch"
  shows "fo_inv (freq_offset_new junk es start rate batch max_len nco)"
proof (cases "fst (es ! 0) = 0")
  case True
  with s es b show ?thesis by (auto simp: freq_offset_start_def freq_offset_new_def fo_inv_def)
next
  case False
  then have st: "start = (advance_index es now 0, now)" using s by (auto simp: freq_offset_start_def Let_def split: if_splits)
  note adv = advance_index_bounds [where i = 0 and es = es and t = now]
  show ?thesis using st adv(2-4) es t b by (auto simp: freq_offset_new_def fo_inv_def)
qed

lemma freq_offset_create_outcome:
  assumes "freq_offset_create oks opened grown lines now junk rate max_len nco = Some (code, r, ps)"
  shows "if code = 0 then \<exists>start batch. r = Some (freq_offset_new junk lines start rate batch max_len nco) \<and> lines \<noteq> [] \<and> 0 < batch \<and>
      freq_offset_start lines now = Some start \<and> ps = UNIV else r = None \<and> ps = {}"
proof -
  have u: "{Fo_struct, Fo_entries, Fo_nco, Fo_output} = UNIV"
    using freq_offset.complete by (auto simp: freq_offset_destroy_order_def)
  note d = freq_offset.destroys
  from load_loop_total [of "[]" 16 grown lines] obtain c es where
    l: "load_loop grown lines 16 [] = Some (c, es)" "c = 0 \<longrightarrow> es = lines \<and> es \<noteq> []" by auto
  show ?thesis using assms l u d
    by (auto simp: freq_offset_create_def freq_offset_load_file_def insert_commute split: if_splits option.splits bind_splits)
      (blast intro: freq_offset_batch_pos)+
qed

text \<open>
  C22. The frequency correction follows the table: for a file sorted by time and every sequence of
  buffers within the maximum, the output is that of the reference, which looks every chunk's time up in the
  whole table and interpolates there. The incremental index, the check of the boundaries and the output buffer never
  make a difference, no interpolation divides by zero (also when timestamps repeat), and every output is as long as its input.
\<close>

theorem freq_offset_follows_table:
  assumes create: "freq_offset_create oks opened grown lines (freq_offset_now sec usec) junk rate max_len nco = Some (0, Some fo, ps)"
    and table: "sorted (map fst lines)" and lib: "nco_lib_ok k" and inputs: "max_len < 2 ^ 32" "\<forall>x \<in> set inputs. length x \<le> max_len"
  shows "\<exists>fo1. freq_offset_stream k inputs fo =
      Some (map Some (corrected_stream k lines rate (max_batch_samples fo) inputs (virtual_time fo, nco)), fo1) \<and>
    map length (corrected_stream k lines rate (max_batch_samples fo) inputs (virtual_time fo, nco)) = map length inputs"
proof -
  from freq_offset_create_outcome [OF create] obtain start batch where
    f: "fo = freq_offset_new junk lines start rate batch max_len nco" "lines \<noteq> []" "0 < batch"
      "freq_offset_start lines (freq_offset_now sec usec) = Some start" by auto
  have "0 \<le> fl64 (of_nat sec) + fl64 (fl64 (of_nat usec) / 1000000)" by (intro add_nonneg_nonneg fl_nonneg divide_nonneg_nonneg) simp_all
  then have t: "0 \<le> freq_offset_now sec usec" "fl64 (freq_offset_now sec usec) = freq_offset_now sec usec"
    unfolding freq_offset_now_def by (auto intro: fl_nonneg fl_idem)
  from freq_offset_start_inv [OF f(4,2) t f(3), of junk rate max_len nco] have "fo_inv fo" unfolding f(1) .
  moreover have "fo_setup fo = (lines, rate, max_batch_samples fo, max_len)" "fo_nco fo = nco" by (simp_all add: f(1) freq_offset_new_def fo_setup_def)
  ultimately show ?thesis using freq_offset_stream_corrected [OF lib inputs(1), of fo lines rate "max_batch_samples fo" inputs] table inputs(2) by simp
qed

definition example_nco :: "nat nco_lib" where
  "example_nco = \<lparr>nco_set_frequency = (\<lambda>f l. l), nco_mix_block_up = (\<lambda>xs l. (xs, l + length xs)), nco_mix_block_down = (\<lambda>xs l. (map c_conj xs, l + length xs))\<rparr>"

lemma example_freq_offset:
  "freq_offset_create (\<lambda>p. True) True (\<lambda>n. True) [(0, 5), (1, - 5), (1, 10)] (freq_offset_now 0 0) (0, 0) 2 4 (0 :: nat) =
    Some (0, Some (freq_offset_new (0, 0) [(0, 5), (1, - 5), (1, 10)] (0, 0) 2 1 4 0), UNIV)"
proof -
  have "freq_offset_batch [(0, 5), (1, - 5), (1, 10)] 2 = Some 1" by (simp add: freq_offset_batch_def trunc_def)
  moreover have "UNIV = {Fo_struct, Fo_entries, Fo_nco, Fo_output}" using freq_offset.complete by (auto simp: freq_offset_destroy_order_def)
  ultimately show ?thesis by (simp add: freq_offset_create_def freq_offset_load_file_def freq_offset_start_def Let_def insert_commute)
qed

theorem freq_offset_follows_table_witness:
  "\<exists>outs fo1. freq_offset_stream example_nco [[(1, 0), (0, 1), (1, 1)], [], [(1, 0)]]
    (freq_offset_new (0, 0) [(0, 5), (1, - 5), (1, 10)] (0, 0) 2 1 4 (0 :: nat)) = Some (map Some outs, fo1) \<and> map length outs = [3, 0, 1]"
  using freq_offset_follows_table [OF example_freq_offset, of example_nco "[[(1, 0), (0, 1), (1, 1)], [], [(1, 0)]]"]
  by (auto simp: nco_lib_ok_def example_nco_def)

end
