(* ===== verification/FirFilter.thy ===== *)
theory FirFilter
  imports Construction
begin

text \<open>
  The decimating FIR filter, \<^verbatim>\<open>src/dsp/fir_filter.c\<close>. The dot products of liquid-dsp with the reversed taps
  are parameters: functions of one window of samples. Buffers are lists of their allocated size, every access is
  checked; differences of sizes wrap at 64 bits as they do in C.
\<close>

section \<open>State and creation\<close>

record 's fir_filter =
  fir_decimation :: nat
  taps_len :: nat
  fir_working_buffer :: "'s list"
  fir_history_offset :: nat
  working_len_total :: nat
  fir_max_input_buffer_length :: nat
  fir_output :: "'s list"
  fir_output_len :: nat
  num_bytes :: nat

definition size_diff :: "nat \<Rightarrow> nat \<Rightarrow> nat" where
  "size_diff a b = (if b \<le> a then a - b else 2 ^ 64 + a - b)"

text \<open>The fields of a new filter; the division by a decimation of 0 is undefined.\<close>

definition fir_filter_new :: "'s \<Rightarrow> 8 word \<Rightarrow> nat \<Rightarrow> nat \<Rightarrow> nat \<Rightarrow> 's fir_filter option" where
  "fir_filter_new zero dec n_taps max_len bytes = (let offset = size_diff n_taps 1; total = (max_len + offset) mod 2 ^ 64 in
     if dec = 0 then None
     else Some \<lparr>fir_decimation = unat dec, taps_len = n_taps, fir_working_buffer = replicate total zero, fir_history_offset = offset,
       working_len_total = total, fir_max_input_buffer_length = max_len, fir_output = replicate max_len zero,
       fir_output_len = max_len div unat dec + 1, num_bytes = bytes\<rparr>)"

datatype fir_part = Fir_struct | Fir_taps | Fir_real_dotprod | Fir_complex_dotprod | Fir_working | Fir_output

fun fir_users :: "fir_part \<Rightarrow> fir_part set" where
  "fir_users Fir_struct = {Fir_taps, Fir_real_dotprod, Fir_complex_dotprod, Fir_working, Fir_output}"
| "fir_users _ = {}"

definition fir_filter_destroy_order :: "fir_part list" where
  "fir_filter_destroy_order = [Fir_real_dotprod, Fir_complex_dotprod, Fir_taps, Fir_output, Fir_working, Fir_struct]"

definition fir_filter_destroy :: "fir_part set \<Rightarrow> fir_part set option" where
  "fir_filter_destroy ps = release_all fir_users fir_filter_destroy_order ps"

text \<open>The filter owns the taps from the moment it is allocated: before that they stay with the caller.\<close>

definition fir_filter_create :: "(fir_part \<Rightarrow> bool) \<Rightarrow> nat \<Rightarrow> (int \<times> fir_part set) option" where
  "fir_filter_create oks bytes =
    (if \<not> oks Fir_struct then Some (- ENOMEM, {Fir_taps})
     else construct fir_users fir_filter_destroy_order (
       (if bytes = 8 then [(oks Fir_complex_dotprod, - ENOMEM, Some Fir_complex_dotprod)]
        else if bytes = 4 then [(oks Fir_real_dotprod, - ENOMEM, Some Fir_real_dotprod)] else []) @
       [(oks Fir_working, - ENOMEM, Some Fir_working), (oks Fir_output, - ENOMEM, Some Fir_output)]) {Fir_struct, Fir_taps})"

interpretation fir: component fir_users fir_filter_destroy_order
proof
  show "ordered fir_users {} fir_filter_destroy_order" by (simp add: fir_filter_destroy_order_def)
  show "p \<in> set fir_filter_destroy_order" for p by (cases p) (simp_all add: fir_filter_destroy_order_def)
qed

section \<open>Processing\<close>

partial_function (option) fir_loop :: "('s list \<Rightarrow> 's) \<Rightarrow> nat \<Rightarrow> nat \<Rightarrow> 's list \<Rightarrow> nat \<Rightarrow> nat \<Rightarrow> nat \<Rightarrow> 's list \<Rightarrow> (nat \<times> nat \<times> 's list) option" where
  "fir_loop dotprod dec taps wb max_index i produced out =
    (if i < max_index then
       (if i + taps \<le> length wb then do {
          out1 \<leftarrow> set_at out produced (dotprod (take taps (drop i wb)));
          fir_loop dotprod dec taps wb max_index (i + dec) (Suc produced) out1 }
        else None)
     else Some (i, produced, out))"

definition fir_filter_process_float :: "('s list \<Rightarrow> 's) \<Rightarrow> 's list \<Rightarrow> 's fir_filter \<Rightarrow> ('s list \<times> 's fir_filter) option" where
  "fir_filter_process_float dotprod input f = do {
     wb \<leftarrow> memcpy (fir_working_buffer f) (fir_history_offset f) input (length input);
     let working_len = fir_history_offset f + length input;
     let max_index = size_diff working_len (size_diff (taps_len f) 1);
     (i, produced, out) \<leftarrow> fir_loop dotprod (fir_decimation f) (taps_len f) wb max_index 0 0 (fir_output f);
     let offset = size_diff working_len i;
     wb1 \<leftarrow> (if i > 0 then memcpy wb 0 (drop i wb) offset else Some wb);
     Some (take produced out, f\<lparr>fir_working_buffer := wb1, fir_history_offset := offset, fir_output := out\<rparr>) }"

text \<open>The same steps on complex samples.\<close>

definition fir_filter_process_complex :: "('s list \<Rightarrow> 's) \<Rightarrow> 's list \<Rightarrow> 's fir_filter \<Rightarrow> ('s list \<times> 's fir_filter) option" where
  "fir_filter_process_complex dotprod input f = do {
     wb \<leftarrow> memcpy (fir_working_buffer f) (fir_history_offset f) input (length input);
     let working_len = fir_history_offset f + length input;
     let max_index = size_diff working_len (size_diff (taps_len f) 1);
     (i, produced, out) \<leftarrow> fir_loop dotprod (fir_decimation f) (taps_len f) wb max_index 0 0 (fir_output f);
     let offset = size_diff working_len i;
     wb1 \<leftarrow> (if i > 0 then memcpy wb 0 (drop i wb) offset else Some wb);
     Some (take produced out, f\<lparr>fir_working_buffer := wb1, fir_history_offset := offset, fir_output := out\<rparr>) }"

definition fir_filter_process_float_single :: "('s list \<Rightarrow> 's) \<Rightarrow> 's list \<Rightarrow> 's fir_filter \<Rightarrow> 's option" where
  "fir_filter_process_float_single dotprod input f = (if taps_len f \<le> length input then Some (dotprod (take (taps_len f) input)) else None)"

text \<open>What the caller finds in its two variables: \<^verbatim>\<open>NULL\<close> and 0, the samples, or, for another sample size, what was there.\<close>

datatype 's fir_result = Refused | Samples "'s list" | Untouched

definition fir_filter_process ::
  "('s list \<Rightarrow> 's) \<Rightarrow> ('s list \<Rightarrow> 's) \<Rightarrow> 's list \<Rightarrow> 's fir_filter \<Rightarrow> ('s fir_result \<times> 's fir_filter) option" where
  "fir_filter_process rrrf crcf input f =
    (if length input > fir_max_input_buffer_length f then Some (Refused, f)
     else if num_bytes f = 8 then map_option (map_prod Samples id) (fir_filter_process_complex crcf input f)
     else if num_bytes f = 4 then map_option (map_prod Samples id) (fir_filter_process_float rrrf input f)
     else Some (Untouched, f))"

section \<open>Reference\<close>

text \<open>The windows of a stream at every multiple of the decimation, and the samples the next window starts with.\<close>

function fir_reference :: "('s list \<Rightarrow> 's) \<Rightarrow> nat \<Rightarrow> nat \<Rightarrow> 's list \<Rightarrow> 's list" where
  "fir_reference dotprod dec taps xs =
    (if length xs < taps \<or> dec = 0 \<or> taps = 0 then [] else dotprod (take taps xs) # fir_reference dotprod dec taps (drop dec xs))"
  by pat_completeness auto
termination by (relation "measure (\<lambda>(dotprod, dec, taps, xs). length xs)") auto

function fir_rest :: "nat \<Rightarrow> nat \<Rightarrow> 's list \<Rightarrow> 's list" where
  "fir_rest dec taps xs = (if length xs < taps \<or> dec = 0 \<or> taps = 0 then xs else fir_rest dec taps (drop dec xs))"
  by pat_completeness auto
termination by (relation "measure (\<lambda>(dec, taps, xs). length xs)") auto

declare fir_reference.simps [simp del] fir_rest.simps [simp del]

lemma fir_reference_append:
  assumes "0 < dec" "dec \<le> taps"
  shows "fir_reference dotprod dec taps (xs @ ys) = fir_reference dotprod dec taps xs @ fir_reference dotprod dec taps (fir_rest dec taps xs @ ys) \<and>
    fir_rest dec taps (xs @ ys) = fir_rest dec taps (fir_rest dec taps xs @ ys)"
proof (induction xs rule: length_induct)
  case (1 xs)
  show ?case
  proof (cases "length xs < taps")
    case True
    then show ?thesis by (simp add: fir_reference.simps [of _ _ _ xs] fir_rest.simps [of _ _ xs])
  next
    case False
    then have l: "length (drop dec xs) < length xs" "drop dec (xs @ ys) = drop dec xs @ ys" "take taps (xs @ ys) = take taps xs" using assms by auto
    have "\<not> (length (xs @ ys) < taps \<or> dec = 0 \<or> taps = 0)" "\<not> (length xs < taps \<or> dec = 0 \<or> taps = 0)" using False assms by auto
    then have "fir_reference dotprod dec taps (xs @ ys) = dotprod (take taps xs) # fir_reference dotprod dec taps (drop dec xs @ ys)"
      "fir_reference dotprod dec taps xs = dotprod (take taps xs) # fir_reference dotprod dec taps (drop dec xs)"
      "fir_rest dec taps (xs @ ys) = fir_rest dec taps (drop dec xs @ ys)" "fir_rest dec taps xs = fir_rest dec taps (drop dec xs)"
      using l(2,3) by (simp_all add: fir_reference.simps [of _ _ _ "xs @ ys"] fir_reference.simps [of _ _ _ xs]
          fir_rest.simps [of _ _ "xs @ ys"] fir_rest.simps [of _ _ xs])
    then show ?thesis using 1 l(1) by simp
  qed
qed

lemma fir_rest_length:
  assumes "0 < dec" "dec \<le> taps"
  shows "length (fir_rest dec taps xs) < taps" "taps \<le> length xs + dec \<Longrightarrow> taps \<le> length (fir_rest dec taps xs) + dec"
proof -
  have "length (fir_rest dec taps xs) < taps \<and> (taps \<le> length xs + dec \<longrightarrow> taps \<le> length (fir_rest dec taps xs) + dec)"
  proof (induction xs rule: length_induct)
    case (1 xs)
    then show ?case using assms by (cases "length xs < taps") (auto simp: fir_rest.simps [of _ _ xs])
  qed
  then show "length (fir_rest dec taps xs) < taps" "taps \<le> length xs + dec \<Longrightarrow> taps \<le> length (fir_rest dec taps xs) + dec" by blast+
qed

lemma fir_reference_length: "0 < dec \<Longrightarrow> 0 < taps \<Longrightarrow> length (fir_reference dotprod dec taps xs) \<le> Suc (length xs) - taps"
proof (induction xs rule: length_induct)
  case (1 xs)
  then show ?case
    by (cases "length xs < taps") (auto simp: fir_reference.simps [of _ _ _ xs] dest!: spec [of _ "drop dec xs"])
qed


section \<open>The loop and a call\<close>

lemma fir_loop_spec:
  assumes "0 < dec" "dec \<le> taps" "taps \<le> Suc len" "len \<le> length wb" "i \<le> len"
    "produced + length (fir_reference dotprod dec taps (drop i (take len wb))) \<le> length out"
  shows "\<exists>i1 out1. fir_loop dotprod dec taps wb (Suc len - taps) i produced out =
      Some (i1, produced + length (fir_reference dotprod dec taps (drop i (take len wb))), out1) \<and>
    take (produced + length (fir_reference dotprod dec taps (drop i (take len wb)))) out1 = take produced out @ fir_reference dotprod dec taps (drop i (take len wb)) \<and>
    length out1 = length out \<and> i1 \<le> len \<and> drop i1 (take len wb) = fir_rest dec taps (drop i (take len wb))"
  using assms(5,6)
proof (induction "len - i" arbitrary: i produced out rule: less_induct)
  case less
  let ?xs = "drop i (take len wb)"
  show ?case
  proof (cases "i < Suc len - taps")
    case False
    then have "length ?xs < taps" using less.prems(1) assms(2,3,4) by auto
    then have "fir_reference dotprod dec taps ?xs = []" "fir_rest dec taps ?xs = ?xs"
      by (simp_all add: fir_reference.simps [of _ _ _ ?xs] fir_rest.simps [of _ _ ?xs])
    then show ?thesis using False less.prems by (simp add: fir_loop.simps [of dotprod dec taps wb "Suc len - taps" i produced out])
  next
    case True
    then have l: "i + taps \<le> len" using assms(3) by linarith
    then have nl: "\<not> (length ?xs < taps \<or> dec = 0 \<or> taps = 0)" using assms(1,2,4) by auto
    have w: "take taps ?xs = take taps (drop i wb)" using l by (simp add: drop_take min_absorb1)
    have n: "drop dec ?xs = drop (i + dec) (take len wb)" by (simp add: add.commute)
    let ?rs = "fir_reference dotprod dec taps (drop (i + dec) (take len wb))" and ?y = "dotprod (take taps (drop i wb))"
    have r: "fir_reference dotprod dec taps ?xs = ?y # ?rs" "fir_rest dec taps ?xs = fir_rest dec taps (drop (i + dec) (take len wb))"
      using nl w n by (simp_all add: fir_reference.simps [of _ _ _ ?xs] fir_rest.simps [of _ _ ?xs])
    have p: "produced < length out" using less.prems(2) r(1) by simp
    have "len - (i + dec) < len - i" "i + dec \<le> len" "Suc produced + length ?rs \<le> length (out[produced := ?y])"
      using l assms(1,2) less.prems(2) r(1) by auto
    from less.hyps [OF this] obtain i1 out1 where
      s: "fir_loop dotprod dec taps wb (Suc len - taps) (i + dec) (Suc produced) (out[produced := ?y]) = Some (i1, Suc produced + length ?rs, out1)"
        "take (Suc produced + length ?rs) out1 = take (Suc produced) (out[produced := ?y]) @ ?rs" "length out1 = length out" "i1 \<le> len"
        "drop i1 (take len wb) = fir_rest dec taps (drop (i + dec) (take len wb))" by auto
    have "fir_loop dotprod dec taps wb (Suc len - taps) i produced out = fir_loop dotprod dec taps wb (Suc len - taps) (i + dec) (Suc produced) (out[produced := ?y])"
      using True l p assms(4) by (simp add: fir_loop.simps [of dotprod dec taps wb "Suc len - taps" i produced out] set_at_def)
    moreover have "take (Suc produced) (out[produced := ?y]) = take produced out @ [?y]" using p by (simp add: take_Suc_conv_app_nth)
    ultimately show ?thesis using s r by simp
  qed
qed

definition fir_ok :: "'s fir_filter \<Rightarrow> bool" where
  "fir_ok f \<longleftrightarrow> 0 < fir_decimation f \<and> fir_decimation f \<le> taps_len f \<and> fir_history_offset f < taps_len f \<and> taps_len f \<le> fir_history_offset f + fir_decimation f \<and>
     length (fir_working_buffer f) = fir_max_input_buffer_length f + (taps_len f - 1) \<and> length (fir_output f) = fir_max_input_buffer_length f"

definition fir_history :: "'s fir_filter \<Rightarrow> 's list" where
  "fir_history f = take (fir_history_offset f) (fir_working_buffer f)"

lemma fir_step:
  assumes ok: "fir_ok f" and n: "length input \<le> fir_max_input_buffer_length f" "fir_decimation f \<le> Suc (length input)"
  shows "\<exists>f1. fir_filter_process_float dotprod input f = Some (fir_reference dotprod (fir_decimation f) (taps_len f) (fir_history f @ input), f1) \<and> fir_ok f1 \<and>
    fir_history f1 = fir_rest (fir_decimation f) (taps_len f) (fir_history f @ input) \<and> fir_decimation f1 = fir_decimation f \<and> taps_len f1 = taps_len f \<and>
    fir_max_input_buffer_length f1 = fir_max_input_buffer_length f \<and> num_bytes f1 = num_bytes f"
proof -
  let ?dec = "fir_decimation f" and ?t = "taps_len f" and ?h = "fir_history_offset f" and ?mx = "fir_max_input_buffer_length f"
  let ?xs = "fir_history f @ input"
  have d: "0 < ?dec" "?dec \<le> ?t" "?h < ?t" "?t \<le> ?h + ?dec" "length (fir_working_buffer f) = ?mx + (?t - 1)" "length (fir_output f) = ?mx"
    using ok by (simp_all add: fir_ok_def)
  define len wb where "len = ?h + length input"
    and "wb = take ?h (fir_working_buffer f) @ input @ drop (?h + length input) (fir_working_buffer f)"
  have m: "memcpy (fir_working_buffer f) ?h input (length input) = Some wb" using d n by (simp add: memcpy_def wb_def)
  have wb: "length wb = ?mx + (?t - 1)" "take len wb = ?xs" "len \<le> ?mx + (?t - 1)" "length ?xs = len"
    using d n by (simp_all add: fir_history_def wb_def len_def)
  let ?ys = "fir_reference dotprod ?dec ?t ?xs"
  have "length ?ys \<le> Suc len - ?t" using fir_reference_length [of ?dec ?t dotprod ?xs] d wb(4) by simp
  then have ys: "length ?ys \<le> ?mx" using d(3) n(1) by (simp add: len_def)
  have t: "?t \<le> Suc len" using d n by (simp add: len_def)
  have "len \<le> length wb" "0 + length (fir_reference dotprod ?dec ?t (drop 0 (take len wb))) \<le> length (fir_output f)" using wb ys d(6) by simp_all
  from fir_loop_spec [OF d(1,2) t this(1) _ this(2)] obtain i out where
    l: "fir_loop dotprod ?dec ?t wb (Suc len - ?t) 0 0 (fir_output f) = Some (i, length ?ys, out)" "take (length ?ys) out = ?ys" "length out = ?mx" "i \<le> len"
      "drop i ?xs = fir_rest ?dec ?t ?xs"
    using wb(2) d(6) by auto
  have mx: "size_diff len (size_diff ?t 1) = Suc len - ?t" using t d by (auto simp: size_diff_def)
  have off: "size_diff len i = len - i" using l(4) by (simp add: size_diff_def)
  define wb1 where "wb1 = (if i > 0 then take (len - i) (drop i wb) @ drop (len - i) wb else wb)"
  have room: "len - i \<le> ?mx + (?t - 1) - i" "len - i \<le> ?mx + (?t - 1)" using wb(3) by linarith+
  have mv: "(if i > 0 then memcpy wb 0 (drop i wb) (len - i) else Some wb) = Some wb1" using wb room by (auto simp: memcpy_def wb1_def)
  have lw: "length wb1 = length wb" using wb room by (auto simp: wb1_def)
  have "take (len - i) wb1 = take (len - i) (drop i wb)" using wb(1) room by (auto simp: wb1_def)
  then have "take (len - i) wb1 = drop i (take len wb)" by (simp only: drop_take)
  then have h1: "take (len - i) wb1 = fir_rest ?dec ?t ?xs" using wb(2) l(5) by simp
  then have "length (fir_rest ?dec ?t ?xs) = len - i" using wb l(4) lw by (metis length_take min_absorb2 le_trans diff_le_self)
  then have b: "len - i < ?t" "?t \<le> len - i + ?dec" using fir_rest_length [OF d(1,2), of ?xs] wb(4) t d(1) by auto
  let ?f1 = "f\<lparr>fir_working_buffer := wb1, fir_history_offset := len - i, fir_output := out\<rparr>"
  have "fir_filter_process_float dotprod input f = Some (?ys, ?f1)"
    unfolding fir_filter_process_float_def Let_def len_def [symmetric] mx using m l(1,2) mv by (auto simp: off split: if_splits)
  moreover have "fir_ok ?f1" using d b lw wb(1) l(3) by (simp add: fir_ok_def)
  moreover have "fir_history ?f1 = fir_rest ?dec ?t ?xs" using h1 by (simp add: fir_history_def)
  ultimately show ?thesis by (intro exI [of _ ?f1]) simp
qed

lemma fir_process_complex_float: "fir_filter_process_complex = fir_filter_process_float"
  by (intro ext) (simp only: fir_filter_process_complex_def fir_filter_process_float_def)

text \<open>A stream in buffers.\<close>

fun fir_process_all :: "('s list \<Rightarrow> 's) \<Rightarrow> 's list list \<Rightarrow> 's fir_filter \<Rightarrow> ('s list \<times> 's fir_filter) option" where
  "fir_process_all dotprod [] f = Some ([], f)"
| "fir_process_all dotprod (c # cs) f = do {
     (r, f1) \<leftarrow> fir_filter_process dotprod dotprod c f;
     ys \<leftarrow> (case r of Samples ys \<Rightarrow> Some ys | _ \<Rightarrow> None);
     (zs, f2) \<leftarrow> fir_process_all dotprod cs f1;
     Some (ys @ zs, f2) }"

lemma fir_process_all_spec:
  assumes "fir_ok f" "num_bytes f \<in> {4, 8}" "\<forall>c \<in> set cs. length c \<le> fir_max_input_buffer_length f \<and> fir_decimation f \<le> Suc (length c)"
  shows "\<exists>f1. fir_process_all dotprod cs f = Some (fir_reference dotprod (fir_decimation f) (taps_len f) (fir_history f @ concat cs), f1)"
  using assms
proof (induction cs arbitrary: f)
  case Nil
  then have "length (fir_history f) < taps_len f" by (auto simp: fir_ok_def fir_history_def min_def)
  then show ?case by (simp add: fir_reference.simps [of _ _ _ "fir_history f"])
next
  case (Cons c cs)
  then have n: "length c \<le> fir_max_input_buffer_length f" "fir_decimation f \<le> Suc (length c)" by simp_all
  let ?ys = "fir_reference dotprod (fir_decimation f) (taps_len f) (fir_history f @ c)"
  from fir_step [OF Cons.prems(1) n, of dotprod] obtain f1 where
    s: "fir_filter_process_float dotprod c f = Some (?ys, f1)" "fir_ok f1" "fir_history f1 = fir_rest (fir_decimation f) (taps_len f) (fir_history f @ c)"
      "fir_decimation f1 = fir_decimation f" "taps_len f1 = taps_len f" "fir_max_input_buffer_length f1 = fir_max_input_buffer_length f" "num_bytes f1 = num_bytes f"
    by (elim exE conjE) (rule that)
  have "fir_filter_process dotprod dotprod c f = Some (Samples ?ys, f1)"
    using s(1) n(1) Cons.prems(2) by (auto simp: fir_filter_process_def fir_process_complex_float)
  moreover from Cons.IH [OF s(2)] Cons.prems s obtain f2 where
    "fir_process_all dotprod cs f1 = Some (fir_reference dotprod (fir_decimation f) (taps_len f) (fir_history f1 @ concat cs), f2)" by auto
  moreover have "0 < fir_decimation f" "fir_decimation f \<le> taps_len f" using Cons.prems(1) by (simp_all add: fir_ok_def)
  from fir_reference_append [OF this, of dotprod "fir_history f @ c" "concat cs"]
  have "fir_reference dotprod (fir_decimation f) (taps_len f) (fir_history f @ concat (c # cs)) =
      ?ys @ fir_reference dotprod (fir_decimation f) (taps_len f) (fir_history f1 @ concat cs)" using s(3) by simp
  ultimately show ?case by simp
qed


section \<open>Properties\<close>

lemma fir_new_ok:
  assumes "fir_filter_new zero dec n_taps max_len bytes = Some f" "unat dec \<le> n_taps" "n_taps + max_len < 2 ^ 64"
  shows "fir_ok f" "fir_history f = replicate (n_taps - 1) zero" "fir_decimation f = unat dec" "taps_len f = n_taps" "num_bytes f = bytes"
    "fir_max_input_buffer_length f = max_len"
proof -
  have d: "dec \<noteq> 0" using assms(1) by (auto simp: fir_filter_new_def Let_def split: if_splits)
  then have "0 < unat dec" by (simp add: unat_gt_0)
  then have n: "1 \<le> n_taps" "(max_len + (n_taps - 1)) mod 2 ^ 64 = max_len + (n_taps - 1)" using assms(2,3) by auto
  have s: "size_diff n_taps 1 = n_taps - 1" using n(1) by (simp add: size_diff_def)
  have f: "f = \<lparr>fir_decimation = unat dec, taps_len = n_taps, fir_working_buffer = replicate (max_len + (n_taps - 1)) zero, fir_history_offset = n_taps - 1,
       working_len_total = max_len + (n_taps - 1), fir_max_input_buffer_length = max_len, fir_output = replicate max_len zero,
       fir_output_len = max_len div unat dec + 1, num_bytes = bytes\<rparr>"
    using assms(1) d unfolding fir_filter_new_def Let_def s n(2) by simp
  show "fir_ok f" using \<open>0 < unat dec\<close> assms(2) n(1) by (simp add: f fir_ok_def)
  show "fir_history f = replicate (n_taps - 1) zero" "fir_decimation f = unat dec" "taps_len f = n_taps" "num_bytes f = bytes"
    "fir_max_input_buffer_length f = max_len" by (auto simp: f fir_history_def min_def)
qed



text \<open>
  A buffer shorter than the decimation less one makes the number of windows underflow: after such a buffer a filter with four taps and a
  decimation of four reads past its working buffer on an empty input.
\<close>

theorem fir_filter_short_input_overflows:
  "\<exists>f f1. fir_filter_new 0 4 4 4 4 = Some f \<and> fir_filter_process sum_list sum_list [1 :: int] f = Some (Samples [1], f1) \<and> fir_filter_process sum_list sum_list [] f1 = None"
proof -
  define f :: "int fir_filter" where "f = \<lparr>fir_decimation = 4, taps_len = 4, fir_working_buffer = [0, 0, 0, 0, 0, 0, 0], fir_history_offset = 3,
    working_len_total = 7, fir_max_input_buffer_length = 4, fir_output = [0, 0, 0, 0], fir_output_len = 2, num_bytes = 4\<rparr>"
  have r: "replicate 7 0 = [0, 0, 0, 0, 0, 0, 0 :: int]" "replicate 4 0 = [0, 0, 0, 0 :: int]" by (simp_all add: eval_nat_numeral)
  have 0: "fir_filter_new 0 4 4 4 4 = Some f" by (simp add: fir_filter_new_def size_diff_def f_def r)
  let ?f1 = "f\<lparr>fir_working_buffer := [0, 0, 0, 1, 0, 0, 0], fir_history_offset := 0, fir_output := [1, 0, 0, 0]\<rparr>"
  have "fir_loop sum_list 4 4 [0, 0, 0, 1, 0, 0, 0] 1 0 0 [0, 0, 0, 0 :: int] = Some (4, 1, [1, 0, 0, 0])"
    by (simp add: fir_loop.simps [of _ _ _ _ _ 0] fir_loop.simps [of _ _ _ _ _ 4] set_at_def)
  then have 1: "fir_filter_process sum_list sum_list [1] f = Some (Samples [1], ?f1)"
    by (simp add: fir_filter_process_def fir_filter_process_float_def memcpy_def size_diff_def f_def)
  have "fir_loop sum_list 4 4 [0, 0, 0, 1, 0, 0, 0] (2 ^ 64 - 3) 0 0 [1, 0, 0, 0 :: int] = None"
    by (simp add: fir_loop.simps [of _ _ _ _ _ 0] fir_loop.simps [of _ _ _ _ _ 4] set_at_def)
  then have 2: "fir_filter_process sum_list sum_list [] ?f1 = None"
    by (simp add: fir_filter_process_def fir_filter_process_float_def memcpy_def size_diff_def f_def)
  from 0 1 2 show ?thesis by blast
qed


text \<open>
  A failed construction answers the same code whether or not it has freed the taps: they are left to the caller only when the structure
  could not be allocated.
\<close>

lemma fir_filter_create_outcome:
  "\<exists>code ps. fir_filter_create oks bytes = Some (code, ps) \<and> (code \<noteq> 0 \<longrightarrow> code = - ENOMEM \<and> ps = (if oks Fir_struct then {} else {Fir_taps}))"
  by (simp add: fir_filter_create_def fir.destroys)

end
