(* ===== verification/Airspy.thy ===== *)
theory Airspy
  imports Binary32 Construction AppConfig SdrDevice
begin

text \<open>
  The Airspy receiver, \<^verbatim>\<open>src/sdr/airspy.c\<close>. libairspy is a parameter: what a call answers may depend on all
  calls before it, and the device keeps the history of the calls. The thread of libairspy delivers
  transfers, which are cut into the buffers the rest of the program works with.
\<close>

abbreviation (input) AIRSPY_MIN_FREQUENCY :: u64 where "AIRSPY_MIN_FREQUENCY \<equiv> 24000000"
abbreviation (input) AIRSPY_MAX_FREQUENCY :: u64 where "AIRSPY_MAX_FREQUENCY \<equiv> 1750000000"
abbreviation (input) AIRSPY_MAX_COMBINED_GAIN :: rat where "AIRSPY_MAX_COMBINED_GAIN \<equiv> 21"
abbreviation (input) AIRSPY_LIB_SAMPLE_FLOAT32_IQ :: int where "AIRSPY_LIB_SAMPLE_FLOAT32_IQ \<equiv> 0"

section \<open>The library and the device\<close>

datatype airspy_call =
  Call_open | Call_open_sn u64 | Call_close | Call_get_samplerates u32 | Call_set_samplerate u32 | Call_set_sample_type int |
  Call_start_rx | Call_stop_rx | Call_set_freq u32 | Call_set_lna_gain u8 | Call_set_mixer_gain u8 | Call_set_vga_gain u8 |
  Call_set_lna_agc u8 | Call_set_mixer_agc u8 | Call_set_linearity_gain u8 | Call_set_sensitivity_gain u8 | Call_set_rf_bias u8

text \<open>The first argument of \<open>answer\<close> are the calls so far. \<open>rates\<close> is what \<^verbatim>\<open>airspy_get_samplerates\<close> reports.\<close>

record airspy_api =
  answer :: "airspy_call list \<Rightarrow> airspy_call \<Rightarrow> int"
  rates :: "u32 list"

record 's airspy_device =
  history :: "airspy_call list"
  dev_gain_mode :: airspy_gain_mode
  dev_lna_gain :: u8
  dev_mixer_gain :: u8
  dev_vga_gain :: u8
  dev_sample_rates :: "u32 list"
  dev_current_sample_rate :: u64
  dev_buffer_len :: nat
  staging :: "'s list"
  staging_len :: nat
  has_callback :: bool
  delivered :: "'s list list"

definition airspy_check :: "airspy_api \<Rightarrow> airspy_call \<Rightarrow> 's airspy_device \<Rightarrow> int \<times> 's airspy_device" where
  "airspy_check k c dev = (if answer k (history dev) c \<noteq> 0 then - 1 else 0, dev\<lparr>history := history dev @ [c]\<rparr>)"

text \<open>\<^verbatim>\<open>if (code != 0) return code;\<close>\<close>

definition then_call :: "int \<times> 's airspy_device \<Rightarrow> ('s airspy_device \<Rightarrow> int \<times> 's airspy_device) \<Rightarrow> int \<times> 's airspy_device" where
  "then_call r f = (case r of (code, dev) \<Rightarrow> if code \<noteq> 0 then (code, dev) else f dev)"

section \<open>Streaming\<close>

record 's airspy_lib_transfer =
  samples :: "'s list"
  sample_count :: int
  sample_type :: int

partial_function (option) rx_callback_loop :: "'s list \<Rightarrow> nat \<Rightarrow> 's airspy_device \<Rightarrow> 's airspy_device option" where
  "rx_callback_loop input remaining dev =
    (if remaining > 0 then do {
       let len = min (dev_buffer_len dev - staging_len dev) remaining;
       st \<leftarrow> memcpy (staging dev) (staging_len dev) input len;
       let dev1 = dev\<lparr>staging := st, staging_len := staging_len dev + len\<rparr>;
       dev2 \<leftarrow> (if staging_len dev1 = dev_buffer_len dev then
           (if has_callback dev then Some (dev1\<lparr>delivered := delivered dev @ [take (dev_buffer_len dev) st], staging_len := 0\<rparr>) else None)
         else Some dev1);
       rx_callback_loop (drop len input) (remaining - len) dev2 }
     else Some dev)"

definition airspy_rx_callback :: "'s airspy_lib_transfer \<Rightarrow> 's airspy_device \<Rightarrow> 's airspy_device option" where
  "airspy_rx_callback transfer dev =
    (if sample_type transfer \<noteq> AIRSPY_LIB_SAMPLE_FLOAT32_IQ \<or> sample_count transfer \<le> 0 then Some dev
     else rx_callback_loop (samples transfer) (nat (sample_count transfer)) dev)"

definition airspy_set_rx_callback :: "'s airspy_device \<Rightarrow> 's airspy_device" where
  "airspy_set_rx_callback dev = dev\<lparr>has_callback := True\<rparr>"

definition airspy_start_rx :: "airspy_api \<Rightarrow> 's airspy_device \<Rightarrow> 's airspy_device" where
  "airspy_start_rx k dev = snd (airspy_check k Call_start_rx (dev\<lparr>staging_len := 0\<rparr>))"

definition airspy_stop_rx :: "airspy_api \<Rightarrow> 's airspy_device \<Rightarrow> 's airspy_device" where
  "airspy_stop_rx k dev = snd (airspy_check k Call_stop_rx dev)"

section \<open>Parameters\<close>

definition airspy_set_agc :: "airspy_api \<Rightarrow> u8 \<Rightarrow> 's airspy_device \<Rightarrow> int \<times> 's airspy_device" where
  "airspy_set_agc k enabled dev = then_call (airspy_check k (Call_set_lna_agc enabled) dev) (airspy_check k (Call_set_mixer_agc enabled))"

text \<open>\<^verbatim>\<open>(uint8_t) lroundf(gain)\<close>; the gain was compared with its range before.\<close>

definition lround_u8 :: "f32 \<Rightarrow> u8" where
  "lround_u8 g = (case f32_value g of Some x \<Rightarrow> of_int (trunc (roundf x)) | None \<Rightarrow> 0)"

definition airspy_apply_gain :: "airspy_api \<Rightarrow> f32 \<Rightarrow> 's airspy_device \<Rightarrow> int \<times> 's airspy_device" where
  "airspy_apply_gain k g dev = (case dev_gain_mode dev of
     AIRSPY_GAIN_MODE_AUTO \<Rightarrow> then_call (airspy_set_agc k 1 dev) (airspy_check k (Call_set_vga_gain (dev_vga_gain dev)))
   | AIRSPY_GAIN_MODE_SENSITIVITY \<Rightarrow> then_call (airspy_set_agc k 0 dev) (airspy_check k (Call_set_sensitivity_gain (lround_u8 g)))
   | AIRSPY_GAIN_MODE_LINEARITY \<Rightarrow> then_call (airspy_set_agc k 0 dev) (airspy_check k (Call_set_linearity_gain (lround_u8 g)))
   | AIRSPY_GAIN_MODE_MANUAL \<Rightarrow>
       then_call (then_call (then_call (airspy_set_agc k 0 dev) (airspy_check k (Call_set_lna_gain (dev_lna_gain dev))))
         (airspy_check k (Call_set_mixer_gain (dev_mixer_gain dev)))) (airspy_check k (Call_set_vga_gain (dev_vga_gain dev))))"

definition airspy_is_sample_rate_supported :: "u64 \<Rightarrow> 's airspy_device \<Rightarrow> bool" where
  "airspy_is_sample_rate_supported r dev = list_ex (\<lambda>x. ucast x = r) (dev_sample_rates dev)"

definition airspy_set_sample_rate :: "airspy_api \<Rightarrow> u64 \<Rightarrow> 's airspy_device \<Rightarrow> int \<times> 's airspy_device" where
  "airspy_set_sample_rate k r dev =
    (if \<not> airspy_is_sample_rate_supported r dev then (- 1, dev)
     else then_call (airspy_check k (Call_set_samplerate (ucast r)) dev) (\<lambda>dev1. (0, dev1\<lparr>dev_current_sample_rate := r\<rparr>)))"

text \<open>\<^verbatim>\<open>gain >= 0.0F && gain <= AIRSPY_MAX_COMBINED_GAIN\<close>; a gain that is not a number fails it.\<close>

definition gain_in_range :: "f32 \<Rightarrow> bool" where
  "gain_in_range g = (case f32_value g of Some x \<Rightarrow> 0 \<le> x \<and> x \<le> AIRSPY_MAX_COMBINED_GAIN | None \<Rightarrow> False)"

definition airspy_set_rx_parameters :: "airspy_api \<Rightarrow> sdr_channel_config \<Rightarrow> 's airspy_device \<Rightarrow> int \<times> 's airspy_device" where
  "airspy_set_rx_parameters k config dev =
    (if frequency config < AIRSPY_MIN_FREQUENCY \<or> frequency config > AIRSPY_MAX_FREQUENCY then (- 1, dev)
     else if \<not> airspy_is_sample_rate_supported (sample_rate config) dev then (- 1, dev)
     else if dev_gain_mode dev \<in> {AIRSPY_GAIN_MODE_SENSITIVITY, AIRSPY_GAIN_MODE_LINEARITY} \<and> \<not> gain_in_range (gain config) then (- 1, dev)
     else then_call (then_call
         (if dev_current_sample_rate dev \<noteq> sample_rate config then airspy_set_sample_rate k (sample_rate config) dev else (0, dev))
         (airspy_check k (Call_set_freq (ucast (frequency config)))))
       (airspy_apply_gain k (gain config)))"

section \<open>Construction and destruction\<close>

datatype airspy_part = Airspy_struct | Airspy_staging | Airspy_handle | Airspy_rates

fun airspy_users :: "airspy_part \<Rightarrow> airspy_part set" where
  "airspy_users Airspy_struct = {Airspy_staging, Airspy_handle, Airspy_rates}"
| "airspy_users Airspy_staging = {Airspy_handle}"
| "airspy_users _ = {}"

definition airspy_destroy_order :: "airspy_part list" where
  "airspy_destroy_order = [Airspy_handle, Airspy_staging, Airspy_rates, Airspy_struct]"

text \<open>The parts that are left and the device with the calls of the destructor: streaming is stopped before anything is released.\<close>

definition airspy_destroy :: "airspy_api \<Rightarrow> airspy_part set \<Rightarrow> 's airspy_device \<Rightarrow> (airspy_part set \<times> 's airspy_device) option" where
  "airspy_destroy k ps dev = do {
     ps1 \<leftarrow> release_all airspy_users airspy_destroy_order ps;
     Some (ps1, if Airspy_handle \<in> ps then (airspy_stop_rx k dev)\<lparr>history := history (airspy_stop_rx k dev) @ [Call_close]\<rparr> else dev) }"

definition airspy_validate_settings :: "airspy_settings \<Rightarrow> int" where
  "airspy_validate_settings s =
    (if uint (lna_gain s) > AIRSPY_MAX_LNA_GAIN then - 1
     else if uint (mixer_gain s) > AIRSPY_MAX_MIXER_GAIN then - 1
     else if uint (vga_gain s) > AIRSPY_MAX_VGA_GAIN then - 1
     else 0)"

text \<open>The second component of the result says whether the array of rates was allocated.\<close>

definition airspy_load_sample_rates :: "airspy_api \<Rightarrow> bool \<Rightarrow> 's airspy_device \<Rightarrow> int \<times> bool \<times> 's airspy_device" where
  "airspy_load_sample_rates k malloc_ok dev = (
     let count = (of_nat (length (rates k)) :: u32) in
     case airspy_check k (Call_get_samplerates 0) dev of (code, dev1) \<Rightarrow>
     if code \<noteq> 0 then (code, False, dev1)
     else if count = 0 then (- 1, False, dev1)
     else if \<not> malloc_ok then (- ENOMEM, False, dev1)
     else case airspy_check k (Call_get_samplerates count) dev1 of (code, dev2) \<Rightarrow>
     if code \<noteq> 0 then (code, True, dev2)
     else (0, True, dev2\<lparr>dev_sample_rates := take (unat count) (rates k)\<rparr>))"

definition airspy_new :: "airspy_settings \<Rightarrow> 's \<Rightarrow> nat \<Rightarrow> 's airspy_device" where
  "airspy_new s junk len = \<lparr>history = [], dev_gain_mode = airspy_gain_mode s, dev_lna_gain = lna_gain s, dev_mixer_gain = mixer_gain s, dev_vga_gain = vga_gain s,
     dev_sample_rates = [], dev_current_sample_rate = 0, dev_buffer_len = len, staging = replicate len junk, staging_len = 0, has_callback = False, delivered = []\<rparr>"

text \<open>A failing step: the destructor runs and the code is returned.\<close>

definition airspy_fail :: "airspy_api \<Rightarrow> airspy_part set \<Rightarrow> 's airspy_device \<Rightarrow> int \<Rightarrow> (int \<times> airspy_part set \<times> 's airspy_device) option" where
  "airspy_fail k ps dev code = do { (ps1, dev1) \<leftarrow> airspy_destroy k ps dev; Some (code, ps1, dev1) }"

text \<open>\<open>oks\<close>: which allocations succeed; \<open>device_ok\<close>: that of the \<^verbatim>\<open>sdr_device\<close>.\<close>

definition airspy_open_device :: "airspy_api \<Rightarrow> (airspy_part \<Rightarrow> bool) \<Rightarrow> bool \<Rightarrow> airspy_settings \<Rightarrow> 's airspy_device \<Rightarrow>
    (int \<times> airspy_part set \<times> 's airspy_device) option" where
  "airspy_open_device k oks device_ok s dev = (
     let ps = {Airspy_struct, Airspy_staging}; handle = insert Airspy_handle ps;
         open_call = (if serial_number s = 0 then Call_open else Call_open_sn (serial_number s)) in
     case airspy_check k open_call dev of (code, dev1) \<Rightarrow> if code \<noteq> 0 then airspy_fail k ps dev1 (- 1) else
     case airspy_check k (Call_set_sample_type AIRSPY_LIB_SAMPLE_FLOAT32_IQ) dev1 of (code, dev2) \<Rightarrow> if code \<noteq> 0 then airspy_fail k handle dev2 (- 1) else
     case airspy_load_sample_rates k (oks Airspy_rates) dev2 of (code, has_rates, dev3) \<Rightarrow>
     let ps3 = (if has_rates then insert Airspy_rates handle else handle) in if code \<noteq> 0 then airspy_fail k ps3 dev3 (- 1) else
     case airspy_check k (Call_set_rf_bias (if bias_tee s then 1 else 0)) dev3 of (code, dev4) \<Rightarrow> if code \<noteq> 0 then airspy_fail k ps3 dev4 (- 1) else
     case (if airspy_sample_rate s \<noteq> 0 then airspy_set_sample_rate k (airspy_sample_rate s) dev4 else (0, dev4)) of (code, dev5) \<Rightarrow>
     if code \<noteq> 0 then airspy_fail k ps3 dev5 (- 1)
     else if \<not> device_ok then airspy_fail k ps3 dev5 (- ENOMEM)
     else Some (0, ps3, dev5))"

definition airspy_create :: "airspy_api \<Rightarrow> (airspy_part \<Rightarrow> bool) \<Rightarrow> bool \<Rightarrow> airspy_settings \<Rightarrow> u32 \<Rightarrow> 's \<Rightarrow>
    (int \<times> airspy_part set \<times> 's airspy_device) option" where
  "airspy_create k oks device_ok s len junk = (let dev = airspy_new s junk (unat len) in
     if len = 0 \<or> unat len > (2 ^ 32 - 1) div 8 \<or> airspy_validate_settings s \<noteq> 0 then Some (- 1, {}, dev)
     else if \<not> oks Airspy_struct then Some (- ENOMEM, {}, dev)
     else if \<not> oks Airspy_staging then airspy_fail k {Airspy_struct} dev (- ENOMEM)
     else airspy_open_device k oks device_ok s dev)"

interpretation airspy: component airspy_users airspy_destroy_order
proof
  show "ordered airspy_users {} airspy_destroy_order" by (simp add: airspy_destroy_order_def)
  show "p \<in> set airspy_destroy_order" for p by (cases p) (simp_all add: airspy_destroy_order_def)
qed

section \<open>The stream of samples\<close>

definition stream_ok :: "'s airspy_device \<Rightarrow> bool" where
  "stream_ok dev \<longleftrightarrow> has_callback dev \<and> length (staging dev) = dev_buffer_len dev \<and> staging_len dev < dev_buffer_len dev \<and>
    (\<forall>b \<in> set (delivered dev). length b = dev_buffer_len dev)"

text \<open>Everything that has arrived: the delivered buffers, then what is staged.\<close>

definition arrived :: "'s airspy_device \<Rightarrow> 's list" where
  "arrived dev = concat (delivered dev) @ take (staging_len dev) (staging dev)"

lemma rx_callback_loop_total:
  "stream_ok dev \<Longrightarrow> n \<le> length input \<Longrightarrow>
    \<exists>dev1. rx_callback_loop input n dev = Some dev1 \<and> stream_ok dev1 \<and> arrived dev1 = arrived dev @ take n input \<and> dev_buffer_len dev1 = dev_buffer_len dev"
proof (induction n arbitrary: input dev rule: less_induct)
  case (less n)
  note o = less.prems(1) [unfolded stream_ok_def]
  show ?case
  proof (cases "n = 0")
    case True
    with less.prems show ?thesis by (simp add: rx_callback_loop.simps [of input 0 dev])
  next
    case False
    let ?len = "min (dev_buffer_len dev - staging_len dev) n"
    have len: "0 < ?len" "?len \<le> n" "?len \<le> length input" "staging_len dev + ?len \<le> length (staging dev)" using False o less.prems(2) by auto
    define st where "st = take (staging_len dev) (staging dev) @ take ?len input @ drop (staging_len dev + ?len) (staging dev)"
    have m: "memcpy (staging dev) (staging_len dev) input ?len = Some st" "length st = length (staging dev)"
      "take (staging_len dev + ?len) st = take (staging_len dev) (staging dev) @ take ?len input"
      using len by (simp_all add: memcpy_def st_def)
    define dev2 where "dev2 = (if staging_len dev + ?len = dev_buffer_len dev
      then dev\<lparr>staging := st, delivered := delivered dev @ [take (dev_buffer_len dev) st], staging_len := 0\<rparr>
      else dev\<lparr>staging := st, staging_len := staging_len dev + ?len\<rparr>)"
    have ok: "stream_ok dev2" using o len m(2) by (auto simp: dev2_def stream_ok_def)
    have arr: "arrived dev2 = arrived dev @ take ?len input" using m(3) by (auto simp: dev2_def arrived_def)
    have "n - ?len < n" "n - ?len \<le> length (drop ?len input)" using len(1,2) less.prems(2) by (simp_all add: diff_le_mono del: min_less_iff_conj)
    from less.IH [OF this(1) ok this(2)] obtain dev1 where
      d: "rx_callback_loop (drop ?len input) (n - ?len) dev2 = Some dev1" "stream_ok dev1" "arrived dev1 = arrived dev2 @ take (n - ?len) (drop ?len input)"
        "dev_buffer_len dev1 = dev_buffer_len dev2" by blast
    have "rx_callback_loop input n dev = rx_callback_loop (drop ?len input) (n - ?len) dev2"
      using False m(1) o by (subst rx_callback_loop.simps) (simp add: dev2_def Let_def)
    moreover have "take ?len input @ take (n - ?len) (drop ?len input) = take n input" using len(2) by (metis le_add_diff_inverse take_add)
    ultimately show ?thesis using d arr by (simp add: dev2_def)
  qed
qed

fun airspy_stream :: "'s airspy_lib_transfer list \<Rightarrow> 's airspy_device \<Rightarrow> 's airspy_device option" where
  "airspy_stream [] dev = Some dev"
| "airspy_stream (t # ts) dev = do { dev1 \<leftarrow> airspy_rx_callback t dev; airspy_stream ts dev1 }"

text \<open>The samples of a transfer that count.\<close>

definition received :: "'s airspy_lib_transfer \<Rightarrow> 's list" where
  "received t = (if sample_type t = AIRSPY_LIB_SAMPLE_FLOAT32_IQ then take (nat (sample_count t)) (samples t) else [])"

lemma airspy_stream_total:
  "stream_ok dev \<Longrightarrow> \<forall>t \<in> set ts. sample_count t \<le> int (length (samples t)) \<Longrightarrow>
    \<exists>dev1. airspy_stream ts dev = Some dev1 \<and> stream_ok dev1 \<and> arrived dev1 = arrived dev @ concat (map received ts) \<and> dev_buffer_len dev1 = dev_buffer_len dev"
proof (induction ts arbitrary: dev)
  case (Cons t ts)
  have "\<exists>dev1. airspy_rx_callback t dev = Some dev1 \<and> stream_ok dev1 \<and> arrived dev1 = arrived dev @ received t \<and> dev_buffer_len dev1 = dev_buffer_len dev"
    using rx_callback_loop_total [OF Cons.prems(1), of "nat (sample_count t)" "samples t"] Cons.prems
    by (auto simp: airspy_rx_callback_def received_def)
  then obtain dev1 where d: "airspy_rx_callback t dev = Some dev1" "stream_ok dev1" "arrived dev1 = arrived dev @ received t"
    "dev_buffer_len dev1 = dev_buffer_len dev" by blast
  from Cons.IH [OF d(2)] Cons.prems(2) d show ?case by auto
qed simp

section \<open>Calls to the hardware\<close>

text \<open>The calls that succeeded, in order, and what the last of them set.\<close>

definition applied :: "airspy_api \<Rightarrow> airspy_call list \<Rightarrow> airspy_call list" where
  "applied k h = map (\<lambda>i. h ! i) (filter (\<lambda>i. answer k (take i h) (h ! i) = 0) [0..<length h])"

definition applied_rate :: "airspy_api \<Rightarrow> airspy_call list \<Rightarrow> u32 option" where
  "applied_rate k h = foldl (\<lambda>a c. case c of Call_set_samplerate r \<Rightarrow> Some r | _ \<Rightarrow> a) None (applied k h)"

definition applied_freq :: "airspy_api \<Rightarrow> airspy_call list \<Rightarrow> u32 option" where
  "applied_freq k h = foldl (\<lambda>a c. case c of Call_set_freq f \<Rightarrow> Some f | _ \<Rightarrow> a) None (applied k h)"

lemma applied_snoc: "applied k (h @ [c]) = applied k h @ (if answer k h c = 0 then [c] else [])"
proof -
  have "filter (\<lambda>i. answer k (take i (h @ [c])) ((h @ [c]) ! i) = 0) [0..<length h] = filter (\<lambda>i. answer k (take i h) (h ! i) = 0) [0..<length h]"
    by (rule filter_cong) (simp_all add: nth_append)
  moreover have "map (\<lambda>i. (h @ [c]) ! i) (filter P [0..<length h]) = map (\<lambda>i. h ! i) (filter P [0..<length h])" for P
    by (simp add: nth_append)
  ultimately show ?thesis by (simp add: applied_def)
qed

lemma applied_rate_snoc: "applied_rate k (h @ [c]) = (case c of Call_set_samplerate r \<Rightarrow> if answer k h c = 0 then Some r else applied_rate k h | _ \<Rightarrow> applied_rate k h)"
  by (cases c) (simp_all add: applied_rate_def applied_snoc)

lemma applied_freq_snoc: "applied_freq k (h @ [c]) = (case c of Call_set_freq r \<Rightarrow> if answer k h c = 0 then Some r else applied_freq k h | _ \<Rightarrow> applied_freq k h)"
  by (cases c) (simp_all add: applied_freq_def applied_snoc)

text \<open>What the tuner supports.\<close>

fun within_limits :: "u32 list \<Rightarrow> airspy_call \<Rightarrow> bool" where
  "within_limits rs (Call_set_samplerate r) = (r \<in> set rs)"
| "within_limits rs (Call_set_freq f) = (24000000 \<le> f \<and> f \<le> 1750000000)"
| "within_limits rs (Call_set_lna_gain g) = (g \<le> 14)"
| "within_limits rs (Call_set_mixer_gain g) = (g \<le> 15)"
| "within_limits rs (Call_set_vga_gain g) = (g \<le> 15)"
| "within_limits rs (Call_set_linearity_gain g) = (g \<le> 21)"
| "within_limits rs (Call_set_sensitivity_gain g) = (g \<le> 21)"
| "within_limits rs (Call_set_lna_agc b) = (b \<le> 1)"
| "within_limits rs (Call_set_mixer_agc b) = (b \<le> 1)"
| "within_limits rs _ = True"

definition airspy_ok :: "airspy_api \<Rightarrow> 's airspy_device \<Rightarrow> bool" where
  "airspy_ok k dev \<longleftrightarrow> dev_lna_gain dev \<le> 14 \<and> dev_mixer_gain dev \<le> 15 \<and> dev_vga_gain dev \<le> 15 \<and>
    list_all (within_limits (dev_sample_rates dev)) (history dev) \<and> set (dev_sample_rates dev) \<subseteq> set (rates k) \<and>
    (dev_current_sample_rate dev \<noteq> 0 \<longrightarrow> applied_rate k (history dev) = Some (ucast (dev_current_sample_rate dev)))"

lemma airspy_check_ok:
  assumes "airspy_ok k dev" "within_limits (dev_sample_rates dev) c" "\<And>r. c \<noteq> Call_set_samplerate r" "airspy_check k c dev = (code, dev1)"
  shows "airspy_ok k dev1" "dev1 = dev\<lparr>history := history dev @ [c]\<rparr>" "code = 0 \<longleftrightarrow> answer k (history dev) c = 0"
    "applied_rate k (history dev1) = applied_rate k (history dev)"
proof -
  have r: "applied_rate k (history dev @ [c]) = applied_rate k (history dev)" using assms(3) by (cases c) (auto simp: applied_rate_snoc)
  show d: "dev1 = dev\<lparr>history := history dev @ [c]\<rparr>" and "code = 0 \<longleftrightarrow> answer k (history dev) c = 0"
    using assms(4) by (auto simp: airspy_check_def split: if_splits)
  show "applied_rate k (history dev1) = applied_rate k (history dev)" using d r by simp
  show "airspy_ok k dev1" using assms(1,2) d r by (simp add: airspy_ok_def)
qed

text \<open>A device that only got further calls keeps its settings; \<open>Q\<close> collects what the history is known to contain.\<close>

definition called :: "airspy_api \<Rightarrow> 's airspy_device \<Rightarrow> 's airspy_device \<Rightarrow> bool" where
  "called k dev dev1 \<longleftrightarrow> airspy_ok k dev1 \<and> (\<exists>h. dev1 = dev\<lparr>history := h\<rparr> \<and> applied_rate k h = applied_rate k (history dev) \<and>
    applied_freq k h = applied_freq k (history dev))"

lemma check_called:
  assumes "airspy_ok k dev" "within_limits (dev_sample_rates dev) c" "\<And>r. c \<noteq> Call_set_samplerate r" "\<And>f. c \<noteq> Call_set_freq f"
  shows "called k dev (snd (airspy_check k c dev))"
proof -
  obtain code dev1 where d: "airspy_check k c dev = (code, dev1)" by fastforce
  have "applied_freq k (history dev @ [c]) = applied_freq k (history dev)" using assms(4) by (cases c) (auto simp: applied_freq_snoc)
  with airspy_check_ok [OF assms(1-3) d] d show ?thesis by (auto simp: called_def)
qed

lemma called_trans: "called k a b \<Longrightarrow> called k b c \<Longrightarrow> called k a c"
  by (auto simp: called_def)

lemma called_then:
  assumes "called k dev (snd r)" "\<And>d. called k dev d \<Longrightarrow> called k d (snd (f d))"
  shows "called k dev (snd (then_call r f))"
  using assms(1) called_trans [OF assms(1) assms(2)] by (cases r) (simp add: then_call_def)

lemma lround_u8_bound: "gain_in_range g \<Longrightarrow> lround_u8 g \<le> 21"
proof -
  assume "gain_in_range g"
  then obtain x where x: "f32_value g = Some x" "0 \<le> x" "x \<le> 21" by (auto simp: gain_in_range_def split: option.splits)
  then have "0 \<le> \<lfloor>x + 1 / 2\<rfloor>" "\<lfloor>x + 1 / 2\<rfloor> \<le> 21" by linarith+
  moreover have "lround_u8 g = of_int \<lfloor>x + 1 / 2\<rfloor>" using x(1,2) calculation(1) by (simp add: lround_u8_def roundf_def trunc_def)
  ultimately show ?thesis by (simp add: word_le_def word_of_int_inverse uint_word_of_int_eq take_bit_int_eq_self unsigned_of_int)
qed

lemma airspy_set_agc_called:
  assumes "airspy_ok k dev" "b \<le> 1"
  shows "called k dev (snd (airspy_set_agc k b dev))"
  unfolding airspy_set_agc_def
proof (rule called_then)
  show "called k dev (snd (airspy_check k (Call_set_lna_agc b) dev))" using assms by (intro check_called) simp_all
  show "called k d (snd (airspy_check k (Call_set_mixer_agc b) d))" if "called k dev d" for d
    using that assms(2) by (intro check_called) (auto simp: called_def)
qed

lemma airspy_apply_gain_called:
  assumes ok: "airspy_ok k dev" and g: "dev_gain_mode dev \<in> {AIRSPY_GAIN_MODE_SENSITIVITY, AIRSPY_GAIN_MODE_LINEARITY} \<Longrightarrow> gain_in_range g"
  shows "called k dev (snd (airspy_apply_gain k g dev))"
proof -
  have c: "called k d (snd (airspy_check k c d))"
    if "called k dev d" "within_limits (dev_sample_rates dev) c" "\<And>r. c \<noteq> Call_set_samplerate r" "\<And>f. c \<noteq> Call_set_freq f" for c d
    using that by (intro check_called) (auto simp: called_def)
  have agc: "called k dev (snd (airspy_set_agc k b dev))" if "b \<le> 1" for b using airspy_set_agc_called [OF ok that] .
  show ?thesis using ok g lround_u8_bound [of g]
    by (auto simp: airspy_apply_gain_def airspy_ok_def split: airspy_gain_mode.split intro!: called_then agc c)
qed

lemma supported_rate:
  assumes "airspy_is_sample_rate_supported r dev"
  shows "ucast r \<in> set (dev_sample_rates dev)" "unat (ucast r :: u32) = unat r"
proof -
  from assms obtain x where x: "x \<in> set (dev_sample_rates dev)" "ucast x = r" by (auto simp: airspy_is_sample_rate_supported_def list_ex_iff)
  have "ucast (ucast x :: u64) = x" by (rule bit_word_eqI) (auto simp: bit_simps)
  then show "ucast r \<in> set (dev_sample_rates dev)" using x by auto
  show "unat (ucast r :: u32) = unat r" using x(2) [symmetric] \<open>ucast (ucast x) = x\<close> unsigned_less [of x, where 'a = nat]
    by (simp add: unsigned_ucast_eq take_bit_nat_eq_self)
qed

lemma airspy_set_sample_rate_ok:
  assumes ok: "airspy_ok k dev" and r: "airspy_set_sample_rate k r dev = (code, dev1)"
  shows "airspy_ok k dev1" "code = 0 \<Longrightarrow> applied_rate k (history dev1) = Some (ucast r)"
    "\<exists>h c. dev1 = dev\<lparr>history := h, dev_current_sample_rate := c\<rparr>"
proof -
  show "\<exists>h c. dev1 = dev\<lparr>history := h, dev_current_sample_rate := c\<rparr>"
    using r by (auto simp: airspy_set_sample_rate_def then_call_def airspy_check_def split: if_splits) (metis (no_types) airspy_device.surjective airspy_device.update_convs(1,7))+
  show "airspy_ok k dev1" "code = 0 \<Longrightarrow> applied_rate k (history dev1) = Some (ucast r)"
    using ok r supported_rate(1) [of r dev]
    by (auto simp: airspy_set_sample_rate_def then_call_def airspy_check_def airspy_ok_def applied_rate_snoc split: if_splits)
qed

lemma airspy_set_rx_parameters_ok:
  assumes ok: "airspy_ok k dev" and zero: "0 \<notin> set (rates k)" and p: "airspy_set_rx_parameters k c dev = (code, dev1)"
  shows "airspy_ok k dev1 \<and> (code = 0 \<longrightarrow> applied_rate k (history dev1) = Some (ucast (sample_rate c)) \<and> unat (ucast (sample_rate c) :: u32) = unat (sample_rate c) \<and>
    applied_freq k (history dev1) = Some (ucast (frequency c)) \<and> unat (ucast (frequency c) :: u32) = unat (frequency c))"
proof (cases "frequency c < 24000000 \<or> frequency c > 1750000000 \<or> \<not> airspy_is_sample_rate_supported (sample_rate c) dev \<or>
    (dev_gain_mode dev \<in> {AIRSPY_GAIN_MODE_SENSITIVITY, AIRSPY_GAIN_MODE_LINEARITY} \<and> \<not> gain_in_range (gain c))")
  case True
  then have "airspy_set_rx_parameters k c dev = (- 1, dev)" unfolding airspy_set_rx_parameters_def by argo
  with ok p show ?thesis by auto
next
  case False
  let ?f = "ucast (frequency c) :: u32"
  have f: "unat ?f = unat (frequency c)" "24000000 \<le> ?f" "?f \<le> 1750000000"
  proof -
    have "unat (frequency c) \<le> 1750000000" "24000000 \<le> unat (frequency c)" using False by (simp_all add: word_le_nat_alt not_less)
    then show u: "unat ?f = unat (frequency c)" by (simp add: unsigned_ucast_eq take_bit_nat_eq_self)
    show "24000000 \<le> ?f" "?f \<le> 1750000000" using u \<open>unat (frequency c) \<le> _\<close> \<open>24000000 \<le> _\<close> by (simp_all add: word_le_nat_alt)
  qed
  note sup = supported_rate [of "sample_rate c" dev]
  obtain c1 d1 where r: "(if dev_current_sample_rate dev \<noteq> sample_rate c then airspy_set_sample_rate k (sample_rate c) dev else (0, dev)) = (c1, d1)" by (metis surj_pair)
  have "sample_rate c \<noteq> 0" using sup(1) False zero ok by (auto simp: airspy_ok_def)
  then have d1: "airspy_ok k d1" "c1 = 0 \<Longrightarrow> applied_rate k (history d1) = Some (ucast (sample_rate c))" "dev_gain_mode d1 = dev_gain_mode dev"
    using r ok airspy_set_sample_rate_ok [OF ok, of "sample_rate c" c1 d1] by (auto simp: airspy_ok_def split: if_splits)
  obtain c2 d2 where q: "airspy_check k (Call_set_freq ?f) d1 = (c2, d2)" by fastforce
  have d2: "airspy_ok k d2" "d2 = d1\<lparr>history := history d1 @ [Call_set_freq ?f]\<rparr>" "c2 = 0 \<longleftrightarrow> answer k (history d1) (Call_set_freq ?f) = 0"
    "applied_rate k (history d2) = applied_rate k (history d1)"
    using airspy_check_ok [OF d1(1) _ _ q] f by simp_all
  have fr: "c2 = 0 \<Longrightarrow> applied_freq k (history d2) = Some ?f" using d2(2,3) by (simp add: applied_freq_snoc)
  have "called k d2 (snd (airspy_apply_gain k (gain c) d2))"
    by (rule airspy_apply_gain_called [OF d2(1)]) (use False d1(3) d2(2) in auto)
  moreover have "(code, dev1) = (if c1 \<noteq> 0 then (c1, d1) else if c2 \<noteq> 0 then (c2, d2) else airspy_apply_gain k (gain c) d2)"
    using p False r q by (auto simp: airspy_set_rx_parameters_def then_call_def)
  ultimately show ?thesis using d1 d2(1,4) fr f(1) sup(2) False
    by (auto simp: called_def split: if_splits) (metis airspy_device.select_convs(1) airspy_device.surjective airspy_device.update_convs(1) snd_conv)+
qed

section \<open>The life of a device\<close>

text \<open>Creation is all or nothing; a failing step stops and closes a device that was opened.\<close>

lemma airspy_fail_outcome: "\<exists>dev1. airspy_fail k ps dev code = Some (code, {}, dev1)"
  by (simp add: airspy_fail_def airspy_destroy_def airspy.destroys)

text \<open>Up to the default sample rate, the calls of the constructor are always the same.\<close>

lemma airspy_open_device_outcome:
  assumes "airspy_open_device k oks device_ok s dev = Some (code, ps, dev1)" "history dev = []" "dev_sample_rates dev = []" "dev_current_sample_rate dev = 0"
    "dev_lna_gain dev \<le> 14" "dev_mixer_gain dev \<le> 15" "dev_vga_gain dev \<le> 15"
  shows "if code = 0 then ps = UNIV \<and> airspy_ok k dev1 \<and> (\<exists>rs h r. dev1 = dev\<lparr>dev_sample_rates := rs, history := h, dev_current_sample_rate := r\<rparr>) else ps = {}"
proof -
  have u: "insert Airspy_rates (insert Airspy_handle {Airspy_struct, Airspy_staging}) = UNIV"
    using airspy.complete by (auto simp: airspy_destroy_order_def)
  note d = airspy.destroys
  let ?n = "of_nat (length (rates k)) :: u32"
  define h where "h = [if serial_number s = 0 then Call_open else Call_open_sn (serial_number s), Call_set_sample_type 0, Call_get_samplerates 0,
    Call_get_samplerates ?n, Call_set_rf_bias (if bias_tee s then 1 else 0)]"
  define e where "e = dev\<lparr>dev_sample_rates := take (unat ?n) (rates k), history := h\<rparr>"
  have ok: "airspy_ok k e" using assms(4-7) by (auto simp: airspy_ok_def e_def h_def dest: in_set_takeD)
  obtain c5 d5 where r: "(if airspy_sample_rate s \<noteq> 0 then airspy_set_sample_rate k (airspy_sample_rate s) e else (0, e)) = (c5, d5)" by (metis surj_pair)
  have ok5: "airspy_ok k d5" "\<exists>g c. d5 = e\<lparr>history := g, dev_current_sample_rate := c\<rparr>"
    using r ok airspy_set_sample_rate_ok [OF ok, of "airspy_sample_rate s" c5 d5] by (auto split: if_splits) (metis (no_types) airspy_device.surjective airspy_device.update_convs(1,7))
  show ?thesis
  proof (cases "code = 0")
    case True
    then have "c5 = 0 \<and> dev1 = d5 \<and> ps = insert Airspy_rates (insert Airspy_handle {Airspy_struct, Airspy_staging})"
      using assms(1-3) r
      by (auto simp: airspy_open_device_def airspy_load_sample_rates_def airspy_check_def airspy_fail_def Let_def e_def h_def split: if_splits bind_splits prod.splits)
    with True u ok5 show ?thesis by (auto simp: e_def)
  next
    case False
    then show ?thesis using assms(1) d
      by (auto simp: airspy_open_device_def airspy_fail_def airspy_destroy_def Let_def split: if_splits bind_splits prod.splits)
  qed
qed

lemma airspy_validated:
  assumes "airspy_validate_settings s = 0"
  shows "lna_gain s \<le> 14" "mixer_gain s \<le> 15" "vga_gain s \<le> 15"
  using assms by (auto simp: airspy_validate_settings_def word_le_def split: if_splits)

lemma airspy_create_outcome:
  assumes "airspy_create k oks device_ok s len junk = Some (code, ps, dev)"
  shows "if code = 0 then ps = UNIV \<and> airspy_ok k dev \<and> 0 < dev_buffer_len dev \<and> dev_buffer_len dev = unat len \<and>
      length (staging dev) = unat len \<and> staging_len dev = 0 \<and> delivered dev = [] else ps = {}"
proof -
  have f: "\<And>ps1 c. airspy_fail k ps1 (airspy_new s junk (unat len)) c = Some (code, ps, dev) \<Longrightarrow> code = c \<and> ps = {}"
    using airspy_fail_outcome [of k _ "airspy_new s junk (unat len)"] by (metis fst_conv option.inject snd_conv)
  show ?thesis
  proof (cases "len = 0 \<or> unat len > (2 ^ 32 - 1) div 8 \<or> airspy_validate_settings s \<noteq> 0 \<or> \<not> oks Airspy_struct \<or> \<not> oks Airspy_staging")
    case True
    with assms show ?thesis by (auto simp: airspy_create_def Let_def split: if_splits dest!: f)
  next
    case False
    then have o: "airspy_open_device k oks device_ok s (airspy_new s junk (unat len)) = Some (code, ps, dev)" "0 < unat len"
      using assms by (simp_all add: airspy_create_def unat_gt_0)
    have v: "airspy_validate_settings s = 0" using False by simp
    from airspy_open_device_outcome [OF o(1)] airspy_validated [OF v] o(2) show ?thesis by (auto simp: airspy_new_def split: if_splits)
  qed
qed

datatype airspy_op = Params sdr_channel_config | Start | Stop

fun airspy_run :: "airspy_api \<Rightarrow> airspy_op list \<Rightarrow> 's airspy_device \<Rightarrow> 's airspy_device" where
  "airspy_run k [] dev = dev"
| "airspy_run k (Params c # ops) dev = airspy_run k ops (snd (airspy_set_rx_parameters k c dev))"
| "airspy_run k (Start # ops) dev = airspy_run k ops (airspy_start_rx k dev)"
| "airspy_run k (Stop # ops) dev = airspy_run k ops (airspy_stop_rx k dev)"

lemma airspy_ok_start_stop:
  assumes "airspy_ok k dev"
  shows "airspy_ok k (airspy_start_rx k dev)" "airspy_ok k (airspy_stop_rx k dev)"
proof -
  have "airspy_ok k (dev\<lparr>staging_len := 0\<rparr>)" using assms by (simp add: airspy_ok_def)
  from check_called [OF this, of Call_start_rx] check_called [OF assms, of Call_stop_rx]
  show "airspy_ok k (airspy_start_rx k dev)" "airspy_ok k (airspy_stop_rx k dev)"
    by (simp_all add: called_def airspy_start_rx_def airspy_stop_rx_def)
qed

lemma airspy_run_ok:
  assumes "0 \<notin> set (rates k)"
  shows "airspy_ok k dev \<Longrightarrow> airspy_ok k (airspy_run k ops dev)"
proof (induction ops arbitrary: dev)
  case (Cons p ops)
  obtain code dev1 where "\<And>c. p = Params c \<Longrightarrow> airspy_set_rx_parameters k c dev = (code, dev1)" by (metis airspy_op.inject surj_pair)
  with airspy_set_rx_parameters_ok [OF Cons.prems assms] airspy_ok_start_stop [OF Cons.prems] Cons.IH show ?case
    by (cases p) auto
qed simp

section \<open>Properties\<close>

text \<open>
  C21. The Airspy receiver is tuned as configured and never driven outside of its limits: after a successful creation and any
  sequence of parameter changes, starts and stops, successful or not and whatever libairspy answers, every
  call that was made is within what the tuner supports. When the parameters of a channel are accepted, the last
  frequency and the last sample rate the device confirmed are those of the channel, also when an earlier change failed half-way
  and when the driver skipped the rate because it believed it to be set.
\<close>

theorem airspy_tuned_as_configured:
  assumes create: "airspy_create k oks device_ok s len junk = Some (0, ps, dev)" and zero: "0 \<notin> set (rates k)"
    and params: "airspy_set_rx_parameters k c (airspy_run k ops dev) = (code, dev1)"
  shows "list_all (within_limits (rates k)) (history dev1) \<and>
    (code = 0 \<longrightarrow> (\<exists>r f. applied_rate k (history dev1) = Some r \<and> unat r = unat (sample_rate c) \<and>
      applied_freq k (history dev1) = Some f \<and> unat f = unat (frequency c)))"
proof -
  have "airspy_ok k dev" using airspy_create_outcome [OF create] by simp
  from airspy_set_rx_parameters_ok [OF airspy_run_ok [OF zero this] zero params]
  have p: "airspy_ok k dev1" "code = 0 \<Longrightarrow> applied_rate k (history dev1) = Some (ucast (sample_rate c)) \<and> unat (ucast (sample_rate c) :: u32) = unat (sample_rate c) \<and>
    applied_freq k (history dev1) = Some (ucast (frequency c)) \<and> unat (ucast (frequency c) :: u32) = unat (frequency c)" by simp_all
  have "within_limits rs c \<Longrightarrow> set rs \<subseteq> set rs' \<Longrightarrow> within_limits rs' c" for rs rs' c by (cases c) auto
  then have "list_all (within_limits (rates k)) (history dev1)" using p(1) unfolding airspy_ok_def list_all_iff by blast
  with p(2) show ?thesis by blast
qed

definition example_airspy :: airspy_settings where
  "example_airspy = \<lparr>airspy_gain_mode = AIRSPY_GAIN_MODE_LINEARITY, lna_gain = 3, mixer_gain = 4, vga_gain = 5, bias_tee = False, serial_number = 0,
     airspy_sample_rate = 0\<rparr>"

text \<open>A library that refuses the first change of the frequency.\<close>

definition example_airspy_api :: airspy_api where
  "example_airspy_api = \<lparr>answer = (\<lambda>h c. if c = Call_set_freq 100000000 \<and> c \<notin> set h then - 5 else 0), rates = [3000000, 6000000]\<rparr>"

definition example_channel :: sdr_channel_config where
  "example_channel = \<lparr>frequency = 100000000, sample_rate = 3000000, gain = 1065353216\<rparr>"

theorem airspy_tuned_as_configured_witness:
  "\<exists>ps dev dev1. airspy_create example_airspy_api (\<lambda>p. True) True example_airspy 4 (0 :: int) = Some (0, ps, dev) \<and>
    airspy_set_rx_parameters example_airspy_api example_channel (airspy_run example_airspy_api [Start, Params example_channel] dev) = (0, dev1) \<and>
    list_all (within_limits [3000000, 6000000]) (history dev1) \<and> applied_freq example_airspy_api (history dev1) = Some 100000000"
proof -
  have g: "gain_in_range 1065353216" by code_simp
  obtain ps dev where c: "airspy_create example_airspy_api (\<lambda>p. True) True example_airspy 4 (0 :: int) = Some (0, ps, dev)"
    "dev_sample_rates dev = [3000000, 6000000]" "dev_current_sample_rate dev = 0" "dev_gain_mode dev = AIRSPY_GAIN_MODE_LINEARITY"
    "Call_set_freq 100000000 \<notin> set (history dev)"
    by (simp add: airspy_create_def airspy_open_device_def airspy_load_sample_rates_def airspy_check_def airspy_validate_settings_def airspy_new_def
        example_airspy_def example_airspy_api_def Let_def)
  obtain dev1 where p: "airspy_set_rx_parameters example_airspy_api example_channel (airspy_run example_airspy_api [Start, Params example_channel] dev) = (0, dev1)"
    using c(2-5) g
    by (simp add: airspy_set_rx_parameters_def airspy_start_rx_def airspy_check_def then_call_def airspy_set_sample_rate_def airspy_is_sample_rate_supported_def
        example_airspy_api_def example_channel_def airspy_apply_gain_def airspy_set_agc_def)
  have "0 \<notin> set (rates example_airspy_api)" by (simp add: example_airspy_api_def)
  from airspy_tuned_as_configured [OF c(1) this p] obtain f where
    f: "list_all (within_limits (rates example_airspy_api)) (history dev1)" "applied_freq example_airspy_api (history dev1) = Some f" "unat f = unat (frequency example_channel)" by auto
  have "f = 100000000" using f(3) by (intro unsigned_word_eqI) (simp add: example_channel_def)
  with c(1) p f(1,2) show ?thesis by (auto simp: example_airspy_api_def)
qed

text \<open>
  C18. No sample of the Airspy is lost or reordered between the transfers of libairspy and the buffers of the program:
  for every sequence of transfers of any sizes after a start, the callback gets buffers of exactly the
  configured length, and those buffers followed by what is still staged are the received samples in order. The copying
  always ends and stays within the staging buffer; transfers of another sample type are ignored.
\<close>

theorem airspy_stream_complete:
  assumes create: "airspy_create k oks device_ok s len junk = Some (0, ps, dev)"
    and transfers: "\<forall>t \<in> set ts. sample_count t \<le> int (length (samples t))"
  shows "\<exists>dev1. airspy_stream ts (airspy_start_rx k (airspy_set_rx_callback dev)) = Some dev1 \<and>
    concat (delivered dev1) @ take (staging_len dev1) (staging dev1) = concat (map received ts) \<and>
    (\<forall>b \<in> set (delivered dev1). length b = unat len) \<and> staging_len dev1 < unat len"
proof -
  have "stream_ok (airspy_start_rx k (airspy_set_rx_callback dev))" "arrived (airspy_start_rx k (airspy_set_rx_callback dev)) = []"
    "dev_buffer_len (airspy_start_rx k (airspy_set_rx_callback dev)) = unat len"
    using airspy_create_outcome [OF create]
    by (simp_all add: stream_ok_def arrived_def airspy_start_rx_def airspy_check_def airspy_set_rx_callback_def)
  with airspy_stream_total [of "airspy_start_rx k (airspy_set_rx_callback dev)" ts] transfers show ?thesis
    by (auto simp: stream_ok_def arrived_def)
qed

theorem airspy_stream_complete_witness:
  "\<exists>ps dev dev1. airspy_create example_airspy_api (\<lambda>p. True) True example_airspy 2 (0 :: int) = Some (0, ps, dev) \<and>
    airspy_stream [\<lparr>samples = [1, 2, 3], sample_count = 3, sample_type = 0\<rparr>, \<lparr>samples = [9], sample_count = 1, sample_type = 1\<rparr>,
      \<lparr>samples = [4, 5], sample_count = 2, sample_type = 0\<rparr>] (airspy_start_rx example_airspy_api (airspy_set_rx_callback dev)) = Some dev1 \<and>
    concat (delivered dev1) @ take (staging_len dev1) (staging dev1) = [1, 2, 3, 4, 5] \<and> (\<forall>b \<in> set (delivered dev1). length b = 2)"
proof -
  obtain ps dev where c: "airspy_create example_airspy_api (\<lambda>p. True) True example_airspy 2 (0 :: int) = Some (0, ps, dev)"
    by (simp add: airspy_create_def airspy_open_device_def airspy_load_sample_rates_def airspy_check_def airspy_validate_settings_def airspy_new_def
        example_airspy_def example_airspy_api_def Let_def)
  from airspy_stream_complete [OF c, of "[\<lparr>samples = [1, 2, 3], sample_count = 3, sample_type = 0\<rparr>, \<lparr>samples = [9], sample_count = 1, sample_type = 1\<rparr>,
      \<lparr>samples = [4, 5], sample_count = 2, sample_type = 0\<rparr>]"] c show ?thesis by (auto simp: received_def)
qed

end
