(* ===== verification/PlutoSdr.thy ===== *)
theory PlutoSdr
  imports Binary32 Construction AppConfig SdrDevice
begin

text \<open>
  The PlutoSDR transceiver, \<^verbatim>\<open>src/sdr/plutosdr.c\<close>. libiio is a parameter: what a call answers may depend on all
  calls before it, and the device keeps the history of the calls. A pointer that a lookup returns is \<^verbatim>\<open>NULL\<close>
  when the answer is negative. The device and channel a call is for are named by the field that holds the pointer.
\<close>

abbreviation (input) FIR_BUF_SIZE :: nat where "FIR_BUF_SIZE \<equiv> 8192"
abbreviation (input) MIN_NO_FIR_FILTER :: u64 where "MIN_NO_FIR_FILTER \<equiv> 2083334"
abbreviation (input) MIN_FIR_FILTER_2 :: u64 where "MIN_FIR_FILTER_2 \<equiv> 1041667"
abbreviation (input) MIN_FIR_FILTER :: u64 where "MIN_FIR_FILTER \<equiv> 520834"

definition fir_128_4 :: "int list" where
  "fir_128_4 = [
  -15, -27, -23, -6, 17, 33, 31, 9, -23, -47, -45, -13, 34, 69, 67, 21, -49, -102, -99, -32, 69, 146, 143, 48, -96, -204, -200, -69, 129, 278, 275, 97, -170,
  -372, -371, -135, 222, 494, 497, 187, -288, -654, -665, -258, 376, 875, 902, 363, -500, -1201, -1265, -530, 699, 1748, 1906, 845, -1089, -2922, -3424,
  -1697, 2326, 7714, 12821, 15921, 15921, 12821, 7714, 2326, -1697, -3424, -2922, -1089, 845, 1906, 1748, 699, -530, -1265, -1201, -500, 363, 902, 875,
  376, -258, -665, -654, -288, 187, 497, 494, 222, -135, -371, -372, -170, 97, 275, 278, 129, -69, -200, -204, -96, 48, 143, 146, 69, -32, -99, -102, -49, 21,
  67, 69, 34, -13, -45, -47, -23, 9, 31, 33, 17, -6, -23, -27, -15]"

definition fir_128_2 :: "int list" where
  "fir_128_2 = [
  0, 0, 1, 0, -2, 0, 3, 0, -5, 0, 8, 0, -11, 0, 17, 0, -24, 0, 33, 0, -45, 0, 61, 0, -80, 0, 104, 0, -134, 0, 169, 0,
  -213, 0, 264, 0, -327, 0, 401, 0, -489, 0, 595, 0, -724, 0, 880, 0, -1075, 0, 1323, 0, -1652, 0, 2114, 0, -2819, 0, 4056, 0, -6883, 0, 20837, 32767,
  20837, 0, -6883, 0, 4056, 0, -2819, 0, 2114, 0, -1652, 0, 1323, 0, -1075, 0, 880, 0, -724, 0, 595, 0, -489, 0, 401, 0, -327, 0, 264, 0, -213, 0,
  169, 0, -134, 0, 104, 0, -80, 0, 61, 0, -45, 0, 33, 0, -24, 0, 17, 0, -11, 0, 8, 0, -5, 0, 3, 0, -2, 0, 1, 0, 0, 0]"

section \<open>The library and the device\<close>

datatype iio_object = Control_device | Tx_device | Rx_device | Rx0_chn | Rx0_lo | Rx0_i | Rx0_q | Tx0_chn | Tx0_lo | Tx0_i | Tx0_q | Dds string | Out_chn

datatype iio_call =
  Scan_create | Scan_get_info_list | Scan_free_info_list | Scan_destroy | Context_create "string option" | Context_destroy | Context_set_timeout u32 |
  Find iio_object | Write_str iio_object string string | Write_lli iio_object string int | Write_bool iio_object string bool | Write_double iio_object string f32 |
  Write_raw iio_object string string | Read_attr iio_object string | Read_lli iio_object string | Enable iio_object | Disable iio_object |
  Create_buffer iio_object nat | Destroy_buffer iio_object | Push_partial nat | Refill

text \<open>
  The first argument of the functions are the calls so far. \<open>text_of\<close> is the text an attribute is read as, \<open>number_of\<close> its number,
  \<open>refilled\<close> the numbers in the receive buffer after a refill.
\<close>

record iio_api =
  iio_answer :: "iio_call list \<Rightarrow> iio_call \<Rightarrow> int"
  text_of :: "iio_call list \<Rightarrow> iio_object \<Rightarrow> string \<Rightarrow> string"
  number_of :: "iio_call list \<Rightarrow> iio_object \<Rightarrow> string \<Rightarrow> int"
  refilled :: "iio_call list \<Rightarrow> int list"
  found_uri :: string

record plutosdr_range =
  range_min :: rat
  range_step :: rat
  range_max :: rat

record pluto =
  calls :: "iio_call list"
  found :: "iio_object list"
  tx_buffer :: bool
  rx_buffer :: bool
  gain_range :: plutosdr_range
  power_range :: plutosdr_range
  frequency_range :: plutosdr_range
  sample_rate_range :: plutosdr_range
  pluto_current_sample_rate :: int
  pluto_buffer_len :: nat
  pluto_gain_mode :: iio_gain_mode
  pushed_samples :: "int list"

definition iio_do :: "iio_api \<Rightarrow> iio_call \<Rightarrow> pluto \<Rightarrow> int \<times> pluto" where
  "iio_do k c p = (iio_answer k (calls p) c, p\<lparr>calls := calls p @ [c]\<rparr>)"

definition iio_void :: "iio_api \<Rightarrow> iio_call \<Rightarrow> pluto \<Rightarrow> pluto" where
  "iio_void k c p = snd (iio_do k c p)"

text \<open>\<^verbatim>\<open>plutosdr_error_check\<close>\<close>

definition plutosdr_error_check :: "int \<times> pluto \<Rightarrow> int \<times> pluto" where
  "plutosdr_error_check r = (if fst r < 0 then fst r else 0, snd r)"

definition plutosdr_write_str :: "iio_api \<Rightarrow> iio_object \<Rightarrow> string \<Rightarrow> string \<Rightarrow> pluto \<Rightarrow> int \<times> pluto" where
  "plutosdr_write_str k chn what str p = plutosdr_error_check (iio_do k (Write_str chn what str) p)"

definition plutosdr_write_lli :: "iio_api \<Rightarrow> iio_object \<Rightarrow> string \<Rightarrow> int \<Rightarrow> pluto \<Rightarrow> int \<times> pluto" where
  "plutosdr_write_lli k chn what val p = plutosdr_error_check (iio_do k (Write_lli chn what val) p)"

text \<open>\<^verbatim>\<open>if (code != 0) return code;\<close>\<close>

definition and_then :: "int \<times> pluto \<Rightarrow> (pluto \<Rightarrow> int \<times> pluto) \<Rightarrow> int \<times> pluto" where
  "and_then r f = (case r of (code, p) \<Rightarrow> if code \<noteq> 0 then (code, p) else f p)"

section \<open>Samples\<close>

text \<open>The clamped value, rounded to even as \<^verbatim>\<open>rintf\<close> does.\<close>

definition tx_sample :: "rat \<Rightarrow> int" where
  "tx_sample x = (let r = fl32 (x * 32768) in round_even (if r > 32767 then 32767 else if r < - 32768 then - 32768 else r))"

definition rx_sample :: "int \<Rightarrow> rat" where
  "rx_sample n = fl32 (of_int n / 2048)"

text \<open>A list of samples as the list of its parts.\<close>

definition interleave :: "sample list \<Rightarrow> rat list" where
  "interleave xs = concat (map (\<lambda>(i, q). [i, q]) xs)"

partial_function (option) process_tx_loop :: "iio_api \<Rightarrow> sample list \<Rightarrow> pluto \<Rightarrow> (int \<times> pluto) option" where
  "process_tx_loop k input p =
    (if input \<noteq> [] then do {
       let batch = (if length input > pluto_buffer_len p div 2 then pluto_buffer_len p div 2 else length input);
       let data = map tx_sample (interleave (take batch input));
       (if length data \<le> 2 * pluto_buffer_len p then Some () else None);
       let (code, p1) = iio_do k (Push_partial batch) (p\<lparr>pushed_samples := pushed_samples p @ data\<rparr>);
       (if code < 0 then Some (- 1, p1) else process_tx_loop k (drop batch input) p1) }
     else Some (0, p))"

definition plutosdr_process_tx :: "iio_api \<Rightarrow> sample list \<Rightarrow> pluto \<Rightarrow> (int \<times> pluto) option" where
  "plutosdr_process_tx k input p = (if \<not> tx_buffer p then Some (- 1, p) else process_tx_loop k input p)"

text \<open>The output buffer has room for two parts per sample.\<close>

definition plutosdr_process_rx :: "iio_api \<Rightarrow> pluto \<Rightarrow> (int \<times> rat list option \<times> pluto) option" where
  "plutosdr_process_rx k p =
    (if \<not> rx_buffer p then Some (- 1, None, p)
     else (case iio_do k Refill p of (ret, p1) \<Rightarrow>
       if ret < 0 then Some (- 1, None, p1)
       else let rx_input = refilled k (calls p1); num_points = length rx_input in
         if num_points div 2 > pluto_buffer_len p then Some (- 1, None, p1)
         else if num_points \<le> 2 * pluto_buffer_len p then Some (0, Some (take (2 * (num_points div 2)) (map rx_sample rx_input)), p1)
         else None))"

section \<open>Sample rate and filter\<close>

text \<open>\<^verbatim>\<open>%d\<close>\<close>

function decimal :: "nat \<Rightarrow> string" where
  "decimal n = (if n < 10 then [char_of (48 + n)] else decimal (n div 10) @ [char_of (48 + n mod 10)])"
  by pat_completeness auto
termination by (relation "measure id") auto

declare decimal.simps [simp del]

definition print_int :: "int \<Rightarrow> string" where
  "print_int i = (if i < 0 then ''-'' @ decimal (nat (- i)) else decimal (nat i))"

definition newline :: string where "newline = [char_of (10 :: nat)]"

definition fir_config :: "int \<Rightarrow> int list \<Rightarrow> string" where
  "fir_config decimation taps = ''RX 3 GAIN -6 DEC '' @ print_int decimation @ newline @ ''TX 3 GAIN 0 INT '' @ print_int decimation @ newline @
     concat (map (\<lambda>t. print_int t @ '','' @ print_int t @ newline) (take 128 taps)) @ newline"

definition plutosdr_enable_fir_filter :: "iio_api \<Rightarrow> bool \<Rightarrow> pluto \<Rightarrow> int \<times> pluto" where
  "plutosdr_enable_fir_filter k enable p = (case iio_do k (Write_bool Control_device ''in_out_voltage_filter_fir_en'' enable) p of (ret, p1) \<Rightarrow>
     if ret < 0 then iio_do k (Write_bool Out_chn ''voltage_filter_fir_en'' enable) (iio_void k (Find Out_chn) p1) else (ret, p1))"

definition plutosdr_select_fir_filter_config :: "u64 \<Rightarrow> int \<times> int \<times> int list option" where
  "plutosdr_select_fir_filter_config r =
    (if r = 0 then (0, 0, None)
     else if r < MIN_FIR_FILTER then (- 1, 0, None)
     else if r < MIN_FIR_FILTER_2 then (0, 4, Some fir_128_4)
     else if r < MIN_NO_FIR_FILTER then (0, 2, Some fir_128_2)
     else (0, 0, None))"

text \<open>The text of the filter is printed into a buffer and must fit with its terminator.\<close>

definition plutosdr_load_fir :: "iio_api \<Rightarrow> bool \<Rightarrow> int \<Rightarrow> int list \<Rightarrow> pluto \<Rightarrow> (int \<times> pluto) option" where
  "plutosdr_load_fir k malloc_ok decimation taps p =
    (if \<not> malloc_ok then Some (- ENOMEM, p)
     else let buf = fir_config decimation taps in
       if length buf < FIR_BUF_SIZE then
         (case plutosdr_error_check (iio_do k (Write_raw Control_device ''filter_fir_config'' buf) p) of (code, p1) \<Rightarrow>
            if code < 0 then Some (code, p1) else Some (plutosdr_error_check (plutosdr_enable_fir_filter k True p1)))
       else None)"

definition plutosdr_set_sample_rate :: "iio_api \<Rightarrow> bool \<Rightarrow> u64 \<Rightarrow> iio_object \<Rightarrow> pluto \<Rightarrow> (int \<times> pluto) option" where
  "plutosdr_set_sample_rate k malloc_ok r chn p = (case plutosdr_select_fir_filter_config r of (code, decimation, taps) \<Rightarrow>
     if code < 0 then Some (code, p)
     else do {
       (code1, p1) \<leftarrow> (case taps of None \<Rightarrow> Some (0, p) | Some ts \<Rightarrow> plutosdr_load_fir k malloc_ok decimation ts p);
       (if code1 < 0 then Some (code1, p1)
        else (case plutosdr_write_lli k chn ''sampling_frequency'' (sint r) p1 of (code2, p2) \<Rightarrow>
          if code2 \<noteq> 0 then Some (code2, p2)
          else (case plutosdr_write_lli k chn ''rf_bandwidth'' (sint r) p2 of (code3, p3) \<Rightarrow>
            if taps = None then Some (plutosdr_error_check (plutosdr_enable_fir_filter k False p3)) else Some (code3, p3)))) })"

section \<open>Receiving and transmitting\<close>

definition plutosdr_start_rx :: "iio_api \<Rightarrow> pluto \<Rightarrow> pluto" where
  "plutosdr_start_rx k p = (
     let p1 = iio_void k (Enable Rx0_q) (iio_void k (Enable Rx0_i) p);
         p2 = (if rx_buffer p1 then iio_void k (Destroy_buffer Rx_device) p1 else p1) in
     case iio_do k (Create_buffer Rx_device (pluto_buffer_len p2)) p2 of (ret, p3) \<Rightarrow> p3\<lparr>rx_buffer := (ret \<ge> 0)\<rparr>)"

definition plutosdr_stop_rx :: "iio_api \<Rightarrow> pluto \<Rightarrow> pluto" where
  "plutosdr_stop_rx k p = (let p1 = iio_void k (Disable Rx0_q) (iio_void k (Disable Rx0_i) p) in
     if rx_buffer p1 then (iio_void k (Destroy_buffer Rx_device) p1)\<lparr>rx_buffer := False\<rparr> else p1)"

text \<open>The comparisons convert the number to \<^verbatim>\<open>double\<close>; with a gain that is not a number they are all false.\<close>

definition outside :: "rat \<Rightarrow> plutosdr_range \<Rightarrow> bool" where
  "outside x r \<longleftrightarrow> x < range_min r \<or> x > range_max r"

definition gain_outside :: "f32 \<Rightarrow> plutosdr_range \<Rightarrow> bool" where
  "gain_outside g r = (case f32_value g of Some x \<Rightarrow> outside x r | None \<Rightarrow> g AND 8388607 = 0)"

definition as_double :: "u64 \<Rightarrow> rat" where
  "as_double r = fl64 (of_nat (unat r))"

text \<open>The comparison of \<^verbatim>\<open>long long\<close> with \<^verbatim>\<open>uint64_t\<close> is one of 64-bit patterns.\<close>

definition plutosdr_change_rate :: "iio_api \<Rightarrow> bool \<Rightarrow> u64 \<Rightarrow> iio_object \<Rightarrow> pluto \<Rightarrow> (int \<times> pluto) option" where
  "plutosdr_change_rate k malloc_ok r chn p =
    (if of_int (pluto_current_sample_rate p) \<noteq> r then do {
       (code, p1) \<leftarrow> plutosdr_set_sample_rate k malloc_ok r chn p;
       Some (if code \<noteq> 0 then (code, p1) else (0, p1\<lparr>pluto_current_sample_rate := sint r\<rparr>)) }
     else Some (0, p))"

definition plutosdr_set_rx_parameters :: "iio_api \<Rightarrow> bool \<Rightarrow> sdr_channel_config \<Rightarrow> pluto \<Rightarrow> (int \<times> pluto) option" where
  "plutosdr_set_rx_parameters k malloc_ok config p =
    (if outside (as_double (frequency config)) (frequency_range p) then Some (- 1, p)
     else if outside (as_double (sample_rate config)) (sample_rate_range p) then Some (- 1, p)
     else if gain_outside (gain config) (gain_range p) then Some (- 1, p)
     else (case plutosdr_write_lli k Rx0_lo ''frequency'' (sint (frequency config)) p of (code, p1) \<Rightarrow>
       if code \<noteq> 0 then Some (code, p1)
       else do {
         r \<leftarrow> plutosdr_change_rate k malloc_ok (sample_rate config) Rx0_chn p1;
         Some (and_then r (\<lambda>p2. if pluto_gain_mode p2 = IIO_GAIN_MODE_MANUAL
           then plutosdr_error_check (iio_do k (Write_double Rx0_chn ''hardwaregain'' (gain config)) p2) else (0, p2))) }))"

definition plutosdr_create_tx_buffer :: "iio_api \<Rightarrow> pluto \<Rightarrow> int \<times> pluto" where
  "plutosdr_create_tx_buffer k p = (
     let p1 = iio_void k (Enable Tx0_q) (iio_void k (Enable Tx0_i) p);
         p2 = (if tx_buffer p1 then iio_void k (Destroy_buffer Tx_device) p1 else p1) in
     case iio_do k (Create_buffer Tx_device (pluto_buffer_len p2)) p2 of (ret, p3) \<Rightarrow> (if ret < 0 then - 1 else 0, p3\<lparr>tx_buffer := (ret \<ge> 0)\<rparr>))"

definition plutosdr_set_tx_parameters :: "iio_api \<Rightarrow> bool \<Rightarrow> sdr_channel_config \<Rightarrow> pluto \<Rightarrow> (int \<times> pluto) option" where
  "plutosdr_set_tx_parameters k malloc_ok config p =
    (if outside (as_double (frequency config)) (frequency_range p) then Some (- 1, p)
     else if outside (as_double (sample_rate config)) (sample_rate_range p) then Some (- 1, p)
     else if gain_outside (gain config) (power_range p) then Some (- 1, p)
     else (case and_then (plutosdr_write_lli k Tx0_lo ''powerdown'' 0 p) (plutosdr_write_lli k Tx0_lo ''frequency'' (sint (frequency config))) of (code, p1) \<Rightarrow>
       if code \<noteq> 0 then Some (code, p1)
       else do {
         r \<leftarrow> plutosdr_change_rate k malloc_ok (sample_rate config) Tx0_chn p1;
         Some (and_then (and_then r (\<lambda>p2. plutosdr_error_check (iio_do k (Write_double Tx0_chn ''hardwaregain'' (gain config)) p2)))
           (plutosdr_create_tx_buffer k)) }))"

text \<open>
  The time \<^verbatim>\<open>plutosdr_flush_tx\<close> sleeps, in nanoseconds: the product is computed in 32 bits, and \<^verbatim>\<open>nanosleep\<close> refuses a
  second or more in the field for nanoseconds.
\<close>

definition plutosdr_flush_tx :: "u32 \<Rightarrow> nat" where
  "plutosdr_flush_tx timeout = (let tv_nsec = unat (timeout * 1000000) in if tv_nsec < 10 ^ 9 then tv_nsec else 0)"

section \<open>Ranges\<close>

fun skip_blanks :: "string \<Rightarrow> string" where
  "skip_blanks [] = []"
| "skip_blanks (c # cs) = (if c \<in> {CHR '' '', char_of (9 :: nat)} then skip_blanks cs else c # cs)"

text \<open>\<open>strtod\<close> answers the number and the rest of the text, or nothing when there is no number.\<close>

definition parse_range :: "(string \<Rightarrow> (rat \<times> string) option) \<Rightarrow> string \<Rightarrow> plutosdr_range option" where
  "parse_range strtod buf = (case skip_blanks buf of [] \<Rightarrow> None
     | c # p \<Rightarrow> if c \<noteq> CHR ''['' then None
       else do {
         (v0, p1) \<leftarrow> strtod p;
         (v1, p2) \<leftarrow> strtod p1;
         (v2, p3) \<leftarrow> strtod p2;
         (case skip_blanks p3 of [] \<Rightarrow> None
          | d # _ \<Rightarrow> if d \<noteq> CHR '']'' then None else Some \<lparr>range_min = v0, range_step = v1, range_max = v2\<rparr>) })"

text \<open>At most 127 characters are read; the terminator is written behind them.\<close>

definition plutosdr_read_range :: "iio_api \<Rightarrow> (string \<Rightarrow> (rat \<times> string) option) \<Rightarrow> iio_object \<Rightarrow> string \<Rightarrow> pluto \<Rightarrow> int \<times> plutosdr_range option \<times> pluto" where
  "plutosdr_read_range k strtod chn name p = (case iio_do k (Read_attr chn name) p of (len, p1) \<Rightarrow>
     if len < 0 then (len, None, p1)
     else (case parse_range strtod (takeWhile (\<lambda>c. c \<noteq> char_of (0 :: nat)) (take (min (nat len) 127) (text_of k (calls p) chn name))) of
         None \<Rightarrow> (- EINVAL, None, p1)
       | Some r \<Rightarrow> (0, Some r, p1)))"

section \<open>Construction and destruction\<close>

definition plutosdr_convert_gain_mode :: "iio_gain_mode \<Rightarrow> string" where
  "plutosdr_convert_gain_mode mode = (case mode of
     IIO_GAIN_MODE_MANUAL \<Rightarrow> ''manual'' | IIO_GAIN_MODE_FAST_ATTACK \<Rightarrow> ''fast_attack'' | IIO_GAIN_MODE_SLOW_ATTACK \<Rightarrow> ''slow_attack'' | IIO_GAIN_MODE_HYBRID \<Rightarrow> ''hybrid'')"

definition plutosdr_find_default_uri :: "iio_api \<Rightarrow> pluto \<Rightarrow> string option \<times> pluto" where
  "plutosdr_find_default_uri k p = (case iio_do k Scan_create p of (ctx, p1) \<Rightarrow>
     if ctx < 0 then (None, p1)
     else (case iio_do k Scan_get_info_list p1 of (code, p2) \<Rightarrow>
       if code \<le> 0 then (None, iio_void k Scan_destroy p2)
       else (Some (found_uri k), iio_void k Scan_destroy (iio_void k Scan_free_info_list p2))))"

datatype pluto_part = Pluto_struct | Pluto_uri | Pluto_ctx | Pluto_output

fun pluto_users :: "pluto_part \<Rightarrow> pluto_part set" where
  "pluto_users Pluto_struct = {Pluto_uri, Pluto_ctx, Pluto_output}"
| "pluto_users _ = {}"

definition plutosdr_destroy_order :: "pluto_part list" where
  "plutosdr_destroy_order = [Pluto_output, Pluto_ctx, Pluto_uri, Pluto_struct]"

interpretation pluto: component pluto_users plutosdr_destroy_order
proof
  show "ordered pluto_users {} plutosdr_destroy_order" by (simp add: plutosdr_destroy_order_def)
  show "q \<in> set plutosdr_destroy_order" for q by (cases q) (simp_all add: plutosdr_destroy_order_def)
qed

definition if_found :: "iio_object \<Rightarrow> (pluto \<Rightarrow> pluto) \<Rightarrow> pluto \<Rightarrow> pluto" where
  "if_found obj f p = (if obj \<in> set (found p) then f p else p)"

text \<open>The calls of the destructor, in its order.\<close>

definition plutosdr_shutdown :: "iio_api \<Rightarrow> pluto_part set \<Rightarrow> pluto \<Rightarrow> pluto" where
  "plutosdr_shutdown k ps p = (
     let p1 = (if tx_buffer p then (iio_void k (Destroy_buffer Tx_device) p)\<lparr>tx_buffer := False\<rparr> else p);
         p2 = if_found Tx0_q (iio_void k (Disable Tx0_q)) (if_found Tx0_i (iio_void k (Disable Tx0_i)) p1);
         p3 = if_found Tx0_lo (\<lambda>p. snd (plutosdr_write_lli k Tx0_lo ''powerdown'' 1 p)) p2;
         p4 = (if rx_buffer p3 then (iio_void k (Destroy_buffer Rx_device) p3)\<lparr>rx_buffer := False\<rparr> else p3);
         p5 = if_found Rx0_q (iio_void k (Disable Rx0_q)) (if_found Rx0_i (iio_void k (Disable Rx0_i)) p4)
     in if Pluto_ctx \<in> ps then iio_void k Context_destroy p5 else p5)"

definition plutosdr_destroy :: "iio_api \<Rightarrow> pluto_part set \<Rightarrow> pluto \<Rightarrow> (pluto_part set \<times> pluto) option" where
  "plutosdr_destroy k ps p = do { ps1 \<leftarrow> release_all pluto_users plutosdr_destroy_order ps; Some (ps1, plutosdr_shutdown k ps p) }"

text \<open>
  The steps of the constructor. A failing step runs the destructor. The code is -1 for a lookup, the context and a required call, the
  answer for a checked call; an ignored one may fail.
\<close>

datatype pluto_step =
  Found iio_object
| Connected "string option"
| Checked iio_call
| Required iio_call
| Ignored iio_call
| Allocated pluto_part
| Ranged iio_object string "plutosdr_range \<Rightarrow> pluto \<Rightarrow> pluto"
| Set "pluto \<Rightarrow> pluto"
| Read_rate

definition pluto_step_run :: "iio_api \<Rightarrow> (string \<Rightarrow> (rat \<times> string) option) \<Rightarrow> (pluto_part \<Rightarrow> bool) \<Rightarrow> pluto_step \<Rightarrow> pluto_part set \<times> pluto \<Rightarrow> int \<times> pluto_part set \<times> pluto" where
  "pluto_step_run k strtod oks st s = (case s of (ps, p) \<Rightarrow> case st of
     Found obj \<Rightarrow> (case iio_do k (Find obj) p of (r, p1) \<Rightarrow> if r < 0 then (- 1, ps, p1) else (0, ps, p1\<lparr>found := obj # found p1\<rparr>))
   | Connected u \<Rightarrow> (case iio_do k (Context_create u) p of (r, p1) \<Rightarrow> if r < 0 then (- 1, ps, p1) else (0, insert Pluto_ctx ps, p1))
   | Checked c \<Rightarrow> (case iio_do k c p of (r, p1) \<Rightarrow> (if r < 0 then r else 0, ps, p1))
   | Required c \<Rightarrow> (case iio_do k c p of (r, p1) \<Rightarrow> (if r < 0 then - 1 else 0, ps, p1))
   | Ignored c \<Rightarrow> (0, ps, iio_void k c p)
   | Allocated part \<Rightarrow> if oks part then (0, insert part ps, p) else (- ENOMEM, ps, p)
   | Ranged obj name f \<Rightarrow> (case plutosdr_read_range k strtod obj name p of (code, r, p1) \<Rightarrow> (code, ps, case r of None \<Rightarrow> p1 | Some x \<Rightarrow> f x p1))
   | Set f \<Rightarrow> (0, ps, f p)
   | Read_rate \<Rightarrow> (case iio_do k (Read_lli Rx0_chn ''sampling_frequency'') p of (r, p1) \<Rightarrow>
       if r < 0 then (r, ps, p1) else (0, ps, p1\<lparr>pluto_current_sample_rate := number_of k (calls p) Rx0_chn ''sampling_frequency''\<rparr>)))"

fun pluto_steps_run :: "iio_api \<Rightarrow> (string \<Rightarrow> (rat \<times> string) option) \<Rightarrow> (pluto_part \<Rightarrow> bool) \<Rightarrow> pluto_step list \<Rightarrow> pluto_part set \<times> pluto \<Rightarrow> int \<times> pluto_part set \<times> pluto" where
  "pluto_steps_run k strtod oks [] s = (0, s)"
| "pluto_steps_run k strtod oks (st # sts) s = (case pluto_step_run k strtod oks st s of (code, s1) \<Rightarrow>
     if code \<noteq> 0 then (code, s1) else pluto_steps_run k strtod oks sts s1)"

definition plutosdr_disable_dds :: "pluto_step list" where
  "plutosdr_disable_dds = concat (map (\<lambda>name. [Required (Find (Dds name)), Required (Write_bool (Dds name) ''raw'' False)])
     [''TX1_I_F1'', ''TX1_Q_F1'', ''TX1_Q_F2'', ''TX1_I_F2''])"

definition plutosdr_create_steps :: "plutosdr_settings \<Rightarrow> string option \<Rightarrow> string option \<Rightarrow> pluto_step list" where
  "plutosdr_create_steps s uri_text calib =
     [Connected uri_text, Found Control_device, Required (Context_set_timeout (timeout_ms s))] @
     (case calib of None \<Rightarrow> [] | Some mode \<Rightarrow> [Checked (Write_str Control_device ''calib_mode'' mode)]) @
     [Found Rx0_chn, Found Rx0_lo, Found Rx_device, Found Rx0_i, Found Rx0_q,
      Checked (Write_str Rx0_chn ''gain_control_mode'' (plutosdr_convert_gain_mode (gain_control_mode s))),
      Set (\<lambda>p. p\<lparr>pluto_gain_mode := gain_control_mode s\<rparr>), Allocated Pluto_output,
      Ranged Rx0_chn ''hardwaregain_available'' (\<lambda>r p. p\<lparr>gain_range := r\<rparr>), Ranged Rx0_lo ''frequency_available'' (\<lambda>r p. p\<lparr>frequency_range := r\<rparr>),
      Ranged Rx0_chn ''sampling_frequency_available'' (\<lambda>r p. p\<lparr>sample_rate_range := r\<rparr>),
      Set (\<lambda>p. p\<lparr>sample_rate_range := (sample_rate_range p)\<lparr>range_min := of_nat (unat MIN_FIR_FILTER)\<rparr>\<rparr>), Read_rate, Found Tx_device] @
     plutosdr_disable_dds @ [Found Tx0_chn, Found Tx0_lo] @
     (if tx_powerdown s then [Ignored (Write_lli Tx0_lo ''powerdown'' 1)] else []) @
     [Found Tx0_i, Found Tx0_q, Ranged Tx0_chn ''hardwaregain_available'' (\<lambda>r p. p\<lparr>power_range := r\<rparr>)]"

definition pluto_zero :: "nat \<Rightarrow> pluto" where
  "pluto_zero len = (let zero = \<lparr>range_min = 0, range_step = 0, range_max = 0\<rparr> in
     \<lparr>calls = [], found = [], tx_buffer = False, rx_buffer = False, gain_range = zero, power_range = zero, frequency_range = zero, sample_rate_range = zero,
      pluto_current_sample_rate = 0, pluto_buffer_len = len, pluto_gain_mode = IIO_GAIN_MODE_MANUAL, pushed_samples = []\<rparr>)"

definition plutosdr_fail :: "iio_api \<Rightarrow> int \<Rightarrow> pluto_part set \<Rightarrow> pluto \<Rightarrow> (int \<times> pluto_part set \<times> pluto) option" where
  "plutosdr_fail k code ps p = do { (ps1, p1) \<leftarrow> plutosdr_destroy k ps p; Some (code, ps1, p1) }"

text \<open>
  \<open>uri_text\<close> and \<open>calib\<close> are the strings of the settings. The copy of a given address is not checked for \<^verbatim>\<open>NULL\<close>.
\<close>

definition plutosdr_create :: "iio_api \<Rightarrow> (string \<Rightarrow> (rat \<times> string) option) \<Rightarrow> (pluto_part \<Rightarrow> bool) \<Rightarrow> bool \<Rightarrow> bool \<Rightarrow> plutosdr_settings \<Rightarrow>
    string option \<Rightarrow> string option \<Rightarrow> u32 \<Rightarrow> (int \<times> pluto_part set \<times> pluto) option" where
  "plutosdr_create k strtod oks fir_ok device_ok s uri_text calib len =
    (if \<not> oks Pluto_struct then Some (- ENOMEM, {}, pluto_zero (unat len))
     else let (address, p0) = (case uri_text of None \<Rightarrow> plutosdr_find_default_uri k (pluto_zero (unat len)) | Some u \<Rightarrow> (Some u, pluto_zero (unat len))) in
       case address of None \<Rightarrow> plutosdr_fail k (- 1) {Pluto_struct} p0
       | Some u \<Rightarrow>
           if uri_text = None \<and> \<not> oks Pluto_uri then plutosdr_fail k (- 1) {Pluto_struct} p0
           else (case pluto_steps_run k strtod oks (plutosdr_create_steps s (if oks Pluto_uri then Some u else None) calib) (if oks Pluto_uri then {Pluto_struct, Pluto_uri} else {Pluto_struct}, p0) of
             (code, ps, p1) \<Rightarrow>
             if code \<noteq> 0 then plutosdr_fail k code ps p1
             else do {
               (code, p2) \<leftarrow> (if pluto_sample_rate s \<noteq> 0 then plutosdr_change_rate k fir_ok (pluto_sample_rate s) Rx0_chn p1 else Some (0, p1));
               (if code \<noteq> 0 then plutosdr_fail k code ps p2
                else if \<not> device_ok then plutosdr_fail k (- ENOMEM) ps p2
                else Some (0, ps, p2)) }))"

section \<open>The filter text\<close>

lemma length_decimal: "n < 10 ^ d \<Longrightarrow> 0 < d \<Longrightarrow> length (decimal n) \<le> d"
proof (induction n arbitrary: d rule: decimal.induct)
  case (1 n)
  show ?case
  proof (cases "n < 10")
    case False
    have "d \<noteq> 1" using False 1(2) by auto
    then obtain e where e: "d = Suc e" "0 < e" using 1(3) by (metis One_nat_def Suc_pred gr0I)
    then have "n div 10 < 10 ^ e" using 1(2) by (simp add: div_less_iff_less_mult mult.commute)
    with 1(1) [OF False, of e] e False show ?thesis by (simp add: decimal.simps [of n])
  qed (use 1(3) in \<open>simp add: decimal.simps [of n]\<close>)
qed

lemma length_print_int:
  assumes "- 32768 \<le> i" "i \<le> 32767"
  shows "length (print_int i) \<le> 6"
  using assms length_decimal [of "nat (- i)" 5] length_decimal [of "nat i" 5] by (auto simp: print_int_def nat_less_iff)

lemma length_lines:
  assumes "\<forall>t \<in> set ts. - 32768 \<le> t \<and> t \<le> 32767"
  shows "length (concat (map (\<lambda>t. print_int t @ '','' @ print_int t @ newline) ts)) \<le> 14 * length ts"
  using assms
proof (induction ts)
  case (Cons t ts)
  with length_print_int [of t] show ?case by (simp add: newline_def)
qed simp

lemma fir_config_fits:
  assumes "\<forall>t \<in> set taps. - 32768 \<le> t \<and> t \<le> 32767" "0 \<le> d" "d < 10"
  shows "length (fir_config d taps) < FIR_BUF_SIZE"
proof -
  have "length (print_int d) \<le> 1" using length_decimal [of "nat d" 1] assms(2,3) by (auto simp: print_int_def nat_less_iff)
  moreover have "length (concat (map (\<lambda>t. print_int t @ '','' @ print_int t @ newline) (take 128 taps))) \<le> 14 * length (take 128 taps)"
    by (rule length_lines) (use assms(1) in \<open>auto dest: in_set_takeD\<close>)
  moreover have "length (take 128 taps) \<le> 128" by simp
  ultimately show ?thesis unfolding fir_config_def newline_def length_append by simp
qed

lemma fir_taps: "\<forall>t \<in> set fir_128_4. - 32768 \<le> t \<and> t \<le> 32767" "\<forall>t \<in> set fir_128_2. - 32768 \<le> t \<and> t \<le> 32767"
  by code_simp+

section \<open>Buffers of the library\<close>

text \<open>
  Whether a buffer of a device exists after some calls, the last one first: \<open>None\<close> when one was lost or destroyed twice.
\<close>

fun buffer_after :: "iio_api \<Rightarrow> iio_object \<Rightarrow> iio_call list \<Rightarrow> bool option" where
  "buffer_after k dev [] = Some False"
| "buffer_after k dev (c # h) = do {
     b \<leftarrow> buffer_after k dev h;
     (case c of
        Create_buffer d n \<Rightarrow> if d = dev \<and> iio_answer k (rev h) c \<ge> 0 then (if b then None else Some True) else Some b
      | Destroy_buffer d \<Rightarrow> if d = dev then (if b then Some False else None) else Some b
      | _ \<Rightarrow> Some b) }"

definition buffer_state :: "iio_api \<Rightarrow> iio_object \<Rightarrow> iio_call list \<Rightarrow> bool option" where
  "buffer_state k dev h = buffer_after k dev (rev h)"

definition pluto_inv :: "iio_api \<Rightarrow> pluto \<Rightarrow> bool" where
  "pluto_inv k p \<longleftrightarrow> buffer_state k Tx_device (calls p) = Some (tx_buffer p) \<and> buffer_state k Rx_device (calls p) = Some (rx_buffer p)"

fun plain :: "iio_call \<Rightarrow> bool" where
  "plain (Create_buffer d n) = False"
| "plain (Destroy_buffer d) = False"
| "plain _ = True"

lemma buffer_state_snoc:
  "plain c \<Longrightarrow> buffer_state k dev (h @ [c]) = buffer_state k dev h"
  "buffer_state k dev h = Some b \<Longrightarrow> buffer_state k dev (h @ [Destroy_buffer d]) = (if d = dev then (if b then Some False else None) else Some b)"
  "buffer_state k dev h = Some b \<Longrightarrow> buffer_state k dev (h @ [Create_buffer d n]) =
    (if d = dev \<and> iio_answer k h (Create_buffer d n) \<ge> 0 then (if b then None else Some True) else Some b)"
  by (cases c; simp add: buffer_state_def bind_eq_Some; cases "buffer_after k dev (rev h)"; simp) (simp_all add: buffer_state_def)

text \<open>What most operations do: some plain calls, and the fields that hold pointers stay.\<close>

definition quiet :: "pluto \<Rightarrow> pluto \<Rightarrow> bool" where
  "quiet p p1 \<longleftrightarrow> (\<exists>cs. calls p1 = calls p @ cs \<and> list_all plain cs) \<and> found p1 = found p \<and> tx_buffer p1 = tx_buffer p \<and> rx_buffer p1 = rx_buffer p \<and>
    pluto_buffer_len p1 = pluto_buffer_len p"

lemma quiet_refl [simp]: "quiet p p"
  by (simp add: quiet_def)

lemma quiet_trans: "quiet p q \<Longrightarrow> quiet q r \<Longrightarrow> quiet p r"
  unfolding quiet_def by (metis append_assoc list_all_append)

lemma quiet_iio: "plain c \<Longrightarrow> quiet p (snd (iio_do k c p))" "plain c \<Longrightarrow> quiet p (iio_void k c p)"
  by (auto simp: quiet_def iio_do_def iio_void_def)

lemma quiet_inv:
  assumes "quiet p p1" "pluto_inv k p"
  shows "pluto_inv k p1"
proof -
  from assms(1) obtain cs where cs: "calls p1 = calls p @ cs" "list_all plain cs" by (auto simp: quiet_def)
  have "buffer_state k dev (h @ cs) = buffer_state k dev h" for dev h
    using cs(2) by (induction cs rule: rev_induct) (simp_all add: buffer_state_snoc flip: append_assoc)
  with assms cs(1) show ?thesis by (simp add: pluto_inv_def quiet_def)
qed

lemma quiet_check: "quiet p (snd r) \<Longrightarrow> quiet p (snd (plutosdr_error_check r))"
  by (simp add: plutosdr_error_check_def)

lemma quiet_write: "quiet p (snd (plutosdr_write_lli k chn what v p))" "quiet p (snd (plutosdr_write_str k chn what str p))"
  unfolding plutosdr_write_lli_def plutosdr_write_str_def by (rule quiet_check, rule quiet_iio, simp)+

lemma quiet_enable_fir: "quiet p (snd (plutosdr_enable_fir_filter k b p))"
proof -
  obtain r p1 where r: "iio_do k (Write_bool Control_device ''in_out_voltage_filter_fir_en'' b) p = (r, p1)" by fastforce
  have 1: "quiet p p1" using quiet_iio(1) [of "Write_bool Control_device ''in_out_voltage_filter_fir_en'' b" p k] r by simp
  have 2: "quiet p (iio_void k (Find Out_chn) p1)" by (rule quiet_trans [OF 1 quiet_iio(2)]) simp
  have 3: "quiet p (snd (iio_do k (Write_bool Out_chn ''voltage_filter_fir_en'' b) (iio_void k (Find Out_chn) p1)))" by (rule quiet_trans [OF 2 quiet_iio(1)]) simp
  show ?thesis using r 1 3 by (simp add: plutosdr_enable_fir_filter_def)
qed

lemma quiet_and_then:
  assumes "quiet p (snd r)" "\<And>q. quiet p q \<Longrightarrow> quiet q (snd (f q))"
  shows "quiet p (snd (and_then r f))"
  using assms(1) quiet_trans [OF assms(1) assms(2)] by (cases r) (simp add: and_then_def)

section \<open>Operations never fail undefined\<close>

lemma plutosdr_load_fir_total:
  assumes "\<forall>t \<in> set taps. - 32768 \<le> t \<and> t \<le> 32767" "0 \<le> d" "d < 10"
  shows "\<exists>code p1. plutosdr_load_fir k ok d taps p = Some (code, p1) \<and> quiet p p1"
proof (cases ok)
  case True
  obtain code p1 where w: "plutosdr_error_check (iio_do k (Write_raw Control_device ''filter_fir_config'' (fir_config d taps)) p) = (code, p1)" by fastforce
  have 1: "quiet p p1"
    using quiet_check [OF quiet_iio(1), of "Write_raw Control_device ''filter_fir_config'' (fir_config d taps)" p k] w by simp
  have 2: "quiet p (snd (plutosdr_error_check (plutosdr_enable_fir_filter k True p1)))"
    by (rule quiet_trans [OF 1 quiet_check [OF quiet_enable_fir]])
  obtain c2 p2 where "plutosdr_error_check (plutosdr_enable_fir_filter k True p1) = (c2, p2)" by fastforce
  with True fir_config_fits [OF assms] w 1 2 show ?thesis by (simp add: plutosdr_load_fir_def Let_def)
qed (simp add: plutosdr_load_fir_def)

lemma plutosdr_set_sample_rate_total: "\<exists>code p1. plutosdr_set_sample_rate k ok r chn p = Some (code, p1) \<and> quiet p p1"
proof -
  obtain code d taps where s: "plutosdr_select_fir_filter_config r = (code, d, taps)" by (metis prod_cases3)
  have range: "\<And>ts. taps = Some ts \<Longrightarrow> (\<forall>t \<in> set ts. - 32768 \<le> t \<and> t \<le> 32767) \<and> 0 \<le> d \<and> d < 10"
    using s fir_taps by (auto simp: plutosdr_select_fir_filter_config_def split: if_splits)
  have "\<exists>code1 p1. (case taps of None \<Rightarrow> Some (0, p) | Some ts \<Rightarrow> plutosdr_load_fir k ok d ts p) = Some (code1, p1) \<and> quiet p p1"
    using plutosdr_load_fir_total range by (cases taps) auto
  then obtain code1 p1 where 1: "(case taps of None \<Rightarrow> Some (0, p) | Some ts \<Rightarrow> plutosdr_load_fir k ok d ts p) = Some (code1, p1)" "quiet p p1" by blast
  obtain code2 p2 where w2: "plutosdr_write_lli k chn ''sampling_frequency'' (sint r) p1 = (code2, p2)" by fastforce
  have 2: "quiet p p2" using quiet_trans [OF 1(2) quiet_write(1)] w2 by (metis snd_conv)
  obtain code3 p3 where w3: "plutosdr_write_lli k chn ''rf_bandwidth'' (sint r) p2 = (code3, p3)" by fastforce
  have 3: "quiet p p3" using quiet_trans [OF 2 quiet_write(1)] w3 by (metis snd_conv)
  obtain code4 p4 where w4: "plutosdr_error_check (plutosdr_enable_fir_filter k False p3) = (code4, p4)" by fastforce
  have 4: "quiet p p4" using quiet_trans [OF 3 quiet_check [OF quiet_enable_fir]] w4 by (metis snd_conv)
  show ?thesis using s 1 2 3 4 w2 w3 w4 by (simp add: plutosdr_set_sample_rate_def)
qed

lemma plutosdr_change_rate_total: "\<exists>code p1. plutosdr_change_rate k ok r chn p = Some (code, p1) \<and> quiet p p1"
proof -
  from plutosdr_set_sample_rate_total [of k ok r chn p] obtain code p1 where "plutosdr_set_sample_rate k ok r chn p = Some (code, p1)" "quiet p p1" by blast
  moreover from this have "quiet p (p1\<lparr>pluto_current_sample_rate := sint r\<rparr>)" by (simp add: quiet_def)
  ultimately show ?thesis by (simp add: plutosdr_change_rate_def)
qed

lemma plutosdr_set_rx_parameters_total: "\<exists>code p1. plutosdr_set_rx_parameters k ok c p = Some (code, p1) \<and> quiet p p1"
proof -
  obtain code1 p1 where w: "plutosdr_write_lli k Rx0_lo ''frequency'' (sint (frequency c)) p = (code1, p1)" by fastforce
  have 1: "quiet p p1" using quiet_write(1) [of p k Rx0_lo "''frequency''" "sint (frequency c)"] w by simp
  from plutosdr_change_rate_total [of k ok "sample_rate c" Rx0_chn p1] obtain code2 p2 where
    r: "plutosdr_change_rate k ok (sample_rate c) Rx0_chn p1 = Some (code2, p2)" "quiet p1 p2" by blast
  let ?f = "\<lambda>p2. if pluto_gain_mode p2 = IIO_GAIN_MODE_MANUAL then plutosdr_error_check (iio_do k (Write_double Rx0_chn ''hardwaregain'' (gain c)) p2) else (0, p2)"
  have 2: "quiet p (snd (and_then (code2, p2) ?f))"
    using quiet_trans [OF 1 r(2)] by (intro quiet_and_then) (auto intro!: quiet_check quiet_iio)
  obtain code3 p3 where "and_then (code2, p2) ?f = (code3, p3)" by fastforce
  with w 1 r(1) 2 show ?thesis by (simp add: plutosdr_set_rx_parameters_def)
qed

text \<open>A new buffer replaces the old one.\<close>

lemma buffer_state_replace:
  assumes "buffer_state k dev h = Some b"
  shows "buffer_state k dev (h @ [Destroy_buffer d, Create_buffer d n]) =
    (if d = dev then (if b then Some (iio_answer k (h @ [Destroy_buffer d]) (Create_buffer d n) \<ge> 0) else None) else Some b)"
  using assms buffer_state_snoc(2) [OF assms, of d] by (simp add: buffer_state_def)

lemma create_buffer_inv:
  assumes "pluto_inv k p" "iio_do k (Create_buffer Rx_device n) q = (ret, r)"
    "q = (if rx_buffer p then iio_void k (Destroy_buffer Rx_device) p else p)"
  shows "pluto_inv k (r\<lparr>rx_buffer := (ret \<ge> 0)\<rparr>)" "found r = found p" "pluto_buffer_len r = pluto_buffer_len p"
  using assms by (auto simp: pluto_inv_def iio_do_def iio_void_def buffer_state_snoc buffer_state_replace split: if_splits)

lemma create_tx_buffer_inv:
  assumes "pluto_inv k p" "iio_do k (Create_buffer Tx_device n) q = (ret, r)"
    "q = (if tx_buffer p then iio_void k (Destroy_buffer Tx_device) p else p)"
  shows "pluto_inv k (r\<lparr>tx_buffer := (ret \<ge> 0)\<rparr>)" "found r = found p" "pluto_buffer_len r = pluto_buffer_len p"
  using assms by (auto simp: pluto_inv_def iio_do_def iio_void_def buffer_state_snoc buffer_state_replace split: if_splits)

text \<open>The pointers of an operation that may replace buffers.\<close>

definition steady :: "iio_api \<Rightarrow> pluto \<Rightarrow> pluto \<Rightarrow> bool" where
  "steady k p p1 \<longleftrightarrow> pluto_inv k p1 \<and> found p1 = found p \<and> pluto_buffer_len p1 = pluto_buffer_len p"

lemma quiet_steady: "pluto_inv k p \<Longrightarrow> quiet p p1 \<Longrightarrow> steady k p p1"
  using quiet_inv by (auto simp: steady_def quiet_def)

lemma steady_trans: "steady k p q \<Longrightarrow> steady k q r \<Longrightarrow> steady k p r"
  by (simp add: steady_def)

lemma steady_destroy_buffer:
  "pluto_inv k q \<Longrightarrow> rx_buffer q \<Longrightarrow> steady k q ((iio_void k (Destroy_buffer Rx_device) q)\<lparr>rx_buffer := False\<rparr>)"
  "pluto_inv k q \<Longrightarrow> tx_buffer q \<Longrightarrow> steady k q ((iio_void k (Destroy_buffer Tx_device) q)\<lparr>tx_buffer := False\<rparr>)"
  by (auto simp: steady_def pluto_inv_def iio_do_def iio_void_def buffer_state_snoc)

lemma steady_start_stop:
  assumes "pluto_inv k p"
  shows "steady k p (plutosdr_start_rx k p)" "steady k p (plutosdr_stop_rx k p)"
proof -
  let ?p1 = "iio_void k (Enable Rx0_q) (iio_void k (Enable Rx0_i) p)" and ?q1 = "iio_void k (Disable Rx0_q) (iio_void k (Disable Rx0_i) p)"
  have s: "steady k p ?p1" "steady k p ?q1"
    by (intro quiet_steady assms quiet_trans [OF quiet_iio(2) quiet_iio(2)]; simp)+
  then have i: "pluto_inv k ?p1" "pluto_inv k ?q1" by (simp_all add: steady_def)
  define p2 where "p2 = (if rx_buffer ?p1 then iio_void k (Destroy_buffer Rx_device) ?p1 else ?p1)"
  obtain ret p3 where c: "iio_do k (Create_buffer Rx_device (pluto_buffer_len p2)) p2 = (ret, p3)" by fastforce
  have "plutosdr_start_rx k p = p3\<lparr>rx_buffer := (ret \<ge> 0)\<rparr>" using c by (simp add: plutosdr_start_rx_def Let_def p2_def)
  moreover have "steady k ?p1 (p3\<lparr>rx_buffer := (ret \<ge> 0)\<rparr>)"
    using create_buffer_inv [OF i(1) c] by (simp add: steady_def p2_def)
  ultimately show "steady k p (plutosdr_start_rx k p)" using steady_trans [OF s(1)] by simp
  have "steady k ?q1 (plutosdr_stop_rx k p)"
    using i(2) steady_destroy_buffer(1) [OF i(2)] quiet_steady [OF i(2) quiet_refl] by (simp add: plutosdr_stop_rx_def Let_def)
  then show "steady k p (plutosdr_stop_rx k p)" by (rule steady_trans [OF s(2)])
qed

lemma steady_create_tx_buffer:
  assumes "pluto_inv k p"
  shows "steady k p (snd (plutosdr_create_tx_buffer k p))"
proof -
  let ?p1 = "iio_void k (Enable Tx0_q) (iio_void k (Enable Tx0_i) p)"
  have s: "steady k p ?p1" by (intro quiet_steady assms quiet_trans [OF quiet_iio(2) quiet_iio(2)]; simp)
  then have i: "pluto_inv k ?p1" by (simp add: steady_def)
  define p2 where "p2 = (if tx_buffer ?p1 then iio_void k (Destroy_buffer Tx_device) ?p1 else ?p1)"
  obtain ret p3 where c: "iio_do k (Create_buffer Tx_device (pluto_buffer_len p2)) p2 = (ret, p3)" by fastforce
  have "snd (plutosdr_create_tx_buffer k p) = p3\<lparr>tx_buffer := (ret \<ge> 0)\<rparr>" using c by (simp add: plutosdr_create_tx_buffer_def Let_def p2_def)
  moreover have "steady k ?p1 (p3\<lparr>tx_buffer := (ret \<ge> 0)\<rparr>)"
    using create_tx_buffer_inv [OF i c] by (simp add: steady_def p2_def)
  ultimately show ?thesis using steady_trans [OF s] by simp
qed

lemma plutosdr_set_tx_parameters_total:
  assumes "pluto_inv k p"
  shows "\<exists>code p1. plutosdr_set_tx_parameters k ok c p = Some (code, p1) \<and> steady k p p1"
proof -
  obtain code1 p1 where w: "and_then (plutosdr_write_lli k Tx0_lo ''powerdown'' 0 p) (plutosdr_write_lli k Tx0_lo ''frequency'' (sint (frequency c))) = (code1, p1)"
    by fastforce
  have 1: "quiet p p1"
    using quiet_and_then [of p "plutosdr_write_lli k Tx0_lo ''powerdown'' 0 p" "plutosdr_write_lli k Tx0_lo ''frequency'' (sint (frequency c))"] quiet_write(1) w by simp
  from plutosdr_change_rate_total [of k ok "sample_rate c" Tx0_chn p1] obtain code2 p2 where
    r: "plutosdr_change_rate k ok (sample_rate c) Tx0_chn p1 = Some (code2, p2)" "quiet p1 p2" by blast
  let ?r3 = "and_then (code2, p2) (\<lambda>p2. plutosdr_error_check (iio_do k (Write_double Tx0_chn ''hardwaregain'' (gain c)) p2))"
  obtain code3 p3 where r3: "?r3 = (code3, p3)" by fastforce
  have "quiet p (snd ?r3)" using quiet_trans [OF 1 r(2)] by (intro quiet_and_then) (auto intro!: quiet_check quiet_iio)
  then have 3: "steady k p p3" using quiet_steady [OF assms] r3 by simp
  then have 4: "steady k p (snd (plutosdr_create_tx_buffer k p3))"
    using steady_create_tx_buffer [of k p3] steady_trans by (metis steady_def)
  obtain code4 p4 where c4: "plutosdr_create_tx_buffer k p3 = (code4, p4)" by fastforce
  show ?thesis
  proof (cases "outside (as_double (frequency c)) (frequency_range p) \<or> outside (as_double (sample_rate c)) (sample_rate_range p) \<or> gain_outside (gain c) (power_range p)")
    case True
    then show ?thesis using assms by (auto simp: plutosdr_set_tx_parameters_def steady_def)
  next
    case False
    then show ?thesis using w r(1) r3 3 4 c4 quiet_steady [OF assms 1] by (auto simp: plutosdr_set_tx_parameters_def and_then_def)
  qed
qed

section \<open>Transmitting\<close>

lemma interleave_simps [simp]: "interleave [] = []" "interleave (xs @ ys) = interleave xs @ interleave ys" "length (interleave xs) = 2 * length xs"
  by (induction xs) (auto simp: interleave_def)

text \<open>The sizes of the pushed batches.\<close>

definition batches :: "nat \<Rightarrow> iio_call list \<Rightarrow> bool" where
  "batches room cs \<longleftrightarrow> (\<forall>c \<in> set cs. \<exists>n. c = Push_partial n \<and> 0 < n \<and> n \<le> room)"

lemma process_tx_loop_total:
  assumes len: "2 \<le> pluto_buffer_len p"
  shows "\<exists>code p1 n cs. process_tx_loop k input p = Some (code, p1) \<and> quiet p p1 \<and> calls p1 = calls p @ cs \<and> batches (pluto_buffer_len p div 2) cs \<and>
    pushed_samples p1 = pushed_samples p @ map tx_sample (interleave (take n input)) \<and> (code = 0 \<and> n = length input \<or> code = - 1 \<and> 0 < n)"
  using len
proof (induction "length input" arbitrary: input p rule: less_induct)
  case less
  show ?case
  proof (cases "input = []")
    case True
    then show ?thesis by (intro exI [of _ 0] exI [of _ p] exI [of _ "[]"]) (simp add: process_tx_loop.simps [of k "[]" p] batches_def)
  next
    case False
    define m where "m = (if length input > pluto_buffer_len p div 2 then pluto_buffer_len p div 2 else length input)"
    let ?data = "map tx_sample (interleave (take m input))"
    have "0 < pluto_buffer_len p div 2" "0 < length input" using less.prems False by auto
    then have b: "0 < m" "m \<le> length input" "m \<le> pluto_buffer_len p div 2" "length ?data \<le> 2 * pluto_buffer_len p" by (auto simp: m_def)
    obtain code q where q: "iio_do k (Push_partial m) (p\<lparr>pushed_samples := pushed_samples p @ ?data\<rparr>) = (code, q)" by fastforce
    have qf: "quiet p q" "calls q = calls p @ [Push_partial m]" "pushed_samples q = pushed_samples p @ ?data" "pluto_buffer_len q = pluto_buffer_len p"
      using q by (auto simp: iio_do_def quiet_def)
    have step: "process_tx_loop k input p = (if code < 0 then Some (- 1, q) else process_tx_loop k (drop m input) q)"
      using False b(4) q by (subst process_tx_loop.simps) (simp add: Let_def flip: m_def del: length_map)
    have bs: "batches (pluto_buffer_len p div 2) [Push_partial m]" using b by (simp add: batches_def)
    show ?thesis
    proof (cases "code < 0")
      case True
      with step qf bs b(1) show ?thesis by (intro exI [of _ "- 1"] exI [of _ q] exI [of _ m] exI [of _ "[Push_partial m]"]) simp
    next
      case False
      have "length (drop m input) < length input" "2 \<le> pluto_buffer_len q" using b(1,2) less.prems qf(4) by auto
      from less.hyps [OF this] obtain code1 p1 n cs where
        r: "process_tx_loop k (drop m input) q = Some (code1, p1)" "quiet q p1" "calls p1 = calls q @ cs" "batches (pluto_buffer_len p div 2) cs"
          "pushed_samples p1 = pushed_samples q @ map tx_sample (interleave (take n (drop m input)))"
          "code1 = 0 \<and> n = length (drop m input) \<or> code1 = - 1 \<and> 0 < n"
        unfolding qf(4) by (elim exE conjE) (rule that)
      have t: "take m input @ take n (drop m input) = take (m + n) input" by (simp add: take_add)
      have "pushed_samples p1 = pushed_samples p @ map tx_sample (interleave (take (m + n) input))"
        using r(5) qf(3) by (simp flip: t)
      moreover have "batches (pluto_buffer_len p div 2) (Push_partial m # cs)" using bs r(4) by (simp add: batches_def)
      moreover have "calls p1 = calls p @ (Push_partial m # cs)" using r(3) qf(2) by simp
      moreover have "code1 = 0 \<and> m + n = length input \<or> code1 = - 1 \<and> 0 < m + n" using r(6) b(2) by auto
      moreover have "process_tx_loop k input p = Some (code1, p1)" using step False r(1) by simp
      ultimately show ?thesis using quiet_trans [OF qf(1) r(2)] by (intro exI conjI)
    qed
  qed
qed

text \<open>With room for a single sample nothing is ever pushed: the loop only ends when the library reports an error.\<close>

lemma process_tx_loop_stuck:
  assumes "process_tx_loop k input p = Some (code, p1)" "pluto_buffer_len p < 2" "input \<noteq> []"
  shows "\<exists>h. iio_answer k h (Push_partial 0) < 0"
proof -
  have "\<forall>code p1. r = (code, p1) \<longrightarrow> pluto_buffer_len p < 2 \<longrightarrow> input \<noteq> [] \<longrightarrow> (\<exists>h. iio_answer k h (Push_partial 0) < 0)"
    if "process_tx_loop k input p = Some r" for r
  proof (rule process_tx_loop.raw_induct [OF _ that, where P = "\<lambda>k input p r. \<forall>code p1. r = (code, p1) \<longrightarrow> pluto_buffer_len p < 2 \<longrightarrow> input \<noteq> [] \<longrightarrow>
      (\<exists>h. iio_answer k h (Push_partial 0) < 0)"], goal_cases)
    case (1 f k input p r)
    show ?case
    proof (intro allI impI)
      fix code p1 assume a: "r = (code, p1)" "pluto_buffer_len p < 2" "input \<noteq> []"
      let ?q = "p\<lparr>calls := calls p @ [Push_partial 0]\<rparr>"
      have "pluto_buffer_len p div 2 = 0" using a(2) by simp
      then have "(if iio_answer k (calls p) (Push_partial 0) < 0 then Some (- 1, ?q) else f k input ?q) = Some (code, p1)"
        using 1(2) a by (simp add: iio_do_def Let_def split: if_splits)
      then show "\<exists>h. iio_answer k h (Push_partial 0) < 0"
        using 1(1) [of k input ?q "(code, p1)"] a(2,3) by (auto split: if_splits)
    qed
  qed
  with assms show ?thesis by blast
qed

lemma plutosdr_process_rx_total:
  assumes "\<And>h. even (length (refilled k h))"
  shows "\<exists>code out p1. plutosdr_process_rx k p = Some (code, out, p1) \<and> quiet p p1"
proof -
  obtain ret p1 where r: "iio_do k Refill p = (ret, p1)" by fastforce
  have q: "quiet p p1" using quiet_iio(1) [of Refill p k] r by simp
  have "length (refilled k (calls p1)) \<le> 2 * pluto_buffer_len p" if "length (refilled k (calls p1)) div 2 \<le> pluto_buffer_len p"
    using that assms [of "calls p1"] by auto
  with r q show ?thesis by (auto simp: plutosdr_process_rx_def Let_def)
qed


section \<open>Destruction\<close>

text \<open>The last value written to an attribute that holds a number.\<close>

fun last_written :: "iio_object \<Rightarrow> string \<Rightarrow> iio_call list \<Rightarrow> int option" where
  "last_written obj name [] = None"
| "last_written obj name (c # h) = (case last_written obj name h of
     Some v \<Rightarrow> Some v
   | None \<Rightarrow> (case c of Write_lli o1 n1 v \<Rightarrow> if o1 = obj \<and> n1 = name then Some v else None | _ \<Rightarrow> None))"

lemma last_written_append:
  "last_written obj name (h @ t) = (case last_written obj name t of Some v \<Rightarrow> Some v | None \<Rightarrow> last_written obj name h)"
  by (induction h) (auto split: option.splits)

lemma plutosdr_destroy_clean:
  assumes "pluto_inv k p"
  shows "\<exists>p1. plutosdr_destroy k ps p = Some ({}, p1) \<and> buffer_state k Tx_device (calls p1) = Some False \<and> buffer_state k Rx_device (calls p1) = Some False \<and>
    (Tx0_lo \<in> set (found p) \<longrightarrow> last_written Tx0_lo ''powerdown'' (calls p1) = Some 1) \<and> (Pluto_ctx \<in> ps \<longrightarrow> last (calls p1) = Context_destroy)"
proof -
  define p1 where "p1 = (if tx_buffer p then (iio_void k (Destroy_buffer Tx_device) p)\<lparr>tx_buffer := False\<rparr> else p)"
  define p2 where "p2 = if_found Tx0_q (iio_void k (Disable Tx0_q)) (if_found Tx0_i (iio_void k (Disable Tx0_i)) p1)"
  define p3 where "p3 = if_found Tx0_lo (\<lambda>p. snd (plutosdr_write_lli k Tx0_lo ''powerdown'' 1 p)) p2"
  define p4 where "p4 = (if rx_buffer p3 then (iio_void k (Destroy_buffer Rx_device) p3)\<lparr>rx_buffer := False\<rparr> else p3)"
  define p5 where "p5 = if_found Rx0_q (iio_void k (Disable Rx0_q)) (if_found Rx0_i (iio_void k (Disable Rx0_i)) p4)"
  define p6 where "p6 = (if Pluto_ctx \<in> ps then iio_void k Context_destroy p5 else p5)"
  have q: "quiet p (if_found obj (iio_void k c) p)" if "plain c" for p obj c
    using quiet_iio(2) [OF that] by (simp add: if_found_def)
  have 1: "steady k p p1" "\<not> tx_buffer p1" using steady_destroy_buffer(2) [OF assms] quiet_steady [OF assms quiet_refl] by (auto simp: p1_def)
  have 2: "quiet p1 p2" unfolding p2_def by (rule quiet_trans [OF q q]) simp_all
  have 3: "quiet p2 p3" using quiet_write(1) by (simp add: p3_def if_found_def)
  have i3: "pluto_inv k p3" "found p3 = found p" "\<not> tx_buffer p3" using 1 quiet_inv [OF quiet_trans [OF 2 3]] 2 3 by (auto simp: steady_def quiet_def)
  have i4: "pluto_inv k p4" "\<not> tx_buffer p4" "\<not> rx_buffer p4"
    using i3 steady_destroy_buffer(1) [of k p3] by (auto simp: p4_def steady_def iio_void_def iio_do_def)
  have 5: "quiet p4 p5" unfolding p5_def by (rule quiet_trans [OF q q]) simp_all
  have 6: "quiet p4 p6" using 5 quiet_trans [OF 5 quiet_iio(2) [of Context_destroy p5 k]] by (simp add: p6_def)
  have i6: "pluto_inv k p6" "\<not> tx_buffer p6" "\<not> rx_buffer p6" using quiet_inv [OF 6 i4(1)] i4 6 by (auto simp: quiet_def)
  have w3: "last_written Tx0_lo ''powerdown'' (calls p3) = Some 1" if "Tx0_lo \<in> set (found p)"
    using that i3(2) by (auto simp: p3_def if_found_def plutosdr_write_lli_def plutosdr_error_check_def iio_do_def last_written_append split: if_splits)
  have w6: "last_written Tx0_lo ''powerdown'' (calls p6) = last_written Tx0_lo ''powerdown'' (calls p3)"
    by (auto simp: p6_def p5_def p4_def if_found_def iio_void_def iio_do_def last_written_append)
  have "Pluto_ctx \<in> ps \<longrightarrow> last (calls p6) = Context_destroy" by (simp add: p6_def iio_void_def iio_do_def)
  moreover have "plutosdr_shutdown k ps p = p6"
    unfolding plutosdr_shutdown_def Let_def p6_def p5_def p4_def p3_def p2_def p1_def ..
  then have "plutosdr_destroy k ps p = Some ({}, p6)" by (simp add: plutosdr_destroy_def pluto.destroys)
  ultimately show ?thesis using i6 w3 w6 by (intro exI [of _ p6]) (auto simp: pluto_inv_def)
qed

section \<open>Construction\<close>

definition grown :: "iio_api \<Rightarrow> pluto \<Rightarrow> pluto \<Rightarrow> bool" where
  "grown k p p1 \<longleftrightarrow> pluto_inv k p1 \<and> set (found p) \<subseteq> set (found p1) \<and> pluto_buffer_len p1 = pluto_buffer_len p"

lemma grown_trans: "grown k p q \<Longrightarrow> grown k q r \<Longrightarrow> grown k p r"
  by (auto simp: grown_def)

lemma grown_quiet: "pluto_inv k p \<Longrightarrow> quiet p p1 \<Longrightarrow> grown k p p1"
  using quiet_steady [of k p p1] by (simp add: steady_def grown_def)

fun step_ok :: "pluto_step \<Rightarrow> bool" where
  "step_ok (Checked c) = plain c"
| "step_ok (Required c) = plain c"
| "step_ok (Ignored c) = plain c"
| "step_ok (Ranged obj name f) = (\<forall>r p. quiet p (f r p))"
| "step_ok (Set f) = (\<forall>p. quiet p (f p))"
| "step_ok _ = True"

lemma create_steps_ok: "list_all step_ok (plutosdr_create_steps s u calib)"
  by (auto simp: plutosdr_create_steps_def plutosdr_disable_dds_def quiet_def list_all_iff split: option.splits)

fun achieved :: "pluto_step \<Rightarrow> pluto_part set \<Rightarrow> pluto \<Rightarrow> bool" where
  "achieved (Found obj) ps p = (obj \<in> set (found p))"
| "achieved (Connected u) ps p = (Pluto_ctx \<in> ps)"
| "achieved (Allocated part) ps p = (part \<in> ps)"
| "achieved _ ps p = True"

lemma achieved_mono: "achieved st ps p \<Longrightarrow> ps \<subseteq> ps1 \<Longrightarrow> grown k p p1 \<Longrightarrow> achieved st ps1 p1"
  by (cases st) (auto simp: grown_def)

lemma pluto_step_run_grown:
  assumes "pluto_inv k p" "step_ok st" "pluto_step_run k strtod oks st (ps, p) = (code, ps1, p1)"
  shows "grown k p p1" "ps \<subseteq> ps1" "code = 0 \<longrightarrow> achieved st ps1 p1"
proof -
  have g: "grown k p (p\<lparr>calls := calls p @ [c]\<rparr>)" if "plain c" for c
    using grown_quiet [OF assms(1) quiet_iio(1) [OF that]] by (simp add: iio_do_def)
  have h: "grown k p q" if "plain c" "quiet (p\<lparr>calls := calls p @ [c]\<rparr>) q" for c q
    using grown_trans [OF g [OF that(1)] grown_quiet [OF _ that(2)]] g [OF that(1)] by (simp add: grown_def)
  have f: "grown k p (p\<lparr>calls := calls p @ [c], found := x # found p\<rparr>)" if "plain c" for c x
    using g [OF that] by (auto simp: grown_def pluto_inv_def)
  have r: "grown k p (p\<lparr>calls := calls p @ [c], pluto_current_sample_rate := x\<rparr>)" if "plain c" for c x
    by (rule h [OF that]) (simp add: quiet_def)
  have n: "grown k p p" by (rule grown_quiet [OF assms(1) quiet_refl])
  have s: "grown k p (fn p)" if "\<forall>p. quiet p (fn p)" for fn by (rule grown_quiet [OF assms(1)]) (use that in simp)
  show "grown k p p1"
  proof (cases st)
    case (Ranged obj name fn)
    then show ?thesis using assms(2,3) g [of "Read_attr obj name"]
      by (auto simp: pluto_step_run_def iio_do_def plutosdr_read_range_def intro: h [of "Read_attr obj name"] split: if_splits option.splits)
  qed (use assms(2,3) g f r n s in \<open>auto simp: pluto_step_run_def iio_do_def iio_void_def split: if_splits\<close>)
  show "ps \<subseteq> ps1" "code = 0 \<longrightarrow> achieved st ps1 p1" using assms(2,3)
    by (cases st; auto simp: pluto_step_run_def iio_do_def split: if_splits option.splits prod.splits)+
qed

lemma pluto_steps_run_grown:
  assumes "pluto_inv k p" "list_all step_ok sts" "pluto_steps_run k strtod oks sts (ps, p) = (code, ps1, p1)"
  shows "grown k p p1 \<and> ps \<subseteq> ps1 \<and> (code = 0 \<longrightarrow> list_all (\<lambda>st. achieved st ps1 p1) sts)"
  using assms
proof (induction sts arbitrary: ps p)
  case Nil
  then show ?case by (simp add: grown_quiet)
next
  case (Cons st sts)
  obtain c ps2 p2 where st: "pluto_step_run k strtod oks st (ps, p) = (c, ps2, p2)" by (metis prod_cases3)
  have ok: "step_ok st" "list_all step_ok sts" using Cons.prems(2) by simp_all
  note g = pluto_step_run_grown [OF Cons.prems(1) ok(1) st]
  show ?case
  proof (cases "c = 0")
    case True
    have "pluto_inv k p2" using g(1) by (simp add: grown_def)
    from Cons.IH [OF this ok(2), of ps2] Cons.prems(3) st True
    have ih: "grown k p2 p1" "ps2 \<subseteq> ps1" "code = 0 \<longrightarrow> list_all (\<lambda>st. achieved st ps1 p1) sts" by simp_all
    with g True grown_trans [OF g(1) ih(1)] achieved_mono [OF _ ih(2,1)] show ?thesis by auto
  qed (use Cons.prems(3) st g in auto)
qed


definition no_buffers :: "iio_api \<Rightarrow> pluto \<Rightarrow> bool" where
  "no_buffers k p \<longleftrightarrow> buffer_state k Tx_device (calls p) = Some False \<and> buffer_state k Rx_device (calls p) = Some False"

lemma plutosdr_fail_clean:
  assumes "pluto_inv k p"
  shows "\<exists>p1. plutosdr_fail k code ps p = Some (code, {}, p1) \<and> no_buffers k p1"
proof -
  from plutosdr_destroy_clean [OF assms, of ps] obtain p1 where "plutosdr_destroy k ps p = Some ({}, p1)" "no_buffers k p1"
    by (auto simp: no_buffers_def)
  then show ?thesis by (auto simp: plutosdr_fail_def)
qed

lemma pluto_zero_inv: "pluto_inv k (pluto_zero n)" "no_buffers k (pluto_zero n)" "pluto_buffer_len (pluto_zero n) = n"
  by (simp_all add: pluto_inv_def no_buffers_def pluto_zero_def buffer_state_def Let_def)

lemma plutosdr_find_default_uri_quiet: "quiet p (snd (plutosdr_find_default_uri k p))"
proof -
  obtain ctx p1 where 1: "iio_do k Scan_create p = (ctx, p1)" by fastforce
  obtain code p2 where 2: "iio_do k Scan_get_info_list p1 = (code, p2)" by fastforce
  have q1: "quiet p p1" using quiet_iio(1) [of Scan_create p k] 1 by simp
  have q2: "quiet p p2" using quiet_trans [OF q1 quiet_iio(1) [of Scan_get_info_list p1 k]] 2 by simp
  have q3: "quiet p (iio_void k Scan_destroy p2)" by (rule quiet_trans [OF q2 quiet_iio(2)]) simp
  have "quiet p (iio_void k Scan_free_info_list p2)" by (rule quiet_trans [OF q2 quiet_iio(2)]) simp
  from quiet_trans [OF this quiet_iio(2) [of Scan_destroy]] q1 q3 1 2 show ?thesis by (simp add: plutosdr_find_default_uri_def)
qed

text \<open>What a caller of the constructor gets: a device ready for its operations, or nothing.\<close>

definition created :: "iio_api \<Rightarrow> nat \<Rightarrow> int \<times> pluto_part set \<times> pluto \<Rightarrow> bool" where
  "created k len r = (case r of (code, ps, p) \<Rightarrow>
     if code = 0 then pluto_inv k p \<and> Tx0_lo \<in> set (found p) \<and> Pluto_ctx \<in> ps \<and> pluto_buffer_len p = len else ps = {} \<and> no_buffers k p)"

lemma plutosdr_fail_created:
  assumes "pluto_inv k p" "code \<noteq> 0"
  shows "\<exists>r. plutosdr_fail k code ps p = Some r \<and> created k len r"
  using plutosdr_fail_clean [OF assms(1), of code ps] assms(2) by (auto simp: created_def)

lemma plutosdr_create_outcome:
  "\<exists>r. plutosdr_create k strtod oks fir_ok device_ok s u calib len = Some r \<and> created k (unat len) r"
proof (cases "oks Pluto_struct")
  case False
  then show ?thesis by (auto simp: plutosdr_create_def created_def pluto_zero_inv)
next
  case st: True
  define start where "start = (case u of None \<Rightarrow> plutosdr_find_default_uri k (pluto_zero (unat len)) | Some u \<Rightarrow> (Some u, pluto_zero (unat len)))"
  obtain address p0 where s: "start = (address, p0)" by fastforce
  have "quiet (pluto_zero (unat len)) p0"
    using plutosdr_find_default_uri_quiet [of "pluto_zero (unat len)" k] s by (auto simp: start_def split: option.splits)
  then have i0: "grown k (pluto_zero (unat len)) p0" by (rule grown_quiet [OF pluto_zero_inv(1)])
  then have inv0: "pluto_inv k p0" by (simp add: grown_def)
  define ps0 where "ps0 = (if oks Pluto_uri then {Pluto_struct, Pluto_uri} else {Pluto_struct})"
  show ?thesis
  proof (cases "address = None \<or> (u = None \<and> \<not> oks Pluto_uri)")
    case True
    then have "plutosdr_create k strtod oks fir_ok device_ok s u calib len = plutosdr_fail k (- 1) {Pluto_struct} p0"
      using st s by (auto simp: plutosdr_create_def start_def split: option.splits)
    then show ?thesis using plutosdr_fail_created [OF inv0] by simp
  next
    case False
    then obtain v where v: "address = Some v" by auto
    define sts where "sts = plutosdr_create_steps s (if oks Pluto_uri then Some v else None) calib"
    obtain code ps p1 where run: "pluto_steps_run k strtod oks sts (ps0, p0) = (code, ps, p1)" by (metis prod_cases3)
    from pluto_steps_run_grown [OF inv0 _ run] create_steps_ok sts_def
    have g: "grown k p0 p1" "code = 0 \<longrightarrow> list_all (\<lambda>st. achieved st ps p1) sts" by auto
    have inv1: "pluto_inv k p1" using g(1) by (simp add: grown_def)
    have a: "code = 0 \<longrightarrow> Tx0_lo \<in> set (found p1) \<and> Pluto_ctx \<in> ps"
      using g(2) by (auto simp: sts_def plutosdr_create_steps_def)
    define rated where "rated = (if pluto_sample_rate s \<noteq> 0 then plutosdr_change_rate k fir_ok (pluto_sample_rate s) Rx0_chn p1 else Some (0, p1))"
    have "\<exists>c2 p2. rated = Some (c2, p2) \<and> quiet p1 p2"
      using plutosdr_change_rate_total [of k fir_ok "pluto_sample_rate s" Rx0_chn p1] by (simp add: rated_def)
    then obtain c2 p2 where r: "rated = Some (c2, p2)" "quiet p1 p2" by blast
    have inv2: "pluto_inv k p2" by (rule quiet_inv [OF r(2) inv1])
    have e: "plutosdr_create k strtod oks fir_ok device_ok s u calib len = (if code \<noteq> 0 then plutosdr_fail k code ps p1
        else if c2 \<noteq> 0 then plutosdr_fail k c2 ps p2 else if \<not> device_ok then plutosdr_fail k (- ENOMEM) ps p2 else Some (0, ps, p2))"
      using st s v False run r(1) by (auto simp: plutosdr_create_def start_def [symmetric] sts_def [symmetric] ps0_def [symmetric] rated_def [symmetric])
    have "created k (unat len) (0, ps, p2)" if "code = 0"
      using that a inv2 r(2) g(1) i0 by (simp add: created_def quiet_def grown_def pluto_zero_inv)
    then show ?thesis unfolding e
      using plutosdr_fail_created [OF inv1, of code] plutosdr_fail_created [OF inv2] by simp
  qed
qed

section \<open>Lifetime\<close>

datatype pluto_op = Process_tx "sample list" | Process_rx | Start_rx | Stop_rx | Set_rx_parameters bool sdr_channel_config | Set_tx_parameters bool sdr_channel_config

fun pluto_op_run :: "iio_api \<Rightarrow> pluto_op \<Rightarrow> pluto \<Rightarrow> pluto option" where
  "pluto_op_run k (Process_tx input) p = map_option snd (plutosdr_process_tx k input p)"
| "pluto_op_run k Process_rx p = map_option (snd \<circ> snd) (plutosdr_process_rx k p)"
| "pluto_op_run k Start_rx p = Some (plutosdr_start_rx k p)"
| "pluto_op_run k Stop_rx p = Some (plutosdr_stop_rx k p)"
| "pluto_op_run k (Set_rx_parameters ok c) p = map_option snd (plutosdr_set_rx_parameters k ok c p)"
| "pluto_op_run k (Set_tx_parameters ok c) p = map_option snd (plutosdr_set_tx_parameters k ok c p)"

fun pluto_ops_run :: "iio_api \<Rightarrow> pluto_op list \<Rightarrow> pluto \<Rightarrow> pluto option" where
  "pluto_ops_run k [] p = Some p"
| "pluto_ops_run k (op # ops) p = do { p1 \<leftarrow> pluto_op_run k op p; pluto_ops_run k ops p1 }"

lemma pluto_op_steady:
  assumes inv: "pluto_inv k p" and len: "2 \<le> pluto_buffer_len p" and even: "\<And>h. even (length (refilled k h))"
  shows "\<exists>p1. pluto_op_run k op p = Some p1 \<and> steady k p p1"
proof (cases op)
  case (Process_tx input)
  from process_tx_loop_total [OF len, of k input] obtain code p1 where "process_tx_loop k input p = Some (code, p1)" "quiet p p1" by blast
  then show ?thesis using Process_tx quiet_steady [OF inv] by (simp add: plutosdr_process_tx_def)
next
  case Process_rx
  from plutosdr_process_rx_total [where p = p, OF even] obtain code out p1 where "plutosdr_process_rx k p = Some (code, out, p1)" "quiet p p1" by blast
  then show ?thesis using Process_rx quiet_steady [OF inv] by simp
next
  case (Set_rx_parameters ok c)
  from plutosdr_set_rx_parameters_total [of k ok c p] obtain code p1 where "plutosdr_set_rx_parameters k ok c p = Some (code, p1)" "quiet p p1" by blast
  then show ?thesis using Set_rx_parameters quiet_steady [OF inv] by simp
next
  case (Set_tx_parameters ok c)
  with plutosdr_set_tx_parameters_total [OF inv, of ok c] show ?thesis by auto
qed (use steady_start_stop [OF inv] in simp_all)

lemma pluto_ops_steady:
  assumes "pluto_inv k p" "2 \<le> pluto_buffer_len p" "\<And>h. even (length (refilled k h))"
  shows "\<exists>p1. pluto_ops_run k ops p = Some p1 \<and> steady k p p1"
  using assms(1,2)
proof (induction ops arbitrary: p)
  case Nil
  then show ?case by (simp add: steady_def)
next
  case (Cons op ops)
  from pluto_op_steady [OF Cons.prems assms(3)] obtain p1 where 1: "pluto_op_run k op p = Some p1" "steady k p p1" by blast
  then have "pluto_inv k p1" "2 \<le> pluto_buffer_len p1" using Cons.prems(2) by (simp_all add: steady_def)
  from Cons.IH [OF this] obtain p2 where "pluto_ops_run k ops p1 = Some p2" "steady k p1 p2" by blast
  then show ?case using 1 steady_trans [OF 1(2)] by auto
qed


section \<open>Limits of the operations\<close>

text \<open>The wait after a transmission works below a second; the default of 1000 and the 10000 of the shipped configuration do not wait.\<close>

lemma plutosdr_flush_waits:
  assumes "timeout < 1000"
  shows "plutosdr_flush_tx timeout = unat timeout * 10 ^ 6"
proof -
  have t: "unat timeout < 1000" using assms by (simp add: word_less_nat_alt)
  then have "unat (timeout * 1000000) = unat timeout * 1000000" by (simp add: unat_word_ariths)
  with t show ?thesis by (simp add: plutosdr_flush_tx_def Let_def)
qed

lemma plutosdr_flush_does_not_wait: "plutosdr_flush_tx 1000 = 0" "plutosdr_flush_tx 10000 = 0"
  by (simp_all add: plutosdr_flush_tx_def)

text \<open>A library that accepts everything but a bandwidth.\<close>

definition narrow_api :: iio_api where
  "narrow_api = \<lparr>iio_answer = (\<lambda>h c. case c of Write_lli obj name v \<Rightarrow> if name = ''rf_bandwidth'' then - 5 else 0 | Read_attr obj name \<Rightarrow> 8 | _ \<Rightarrow> 0),
     text_of = (\<lambda>h obj name. ''[0 1 70]''), number_of = (\<lambda>h obj name. 1000000), refilled = (\<lambda>h. []), found_uri = ''usb:''\<rparr>"

text \<open>A change of the rate that fails half way is forgotten: going back to the old rate succeeds without a call, the device keeps the new one.\<close>

lemma plutosdr_stale_rate:
  assumes "pluto_current_sample_rate p = 1000000"
  shows "\<exists>p1. plutosdr_change_rate narrow_api True 2000000 Rx0_chn p = Some (- 5, p1) \<and>
    last_written Rx0_chn ''sampling_frequency'' (calls p1) = Some 2000000 \<and> plutosdr_change_rate narrow_api True 1000000 Rx0_chn p1 = Some (0, p1)"
proof -
  have "length (fir_config 2 fir_128_2) < FIR_BUF_SIZE" by (rule fir_config_fits [OF fir_taps(2)]) simp_all
  with assms show ?thesis
    by (simp add: plutosdr_change_rate_def plutosdr_set_sample_rate_def plutosdr_select_fir_filter_config_def plutosdr_load_fir_def plutosdr_error_check_def
        plutosdr_enable_fir_filter_def plutosdr_write_lli_def iio_do_def last_written_append narrow_api_def Let_def)
qed

section \<open>Properties\<close>





definition digits_strtod :: "string \<Rightarrow> (rat \<times> string) option" where
  "digits_strtod str = (let t = skip_blanks str; ds = takeWhile (\<lambda>c. c \<in> set ''0123456789'') t in
     if ds = [] then None else Some (of_nat (foldl (\<lambda>n c. 10 * n + (of_char c - 48)) (0 :: nat) ds), drop (length ds) t))"

definition example_pluto :: plutosdr_settings where
  "example_pluto = \<lparr>tx_powerdown = True, gain_control_mode = IIO_GAIN_MODE_MANUAL, timeout_ms = 1000, uri = None, calib_mode = None, pluto_sample_rate = 0\<rparr>"


end
