(* ===== verification/DeviceLibs.thy ===== *)
theory DeviceLibs
  imports Construction
begin

text \<open>
  Loading of the two optional libraries at run time, \<^verbatim>\<open>src/sdr/iio_lib.c\<close> and \<^verbatim>\<open>src/sdr/airspy_lib.c\<close>. The
  dynamic linker is a parameter: which names \<^verbatim>\<open>dlopen\<close> opens and which symbols \<^verbatim>\<open>dlsym\<close> finds. The structure
  holds the handle and the functions in the order they were loaded.
\<close>

datatype lib_part = Lib_struct | Lib_handle

fun lib_users :: "lib_part \<Rightarrow> lib_part set" where
  "lib_users Lib_struct = {Lib_handle}"
| "lib_users _ = {}"

definition lib_destroy_order :: "lib_part list" where
  "lib_destroy_order = [Lib_handle, Lib_struct]"

interpretation lib: component lib_users lib_destroy_order
proof
  show "ordered lib_users {} lib_destroy_order" by (simp add: lib_destroy_order_def)
  show "p \<in> set lib_destroy_order" for p by (cases p) (simp_all add: lib_destroy_order_def)
qed

record linker =
  opens :: "string \<Rightarrow> bool"
  finds :: "string \<Rightarrow> bool"

record loaded_lib =
  lib_parts :: "lib_part set"
  lib_functions :: "string list"

text \<open>\<^verbatim>\<open>iio_lib_destroy\<close> and \<^verbatim>\<open>airspy_lib_destroy\<close>\<close>

definition iio_lib_destroy :: "loaded_lib \<Rightarrow> loaded_lib option" where
  "iio_lib_destroy l = do { ps \<leftarrow> release_all lib_users lib_destroy_order (lib_parts l); Some (l\<lparr>lib_parts := ps\<rparr>) }"

definition airspy_lib_destroy :: "loaded_lib \<Rightarrow> loaded_lib option" where
  "airspy_lib_destroy l = do { ps \<leftarrow> release_all lib_users lib_destroy_order (lib_parts l); Some (l\<lparr>lib_parts := ps\<rparr>) }"

text \<open>One function after the other; a missing one runs the destructor.\<close>

fun load_functions :: "linker \<Rightarrow> (loaded_lib \<Rightarrow> loaded_lib option) \<Rightarrow> string list \<Rightarrow> loaded_lib \<Rightarrow> (int \<times> loaded_lib) option" where
  "load_functions k destroy [] l = Some (0, l)"
| "load_functions k destroy (name # names) l =
    (if finds k name then load_functions k destroy names (l\<lparr>lib_functions := lib_functions l @ [name]\<rparr>)
     else do { l1 \<leftarrow> destroy l; Some (- 1, l1) })"

definition no_lib :: loaded_lib where
  "no_lib = \<lparr>lib_parts = {}, lib_functions = []\<rparr>"

section \<open>libiio\<close>

definition iio_functions :: "string list" where
  "iio_functions = [
    ''iio_buffer_first'', ''iio_buffer_end'', ''iio_buffer_push_partial'', ''iio_buffer_refill'', ''iio_context_find_device'',
    ''iio_device_find_channel'', ''iio_strerror'', ''iio_channel_attr_write'', ''iio_channel_attr_write_longlong'',
    ''iio_channel_attr_read'', ''iio_channel_attr_read_longlong'', ''iio_device_attr_write'', ''iio_device_attr_write_bool'',
    ''iio_channel_attr_write_bool'', ''iio_channel_attr_write_double'', ''iio_device_attr_write_raw'', ''iio_create_scan_context'',
    ''iio_scan_context_get_info_list'', ''iio_scan_context_destroy'', ''iio_context_info_get_uri'', ''iio_create_context_from_uri'',
    ''iio_context_info_list_free'', ''iio_context_set_timeout'', ''iio_channel_enable'', ''iio_device_create_buffer'',
    ''iio_buffer_destroy'', ''iio_channel_disable'', ''iio_context_destroy'']"

definition iio_lib_create :: "linker \<Rightarrow> bool \<Rightarrow> (int \<times> loaded_lib) option" where
  "iio_lib_create k malloc_ok =
    (if \<not> malloc_ok then Some (- ENOMEM, no_lib)
     else let l = no_lib\<lparr>lib_parts := {Lib_struct}\<rparr> in
       if \<not> opens k ''libiio.so'' then do { l1 \<leftarrow> iio_lib_destroy l; Some (- 1, l1) }
       else load_functions k iio_lib_destroy iio_functions (l\<lparr>lib_parts := {Lib_struct, Lib_handle}\<rparr>))"

section \<open>libairspy\<close>

definition airspy_functions :: "string list" where
  "airspy_functions = [
    ''airspy_open'', ''airspy_open_sn'', ''airspy_close'', ''airspy_get_samplerates'', ''airspy_set_samplerate'',
    ''airspy_set_sample_type'', ''airspy_start_rx'', ''airspy_stop_rx'', ''airspy_is_streaming'', ''airspy_set_freq'',
    ''airspy_set_lna_gain'', ''airspy_set_mixer_gain'', ''airspy_set_vga_gain'', ''airspy_set_lna_agc'', ''airspy_set_mixer_agc'',
    ''airspy_set_linearity_gain'', ''airspy_set_sensitivity_gain'', ''airspy_set_rf_bias'', ''airspy_error_name'']"

text \<open>The names are tried in turn.\<close>

fun airspy_lib_open :: "linker \<Rightarrow> string list \<Rightarrow> string option" where
  "airspy_lib_open k [] = None"
| "airspy_lib_open k (name # names) = (if opens k name then Some name else airspy_lib_open k names)"

definition airspy_lib_create :: "linker \<Rightarrow> bool \<Rightarrow> (int \<times> loaded_lib) option" where
  "airspy_lib_create k malloc_ok =
    (if \<not> malloc_ok then Some (- ENOMEM, no_lib)
     else let l = no_lib\<lparr>lib_parts := {Lib_struct}\<rparr> in
       if airspy_lib_open k [''libairspy.so.0'', ''libairspy.so''] = None then do { l1 \<leftarrow> airspy_lib_destroy l; Some (- 1, l1) }
       else load_functions k airspy_lib_destroy airspy_functions (l\<lparr>lib_parts := {Lib_struct, Lib_handle}\<rparr>))"

section \<open>All or nothing\<close>

lemma lib_destroyed: "iio_lib_destroy l = Some (l\<lparr>lib_parts := {}\<rparr>)" "airspy_lib_destroy l = Some (l\<lparr>lib_parts := {}\<rparr>)"
  by (simp_all add: iio_lib_destroy_def airspy_lib_destroy_def lib.destroys)

lemma load_functions_found:
  "list_all (finds k) names \<Longrightarrow> load_functions k destroy names l = Some (0, l\<lparr>lib_functions := lib_functions l @ names\<rparr>)"
  by (induction names arbitrary: l) simp_all

lemma load_functions_missing:
  assumes "\<And>l. destroy l = Some (l\<lparr>lib_parts := {}\<rparr>)" "\<not> list_all (finds k) names"
  shows "\<exists>l1. load_functions k destroy names l = Some (- 1, l1) \<and> lib_parts l1 = {}"
  using assms(2) by (induction names arbitrary: l) (auto simp: assms(1))

lemma airspy_lib_open_None: "airspy_lib_open k names = None \<longleftrightarrow> list_all (\<lambda>n. \<not> opens k n) names"
  by (induction names) auto

text \<open>
  Loading a device library is all or nothing: the answer is 0 exactly when the structure is allocated, the library opens and every
  function the driver calls is found; then the library is held with all of them, otherwise neither handle nor memory is
  left behind.
\<close>

theorem device_lib_all_or_nothing:
  "\<exists>code l. iio_lib_create k ok = Some (code, l) \<and>
     (if ok \<and> opens k ''libiio.so'' \<and> list_all (finds k) iio_functions
      then code = 0 \<and> lib_parts l = {Lib_struct, Lib_handle} \<and> lib_functions l = iio_functions else code \<noteq> 0 \<and> lib_parts l = {})"
  "\<exists>code l. airspy_lib_create k ok = Some (code, l) \<and>
     (if ok \<and> (opens k ''libairspy.so.0'' \<or> opens k ''libairspy.so'') \<and> list_all (finds k) airspy_functions
      then code = 0 \<and> lib_parts l = {Lib_struct, Lib_handle} \<and> lib_functions l = airspy_functions else code \<noteq> 0 \<and> lib_parts l = {})"
proof -
  let ?l = "no_lib\<lparr>lib_parts := {Lib_struct, Lib_handle}\<rparr>"
  show "\<exists>code l. iio_lib_create k ok = Some (code, l) \<and>
     (if ok \<and> opens k ''libiio.so'' \<and> list_all (finds k) iio_functions
      then code = 0 \<and> lib_parts l = {Lib_struct, Lib_handle} \<and> lib_functions l = iio_functions else code \<noteq> 0 \<and> lib_parts l = {})"
    using load_functions_found [of k iio_functions] load_functions_missing [of iio_lib_destroy k iio_functions ?l] lib_destroyed(1)
    by (cases "list_all (finds k) iio_functions"; cases "opens k ''libiio.so''") (auto simp: iio_lib_create_def no_lib_def Let_def)
  show "\<exists>code l. airspy_lib_create k ok = Some (code, l) \<and>
     (if ok \<and> (opens k ''libairspy.so.0'' \<or> opens k ''libairspy.so'') \<and> list_all (finds k) airspy_functions
      then code = 0 \<and> lib_parts l = {Lib_struct, Lib_handle} \<and> lib_functions l = airspy_functions else code \<noteq> 0 \<and> lib_parts l = {})"
    using load_functions_found [of k airspy_functions] load_functions_missing [of airspy_lib_destroy k airspy_functions ?l] lib_destroyed(2)
    by (cases "list_all (finds k) airspy_functions"; cases "opens k ''libairspy.so.0'' \<or> opens k ''libairspy.so''")
      (auto simp: airspy_lib_create_def no_lib_def Let_def airspy_lib_open_None)
qed

end
