(* ===== verification/Spec2Isabelle.thy ===== *)
theory Spec2Isabelle
  imports EndToEnd Program PskPmModem GfskModem FreqOffset FirFilter Airspy PlutoSdr DeviceLibs
begin

text \<open>
  \<^bold>\<open>sdr-modem: a verification development.\<close>

  sdr-modem is a software modem in C. As a server it accepts one client at a time over TCP, which configures the
  transmitter and the receiver, sends frames and gets soft bits back; as a command line tool it modulates or
  demodulates a file. Samples go to and come from a Pluto, an Airspy or a file. All paths below are under \<^verbatim>\<open>src/src/\<close>.

  \<^bold>\<open>Parts and how they interact.\<close> \<^verbatim>\<open>main.c\<close> reads the configuration (\<^verbatim>\<open>app_config.c\<close>) and starts either the command
  line mode (\<^verbatim>\<open>cli.c\<close>) or the server (\<^verbatim>\<open>tcp_server.c\<close>). The server reads messages (\<^verbatim>\<open>tcp_utils.c\<close>), decodes them
  (\<^verbatim>\<open>api.c\<close>) and hands them over bounded queues (\<^verbatim>\<open>queue.c\<close>) to three worker threads: the client worker writes
  responses to the socket (\<^verbatim>\<open>client_tx_worker.c\<close>), the transmitter turns frames into samples (\<^verbatim>\<open>sdr_tx_worker.c\<close>), the
  receiver turns samples into soft bits (\<^verbatim>\<open>sdr_rx_worker.c\<close>). The last two own a modem (\<^verbatim>\<open>dsp/sdr_modem.c\<close>), which wraps a
  PSK, GFSK or PCM/PSK/PM modem with a resampler chain and a frequency correction, and share the device
  (\<^verbatim>\<open>sdr/sdr_device.h\<close>).

  \<^bold>\<open>Theories.\<close> Each theory opens with what it holds; the definitions have the names of the C functions and structures, and
  their order.
  \<^item> \<open>Prelude\<close>: words, checked buffers (\<open>memcpy\<close>, \<open>get_at\<close>, \<open>set_at\<close>), collections of simplification rules. \<open>CLib\<close>: the
    functions of the C library the configuration uses (numbers, strings). \<open>Binary32\<close>: single and double precision numbers as rationals
    with rounding to nearest even, and the conversions. \<open>Construction\<close>: the pattern shared by all constructors and
    destructors (parts, users of a part, order of release) with the locale \<open>component\<close>, interpreted for every structure
    of the program. \<open>WorkerAlloc\<close>: the same for the structures that own a queue.
  \<^item> \<open>Queue\<close> (\<^verbatim>\<open>queue.c\<close>): the three linked lists in an explicit memory, operations atomic under the mutex, threads as
    interleaved steps, and a refinement to an abstract bounded FIFO.
  \<^item> \<open>Api\<close> (\<^verbatim>\<open>api.c\<close>, \<^verbatim>\<open>api.h\<close>), \<open>Settings\<close> (the setting structures), \<open>TcpUtils\<close> (\<^verbatim>\<open>tcp_utils.c\<close>), \<open>Log\<close> (\<^verbatim>\<open>log.c\<close>).
  \<^item> \<open>TcpServer\<close> (\<^verbatim>\<open>tcp_server.c\<close>), \<open>ClientTxWorker\<close>, \<open>SdrTxWorker\<close>, \<open>SdrRxWorker\<close> (the files of these names) with the devices
    seen through the interface \<open>SdrDevice\<close>; \<open>EndToEnd\<close> composes server, queue and client worker.
  \<^item> \<open>AppConfig\<close> is the model of \<^verbatim>\<open>app_config.c\<close> over a host heap of strings, \<open>AppConfigSafety\<close> its properties.
  \<^item> \<open>Cli\<close> (\<^verbatim>\<open>cli.c\<close>) and \<open>Program\<close> (\<^verbatim>\<open>main.c\<close>, \<^verbatim>\<open>sdr_utils.c\<close>).
  \<^item> \<open>SdrModem\<close> (\<^verbatim>\<open>dsp/sdr_modem.c\<close>), \<open>Halfband\<close> (\<^verbatim>\<open>dsp/halfband_decim.c\<close>, \<^verbatim>\<open>dsp/halfband_interp.c\<close>), \<open>Transmitter\<close> (the
    interface of a modem that transmits), \<open>BpskModem\<close>, \<open>PskPmModem\<close>, \<open>GfskModem\<close>, \<open>GfskCorrelator\<close>, \<open>DcBlocker\<close>, \<open>FreqOffset\<close>,
    \<open>FirFilter\<close> (the files of these names in \<^verbatim>\<open>dsp/\<close>).
  \<^item> \<open>SdrFile\<close>, \<open>Airspy\<close>, \<open>PlutoSdr\<close> (\<^verbatim>\<open>sdr/\<close>) and \<open>DeviceLibs\<close> (\<^verbatim>\<open>sdr/iio_lib.c\<close>, \<^verbatim>\<open>sdr/airspy_lib.c\<close>).

  \<^bold>\<open>How the code is modelled.\<close> Structures are records, state is passed explicitly, a result of type \<open>option\<close> is \<open>None\<close> exactly where
  C is undefined (an access outside of a buffer, a use after free, a missing callback) or a loop does not end, so every
  property that gives \<open>Some\<close> states memory safety and termination. Return codes and \<^verbatim>\<open>NULL\<close> are
  values. Integers have their width as words where it matters, or are natural numbers with the reduction written out. Threads
  are step relations whose reachable states the invariants range over. Loops whose end is not structural are
  \<^theory_text>\<open>partial_function (option)\<close> and proved total under the stated bounds. The one number of rounds given from outside is that of the copy of a
  file, a driver around \<^verbatim>\<open>sdr_file.c\<close>: more rounds than the file has bytes are enough.

  \<^bold>\<open>Interfaces as locales.\<close> \<open>component\<close> (an order of release that is complete and respects users), \<open>codec\<close> (a decoder that accepts exactly
  what its encoder writes), \<open>queue_impl\<close> (an implementation of the bounded queue), \<open>request_worker\<close> (a worker that serves any
  sequence of requests and answers each at most once) and \<open>transmitter\<close> (a modem that restarts after a flush). Each is
  interpreted on the definitions of the theory that provides it, and the properties use the interpreted facts.

  \<^bold>\<open>What is shown.\<close>
  \<^item> Queue: FIFO order for every interleaving of producer and consumer, refinement of the bounded queue, no leak.
  \<^item> Protocol: encoding and decoding of settings are inverse and exact, messages are read whatever the chunks, a session
    refines the protocol, serves within its buffer, and its answers are on the wire in order.
  \<^item> Workers: frames are completed once, reconfiguration is atomic, the demodulating modem is never used after it is freed,
    the client worker drains its queue and stops.
  \<^item> Configuration: memory safety and no leak for any file and arguments, validity of what is accepted, precedence.
  \<^item> Signal processing: each modem gives for every sequence of transmissions the reference stream of each; the results of the decimator and of
    the FIR filter do not depend on how a stream is cut, the frequency correction follows its table; the correlator and the GFSK receiver stay in their buffers for
    all inputs, including rounding; differential decoding does not depend on the phase.
  \<^item> Devices: samples of the file and of the Airspy are neither lost nor reordered, calls stay within the limits of the
    device, a Pluto is left powered down with every buffer closed, a device library is loaded completely or not at all.
  \<^item> Flaws that the model exhibits are theorems too: the receiver that ignores the interrupt while pulling, the payload read as a
    header after a timeout, the server buffer that wraps, the option that hides the configuration, the flush of the Pluto that does not wait with the shipped settings, the
    rate forgotten after a failure, the window count of the FIR filter that underflows.

  \<^bold>\<open>Bounds.\<close> Buffer lengths are below $2^{32}$ because they are \<^verbatim>\<open>uint32_t\<close> in the configuration; sizes that add a margin to them wrap
  as in C, and the properties that need it assume the sum does not. The search for the sync word
  computes with positions below $2^{50}$, which rounding keeps apart; a resampled buffer of the GFSK receiver has less than $2^{35}$ samples. The FIR filter needs buffers
  of at least the decimation less one, the Pluto two samples per buffer; what happens below is proved as well.

  \<^bold>\<open>Not modelled.\<close> liquid-dsp, zlib, libconfig, libiio, libairspy, the dynamic linker and the sockets are parameters, with the documented
  behaviour a property relies on as its hypothesis; the filters' numeric behaviour is theirs. The texts of log
  messages, the names of the libraries on macOS, the tests, the Java client and the build files are left out. Floating point values in signal paths are
  finite; settings may be infinite or not a number where the code compares them.
\<close>

end
